(* ===== verification/Prelude.thy ===== *)
theory Prelude
  imports Main "HOL-Library.Word" "HOL-Library.Finite_Map" "HOL-Library.Multiset"
begin

text \<open>
  Vocabulary shared by every component of the development: Rust results as sums, the \<open>?\<close>
  operator, \<open>for\<close> loops with early return, checked and saturating unsigned arithmetic, finite
  sums over \<open>BTreeMap\<close> contents, and the simulation calculus in which the detailed definitions
  are related to their specifications.
\<close>

named_theorems result_simps \<open>evaluation of results and checked arithmetic\<close>
named_theorems sim_intros \<open>structural rules of the simulation calculus\<close>

section \<open>Machine integers\<close>

type_synonym u8 = "8 word"
type_synonym u16 = "16 word"
type_synonym u32 = "32 word"
type_synonym u64 = "64 word"
type_synonym i32 = "32 word"
type_synonym i64 = "64 word"

text \<open>
  Checked arithmetic on unsigned words. A \<open>usize\<close> is a \<open>nat\<close> below \<open>2 ^ 64\<close>: the bound of the
  64-bit targets is written out where the source checks it.
\<close>

definition checked_add :: "'a::len word \<Rightarrow> 'a word \<Rightarrow> 'a word option" where
  "checked_add a b = (if unat a + unat b < 2 ^ LENGTH('a) then Some (a + b) else None)"

definition checked_sub :: "'a::len word \<Rightarrow> 'a word \<Rightarrow> 'a word option" where
  "checked_sub a b = (if b \<le> a then Some (a - b) else None)"

definition saturating_sub :: "'a::len word \<Rightarrow> 'a word \<Rightarrow> 'a word" where
  "saturating_sub a b = (if b \<le> a then a - b else 0)"

definition saturating_add :: "'a::len word \<Rightarrow> 'a word \<Rightarrow> 'a word" where
  "saturating_add a b = (case checked_add a b of Some c \<Rightarrow> c | None \<Rightarrow> - 1)"

definition checked_add_usize :: "nat \<Rightarrow> nat \<Rightarrow> nat option" where
  "checked_add_usize a b = (if a + b < 2 ^ 64 then Some (a + b) else None)"

definition checked_mul_usize :: "nat \<Rightarrow> nat \<Rightarrow> nat option" where
  "checked_mul_usize a b = (if a * b < 2 ^ 64 then Some (a * b) else None)"

lemma checked_add_Some_iff:
  "checked_add a b = Some c \<longleftrightarrow> unat c = unat a + unat (b :: 'a::len word)"
proof
  assume "checked_add a b = Some c"
  then show "unat c = unat a + unat b"
    by (auto simp: checked_add_def unat_word_ariths split: if_splits)
next
  assume *: "unat c = unat a + unat b"
  then have lt: "unat a + unat b < 2 ^ LENGTH('a)"
    by (metis unsigned_less)
  then have "unat (a + b) = unat c"
    using * by (simp add: unat_word_ariths)
  then have "a + b = c" by (simp only: word_unat_eq_iff)
  then show "checked_add a b = Some c"
    using lt by (simp add: checked_add_def)
qed

lemma checked_add_None_iff:
  "checked_add a b = None \<longleftrightarrow> 2 ^ LENGTH('a) \<le> unat a + unat (b :: 'a::len word)"
  by (auto simp: checked_add_def)

lemma checked_sub_Some_iff:
  "checked_sub a b = Some c \<longleftrightarrow> unat a = unat c + unat (b :: 'a::len word)"
proof
  assume "checked_sub a b = Some c"
  then show "unat a = unat c + unat b"
    by (auto simp: checked_sub_def unat_sub word_le_nat_alt split: if_splits)
next
  assume *: "unat a = unat c + unat b"
  then have le: "b \<le> a" by (simp add: word_le_nat_alt)
  then have "unat (a - b) = unat c" using * by (simp add: unat_sub)
  then have "a - b = c" by (simp only: word_unat_eq_iff)
  then show "checked_sub a b = Some c" using le by (simp add: checked_sub_def)
qed

lemma checked_sub_None_iff: "checked_sub a b = None \<longleftrightarrow> a < b"
  by (auto simp: checked_sub_def)

lemma unat_saturating_sub: "unat (saturating_sub a b) = unat a - unat b"
  by (auto simp: saturating_sub_def unat_sub word_le_nat_alt)

lemma unat_saturating_add:
  "unat (saturating_add a b) = min (unat a + unat b) (2 ^ LENGTH('a) - 1)" for a b :: "'a::len word"
proof (cases "checked_add a b")
  case None
  then have "2 ^ LENGTH('a) \<le> unat a + unat b" by (simp add: checked_add_None_iff)
  with None show ?thesis by (simp add: saturating_add_def unsigned_minus_1_eq_mask mask_eq_exp_minus_1)
next
  case (Some c)
  then have "unat c = unat a + unat b" by (auto simp: checked_add_Some_iff)
  moreover have "unat c < 2 ^ LENGTH('a)" by (rule unsigned_less)
  ultimately show ?thesis using Some by (simp add: saturating_add_def)
qed

lemma checked_add_sub_inverse: "checked_add a b = Some c \<Longrightarrow> checked_sub c b = Some a"
  by (simp add: checked_add_Some_iff checked_sub_Some_iff)

lemma checked_sub_add_inverse: "checked_sub a b = Some c \<Longrightarrow> checked_add c b = Some a"
  by (simp add: checked_add_Some_iff checked_sub_Some_iff)

section \<open>Results\<close>

type_synonym ('e, 'a) result = "'e + 'a"

abbreviation Ok :: "'a \<Rightarrow> 'e + 'a" where
  "Ok \<equiv> Inr"

abbreviation Err :: "'e \<Rightarrow> 'e + 'a" where
  "Err \<equiv> Inl"

text \<open>\<open>and_then r f\<close> is the source's \<open>let x = r?; f(x)\<close>: the error of \<open>r\<close> is returned early.\<close>

definition and_then :: "'e + 'a \<Rightarrow> ('a \<Rightarrow> 'e + 'b) \<Rightarrow> 'e + 'b" where
  "and_then r f = (case r of Inl e \<Rightarrow> Inl e | Inr x \<Rightarrow> f x)"

definition ok_or :: "'a option \<Rightarrow> 'e \<Rightarrow> 'e + 'a" where
  "ok_or v e = (case v of None \<Rightarrow> Inl e | Some x \<Rightarrow> Inr x)"

definition map_err :: "('e \<Rightarrow> 'f) \<Rightarrow> 'e + 'a \<Rightarrow> 'f + 'a" where
  "map_err g r = (case r of Inl e \<Rightarrow> Inl (g e) | Inr x \<Rightarrow> Inr x)"

text \<open>\<open>ensure c e\<close> is the source's \<open>if !c { return Err(e); }\<close>.\<close>

definition ensure :: "bool \<Rightarrow> 'e \<Rightarrow> 'e + unit" where
  "ensure c e = (if c then Inr () else Inl e)"

text \<open>\<open>try_fold f xs s\<close> is a \<open>for\<close> loop over \<open>xs\<close> whose body may return early with an error.\<close>

fun try_fold :: "('x \<Rightarrow> 's \<Rightarrow> 'e + 's) \<Rightarrow> 'x list \<Rightarrow> 's \<Rightarrow> 'e + 's" where
  "try_fold f [] s = Inr s"
| "try_fold f (x # xs) s = and_then (f x s) (try_fold f xs)"

lemma and_then_simps [simp, result_simps]:
  "and_then (Inl e) f = Inl e"
  "and_then (Inr x) f = f x"
  by (simp_all add: and_then_def)

lemma and_then_Ok_iff: "and_then r f = Inr y \<longleftrightarrow> (\<exists>x. r = Inr x \<and> f x = Inr y)"
  by (cases r) auto

lemma and_then_Err_iff: "and_then r f = Inl e \<longleftrightarrow> r = Inl e \<or> (\<exists>x. r = Inr x \<and> f x = Inl e)"
  by (cases r) (auto simp: and_then_def)

lemma and_then_Ok_E:
  assumes "and_then r f = Inr y"
  obtains x where "r = Inr x" and "f x = Inr y"
  using assms by (auto simp: and_then_Ok_iff)

lemma and_then_assoc: "and_then (and_then r f) g = and_then r (\<lambda>x. and_then (f x) g)"
  by (cases r) auto

lemma and_then_cong [fundef_cong]:
  "r = r' \<Longrightarrow> (\<And>x. r' = Inr x \<Longrightarrow> f x = g x) \<Longrightarrow> and_then r f = and_then r' g"
  by (cases r') auto

lemma ok_or_simps [simp, result_simps]:
  "ok_or None e = Inl e"
  "ok_or (Some x) e = Inr x"
  by (simp_all add: ok_or_def)

lemma ok_or_Ok_iff [simp]: "ok_or v e = Inr x \<longleftrightarrow> v = Some x"
  by (cases v) auto

lemma map_err_simps [simp, result_simps]:
  "map_err g (Inl e) = Inl (g e)"
  "map_err g (Inr x) = Inr x"
  by (simp_all add: map_err_def)

lemma map_err_Ok_iff [simp]: "map_err g r = Inr x \<longleftrightarrow> r = Inr x"
  by (cases r) auto

lemma ensure_simps [simp, result_simps]:
  "ensure True e = Inr ()"
  "ensure False e = Inl e"
  by (simp_all add: ensure_def)

lemma ensure_Ok_iff [simp]: "ensure c e = Inr u \<longleftrightarrow> c"
  by (simp add: ensure_def)

lemma try_fold_append: "try_fold f (xs @ ys) s = and_then (try_fold f xs s) (try_fold f ys)"
  by (induction xs arbitrary: s) (simp_all add: and_then_assoc fun_eq_iff cong: and_then_cong)

text \<open>What each step adds to a set read off the state, the whole fold adds.\<close>

lemma try_fold_collect:
  assumes "try_fold f xs s = Inr s'" and "P s"
    and "\<And>x s s'. x \<in> set xs \<Longrightarrow> P s \<Longrightarrow> f x s = Inr s' \<Longrightarrow> P s' \<and> g s' = g s \<union> h x"
  shows "P s' \<and> g s' = g s \<union> (\<Union>x \<in> set xs. h x)"
  using assms
proof (induction xs arbitrary: s)
  case Nil
  then show ?case by simp
next
  case (Cons x xs)
  from Cons.prems(1) obtain s1 where s1: "f x s = Inr s1" "try_fold f xs s1 = Inr s'"
    by (auto simp: and_then_Ok_iff)
  have step: "P s1 \<and> g s1 = g s \<union> h x"
    using Cons.prems(3) [OF _ Cons.prems(2) s1(1)] by simp
  have "P s' \<and> g s' = g s1 \<union> (\<Union>x \<in> set xs. h x)"
    by (rule Cons.IH [OF s1(2)]) (use step Cons.prems(3) in auto)
  then show ?case using step by auto
qed

text \<open>A fold that consumes its list succeeds when each step can consume the head.\<close>

lemma try_fold_consume:
  assumes "P xs s" and "\<And>x xs s. P (x # xs) s \<Longrightarrow> \<exists>s'. f x s = Inr s' \<and> P xs s'"
  shows "\<exists>s'. try_fold f xs s = Inr s' \<and> P [] s'"
  using assms(1)
proof (induction xs arbitrary: s)
  case Nil
  then show ?case by simp
next
  case (Cons x xs)
  then obtain s1 where "f x s = Inr s1" "P xs s1" using assms(2) by blast
  then show ?case using Cons.IH by simp
qed

lemma try_fold_invariant:
  assumes "try_fold f xs s = Inr s'" and "P s"
    and "\<And>x s s'. x \<in> set xs \<Longrightarrow> P s \<Longrightarrow> f x s = Inr s' \<Longrightarrow> P s'"
  shows "P s'"
  using assms by (induction xs arbitrary: s) (auto elim!: and_then_Ok_E)

section \<open>Sums over finite maps\<close>

text \<open>
  A \<open>BTreeMap\<close> is an \<open>fmap\<close>. \<open>fm_sum f m\<close> adds \<open>f k v\<close> over the entries of \<open>m\<close>; the lemmas
  give its value after the insertion of a fresh key and after a removal.
\<close>

definition fm_sum :: "('k \<Rightarrow> 'v \<Rightarrow> 'a::comm_monoid_add) \<Rightarrow> ('k, 'v) fmap \<Rightarrow> 'a" where
  "fm_sum f m = (\<Sum>k \<in> fmdom' m. f k (the (fmlookup m k)))"

lemma fm_sum_empty [simp]: "fm_sum f fmempty = 0"
  by (simp add: fm_sum_def)

lemma fm_sum_upd_fresh:
  assumes "fmlookup m k = None"
  shows "fm_sum f (fmupd k v m) = f k v + fm_sum f m"
proof -
  have k: "k \<notin> fmdom' m" using assms by (rule fmdom'_notI)
  then have "fm_sum f (fmupd k v m) = f k v + (\<Sum>x \<in> fmdom' m. f x (the (fmlookup (fmupd k v m) x)))"
    by (simp add: fm_sum_def sum.insert)
  also have "(\<Sum>x \<in> fmdom' m. f x (the (fmlookup (fmupd k v m) x))) = fm_sum f m"
    unfolding fm_sum_def using k by (intro sum.cong) auto
  finally show ?thesis .
qed

lemma fm_sum_drop:
  assumes "fmlookup m k = Some v"
  shows "fm_sum f m = f k v + fm_sum f (fmdrop k m)"
proof -
  have "m = fmupd k v (fmdrop k m)"
    using assms by (intro fmap_ext) auto
  then have "fm_sum f m = fm_sum f (fmupd k v (fmdrop k m))" by simp
  also have "\<dots> = f k v + fm_sum f (fmdrop k m)" by (rule fm_sum_upd_fresh) simp
  finally show ?thesis .
qed

lemma fm_sum_mono:
  fixes f :: "'k \<Rightarrow> 'v \<Rightarrow> nat"
  assumes "\<And>k v. fmlookup m k = Some v \<Longrightarrow> fmlookup n k = Some v"
  shows "fm_sum f m \<le> fm_sum f n"
proof -
  have "fm_sum f m = (\<Sum>k \<in> fmdom' m. f k (the (fmlookup n k)))"
    unfolding fm_sum_def using assms by (intro sum.cong) (auto simp: fmlookup_dom'_iff)
  also have "\<dots> \<le> fm_sum f n"
    unfolding fm_sum_def using assms by (intro sum_mono2) (auto simp: fmlookup_dom'_iff)
  finally show ?thesis .
qed

lemma fmupd_fmdrop_restore: "fmlookup m k = Some v \<Longrightarrow> fmupd k v (fmdrop k m) = m"
  by (intro fmap_ext) auto

lemma fmdrop_fmupd_fresh: "fmlookup m k = None \<Longrightarrow> fmdrop k (fmupd k v m) = m"
  by (intro fmap_ext) auto

section \<open>Simulation of results\<close>

text \<open>
  \<open>sim Q E R a c\<close> relates a specification result \<open>a\<close> with an implementation result \<open>c\<close>: when \<open>c\<close>
  succeeds, so does \<open>a\<close>, with values related by \<open>R\<close>; when \<open>c\<close> fails, either \<open>a\<close> fails too, with
  errors related by \<open>E\<close>, or the failure is one of the resource failures \<open>Q\<close> that the specification
  does not have. It is thus a refinement in both directions up to \<open>Q\<close>.
\<close>

definition sim ::
    "('f \<Rightarrow> bool) \<Rightarrow> ('e \<Rightarrow> 'f \<Rightarrow> bool) \<Rightarrow> ('a \<Rightarrow> 'c \<Rightarrow> bool) \<Rightarrow> 'e + 'a \<Rightarrow> 'f + 'c \<Rightarrow> bool" where
  "sim Q E R a c \<longleftrightarrow>
     (case c of
        Inr y \<Rightarrow> (case a of Inl _ \<Rightarrow> False | Inr x \<Rightarrow> R x y)
      | Inl f \<Rightarrow> Q f \<or> (case a of Inl e \<Rightarrow> E e f | Inr _ \<Rightarrow> False))"

lemma sim_simps [simp]:
  "sim Q E R (Inr x) (Inr y) \<longleftrightarrow> R x y"
  "sim Q E R (Inl e) (Inr y) \<longleftrightarrow> False"
  "sim Q E R (Inl e) (Inl f) \<longleftrightarrow> Q f \<or> E e f"
  "sim Q E R (Inr x) (Inl f) \<longleftrightarrow> Q f"
  by (simp_all add: sim_def)

lemma sim_resource [intro]: "Q f \<Longrightarrow> sim Q E R a (Inl f)"
  by (cases a) auto

lemma sim_and_then [sim_intros]:
  assumes "sim Q E R a c" and "\<And>x y. R x y \<Longrightarrow> sim Q E S (f x) (g y)"
  shows "sim Q E S (and_then a f) (and_then c g)"
  using assms by (cases a; cases c) auto

lemma sim_mono:
  assumes "sim Q E R a c" and "\<And>x y. R x y \<Longrightarrow> S x y"
  shows "sim Q E S a c"
  using assms by (cases a; cases c) auto

lemma sim_try_fold [sim_intros]:
  assumes "R s t" and "\<And>x s t. x \<in> set xs \<Longrightarrow> R s t \<Longrightarrow> sim Q E R (f x s) (g x t)"
  shows "sim Q E R (try_fold f xs s) (try_fold g xs t)"
  using assms
proof (induction xs arbitrary: s t)
  case Nil
  then show ?case by simp
next
  case (Cons x xs)
  have "sim Q E R (f x s) (g x t)" using Cons.prems by simp
  then show ?case
    by (auto intro!: sim_and_then Cons.IH Cons.prems)
qed

lemma sim_OkD: "sim Q E R a (Inr y) \<Longrightarrow> \<exists>x. a = Inr x \<and> R x y"
  by (cases a) auto

lemma sim_Ok_ErrD: "sim Q E R (Inr x) (Inl f) \<Longrightarrow> Q f"
  by simp

end
