(* ===== verification/Byte_Codec.thy ===== *)
theory Byte_Codec
  imports Prelude "HOL-Library.List_Lexorder"
begin

text \<open>
  Byte strings: fixed-size arrays \<open>[u8; N]\<close> as a length-indexed type, \<open>to_be_bytes\<close>,
  \<open>to_le_bytes\<close> and their inverses, and the lexicographic order the source derives for its keys.
\<close>

named_theorems byte_simps \<open>lengths and round trips of byte encodings\<close>

section \<open>Fixed-size byte arrays\<close>

typedef (overloaded) 'n::len bytes = "{bs :: u8 list. length bs = LENGTH('n)}"
  morphisms as_slice Abs_bytes
  by (rule exI [of _ "replicate LENGTH('n) 0"]) simp

text \<open>
  \<open>array_of\<close> is the total conversion (a slice of another length is cut or padded with zeros);
  the fallible conversion \<open>try_into\<close> of the source uses it only at the right length.
\<close>

definition array_of :: "u8 list \<Rightarrow> 'n::len bytes" where
  "array_of bs = Abs_bytes (take LENGTH('n) (bs @ replicate LENGTH('n) 0))"

definition filled :: "u8 \<Rightarrow> 'n::len bytes" where
  "filled b = Abs_bytes (replicate LENGTH('n) b)"

definition try_into :: "u8 list \<Rightarrow> 'n::len bytes option" where
  "try_into bs = (if length bs = LENGTH('n) then Some (array_of bs) else None)"

lemma length_as_slice [simp, byte_simps]: "length (as_slice (a :: 'n::len bytes)) = LENGTH('n)"
  using as_slice [of a] by simp

lemma Abs_bytes_as_slice [code abstype]: "Abs_bytes (as_slice a) = a"
  by (rule as_slice_inverse)

lemma as_slice_array_of_code [code abstract]:
  "as_slice (array_of bs :: 'n::len bytes) = take LENGTH('n) (bs @ replicate LENGTH('n) 0)"
  by (simp add: array_of_def Abs_bytes_inverse)

lemma as_slice_array_of [simp]:
  "length bs = LENGTH('n) \<Longrightarrow> as_slice (array_of bs :: 'n::len bytes) = bs"
  by (simp add: as_slice_array_of_code)

lemma as_slice_filled [simp, code abstract]:
  "as_slice (filled b :: 'n::len bytes) = replicate LENGTH('n) b"
  by (simp add: filled_def Abs_bytes_inverse)

lemma as_slice_eq_iff [simp]: "as_slice a = as_slice b \<longleftrightarrow> a = b"
  by (rule as_slice_inject)

lemma array_of_as_slice [simp]: "array_of (as_slice a) = a"
  by (subst as_slice_eq_iff [symmetric]) simp

lemma filled_eq_iff [simp]: "(filled a :: 'n::len bytes) = filled b \<longleftrightarrow> a = b"
  by (subst as_slice_eq_iff [symmetric]) simp

lemma try_into_as_slice [simp]: "try_into (as_slice a) = Some a"
  by (simp add: try_into_def)

lemma try_into_Some_iff: "try_into bs = Some a \<longleftrightarrow> bs = as_slice (a :: 'n::len bytes)"
  by (auto simp: try_into_def)

lemma try_into_None_iff: "(try_into bs :: 'n::len bytes option) = None \<longleftrightarrow> length bs \<noteq> LENGTH('n)"
  by (simp add: try_into_def)

text \<open>Keys are compared lexicographically, as the derived \<open>Ord\<close> of a byte array does.\<close>

instantiation bytes :: (len) linorder
begin

definition less_eq_bytes :: "'a bytes \<Rightarrow> 'a bytes \<Rightarrow> bool" where
  "less_eq_bytes a b \<longleftrightarrow> as_slice a \<le> as_slice b"

definition less_bytes :: "'a bytes \<Rightarrow> 'a bytes \<Rightarrow> bool" where
  "less_bytes a b \<longleftrightarrow> as_slice a < as_slice b"

instance
proof
  fix x y z :: "'a bytes"
  show "x < y \<longleftrightarrow> x \<le> y \<and> \<not> y \<le> x"
    unfolding less_eq_bytes_def less_bytes_def by (rule less_le_not_le)
  show "x \<le> x" by (simp add: less_eq_bytes_def)
  show "x \<le> y \<Longrightarrow> y \<le> z \<Longrightarrow> x \<le> z"
    unfolding less_eq_bytes_def by (rule order.trans)
  show "x \<le> y \<Longrightarrow> y \<le> x \<Longrightarrow> x = y"
    unfolding less_eq_bytes_def as_slice_eq_iff [symmetric] by (rule order.antisym)
  show "x \<le> y \<or> y \<le> x"
    unfolding less_eq_bytes_def by (rule linear)
qed

end

instantiation bytes :: (len) equal
begin

definition equal_bytes :: "'a bytes \<Rightarrow> 'a bytes \<Rightarrow> bool" where
  "equal_bytes a b \<longleftrightarrow> as_slice a = as_slice b"

instance
  by standard (simp add: equal_bytes_def)

end

text \<open>Byte-string literals \<open>b"..."\<close>.\<close>

definition ascii :: "string \<Rightarrow> u8 list" where
  "ascii = map (\<lambda>c. of_nat (of_char c))"

lemma length_ascii [simp]: "length (ascii s) = length s"
  by (simp add: ascii_def)

section \<open>Integers as bytes\<close>

fun le_bytes :: "nat \<Rightarrow> nat \<Rightarrow> u8 list" where
  "le_bytes 0 v = []"
| "le_bytes (Suc n) v = of_nat (v mod 256) # le_bytes n (v div 256)"

fun le_value :: "u8 list \<Rightarrow> nat" where
  "le_value [] = 0"
| "le_value (b # bs) = unat b + 256 * le_value bs"

definition to_le_bytes :: "'a::len word \<Rightarrow> u8 list" where
  "to_le_bytes w = le_bytes (LENGTH('a) div 8) (unat w)"

definition to_be_bytes :: "'a::len word \<Rightarrow> u8 list" where
  "to_be_bytes w = rev (to_le_bytes w)"

definition from_le_bytes :: "u8 list \<Rightarrow> 'a::len word" where
  "from_le_bytes bs = of_nat (le_value bs)"

definition from_be_bytes :: "u8 list \<Rightarrow> 'a::len word" where
  "from_be_bytes bs = from_le_bytes (rev bs)"

lemma length_le_bytes [simp]: "length (le_bytes n v) = n"
  by (induction n arbitrary: v) auto

lemma length_to_le_bytes [simp, byte_simps]:
  "length (to_le_bytes (w :: 'a::len word)) = LENGTH('a) div 8"
  by (simp add: to_le_bytes_def)

lemma length_to_be_bytes [simp, byte_simps]:
  "length (to_be_bytes (w :: 'a::len word)) = LENGTH('a) div 8"
  by (simp add: to_be_bytes_def)

lemma unat_of_nat_u8 [simp]: "unat (of_nat (v mod 256) :: u8) = v mod 256"
  by (simp add: unat_of_nat)

lemma le_value_le_bytes: "le_value (le_bytes n v) = v mod 256 ^ n"
proof (induction n arbitrary: v)
  case 0
  then show ?case by simp
next
  case (Suc n)
  have "le_value (le_bytes (Suc n) v) = v mod 256 + 256 * (v div 256 mod 256 ^ n)"
    by (simp add: Suc.IH del: of_nat_mod)
  also have "\<dots> = v mod 256 ^ Suc n"
    by (simp add: mod_mult2_eq)
  finally show ?case .
qed

lemma le_value_bound: "le_value bs < 256 ^ length bs"
proof (induction bs)
  case Nil
  then show ?case by simp
next
  case (Cons b bs)
  have "unat b < 256" using unsigned_less [of b] by simp
  with Cons show ?case by simp
qed

lemma le_bytes_le_value: "le_bytes (length bs) (le_value bs) = bs"
proof (induction bs)
  case Nil
  then show ?case by simp
next
  case (Cons b bs)
  have b: "unat b < 256" using unsigned_less [of b] by simp
  have "(unat b + 256 * le_value bs) mod 256 = unat b" using b by simp
  moreover have "(unat b + 256 * le_value bs) div 256 = le_value bs" using b by simp
  ultimately show ?case using Cons by simp
qed

lemma pow256_eq: "8 dvd n \<Longrightarrow> (256 :: nat) ^ (n div 8) = 2 ^ n"
proof -
  assume "8 dvd n"
  then have "(2::nat) ^ n = 2 ^ (8 * (n div 8))" by simp
  also have "\<dots> = 256 ^ (n div 8)" by (simp add: power_mult)
  finally show ?thesis by simp
qed

lemma from_to_le_bytes:
  assumes "8 dvd LENGTH('a)"
  shows "from_le_bytes (to_le_bytes (w :: 'a::len word)) = w"
proof -
  have "unat w mod 256 ^ (LENGTH('a) div 8) = unat w"
    using unsigned_less [of w] by (simp add: pow256_eq assms)
  then show ?thesis
    by (simp add: from_le_bytes_def to_le_bytes_def le_value_le_bytes)
qed

lemma to_from_le_bytes:
  assumes "8 dvd LENGTH('a)" and "length bs = LENGTH('a) div 8"
  shows "to_le_bytes (from_le_bytes bs :: 'a::len word) = bs"
proof -
  have "le_value bs < 2 ^ LENGTH('a)"
    using le_value_bound [of bs] assms by (simp add: pow256_eq)
  then have "unat (of_nat (le_value bs) :: 'a word) = le_value bs"
    by (simp add: unat_of_nat)
  then show ?thesis
    using le_bytes_le_value [of bs] assms by (simp add: to_le_bytes_def from_le_bytes_def)
qed

lemma from_to_be_bytes:
  "8 dvd LENGTH('a) \<Longrightarrow> from_be_bytes (to_be_bytes (w :: 'a::len word)) = w"
  by (simp add: from_be_bytes_def to_be_bytes_def from_to_le_bytes)

lemma to_from_be_bytes:
  "8 dvd LENGTH('a) \<Longrightarrow> length bs = LENGTH('a) div 8 \<Longrightarrow>
     to_be_bytes (from_be_bytes bs :: 'a::len word) = bs"
  by (simp add: from_be_bytes_def to_be_bytes_def to_from_le_bytes)

lemma be_round_trips [simp, byte_simps]:
  "from_be_bytes (to_be_bytes (h :: u16)) = h"
  "from_be_bytes (to_be_bytes (w :: u32)) = w"
  "from_be_bytes (to_be_bytes (v :: u64)) = v"
  by (rule from_to_be_bytes, simp)+

lemma le_round_trips [simp, byte_simps]:
  "from_le_bytes (to_le_bytes (h :: u16)) = h"
  "from_le_bytes (to_le_bytes (w :: u32)) = w"
  "from_le_bytes (to_le_bytes (v :: u64)) = v"
  by (rule from_to_le_bytes, simp)+

lemma to_be_bytes_inject:
  "8 dvd LENGTH('a) \<Longrightarrow> to_be_bytes a = to_be_bytes b \<longleftrightarrow> a = (b :: 'a::len word)"
  by (metis from_to_be_bytes)

lemma to_le_bytes_inject:
  "8 dvd LENGTH('a) \<Longrightarrow> to_le_bytes a = to_le_bytes b \<longleftrightarrow> a = (b :: 'a::len word)"
  by (metis from_to_le_bytes)

lemma be_inject [simp]:
  "to_be_bytes (h :: u16) = to_be_bytes h' \<longleftrightarrow> h = h'"
  "to_be_bytes (w :: u32) = to_be_bytes w' \<longleftrightarrow> w = w'"
  "to_be_bytes (v :: u64) = to_be_bytes v' \<longleftrightarrow> v = v'"
  by (rule to_be_bytes_inject, simp)+

lemma le_inject [simp]:
  "to_le_bytes (h :: u16) = to_le_bytes h' \<longleftrightarrow> h = h'"
  "to_le_bytes (w :: u32) = to_le_bytes w' \<longleftrightarrow> w = w'"
  "to_le_bytes (v :: u64) = to_le_bytes v' \<longleftrightarrow> v = v'"
  by (rule to_le_bytes_inject, simp)+

section \<open>Big-endian bytes keep the order\<close>

lemma le_value_append: "le_value (xs @ ys) = le_value xs + 256 ^ length xs * le_value ys"
  by (induction xs) (auto simp: algebra_simps)

lemma lex_append_same_length:
  "length xs = length ys \<Longrightarrow> xs @ us < ys @ vs \<longleftrightarrow> xs < ys \<or> xs = ys \<and> us < (vs :: 'a::linorder list)"
  by (induction xs ys rule: list_induct2) auto

lemma lex_iff_be_value:
  "length xs = length ys \<Longrightarrow> xs < ys \<longleftrightarrow> le_value (rev xs) < le_value (rev ys)"
proof (induction xs ys rule: list_induct2)
  case Nil
  then show ?case by simp
next
  case (Cons x xs y ys)
  let ?p = "256 ^ length ys :: nat"
  have bx: "le_value (rev xs) < ?p" and hy: "le_value (rev ys) < ?p"
    using le_value_bound [of "rev xs"] le_value_bound [of "rev ys"] Cons.hyps by simp_all
  have eq: "x = y \<longleftrightarrow> unat x = unat y" by (simp add: word_unat_eq_iff)
  consider "unat x < unat y" | "unat x = unat y" | "unat y < unat x" by linarith
  then show ?case
  proof cases
    case 1
    then have "?p * unat x + ?p \<le> ?p * unat y"
      by (metis Suc_leI mult_Suc_right add.commute mult_le_mono2)
    with 1 bx show ?thesis using Cons.hyps
      by (simp add: le_value_append word_less_nat_alt)
  next
    case 2
    with Cons show ?thesis by (simp add: le_value_append eq word_less_nat_alt)
  next
    case 3
    then have "?p * unat y + ?p \<le> ?p * unat x"
      by (metis Suc_leI mult_Suc_right add.commute mult_le_mono2)
    with 3 hy show ?thesis using Cons.hyps
      by (simp add: le_value_append word_less_nat_alt eq)
  qed
qed

lemma to_be_bytes_less_iff:
  assumes "8 dvd LENGTH('a)"
  shows "to_be_bytes a < to_be_bytes b \<longleftrightarrow> a < (b :: 'a::len word)"
proof -
  have "le_value (to_le_bytes w) = unat w" for w :: "'a word"
    using unsigned_less [of w] assms by (simp add: to_le_bytes_def le_value_le_bytes pow256_eq)
  then show ?thesis
    by (simp add: lex_iff_be_value to_be_bytes_def word_less_nat_alt)
qed

lemma be_less_iff [simp]:
  "to_be_bytes (h :: u16) < to_be_bytes h' \<longleftrightarrow> h < h'"
  "to_be_bytes (w :: u32) < to_be_bytes w' \<longleftrightarrow> w < w'"
  "to_be_bytes (v :: u64) < to_be_bytes v' \<longleftrightarrow> v < v'"
  by (rule to_be_bytes_less_iff, simp)+

end
