(* ===== verification/Chain_Types.thy ===== *)
theory Chain_Types
  imports Byte_Codec
begin

text \<open>
  The chain vocabulary of \<open>zinder-core\<close>: networks, block identities, height ranges and their
  iterator (\<open>chain_epoch.rs\<close>, \<open>block_id.rs\<close>), transparent outpoints and facts
  (\<open>transparent_output.rs\<close>), transaction public facts and the privacy classifier
  (\<open>transaction_public_facts.rs\<close>), and the canonical facts of a block
  (\<open>block_artifact.rs\<close>, \<open>canonical_block_facts.rs\<close>). Newtypes over a single field are type
  synonyms.
\<close>

section \<open>Networks, heights and hashes\<close>

type_synonym block_height = u32
type_synonym block_hash = "32 bytes"
type_synonym transaction_id = "32 bytes"
type_synonym script_hash = "32 bytes"
type_synonym chain_epoch_id = u64
type_synonym unix_timestamp_millis = u64

datatype network = ZcashMainnet | ZcashTestnet | ZcashRegtest

fun network_id :: "network \<Rightarrow> u32" where
  "network_id ZcashMainnet = 1"
| "network_id ZcashTestnet = 2"
| "network_id ZcashRegtest = 3"

definition network_from_id :: "u32 \<Rightarrow> network option" where
  "network_from_id i =
     (if i = 1 then Some ZcashMainnet
      else if i = 2 then Some ZcashTestnet
      else if i = 3 then Some ZcashRegtest
      else None)"

fun genesis_hash :: "network \<Rightarrow> block_hash" where
  "genesis_hash ZcashMainnet = array_of
     [0x08, 0xce, 0x3d, 0x97, 0x31, 0xb0, 0x00, 0xc0, 0x83, 0x38, 0x45, 0x5c, 0x8a, 0x4a,
      0x6b, 0xd0, 0x5d, 0xa1, 0x6e, 0x26, 0xb1, 0x1d, 0xaa, 0x1b, 0x91, 0x71, 0x84, 0xec,
      0xe8, 0x0f, 0x04, 0x00]"
| "genesis_hash ZcashTestnet = array_of
     [0x38, 0x2c, 0x4a, 0x33, 0x26, 0x61, 0xc7, 0xed, 0x06, 0x71, 0xf3, 0x2a, 0x34, 0xd7,
      0x24, 0x61, 0x9f, 0x08, 0x6c, 0x61, 0x87, 0x3b, 0xce, 0x7c, 0x99, 0x85, 0x9d, 0xd9,
      0x92, 0x0a, 0xa6, 0x05]"
| "genesis_hash ZcashRegtest = array_of
     [0x27, 0xe3, 0x01, 0x34, 0xd6, 0x20, 0xe9, 0xfe, 0x61, 0xf7, 0x19, 0x93, 0x83, 0x20,
      0xba, 0xb6, 0x3e, 0x7e, 0x72, 0xc9, 0x1b, 0x5e, 0x23, 0x02, 0x56, 0x76, 0xf9, 0x0e,
      0xd8, 0x11, 0x9f, 0x02]"

definition block_height_next :: "block_height \<Rightarrow> block_height option" where
  "block_height_next h = checked_add h 1"

record block_id =
  id_height :: block_height
  id_hash :: block_hash

lemma network_from_id_id [simp]: "network_from_id (network_id n) = Some n"
  by (cases n) (simp_all add: network_from_id_def)

lemma network_from_id_Some_iff: "network_from_id i = Some n \<longleftrightarrow> i = network_id n"
  by (cases n) (auto simp: network_from_id_def)

lemma block_height_next_Some_iff: "block_height_next h = Some k \<longleftrightarrow> unat k = Suc (unat h)"
  by (auto simp: block_height_next_def checked_add_Some_iff)

section \<open>Height ranges and their iterator\<close>

record block_height_range =
  range_start :: block_height
  range_end :: block_height

abbreviation inclusive :: "block_height \<Rightarrow> block_height \<Rightarrow> block_height_range" where
  "inclusive s e \<equiv> \<lparr>range_start = s, range_end = e\<rparr>"

definition empty_at :: "block_height \<Rightarrow> block_height_range" where
  "empty_at h = (if h = - 1 then inclusive h (h - 1) else inclusive (h + 1) h)"

record range_iter =
  iter_next :: u32
  iter_end :: u32
  iter_done :: bool

definition into_iter :: "block_height_range \<Rightarrow> range_iter" where
  "into_iter r = \<lparr>iter_next = range_start r, iter_end = range_end r,
                  iter_done = (range_start r > range_end r)\<rparr>"

definition range_iter_next :: "range_iter \<Rightarrow> (block_height \<times> range_iter) option" where
  "range_iter_next it =
     (if iter_done it then None
      else Some (iter_next it,
                 if iter_next it = iter_end it then it\<lparr>iter_done := True\<rparr>
                 else it\<lparr>iter_next := iter_next it + 1\<rparr>))"

definition range_iter_len :: "range_iter \<Rightarrow> nat" where
  "range_iter_len it =
     (if iter_done it then 0
      else unat (saturating_add (saturating_sub (iter_end it) (iter_next it)) 1))"

text \<open>A \<open>for\<close> loop over a range: the heights the iterator yields until it returns \<open>None\<close>.\<close>

function iter_heights :: "range_iter \<Rightarrow> block_height list" where
  "iter_heights it =
     (case range_iter_next it of None \<Rightarrow> [] | Some (h, it') \<Rightarrow> h # iter_heights it')"
  by auto

termination
proof (relation "measure (\<lambda>it. if iter_done it then 0 else unat (iter_end it - iter_next it) + 1)")
  fix it h it' and x :: "block_height \<times> range_iter"
  assume *: "range_iter_next it = Some x" "(h, it') = x"
  have "iter_end it - iter_next it \<noteq> 0 \<Longrightarrow>
          unat (iter_end it - iter_next it - 1) < unat (iter_end it - iter_next it)"
    by (simp add: measure_unat)
  with * show "(it', it) \<in> measure (\<lambda>it. if iter_done it then 0 else unat (iter_end it - iter_next it) + 1)"
    by (auto simp: range_iter_next_def diff_diff_eq split: if_splits)
qed simp

declare iter_heights.simps [simp del]

definition range_heights :: "block_height_range \<Rightarrow> block_height list" where
  "range_heights r = iter_heights (into_iter r)"

lemma range_iter_next_done [simp]: "iter_done it \<Longrightarrow> iter_heights it = []"
  by (subst iter_heights.simps) (simp add: range_iter_next_def)

lemma unat_Suc_word: "a < (b :: 'a::len word) \<Longrightarrow> unat (a + 1) = Suc (unat a)"
proof -
  assume "a < b"
  then have "unat a + 1 < 2 ^ LENGTH('a)"
    using unsigned_less [of b, where ?'a = nat] by (simp only: word_less_nat_alt)
  then show ?thesis by (simp add: unat_word_ariths)
qed

lemma iter_heights_upt:
  assumes "iter_next it \<le> iter_end it" and "\<not> iter_done it"
  shows "iter_heights it = map of_nat [unat (iter_next it) ..< Suc (unat (iter_end it))]"
  using assms
proof (induction "unat (iter_end it) - unat (iter_next it)" arbitrary: it)
  case 0
  then have "iter_next it = iter_end it"
    by (simp add: word_le_nat_alt word_unat_eq_iff)
  with 0 show ?case
    by (subst iter_heights.simps) (simp add: range_iter_next_def)
next
  case (Suc d)
  let ?it = "it\<lparr>iter_next := iter_next it + 1\<rparr>"
  have lt: "iter_next it < iter_end it"
    using Suc by (simp add: word_less_nat_alt)
  then have u: "unat (iter_next it + 1) = Suc (unat (iter_next it))"
    by (rule unat_Suc_word)
  have "iter_heights ?it = map of_nat [unat (iter_next ?it) ..< Suc (unat (iter_end ?it))]"
    using Suc u lt by (intro Suc.hyps(1)) (simp_all add: word_le_nat_alt word_less_nat_alt)
  moreover have "iter_next it \<noteq> iter_end it" using lt by simp
  ultimately show ?case using Suc.prems lt u
    by (subst iter_heights.simps)
       (simp add: range_iter_next_def upt_conv_Cons [of "unat (iter_next it)"] word_less_nat_alt)
qed

lemma range_heights_upt:
  "range_heights r = map of_nat [unat (range_start r) ..< Suc (unat (range_end r))]"
proof (cases "range_start r \<le> range_end r")
  case True
  then show ?thesis
    by (simp add: range_heights_def into_iter_def iter_heights_upt)
next
  case False
  then have "\<not> unat (range_start r) \<le> unat (range_end r)" by (simp add: word_le_nat_alt)
  with False show ?thesis
    by (simp add: range_heights_def into_iter_def not_le)
qed

lemma range_heights_empty_at [simp]: "range_heights (empty_at h) = []"
proof (cases "h = - 1")
  case True
  then show ?thesis
    by (simp add: empty_at_def range_heights_upt unsigned_minus_1_eq_mask mask_eq_exp_minus_1)
next
  case False
  then have "h < - 1" by (simp add: order.strict_iff_order)
  then show ?thesis
    using False unat_Suc_word [of h "- 1"] by (simp add: empty_at_def range_heights_upt)
qed

lemma range_iter_len_into_iter:
  "range_iter_len (into_iter r) = min (length (range_heights r)) (2 ^ 32 - 1)"
  by (auto simp: range_iter_len_def into_iter_def range_heights_upt unat_saturating_add
      unat_saturating_sub word_le_nat_alt not_less)

section \<open>Transparent outpoints and facts\<close>

record transparent_outpoint =
  op_transaction_id :: transaction_id
  op_output_index :: u32

definition coinbase_sentinel :: transparent_outpoint where
  "coinbase_sentinel = \<lparr>op_transaction_id = filled 0, op_output_index = - 1\<rparr>"

definition is_coinbase_sentinel :: "transparent_outpoint \<Rightarrow> bool" where
  "is_coinbase_sentinel op \<longleftrightarrow> op = coinbase_sentinel"

record transparent_input_fact =
  in_input_index :: u32
  in_spent_outpoint :: transparent_outpoint

record transparent_output_fact =
  out_output_index :: u32
  out_value_zat :: u64
  out_script_pub_key :: "u8 list"
  out_address_script_hash :: script_hash

section \<open>Transaction public facts\<close>

datatype transaction_version =
  TxV1 | TxV2 | TxV3 | TxV4 | TxV5 | TxV6
| TxUnsupported (effective_version: u32) (version_group_id: "u32 option")

fun version_is_supported :: "transaction_version \<Rightarrow> bool" where
  "version_is_supported (TxUnsupported _ _) = False"
| "version_is_supported _ = True"

datatype lock_time = Unlocked | LockHeight block_height | UnixSeconds u64

datatype privacy_shape =
  TransparentOnly | Shielding | Deshielding | ShieldedOnly | Mixed | Coinbase | ShieldedCoinbase
| Unclassified

datatype unsupported_section = FutureVersionHeader | FutureShieldedProtocol

record component_counts =
  transparent_input_count :: u32
  transparent_output_count :: u32
  sapling_spend_count :: u32
  sapling_output_count :: u32
  orchard_action_count :: u32
  ironwood_action_count :: u32
  sprout_joinsplit_count :: u32

definition has_transparent_input :: "component_counts \<Rightarrow> bool" where
  "has_transparent_input c \<longleftrightarrow> transparent_input_count c > 0"

definition has_transparent_output :: "component_counts \<Rightarrow> bool" where
  "has_transparent_output c \<longleftrightarrow> transparent_output_count c > 0"

definition has_shielded_input :: "component_counts \<Rightarrow> bool" where
  "has_shielded_input c \<longleftrightarrow>
     sapling_spend_count c > 0 \<or> orchard_action_count c > 0 \<or> ironwood_action_count c > 0 \<or>
     sprout_joinsplit_count c > 0"

definition has_shielded_output :: "component_counts \<Rightarrow> bool" where
  "has_shielded_output c \<longleftrightarrow>
     sapling_output_count c > 0 \<or> orchard_action_count c > 0 \<or> ironwood_action_count c > 0 \<or>
     sprout_joinsplit_count c > 0"

definition logical_actions :: "component_counts \<Rightarrow> u32" where
  "logical_actions c =
     (let transparent_logical =
            (if transparent_input_count c > transparent_output_count c
             then transparent_input_count c else transparent_output_count c);
          sapling_logical =
            (if sapling_spend_count c > sapling_output_count c
             then sapling_spend_count c else sapling_output_count c)
      in saturating_add
           (saturating_add (saturating_add transparent_logical sapling_logical)
              (orchard_action_count c))
           (ironwood_action_count c))"

definition zip317_conventional_fee_zat :: "component_counts \<Rightarrow> u64" where
  "zip317_conventional_fee_zat c =
     (let actions = logical_actions c;
          billable = (if actions < 2 then 2 else actions)
      in 5000 * ucast billable)"

definition classify_non_coinbase :: "component_counts \<Rightarrow> privacy_shape" where
  "classify_non_coinbase c =
     (let shielded_in = has_shielded_input c; shielded_out = has_shielded_output c
      in case (has_transparent_input c, has_transparent_output c, shielded_in, shielded_out) of
           (True, True, False, False) \<Rightarrow> TransparentOnly
         | (True, _, False, True) \<Rightarrow> Shielding
         | (_, True, True, False) \<Rightarrow> Deshielding
         | (False, False, True, True) \<Rightarrow> ShieldedOnly
         | (True, _, True, _) \<Rightarrow> Mixed
         | (_, True, _, True) \<Rightarrow> Mixed
         | _ \<Rightarrow> Unclassified)"

definition classify_privacy_shape ::
    "component_counts \<Rightarrow> bool \<Rightarrow> transaction_version \<Rightarrow> privacy_shape" where
  "classify_privacy_shape c is_coinbase version =
     (if \<not> version_is_supported version then Unclassified
      else if is_coinbase then
        (if sapling_output_count c > 0 \<or> orchard_action_count c > 0 \<or> ironwood_action_count c > 0
         then ShieldedCoinbase else Coinbase)
      else classify_non_coinbase c)"

record transaction_public_facts =
  facts_transaction_id :: transaction_id
  facts_auth_digest :: "32 bytes option"
  facts_wtxid :: "64 bytes option"
  facts_version :: transaction_version
  facts_consensus_branch_id :: "u32 option"
  facts_lock_time :: lock_time
  facts_expiry_height :: "block_height option"
  facts_size_bytes :: u32
  facts_counts :: component_counts
  facts_orchard_value_balance_zat :: "i64 option"
  facts_orchard_anchor :: "32 bytes option"
  facts_ironwood_value_balance_zat :: "i64 option"
  facts_privacy_shape :: privacy_shape
  facts_is_coinbase :: bool
  facts_unsupported_sections :: "unsupported_section list"

record intrinsic_value_balances =
  sprout_zat :: i64
  sapling_zat :: i64
  orchard_zat :: i64
  ironwood_zat :: i64

section \<open>Canonical block facts\<close>

record block_header_artifact =
  header_height :: block_height
  header_block_hash :: block_hash
  header_parent_hash :: block_hash
  header_merkle_root_hash :: "32 bytes"
  header_commitment_bytes :: "32 bytes"
  header_block_time :: i64
  header_bits :: u32
  header_nonce :: "32 bytes"
  header_version :: u32
  header_block_size_bytes :: u64

record canonical_transaction_facts =
  public_facts :: transaction_public_facts
  tx_serialized_bytes_digest :: "32 bytes"
  intrinsic_balances :: intrinsic_value_balances
  transparent_inputs :: "transparent_input_fact list"
  transparent_outputs :: "transparent_output_fact list"

record canonical_block_facts =
  block_header :: block_header_artifact
  block_serialized_bytes_digest :: "32 bytes"
  transactions :: "canonical_transaction_facts list"

section \<open>Sample blocks\<close>

text \<open>Small concrete facts, used where a property is evaluated on an input.\<close>

definition sample_transaction ::
    "u8 \<Rightarrow> transparent_input_fact list \<Rightarrow> transparent_output_fact list \<Rightarrow> canonical_transaction_facts" where
  "sample_transaction txid ins outs =
     \<lparr>public_facts =
        \<lparr>facts_transaction_id = filled txid, facts_auth_digest = None, facts_wtxid = None,
         facts_version = TxV4, facts_consensus_branch_id = None, facts_lock_time = Unlocked,
         facts_expiry_height = None, facts_size_bytes = 100,
         facts_counts =
           \<lparr>transparent_input_count = of_nat (length ins),
            transparent_output_count = of_nat (length outs), sapling_spend_count = 0,
            sapling_output_count = 0, orchard_action_count = 0, ironwood_action_count = 0,
            sprout_joinsplit_count = 0\<rparr>,
         facts_orchard_value_balance_zat = None, facts_orchard_anchor = None,
         facts_ironwood_value_balance_zat = None, facts_privacy_shape = TransparentOnly,
         facts_is_coinbase = False, facts_unsupported_sections = []\<rparr>,
      tx_serialized_bytes_digest = filled 0,
      intrinsic_balances = \<lparr>sprout_zat = 0, sapling_zat = 0, orchard_zat = 0, ironwood_zat = 0\<rparr>,
      transparent_inputs = ins, transparent_outputs = outs\<rparr>"

definition sample_block ::
    "block_height \<Rightarrow> u8 \<Rightarrow> u8 \<Rightarrow> canonical_transaction_facts list \<Rightarrow> canonical_block_facts" where
  "sample_block h block parent txs =
     \<lparr>block_header =
        \<lparr>header_height = h, header_block_hash = filled block, header_parent_hash = filled parent,
         header_merkle_root_hash = filled 0, header_commitment_bytes = filled 0,
         header_block_time = 0, header_bits = 0, header_nonce = filled 0, header_version = 4,
         header_block_size_bytes = 1000\<rparr>,
      block_serialized_bytes_digest = filled 0, transactions = txs\<rparr>"

definition sample_output :: "u32 \<Rightarrow> u64 \<Rightarrow> u8 \<Rightarrow> transparent_output_fact" where
  "sample_output i zat script =
     \<lparr>out_output_index = i, out_value_zat = zat, out_script_pub_key = [script],
      out_address_script_hash = filled script\<rparr>"

definition sample_input :: "u32 \<Rightarrow> u8 \<Rightarrow> u32 \<Rightarrow> transparent_input_fact" where
  "sample_input i txid index =
     \<lparr>in_input_index = i,
      in_spent_outpoint = \<lparr>op_transaction_id = filled txid, op_output_index = index\<rparr>\<rparr>"

lemmas sample_defs = sample_block_def sample_transaction_def sample_output_def sample_input_def

end
