(* ===== verification/Facts_Digest.thy ===== *)
theory Facts_Digest
  imports Chain_Types
begin

text \<open>
  The backend-neutral reference encoding of canonical block facts and the digests built on it
  (\<open>canonical_block_facts.rs\<close>): tagged fields, one encoder per fact type, the SHA-256 digest of one
  block, and the resumable hash chain over a sequence of blocks. SHA-256 is a parameter
  \<open>sha256 :: u8 list \<Rightarrow> 32 bytes\<close> of every definition that hashes.
\<close>

section \<open>Tagged fields\<close>

definition u64_from_usize :: "nat \<Rightarrow> u64" where
  "u64_from_usize n = (if n < 2 ^ 64 then of_nat n else - 1)"

definition push_length :: "u8 list \<Rightarrow> nat \<Rightarrow> u8 list" where
  "push_length output n = output @ to_le_bytes (u64_from_usize n)"

definition tagged_field :: "u8 list \<Rightarrow> u16 \<times> u8 list \<Rightarrow> u8 list" where
  "tagged_field encoder tp =
     push_length (encoder @ to_le_bytes (fst tp)) (length (snd tp)) @ snd tp"

text \<open>
  \<open>TaggedFactsEncoder::new\<close>, one \<open>field\<close> call per pair in order, and \<open>into_bytes\<close>.
\<close>

definition tagged_fields :: "(u16 \<times> u8 list) list \<Rightarrow> u8 list" where
  "tagged_fields = foldl tagged_field []"

definition encode_sequence :: "('a \<Rightarrow> u8 list) \<Rightarrow> 'a list \<Rightarrow> u8 list" where
  "encode_sequence encode_entry xs =
     foldl (\<lambda>encoded x. push_length encoded (length (encode_entry x)) @ encode_entry x)
       (push_length [] (length xs)) xs"

lemma u64_from_usize_inject:
  "m < 2 ^ 64 \<Longrightarrow> n < 2 ^ 64 \<Longrightarrow> u64_from_usize m = u64_from_usize n \<longleftrightarrow> m = n"
  by (simp add: u64_from_usize_def word_of_nat_eq_iff take_bit_nat_eq_self)

lemma length_push_length [simp]: "length (push_length output n) = length output + 8"
  by (simp add: push_length_def)

lemma foldl_append_concat: "foldl (\<lambda>acc x. acc @ f x) acc xs = acc @ concat (map f xs)"
  by (induction xs arbitrary: acc) simp_all

definition field_bytes :: "u16 \<times> u8 list \<Rightarrow> u8 list" where
  "field_bytes tp = to_le_bytes (fst tp) @ to_le_bytes (u64_from_usize (length (snd tp))) @ snd tp"

lemma tagged_fields_concat: "tagged_fields fs = concat (map field_bytes fs)"
proof -
  have eq: "tagged_field = (\<lambda>acc tp. acc @ field_bytes tp)"
    by (simp add: fun_eq_iff tagged_field_def field_bytes_def push_length_def)
  show ?thesis
    unfolding tagged_fields_def eq foldl_append_concat by simp
qed

definition entry_bytes :: "u8 list \<Rightarrow> u8 list" where
  "entry_bytes bs = to_le_bytes (u64_from_usize (length bs)) @ bs"

lemma encode_sequence_concat:
  "encode_sequence enc xs =
     to_le_bytes (u64_from_usize (length xs)) @ concat (map (\<lambda>x. entry_bytes (enc x)) xs)"
proof -
  have "(\<lambda>encoded x. push_length encoded (length (enc x)) @ enc x) =
        (\<lambda>acc x. acc @ entry_bytes (enc x))"
    by (simp add: fun_eq_iff push_length_def entry_bytes_def)
  then show ?thesis
    by (simp only: encode_sequence_def foldl_append_concat push_length_def append_Nil)
qed

lemma length_concat_member: "x \<in> set xs \<Longrightarrow> length (f x) \<le> length (concat (map f xs))"
  by (induction xs) auto

lemma field_payload_bound:
  assumes "(t, p) \<in> set fs" and "length (tagged_fields fs) < n"
  shows "length p < n"
proof -
  have "length p \<le> length (field_bytes (t, p))" by (simp add: field_bytes_def)
  also have "\<dots> \<le> length (tagged_fields fs)"
    unfolding tagged_fields_concat using assms(1) by (rule length_concat_member)
  finally show ?thesis using assms(2) by simp
qed

text \<open>
  Every field carries its tag and its length, so a list of fields is recovered from the bytes:
  the encoder is injective while the total length fits the 64-bit length prefix.
\<close>

lemma field_bytes_append_inject:
  assumes "field_bytes tp @ r = field_bytes tq @ s" and "length (field_bytes tp @ r) < 2 ^ 64"
  shows "tp = tq \<and> r = s"
proof -
  obtain t p u q where tp: "tp = (t, p)" and tq: "tq = (u, q)" by (metis prod.exhaust)
  have len: "length p < 2 ^ 64" "length q < 2 ^ 64"
    using assms(2) arg_cong [OF assms(1), of length] by (simp_all add: tp tq field_bytes_def)
  have tag: "t = u" and rest:
      "to_le_bytes (u64_from_usize (length p)) @ p @ r = to_le_bytes (u64_from_usize (length q)) @ q @ s"
    using assms(1) by (simp_all add: tp tq field_bytes_def)
  then have "length p = length q" and "p @ r = q @ s"
    using len by (simp_all add: u64_from_usize_inject)
  with tag show ?thesis by (simp add: tp tq)
qed

lemma field_bytes_not_Nil [simp]: "field_bytes tp \<noteq> []" "[] \<noteq> field_bytes tp"
  by (simp_all add: field_bytes_def flip: length_0_conv)

lemma tagged_fields_inject:
  assumes "tagged_fields fs = tagged_fields gs" and "length (tagged_fields fs) < 2 ^ 64"
  shows "fs = gs"
  using assms unfolding tagged_fields_concat
proof (induction fs arbitrary: gs)
  case Nil
  then show ?case by (cases gs) auto
next
  case (Cons tp fs)
  show ?case
  proof (cases gs)
    case Nil
    then show ?thesis using Cons.prems by simp
  next
    case (Cons tq gs')
    then have "tp = tq \<and> concat (map field_bytes fs) = concat (map field_bytes gs')"
      using Cons.prems by (intro field_bytes_append_inject) simp_all
    with Cons Cons.IH [of gs'] Cons.prems show ?thesis by simp
  qed
qed

section \<open>Encoders of the fact types\<close>

fun encode_optional_bytes :: "'n::len bytes option \<Rightarrow> u8 list" where
  "encode_optional_bytes None = [0]"
| "encode_optional_bytes (Some bs) = 1 # as_slice bs"

fun encode_optional_u32 :: "u32 option \<Rightarrow> u8 list" where
  "encode_optional_u32 None = [0]"
| "encode_optional_u32 (Some n) = 1 # to_le_bytes n"

fun encode_optional_i64 :: "i64 option \<Rightarrow> u8 list" where
  "encode_optional_i64 None = [0]"
| "encode_optional_i64 (Some n) = 1 # to_le_bytes n"

fun encode_transaction_version :: "transaction_version \<Rightarrow> u8 list" where
  "encode_transaction_version TxV1 = tagged_fields [(1, [1])]"
| "encode_transaction_version TxV2 = tagged_fields [(1, [2])]"
| "encode_transaction_version TxV3 = tagged_fields [(1, [3])]"
| "encode_transaction_version TxV4 = tagged_fields [(1, [4])]"
| "encode_transaction_version TxV5 = tagged_fields [(1, [5])]"
| "encode_transaction_version TxV6 = tagged_fields [(1, [6])]"
| "encode_transaction_version (TxUnsupported v g) =
     tagged_fields [(1, [7]), (2, to_le_bytes v), (3, encode_optional_u32 g)]"

fun encode_lock_time :: "lock_time \<Rightarrow> u8 list" where
  "encode_lock_time Unlocked = tagged_fields [(1, [1])]"
| "encode_lock_time (LockHeight h) = tagged_fields [(1, [2]), (2, to_le_bytes h)]"
| "encode_lock_time (UnixSeconds s) = tagged_fields [(1, [3]), (2, to_le_bytes s)]"

definition encode_transaction_counts :: "component_counts \<Rightarrow> u8 list" where
  "encode_transaction_counts c = tagged_fields
     [(1, to_le_bytes (transparent_input_count c)),
      (2, to_le_bytes (transparent_output_count c)),
      (3, to_le_bytes (sapling_spend_count c)),
      (4, to_le_bytes (sapling_output_count c)),
      (5, to_le_bytes (orchard_action_count c)),
      (6, to_le_bytes (ironwood_action_count c)),
      (7, to_le_bytes (sprout_joinsplit_count c))]"

fun privacy_shape_code :: "privacy_shape \<Rightarrow> u8" where
  "privacy_shape_code TransparentOnly = 1"
| "privacy_shape_code Shielding = 2"
| "privacy_shape_code Deshielding = 3"
| "privacy_shape_code ShieldedOnly = 4"
| "privacy_shape_code Mixed = 5"
| "privacy_shape_code Coinbase = 6"
| "privacy_shape_code ShieldedCoinbase = 7"
| "privacy_shape_code Unclassified = 8"

fun encode_unsupported_section :: "unsupported_section \<Rightarrow> u8 list" where
  "encode_unsupported_section FutureVersionHeader = [1]"
| "encode_unsupported_section FutureShieldedProtocol = [2]"

definition encode_transparent_outpoint :: "transparent_outpoint \<Rightarrow> u8 list" where
  "encode_transparent_outpoint op = tagged_fields
     [(1, as_slice (op_transaction_id op)), (2, to_le_bytes (op_output_index op))]"

definition encode_transparent_input_fact :: "transparent_input_fact \<Rightarrow> u8 list" where
  "encode_transparent_input_fact i = tagged_fields
     [(1, to_le_bytes (in_input_index i)),
      (2, encode_transparent_outpoint (in_spent_outpoint i))]"

definition encode_transparent_output_fact :: "transparent_output_fact \<Rightarrow> u8 list" where
  "encode_transparent_output_fact out = tagged_fields
     [(1, to_le_bytes (out_output_index out)),
      (2, to_le_bytes (out_value_zat out)),
      (3, out_script_pub_key out),
      (4, as_slice (out_address_script_hash out))]"

definition encode_intrinsic_value_balances :: "intrinsic_value_balances \<Rightarrow> u8 list" where
  "encode_intrinsic_value_balances v = tagged_fields
     [(1, to_le_bytes (sprout_zat v)), (2, to_le_bytes (sapling_zat v)),
      (3, to_le_bytes (orchard_zat v)), (4, to_le_bytes (ironwood_zat v))]"

definition encode_transaction_public_facts :: "transaction_public_facts \<Rightarrow> u8 list" where
  "encode_transaction_public_facts f = tagged_fields
     [(1, as_slice (facts_transaction_id f)),
      (2, encode_optional_bytes (facts_auth_digest f)),
      (3, encode_optional_bytes (facts_wtxid f)),
      (4, encode_transaction_version (facts_version f)),
      (5, encode_optional_u32 (facts_consensus_branch_id f)),
      (6, encode_lock_time (facts_lock_time f)),
      (7, encode_optional_u32 (facts_expiry_height f)),
      (8, to_le_bytes (facts_size_bytes f)),
      (9, encode_transaction_counts (facts_counts f)),
      (10, encode_optional_i64 (facts_orchard_value_balance_zat f)),
      (11, encode_optional_bytes (facts_orchard_anchor f)),
      (12, encode_optional_i64 (facts_ironwood_value_balance_zat f)),
      (13, [privacy_shape_code (facts_privacy_shape f)]),
      (14, [if facts_is_coinbase f then 1 else 0]),
      (15, encode_sequence encode_unsupported_section (facts_unsupported_sections f))]"

definition encode_canonical_transaction_facts :: "canonical_transaction_facts \<Rightarrow> u8 list" where
  "encode_canonical_transaction_facts f = tagged_fields
     [(1, encode_transaction_public_facts (public_facts f)),
      (2, encode_intrinsic_value_balances (intrinsic_balances f)),
      (3, encode_sequence encode_transparent_input_fact (transparent_inputs f)),
      (4, encode_sequence encode_transparent_output_fact (transparent_outputs f)),
      (5, as_slice (tx_serialized_bytes_digest f))]"

definition encode_block_header :: "block_header_artifact \<Rightarrow> u8 list" where
  "encode_block_header h = tagged_fields
     [(1, to_le_bytes (header_height h)),
      (2, as_slice (header_block_hash h)),
      (3, as_slice (header_parent_hash h)),
      (4, as_slice (header_merkle_root_hash h)),
      (5, as_slice (header_commitment_bytes h)),
      (6, to_le_bytes (header_block_time h)),
      (7, to_le_bytes (header_bits h)),
      (8, as_slice (header_nonce h)),
      (9, to_le_bytes (header_version h)),
      (10, to_le_bytes (header_block_size_bytes h))]"

datatype facts_digest_version = FactsDigestV1

fun facts_digest_version_value :: "facts_digest_version \<Rightarrow> u16" where
  "facts_digest_version_value FactsDigestV1 = 1"

definition reference_encoding_v1 :: "canonical_block_facts \<Rightarrow> facts_digest_version \<Rightarrow> u8 list" where
  "reference_encoding_v1 f version = tagged_fields
     [(1, to_le_bytes (facts_digest_version_value version)),
      (2, encode_block_header (block_header f)),
      (3, as_slice (block_serialized_bytes_digest f)),
      (4, encode_sequence encode_canonical_transaction_facts (transactions f))]"

section \<open>Encoders lose nothing\<close>

text \<open>
  The interface every encoder offers to the encoders built on it: two values with the same bytes are
  equal, as long as the bytes fit a 64-bit length prefix. A sequence of entries inherits it.
\<close>

locale injective_encoding =
  fixes enc :: "'a \<Rightarrow> u8 list"
  assumes enc_inject: "enc a = enc b \<Longrightarrow> length (enc a) < 2 ^ 64 \<Longrightarrow> a = b"
begin

lemma entry_append_inject:
  assumes "entry_bytes (enc a) @ r = entry_bytes (enc b) @ s"
    and "length (entry_bytes (enc a) @ r) < 2 ^ 64"
  shows "a = b \<and> r = s"
proof -
  have len: "length (enc a) < 2 ^ 64" "length (enc b) < 2 ^ 64"
    using assms(2) arg_cong [OF assms(1), of length] by (simp_all add: entry_bytes_def)
  then have "length (enc a) = length (enc b)" and "enc a @ r = enc b @ s"
    using assms(1) by (simp_all add: entry_bytes_def u64_from_usize_inject)
  then show ?thesis using enc_inject [of a b] len by simp
qed

lemma entries_inject:
  assumes "concat (map (\<lambda>x. entry_bytes (enc x)) xs) = concat (map (\<lambda>x. entry_bytes (enc x)) ys)"
    and "length (concat (map (\<lambda>x. entry_bytes (enc x)) xs)) < 2 ^ 64"
  shows "xs = ys"
  using assms
proof (induction xs arbitrary: ys)
  case Nil
  then show ?case by (cases ys) (auto simp: entry_bytes_def simp flip: length_0_conv)
next
  case (Cons x xs)
  then obtain y ys' where ys: "ys = y # ys'"
    by (cases ys) (auto simp: entry_bytes_def simp flip: length_0_conv)
  have "x = y \<and> concat (map (\<lambda>x. entry_bytes (enc x)) xs) = concat (map (\<lambda>x. entry_bytes (enc x)) ys')"
    using Cons.prems unfolding ys by (intro entry_append_inject) simp_all
  with ys Cons.IH [of ys'] Cons.prems show ?case by simp
qed

lemma sequence_inject:
  assumes "encode_sequence enc xs = encode_sequence enc ys"
    and "length (encode_sequence enc xs) < 2 ^ 64"
  shows "xs = ys"
  using assms entries_inject [of xs ys] by (simp add: encode_sequence_concat)

lemma tagged_sequence_inject:
  assumes "(t, encode_sequence enc xs) \<in> set fs" and "length (tagged_fields fs) < 2 ^ 64"
    and "encode_sequence enc xs = encode_sequence enc ys"
  shows "xs = ys"
  using assms field_payload_bound sequence_inject by blast

lemma tagged_inject:
  assumes "(t, enc a) \<in> set fs" and "length (tagged_fields fs) < 2 ^ 64" and "enc a = enc b"
  shows "a = b"
  using assms field_payload_bound enc_inject by blast

end

lemma encode_optional_bytes_inject [simp]:
  "encode_optional_bytes a = encode_optional_bytes b \<longleftrightarrow> a = b"
  by (cases a; cases b) auto

lemma encode_optional_u32_inject [simp]: "encode_optional_u32 a = encode_optional_u32 b \<longleftrightarrow> a = b"
  by (cases a; cases b) auto

lemma encode_optional_i64_inject [simp]: "encode_optional_i64 a = encode_optional_i64 b \<longleftrightarrow> a = b"
  by (cases a; cases b) auto

lemma privacy_shape_code_inject [simp]: "privacy_shape_code a = privacy_shape_code b \<longleftrightarrow> a = b"
  by (cases a; cases b) simp_all

lemma tagged_encodingI:
  assumes "\<And>a. enc a = tagged_fields (fs a)"
    and "\<And>a b. fs a = fs b \<Longrightarrow> length (tagged_fields (fs a)) < 2 ^ 64 \<Longrightarrow> a = b"
  shows "injective_encoding enc"
  using assms tagged_fields_inject by unfold_locales metis

interpretation unsupported: injective_encoding encode_unsupported_section
proof
  fix a b :: unsupported_section
  show "encode_unsupported_section a = encode_unsupported_section b \<Longrightarrow> a = b"
    by (cases a; cases b) simp_all
qed

fun version_fields :: "transaction_version \<Rightarrow> (u16 \<times> u8 list) list" where
  "version_fields TxV1 = [(1, [1])]"
| "version_fields TxV2 = [(1, [2])]"
| "version_fields TxV3 = [(1, [3])]"
| "version_fields TxV4 = [(1, [4])]"
| "version_fields TxV5 = [(1, [5])]"
| "version_fields TxV6 = [(1, [6])]"
| "version_fields (TxUnsupported v g) = [(1, [7]), (2, to_le_bytes v), (3, encode_optional_u32 g)]"

fun lock_time_fields :: "lock_time \<Rightarrow> (u16 \<times> u8 list) list" where
  "lock_time_fields Unlocked = [(1, [1])]"
| "lock_time_fields (LockHeight h) = [(1, [2]), (2, to_le_bytes h)]"
| "lock_time_fields (UnixSeconds s) = [(1, [3]), (2, to_le_bytes s)]"

interpretation version: injective_encoding encode_transaction_version
proof (rule tagged_encodingI)
  fix a b
  show "encode_transaction_version a = tagged_fields (version_fields a)" by (cases a) simp_all
  show "version_fields a = version_fields b \<Longrightarrow> a = b" by (cases a; cases b) simp_all
qed

interpretation lock_time: injective_encoding encode_lock_time
proof (rule tagged_encodingI)
  fix a b
  show "encode_lock_time a = tagged_fields (lock_time_fields a)" by (cases a) simp_all
  show "lock_time_fields a = lock_time_fields b \<Longrightarrow> a = b" by (cases a; cases b) simp_all
qed

interpretation counts: injective_encoding encode_transaction_counts
  by (rule tagged_encodingI [OF encode_transaction_counts_def]) simp

interpretation outpoint: injective_encoding encode_transparent_outpoint
  by (rule tagged_encodingI [OF encode_transparent_outpoint_def]) simp

interpretation balances: injective_encoding encode_intrinsic_value_balances
  by (rule tagged_encodingI [OF encode_intrinsic_value_balances_def]) simp

interpretation output_fact: injective_encoding encode_transparent_output_fact
  by (rule tagged_encodingI [OF encode_transparent_output_fact_def]) simp

interpretation header: injective_encoding encode_block_header
  by (rule tagged_encodingI [OF encode_block_header_def]) simp

interpretation input_fact: injective_encoding encode_transparent_input_fact
proof (rule tagged_encodingI [OF encode_transparent_input_fact_def], goal_cases)
  case (1 a b)
  have "in_spent_outpoint a = in_spent_outpoint b"
    by (rule outpoint.tagged_inject [OF _ 1(2), of 2]) (use 1(1) in simp_all)
  with 1(1) show ?case by simp
qed

interpretation public_facts: injective_encoding encode_transaction_public_facts
proof (rule tagged_encodingI [OF encode_transaction_public_facts_def], goal_cases)
  case (1 a b)
  have "facts_version a = facts_version b"
    by (rule version.tagged_inject [OF _ 1(2), of 4]) (use 1(1) in simp_all)
  moreover have "facts_lock_time a = facts_lock_time b"
    by (rule lock_time.tagged_inject [OF _ 1(2), of 6]) (use 1(1) in simp_all)
  moreover have "facts_counts a = facts_counts b"
    by (rule counts.tagged_inject [OF _ 1(2), of 9]) (use 1(1) in simp_all)
  moreover have "facts_unsupported_sections a = facts_unsupported_sections b"
    by (rule unsupported.tagged_sequence_inject [OF _ 1(2), of 15]) (use 1(1) in simp_all)
  moreover have "facts_is_coinbase a = facts_is_coinbase b"
    using 1(1) by (simp split: if_splits)
  ultimately show ?case using 1(1) by simp
qed

interpretation tx_facts: injective_encoding encode_canonical_transaction_facts
proof (rule tagged_encodingI [OF encode_canonical_transaction_facts_def], goal_cases)
  case (1 a b)
  have "public_facts a = public_facts b"
    by (rule public_facts.tagged_inject [OF _ 1(2), of 1]) (use 1(1) in simp_all)
  moreover have "intrinsic_balances a = intrinsic_balances b"
    by (rule balances.tagged_inject [OF _ 1(2), of 2]) (use 1(1) in simp_all)
  moreover have "transparent_inputs a = transparent_inputs b"
    by (rule input_fact.tagged_sequence_inject [OF _ 1(2), of 3]) (use 1(1) in simp_all)
  moreover have "transparent_outputs a = transparent_outputs b"
    by (rule output_fact.tagged_sequence_inject [OF _ 1(2), of 4]) (use 1(1) in simp_all)
  ultimately show ?case using 1(1) by simp
qed

interpretation block_facts: injective_encoding "\<lambda>f. reference_encoding_v1 f v" for v
proof (rule tagged_encodingI [OF reference_encoding_v1_def], goal_cases)
  case (1 a b)
  have "block_header a = block_header b"
    by (rule header.tagged_inject [OF _ 1(2), of 2]) (use 1(1) in simp_all)
  moreover have "transactions a = transactions b"
    by (rule tx_facts.tagged_sequence_inject [OF _ 1(2), of 4]) (use 1(1) in simp_all)
  ultimately show ?case using 1(1) by simp
qed

section \<open>Digests\<close>

definition BLOCK_DIGEST_DOMAIN :: "u8 list" where
  "BLOCK_DIGEST_DOMAIN = ascii ''zinder:canonical-block-facts:fact-only:sha256'' @ [0]"

definition SEQUENCE_ITEM_DOMAIN :: "u8 list" where
  "SEQUENCE_ITEM_DOMAIN = ascii ''zinder:canonical-block-facts:ordered-items:sha256'' @ [0]"

definition SEQUENCE_DIGEST_DOMAIN :: "u8 list" where
  "SEQUENCE_DIGEST_DOMAIN = ascii ''zinder:canonical-block-facts:ordered-sequence:sha256'' @ [0]"

type_synonym sha256_fn = "u8 list \<Rightarrow> 32 bytes"

definition sha256_domain_and_bytes :: "sha256_fn \<Rightarrow> u8 list \<Rightarrow> u8 list \<Rightarrow> 32 bytes" where
  "sha256_domain_and_bytes sha256 domain bs = sha256 (domain @ bs)"

record block_digest =
  fd_version :: facts_digest_version
  fd_bytes :: "32 bytes"

fun from_reference_encoding :: "sha256_fn \<Rightarrow> facts_digest_version \<Rightarrow> u8 list \<Rightarrow> block_digest" where
  "from_reference_encoding sha256 FactsDigestV1 encoding =
     \<lparr>fd_version = FactsDigestV1,
      fd_bytes = sha256_domain_and_bytes sha256 BLOCK_DIGEST_DOMAIN encoding\<rparr>"

definition facts_digest :: "sha256_fn \<Rightarrow> canonical_block_facts \<Rightarrow> facts_digest_version \<Rightarrow> block_digest" where
  "facts_digest sha256 facts version =
     from_reference_encoding sha256 version (reference_encoding_v1 facts version)"

datatype sequence_digest_version = SequenceDigestV1

fun sequence_digest_version_value :: "sequence_digest_version \<Rightarrow> u16" where
  "sequence_digest_version_value SequenceDigestV1 = 1"

definition sequence_digest_version_try_from :: "u16 \<Rightarrow> sequence_digest_version option" where
  "sequence_digest_version_try_from encoded = (if encoded = 1 then Some SequenceDigestV1 else None)"

record sequence_digest =
  sd_version :: sequence_digest_version
  sd_block_count :: u64
  sd_bytes :: "32 bytes"

record sequence_digest_builder =
  sb_sequence_version :: sequence_digest_version
  sb_sequence_digest :: "32 bytes"
  sb_block_count :: u64

datatype sequence_length_overflow = SequenceLengthOverflow

fun builder_new :: "sha256_fn \<Rightarrow> sequence_digest_version \<Rightarrow> sequence_digest_builder" where
  "builder_new sha256 SequenceDigestV1 =
     \<lparr>sb_sequence_version = SequenceDigestV1,
      sb_sequence_digest =
        sha256_domain_and_bytes sha256 SEQUENCE_DIGEST_DOMAIN
          (to_le_bytes (sequence_digest_version_value SequenceDigestV1)),
      sb_block_count = 0\<rparr>"

definition resume_from_prefix :: "sequence_digest \<Rightarrow> sequence_digest_builder" where
  "resume_from_prefix prefix =
     \<lparr>sb_sequence_version = sd_version prefix, sb_sequence_digest = sd_bytes prefix,
      sb_block_count = sd_block_count prefix\<rparr>"

definition sequence_step :: "sequence_digest_builder \<Rightarrow> u64 \<Rightarrow> block_digest \<Rightarrow> u8 list" where
  "sequence_step b next_block_count d = tagged_fields
     [(1, as_slice (sb_sequence_digest b)),
      (2, to_le_bytes next_block_count),
      (3, to_le_bytes (facts_digest_version_value (fd_version d))),
      (4, as_slice (fd_bytes d))]"

definition try_append ::
    "sha256_fn \<Rightarrow> block_digest \<Rightarrow> sequence_digest_builder \<Rightarrow>
       sequence_length_overflow + sequence_digest_builder" where
  "try_append sha256 d b =
     and_then (ok_or (checked_add (sb_block_count b) 1) SequenceLengthOverflow)
       (\<lambda>next_block_count. Ok (b\<lparr>
          sb_sequence_digest :=
            sha256_domain_and_bytes sha256 SEQUENCE_ITEM_DOMAIN (sequence_step b next_block_count d),
          sb_block_count := next_block_count\<rparr>))"

definition builder_finish :: "sequence_digest_builder \<Rightarrow> sequence_digest" where
  "builder_finish b =
     \<lparr>sd_version = sb_sequence_version b, sd_block_count = sb_block_count b,
      sd_bytes = sb_sequence_digest b\<rparr>"

text \<open>
  The inputs SHA-256 receives while a list of block digests is appended. Statements about the hash
  chain assume only that SHA-256 has no collision among them.
\<close>

fun appended_preimages :: "sha256_fn \<Rightarrow> sequence_digest_builder \<Rightarrow> block_digest list \<Rightarrow> u8 list list" where
  "appended_preimages sha256 b [] = []"
| "appended_preimages sha256 b (d # ds) =
     (SEQUENCE_ITEM_DOMAIN @ sequence_step b (sb_block_count b + 1) d) #
     (case try_append sha256 d b of Inl _ \<Rightarrow> [] | Inr b' \<Rightarrow> appended_preimages sha256 b' ds)"

lemma resume_finish [simp]: "resume_from_prefix (builder_finish b) = b"
  by (simp add: resume_from_prefix_def builder_finish_def)

lemma finish_resume [simp]: "builder_finish (resume_from_prefix d) = d"
  by (simp add: resume_from_prefix_def builder_finish_def)

lemma builder_finish_inject: "builder_finish a = builder_finish b \<longleftrightarrow> a = b"
  by (metis resume_finish)

lemma facts_digest_version_eq [simp]: "(v :: facts_digest_version) = w"
  by (cases v; cases w) simp

lemma try_append_Ok_iff:
  "try_append sha256 d b = Inr b' \<longleftrightarrow>
     unat (sb_block_count b') = Suc (unat (sb_block_count b)) \<and>
     sb_sequence_version b' = sb_sequence_version b \<and>
     sb_sequence_digest b' = sha256 (SEQUENCE_ITEM_DOMAIN @ sequence_step b (sb_block_count b') d)"
  by (auto simp: try_append_def and_then_Ok_iff checked_add_Some_iff sha256_domain_and_bytes_def)

lemma try_append_count:
  "try_append sha256 d b = Inr b' \<Longrightarrow> sb_block_count b' = sb_block_count b + 1"
  by (auto simp: try_append_def and_then_Ok_iff checked_add_def split: if_splits)

lemma sequence_step_inject:
  "sequence_step a m d = sequence_step b n e \<longleftrightarrow>
     sb_sequence_digest a = sb_sequence_digest b \<and> m = n \<and> d = e"
proof
  assume *: "sequence_step a m d = sequence_step b n e"
  have len: "length (sequence_step a m d) < 2 ^ 64"
    by (simp add: sequence_step_def tagged_fields_concat field_bytes_def)
  show "sb_sequence_digest a = sb_sequence_digest b \<and> m = n \<and> d = e"
    using tagged_fields_inject [OF * [unfolded sequence_step_def] len [unfolded sequence_step_def]]
    by simp
qed (simp add: sequence_step_def)

lemma try_fold_append_count:
  assumes "try_fold (try_append sha256) ds b = Inr b'"
  shows "unat (sb_block_count b') = unat (sb_block_count b) + length ds \<and>
         sb_sequence_version b' = sb_sequence_version b"
  using assms
proof (induction ds arbitrary: b)
  case Nil
  then show ?case by simp
next
  case (Cons d ds)
  then obtain c where "try_append sha256 d b = Inr c" and c: "try_fold (try_append sha256) ds c = Inr b'"
    by (auto elim!: and_then_Ok_E)
  then have "unat (sb_block_count c) = Suc (unat (sb_block_count b))"
    and "sb_sequence_version c = sb_sequence_version b"
    by (simp_all only: try_append_Ok_iff)
  with Cons.IH [OF c] show ?case by simp
qed

lemma try_fold_append_same_length:
  assumes "try_fold (try_append sha256) ds b = Inr b1"
    and "try_fold (try_append sha256) es b = Inr b2" and "sb_block_count b1 = sb_block_count b2"
  shows "length ds = length es"
  using try_fold_append_count [OF assms(1)] try_fold_append_count [OF assms(2)] assms(3) by simp

lemma appended_preimages_snoc:
  assumes "try_fold (try_append sha256) ds b = Inr b'"
  shows "appended_preimages sha256 b (ds @ [d]) =
         appended_preimages sha256 b ds @ [SEQUENCE_ITEM_DOMAIN @ sequence_step b' (sb_block_count b' + 1) d]"
  using assms
proof (induction ds arbitrary: b)
  case Nil
  then show ?case by (auto split: sum.splits)
next
  case (Cons e ds)
  then show ?case by (auto elim!: and_then_Ok_E)
qed

lemma sequence_digest_binding:
  assumes "try_fold (try_append sha256) ds b = Inr b1"
    and "try_fold (try_append sha256) es b = Inr b2"
    and "sb_block_count b1 = sb_block_count b2" and "sb_sequence_digest b1 = sb_sequence_digest b2"
    and "inj_on sha256 (set (appended_preimages sha256 b ds) \<union> set (appended_preimages sha256 b es))"
  shows "ds = es"
  using assms
proof (induction ds arbitrary: es b1 b2 rule: rev_induct)
  case Nil
  show ?case using try_fold_append_same_length [OF Nil(1-3)] by simp
next
  case (snoc d ds)
  have "length es = Suc (length ds)"
    using try_fold_append_same_length [OF snoc.prems(1-3)] by simp
  then obtain fs e where es: "es = fs @ [e]" by (metis length_Suc_conv_rev)
  obtain c1 where c1: "try_fold (try_append sha256) ds b = Inr c1" "try_append sha256 d c1 = Inr b1"
    using snoc.prems(1) by (auto simp: try_fold_append elim!: and_then_Ok_E)
  obtain c2 where c2: "try_fold (try_append sha256) fs b = Inr c2" "try_append sha256 e c2 = Inr b2"
    using snoc.prems(2) by (auto simp: es try_fold_append elim!: and_then_Ok_E)
  let ?p = "SEQUENCE_ITEM_DOMAIN @ sequence_step c1 (sb_block_count c1 + 1) d"
  let ?q = "SEQUENCE_ITEM_DOMAIN @ sequence_step c2 (sb_block_count c2 + 1) e"
  have inj: "inj_on sha256 (set (appended_preimages sha256 b ds @ [?p]) \<union>
                            set (appended_preimages sha256 b fs @ [?q]))"
    using snoc.prems(5) unfolding es appended_preimages_snoc [OF c1(1)] appended_preimages_snoc [OF c2(1)] .
  have "sha256 ?p = sha256 ?q"
    using snoc.prems(4) c1(2) c2(2) try_append_count [OF c1(2)] try_append_count [OF c2(2)]
    by (simp add: try_append_Ok_iff)
  then have "?p = ?q" by (rule inj_onD [OF inj]) simp_all
  then have same: "sb_sequence_digest c1 = sb_sequence_digest c2"
      "sb_block_count c1 = sb_block_count c2" "d = e"
    by (simp_all add: sequence_step_inject)
  moreover have "ds = fs"
    using snoc.IH [OF c1(1) c2(1) same(2) same(1)] inj by (auto elim: inj_on_subset)
  ultimately show ?case by (simp add: es)
qed

section \<open>The properties of the digests\<close>

definition append_block_digests ::
    "sha256_fn \<Rightarrow> canonical_block_facts list \<Rightarrow> sequence_digest_builder \<Rightarrow>
       sequence_length_overflow + sequence_digest_builder" where
  "append_block_digests sha256 blocks =
     try_fold (\<lambda>facts b. try_append sha256 (facts_digest sha256 facts FactsDigestV1) b) blocks"

definition block_preimage :: "canonical_block_facts \<Rightarrow> u8 list" where
  "block_preimage facts = BLOCK_DIGEST_DOMAIN @ reference_encoding_v1 facts FactsDigestV1"

definition chain_preimages :: "sha256_fn \<Rightarrow> sequence_digest_builder \<Rightarrow> canonical_block_facts list \<Rightarrow> u8 list set" where
  "chain_preimages sha256 b blocks =
     block_preimage ` set blocks \<union>
     set (appended_preimages sha256 b (map (\<lambda>f. facts_digest sha256 f FactsDigestV1) blocks))"

lemma try_fold_map: "try_fold f (map g xs) s = try_fold (\<lambda>x. f (g x)) xs s"
  by (induction xs arbitrary: s) (auto intro: and_then_cong)

lemma map_eq_inj_on:
  assumes "map f xs = map f ys" and "\<And>x y. x \<in> set xs \<Longrightarrow> y \<in> set ys \<Longrightarrow> f x = f y \<Longrightarrow> x = y"
  shows "xs = ys"
  using assms by (induction xs arbitrary: ys) auto

lemma facts_digest_inject:
  assumes "facts_digest sha256 f FactsDigestV1 = facts_digest sha256 g FactsDigestV1"
    and "inj_on sha256 P" and "block_preimage f \<in> P" and "block_preimage g \<in> P"
    and "length (reference_encoding_v1 f FactsDigestV1) < 2 ^ 64"
  shows "f = g"
proof -
  have "sha256 (block_preimage f) = sha256 (block_preimage g)"
    using assms(1) by (simp add: facts_digest_def sha256_domain_and_bytes_def block_preimage_def)
  then have "block_preimage f = block_preimage g" using assms(2-4) by (meson inj_onD)
  then show ?thesis
    using block_facts.enc_inject [of f FactsDigestV1 g] assms(5) by (simp add: block_preimage_def)
qed

text \<open>
  C21: the version-1 reference encoding of canonical block facts determines every fact of the block.
  Two blocks whose facts differ anywhere (header, any transaction, any transparent input or
  output, any optional field) have different reference encodings, as long as the encoding is
  shorter than the 64-bit range of its own length prefixes.
\<close>

theorem reference_encoding_v1_injective:
  assumes "length (reference_encoding_v1 f v) < 2 ^ 64"
  shows "reference_encoding_v1 f v = reference_encoding_v1 g v \<longleftrightarrow> f = g"
  using block_facts.enc_inject assms by blast

lemmas encoding_evaluation =
  reference_encoding_v1_def encode_block_header_def encode_canonical_transaction_facts_def
  encode_transaction_public_facts_def encode_transaction_counts_def
  encode_intrinsic_value_balances_def encode_transparent_output_fact_def
  encode_transparent_input_fact_def encode_transparent_outpoint_def
  tagged_fields_concat field_bytes_def encode_sequence_concat entry_bytes_def

theorem reference_encoding_v1_injective_witness:
  "reference_encoding_v1 (sample_block 1 1 0 [sample_transaction 7 [] [sample_output 0 5 9]]) FactsDigestV1 \<noteq>
   reference_encoding_v1 (sample_block 1 1 0 [sample_transaction 7 [] [sample_output 0 6 9]]) FactsDigestV1"
proof -
  have "length (reference_encoding_v1
          (sample_block 1 1 0 [sample_transaction 7 [] [sample_output 0 5 9]]) FactsDigestV1) < 2 ^ 64"
    by (simp add: encoding_evaluation sample_defs)
  from reference_encoding_v1_injective [OF this] show ?thesis
    by (simp add: sample_defs)
qed

text \<open>
  C7: the ordered sequence digest binds the whole chain. From one prefix state, two runs of
  \<open>try_append\<close> over the digests of two block sequences finish with the same sequence digest
  exactly when they were given the same blocks in the same order, provided SHA-256 has no collision
  among the inputs the two runs hashed.
\<close>

theorem sequence_digest_binds_blocks:
  assumes "append_block_digests sha256 fs (resume_from_prefix prefix) = Ok b1"
    and "append_block_digests sha256 gs (resume_from_prefix prefix) = Ok b2"
    and "inj_on sha256 (chain_preimages sha256 (resume_from_prefix prefix) fs \<union>
                        chain_preimages sha256 (resume_from_prefix prefix) gs)"
    and "\<forall>f \<in> set fs. length (reference_encoding_v1 f FactsDigestV1) < 2 ^ 64"
  shows "builder_finish b1 = builder_finish b2 \<longleftrightarrow> fs = gs"
proof
  let ?d = "\<lambda>f. facts_digest sha256 f FactsDigestV1"
  let ?b = "resume_from_prefix prefix"
  assume "builder_finish b1 = builder_finish b2"
  then have eq: "b1 = b2" by (simp only: builder_finish_inject)
  have "map ?d fs = map ?d gs"
  proof (rule sequence_digest_binding)
    show "try_fold (try_append sha256) (map ?d fs) ?b = Ok b1"
      using assms(1) by (simp add: try_fold_map append_block_digests_def)
    show "try_fold (try_append sha256) (map ?d gs) ?b = Ok b2"
      using assms(2) by (simp add: try_fold_map append_block_digests_def)
    show "inj_on sha256 (set (appended_preimages sha256 ?b (map ?d fs)) \<union>
                         set (appended_preimages sha256 ?b (map ?d gs)))"
      using assms(3) by (rule inj_on_subset) (auto simp: chain_preimages_def)
  qed (simp_all add: eq)
  then show "fs = gs"
  proof (rule map_eq_inj_on)
    fix f g
    assume "f \<in> set fs" "g \<in> set gs" "?d f = ?d g"
    then show "f = g"
      by (intro facts_digest_inject [OF _ assms(3)]) (use assms(4) in \<open>auto simp: chain_preimages_def\<close>)
  qed
qed (use assms(1,2) in simp)

theorem sequence_digest_binds_blocks_witness:
  "\<exists>sha256 b1 b2.
     append_block_digests sha256 [sample_block 1 1 0 []]
       (resume_from_prefix (builder_finish (builder_new sha256 SequenceDigestV1))) = Ok b1 \<and>
     append_block_digests sha256 []
       (resume_from_prefix (builder_finish (builder_new sha256 SequenceDigestV1))) = Ok b2 \<and>
     builder_finish b1 \<noteq> builder_finish b2"
proof -
  define sha :: sha256_fn where "sha = (\<lambda>bs. filled (of_nat (length bs)))"
  let ?start = "resume_from_prefix (builder_finish (builder_new sha SequenceDigestV1))"
  let ?fs = "[sample_block 1 1 0 []]"
  obtain b1 where b1: "append_block_digests sha ?fs ?start = Ok b1"
    by (simp add: append_block_digests_def try_append_def checked_add_def)
  obtain b2 where b2: "append_block_digests sha [] ?start = Ok b2"
    by (simp add: append_block_digests_def)
  have "length (block_preimage (sample_block 1 1 0 [])) = 416"
    by (simp add: block_preimage_def BLOCK_DIGEST_DOMAIN_def encoding_evaluation sample_defs)
  moreover have "length (SEQUENCE_ITEM_DOMAIN @ sequence_step b n d) = 164" for b n d
    by (simp add: SEQUENCE_ITEM_DOMAIN_def sequence_step_def encoding_evaluation)
  ultimately have "inj_on sha (chain_preimages sha ?start ?fs \<union> chain_preimages sha ?start [])"
    by (auto simp: chain_preimages_def inj_on_def sha_def try_append_def checked_add_def)
  moreover have "\<forall>f \<in> set ?fs. length (reference_encoding_v1 f FactsDigestV1) < 2 ^ 64"
    by (simp add: encoding_evaluation sample_defs)
  ultimately have "builder_finish b1 = builder_finish b2 \<longleftrightarrow> ?fs = []"
    by (intro sequence_digest_binds_blocks [OF b1 b2])
  with b1 b2 show ?thesis by auto
qed

end
