(* ===== verification/Lane_Accumulator.thy ===== *)
theory Lane_Accumulator
  imports Byte_Codec
begin

text \<open>
  The 2048-byte homomorphic accumulator both set commitments of Zinder use
  (\<open>utxo_set_commitment.rs\<close>, \<open>digest.rs\<close>): the BLAKE2X expansion of a message, the loop that combines
  1024 little-endian \<open>u16\<close> lanes in place, the commutative group the lanes form, and the interface
  of an accumulator with its laws. BLAKE2b is a parameter.
\<close>

section \<open>BLAKE2X expansion\<close>

record blake2b_params =
  hash_length :: nat
  fanout :: u8
  max_depth :: u8
  max_leaf_length :: u32
  node_offset :: u64
  inner_hash_length :: nat
  personal :: "u8 list"

type_synonym blake2b_fn = "blake2b_params \<Rightarrow> u8 list \<Rightarrow> u8 list"

text \<open>\<open>Params::new()\<close>: sequential hashing with a 64-byte output and an empty personalization.\<close>

definition blake2b_params_new :: blake2b_params where
  "blake2b_params_new =
     \<lparr>hash_length = 64, fanout = 1, max_depth = 1, max_leaf_length = 0, node_offset = 0,
      inner_hash_length = 0, personal = replicate 16 0\<rparr>"

definition blake2x_root_hash :: "blake2b_fn \<Rightarrow> u8 list \<Rightarrow> u8 list \<Rightarrow> u32 \<Rightarrow> u8 list" where
  "blake2x_root_hash blake2b message person xof_length =
     blake2b (blake2b_params_new\<lparr>hash_length := 64,
                node_offset := push_bit 32 (ucast xof_length), personal := person\<rparr>) message"

definition blake2x_expansion_block ::
    "blake2b_fn \<Rightarrow> u8 list \<Rightarrow> u8 list \<Rightarrow> u32 \<Rightarrow> nat \<Rightarrow> u32 \<Rightarrow> u8 list" where
  "blake2x_expansion_block blake2b root person block_index block_length xof_length =
     blake2b (blake2b_params_new\<lparr>hash_length := block_length, fanout := 0, max_depth := 0,
                max_leaf_length := 64,
                node_offset := or (ucast block_index) (push_bit 32 (ucast xof_length)),
                inner_hash_length := 64, personal := person\<rparr>) root"

text \<open>The \<open>while produced < output.len()\<close> loop; \<open>copy_from_slice\<close> overwrites one block of the output.\<close>

function blake2x_blocks ::
    "blake2b_fn \<Rightarrow> u8 list \<Rightarrow> u8 list \<Rightarrow> u32 \<Rightarrow> nat \<Rightarrow> u32 \<Rightarrow> nat \<Rightarrow> u8 list \<Rightarrow> u8 list" where
  "blake2x_blocks blake2b root person xof_length produced block_index len output =
     (if produced < len then
        let block_length = min (len - produced) 64;
            block = blake2x_expansion_block blake2b root person block_index block_length xof_length
        in blake2x_blocks blake2b root person xof_length (produced + block_length) (block_index + 1)
             len (take produced output @ block @ drop (produced + block_length) output)
      else output)"
  by auto

termination
  by (relation "measure (\<lambda>(_, _, _, _, produced, _, len, _). len - produced)") auto

declare blake2x_blocks.simps [simp del]

definition blake2x_expand_into :: "blake2b_fn \<Rightarrow> u8 list \<Rightarrow> u8 list \<Rightarrow> u8 list \<Rightarrow> u8 list" where
  "blake2x_expand_into blake2b message person output =
     (let len = length output;
          xof_length = (if len < 2 ^ 32 then of_nat len else - 1);
          root = blake2x_root_hash blake2b message person xof_length
      in blake2x_blocks blake2b root person xof_length 0 0 len output)"

section \<open>Combining lanes\<close>

definition combine_lane :: "(u16 \<Rightarrow> u16 \<Rightarrow> u16) \<Rightarrow> u8 list \<Rightarrow> nat \<Rightarrow> u8 list \<Rightarrow> u8 list" where
  "combine_lane combine expansion lane_index acc =
     (let byte_index = lane_index * 2;
          accumulator_lane = from_le_bytes [acc ! byte_index, acc ! (byte_index + 1)];
          element_lane = from_le_bytes [expansion ! byte_index, expansion ! (byte_index + 1)];
          combined = to_le_bytes (combine accumulator_lane element_lane)
      in acc[byte_index := combined ! 0, byte_index + 1 := combined ! 1])"

definition combine_lane_bytes ::
    "(u16 \<Rightarrow> u16 \<Rightarrow> u16) \<Rightarrow> 2048 bytes \<Rightarrow> 2048 bytes \<Rightarrow> 2048 bytes" where
  "combine_lane_bytes combine expansion acc =
     array_of (fold (combine_lane combine (as_slice expansion)) [0..<1024] (as_slice acc))"

definition lane :: "u8 list \<Rightarrow> nat \<Rightarrow> u16" where
  "lane bs i = from_le_bytes [bs ! (2 * i), bs ! (2 * i + 1)]"

lemma length_combine_lane [simp]: "length (combine_lane f e i acc) = length acc"
  by (simp add: combine_lane_def Let_def)

lemma length_fold_combine_lane [simp]: "length (fold (combine_lane f e) is acc) = length acc"
  by (induction "is" arbitrary: acc) simp_all

lemma length_2_eq: "length xs = 2 \<Longrightarrow> [xs ! 0, xs ! 1] = xs"
  by (cases xs rule: list.exhaust; cases "tl xs") (auto simp: nth_Cons')

lemma lane_combine_lane:
  assumes "2 * j + 1 < length acc" and "2 * i + 1 < length acc"
  shows "lane (combine_lane f e i acc) j = (if i = j then f (lane acc i) (lane e i) else lane acc j)"
proof (cases "i = j")
  case True
  let ?c = "to_le_bytes (f (lane acc j) (lane e j))"
  have "lane (combine_lane f e i acc) j = from_le_bytes [?c ! 0, ?c ! 1]"
    using assms True by (simp add: lane_def combine_lane_def Let_def mult.commute)
  also have "[?c ! 0, ?c ! 1] = ?c" by (rule length_2_eq) simp
  finally show ?thesis using True by simp
next
  case False
  then have "2 * j \<noteq> 2 * i" "2 * j \<noteq> 2 * i + 1" "2 * j + 1 \<noteq> 2 * i" by presburger+
  with False show ?thesis by (simp add: lane_def combine_lane_def Let_def mult.commute)
qed

lemma lane_fold_combine:
  assumes "2 * n \<le> length acc" and "2 * j + 1 < length acc"
  shows "lane (fold (combine_lane f e) [0..<n] acc) j =
         (if j < n then f (lane acc j) (lane e j) else lane acc j)"
  using assms by (induction n) (auto simp: lane_combine_lane)

lemma lanes_eqI:
  assumes "length xs = 2 * n" and "length ys = 2 * n" and "\<And>i. i < n \<Longrightarrow> lane xs i = lane ys i"
  shows "xs = ys"
proof (rule nth_equalityI)
  show "length xs = length ys" using assms by simp
  fix k assume "k < length xs"
  then have k: "k div 2 < n" using assms(1) by simp
  have "to_le_bytes (from_le_bytes [a, b] :: u16) = [a, b]" for a b :: u8
    by (rule to_from_le_bytes) simp_all
  then have "[xs ! (2 * (k div 2)), xs ! (2 * (k div 2) + 1)] = [ys ! (2 * (k div 2)), ys ! (2 * (k div 2) + 1)]"
    using assms(3) [OF k] unfolding lane_def by metis
  then show "xs ! k = ys ! k" by (cases "even k") auto
qed

section \<open>The group of lanes\<close>

typedef lane_vec = "{xs :: u16 list. length xs = 1024}"
  morphisms lane_list Abs_lane_vec
  by (rule exI [of _ "replicate 1024 0"]) simp

lemma length_lane_list [simp]: "length (lane_list v) = 1024"
  using lane_list [of v] by simp

lemma lane_list_Abs [simp]: "length xs = 1024 \<Longrightarrow> lane_list (Abs_lane_vec xs) = xs"
  by (rule Abs_lane_vec_inverse) simp

lemma lane_vec_eqI: "(\<And>i. i < 1024 \<Longrightarrow> lane_list v ! i = lane_list w ! i) \<Longrightarrow> v = w"
  by (subst lane_list_inject [symmetric]) (rule nth_equalityI, simp_all)

instantiation lane_vec :: ab_group_add
begin

definition zero_lane_vec :: lane_vec where
  "zero_lane_vec = Abs_lane_vec (replicate 1024 0)"

definition plus_lane_vec :: "lane_vec \<Rightarrow> lane_vec \<Rightarrow> lane_vec" where
  "plus_lane_vec v w = Abs_lane_vec (map2 (+) (lane_list v) (lane_list w))"

definition minus_lane_vec :: "lane_vec \<Rightarrow> lane_vec \<Rightarrow> lane_vec" where
  "minus_lane_vec v w = Abs_lane_vec (map2 (-) (lane_list v) (lane_list w))"

definition uminus_lane_vec :: "lane_vec \<Rightarrow> lane_vec" where
  "uminus_lane_vec v = Abs_lane_vec (map uminus (lane_list v))"

instance
  by standard
    (auto intro!: lane_vec_eqI
      simp: zero_lane_vec_def plus_lane_vec_def minus_lane_vec_def uminus_lane_vec_def algebra_simps)

end

lemma lane_list_ops [simp]:
  "i < 1024 \<Longrightarrow> lane_list 0 ! i = 0"
  "i < 1024 \<Longrightarrow> lane_list (v + w) ! i = lane_list v ! i + lane_list w ! i"
  "i < 1024 \<Longrightarrow> lane_list (v - w) ! i = lane_list v ! i - lane_list w ! i"
  by (simp_all add: zero_lane_vec_def plus_lane_vec_def minus_lane_vec_def)

definition lanes_of :: "2048 bytes \<Rightarrow> lane_vec" where
  "lanes_of acc = Abs_lane_vec (map (lane (as_slice acc)) [0..<1024])"

lemma lane_list_lanes_of [simp]: "i < 1024 \<Longrightarrow> lane_list (lanes_of acc) ! i = lane (as_slice acc) i"
  by (simp add: lanes_of_def)

lemma lanes_of_inject: "lanes_of a = lanes_of b \<longleftrightarrow> a = b"
proof
  assume eq: "lanes_of a = lanes_of b"
  have "as_slice a = as_slice b"
  proof (rule lanes_eqI [of _ 1024])
    fix i :: nat assume "i < 1024"
    then show "lane (as_slice a) i = lane (as_slice b) i"
      using lane_list_lanes_of [of i a] lane_list_lanes_of [of i b] eq by simp
  qed simp_all
  then show "a = b" by simp
qed simp

lemma lane_combine_lane_bytes:
  "i < 1024 \<Longrightarrow> lane (as_slice (combine_lane_bytes f e acc)) i =
     f (lane (as_slice acc) i) (lane (as_slice e) i)"
  by (simp add: combine_lane_bytes_def lane_fold_combine)

lemma lanes_of_combine [simp]:
  "lanes_of (combine_lane_bytes (+) e acc) = lanes_of acc + lanes_of e"
  "lanes_of (combine_lane_bytes (-) e acc) = lanes_of acc - lanes_of e"
  by (auto intro!: lane_vec_eqI simp: lane_combine_lane_bytes)

lemma lanes_of_zero [simp]: "lanes_of (filled 0) = 0"
  by (rule lane_vec_eqI) (simp add: lane_def from_le_bytes_def)

section \<open>The interface of an accumulator\<close>

text \<open>
  What the users of an accumulator rely on: insertion and removal act on the lanes as addition and
  subtraction of the element's expansion and leave everything else (the \<open>frame\<close>) alone, and lanes
  and frame determine the accumulator. The order of insertions and removals is then irrelevant, a
  removal undoes an insertion, and the accumulator of a collection is a function of the collection.
\<close>

locale lane_accumulator =
  fixes add remove :: "'e \<Rightarrow> 'a \<Rightarrow> 'a"
    and lanes :: "'a \<Rightarrow> 'g::ab_group_add"
    and frame :: "'a \<Rightarrow> 'f"
    and expand :: "'e \<Rightarrow> 'g"
  assumes lanes_add: "lanes (add e a) = lanes a + expand e"
    and lanes_remove: "lanes (remove e a) = lanes a - expand e"
    and frame_add: "frame (add e a) = frame a"
    and frame_remove: "frame (remove e a) = frame a"
    and lanes_inject: "lanes a = lanes b \<Longrightarrow> frame a = frame b \<Longrightarrow> a = b"
begin

lemmas lanes_ops = lanes_add lanes_remove frame_add frame_remove algebra_simps

lemma add_commute: "add x (add y a) = add y (add x a)"
  by (rule lanes_inject) (simp_all add: lanes_ops)

lemma remove_commute: "remove x (remove y a) = remove y (remove x a)"
  by (rule lanes_inject) (simp_all add: lanes_ops)

lemma add_remove_commute: "add x (remove y a) = remove y (add x a)"
  by (rule lanes_inject) (simp_all add: lanes_ops)

lemma remove_add: "remove x (add x a) = a"
  by (rule lanes_inject) (simp_all add: lanes_ops)

lemma add_remove: "add x (remove x a) = a"
  by (rule lanes_inject) (simp_all add: lanes_ops)

lemma frame_fold: "frame (fold add xs a) = frame a" "frame (fold remove xs a) = frame a"
  by (induction xs arbitrary: a) (simp_all add: lanes_ops)

lemma lanes_fold_add: "lanes (fold add xs a) = lanes a + (\<Sum>x\<in>#mset xs. expand x)"
  by (induction xs arbitrary: a) (simp_all add: lanes_ops)

lemma lanes_fold_remove: "lanes (fold remove xs a) = lanes a - (\<Sum>x\<in>#mset xs. expand x)"
  by (induction xs arbitrary: a) (simp_all add: lanes_ops)

lemma fold_add_perm: "mset xs = mset ys \<Longrightarrow> fold add xs a = fold add ys a"
  by (rule lanes_inject) (simp_all add: lanes_fold_add frame_fold)

lemma fold_remove_add:
  assumes "mset xs = mset ys + mset zs"
  shows "fold remove ys (fold add xs a) = fold add zs a"
  using assms by (intro lanes_inject) (simp_all add: lanes_fold_add lanes_fold_remove frame_fold)

end

end
