(* ===== verification/Utxo_Commitment.thy ===== *)
theory Utxo_Commitment
  imports Lane_Accumulator Chain_Types
begin

text \<open>
  The commitment to the transparent unspent set (\<open>utxo_set_commitment.rs\<close> and
  \<open>wire/utxo_set_commitment.rs\<close> of \<open>zinder-core\<close>): the preimage of one output, and a 2048-byte
  accumulator that outputs are inserted into and subtracted from.
\<close>

section \<open>The element preimage\<close>

definition UTXO_SET_COMMITMENT_PERSONAL :: "u8 list" where
  "UTXO_SET_COMMITMENT_PERSONAL = ascii ''ZinderUtxoSet___''"

definition UTXO_SET_COMMITMENT_ENCODING_VERSION :: u8 where
  "UTXO_SET_COMMITMENT_ENCODING_VERSION = 1"

record commitment_element =
  element_network_id :: u32
  element_outpoint :: transparent_outpoint
  element_value_zat :: u64
  element_script_pub_key :: "u8 list"
  element_block_height :: block_height

definition encode_utxo_set_commitment_element :: "commitment_element \<Rightarrow> u8 list" where
  "encode_utxo_set_commitment_element e =
     (let script = element_script_pub_key e;
          script_len = (if length script < 2 ^ 32 then of_nat (length script) else - 1) :: u32
      in to_le_bytes (element_network_id e) @
         [UTXO_SET_COMMITMENT_ENCODING_VERSION] @
         as_slice (op_transaction_id (element_outpoint e)) @
         to_le_bytes (op_output_index (element_outpoint e)) @
         to_le_bytes (element_value_zat e) @
         to_le_bytes script_len @
         script @
         to_le_bytes (element_block_height e))"

lemma commitment_element_inject:
  assumes "encode_utxo_set_commitment_element a = encode_utxo_set_commitment_element b"
  shows "a = b"
proof -
  let ?sa = "element_script_pub_key a" and ?sb = "element_script_pub_key b"
  have "length ?sa = length ?sb"
    using arg_cong [OF assms, of length]
    by (simp add: encode_utxo_set_commitment_element_def Let_def)
  then show ?thesis
    using assms by (simp add: encode_utxo_set_commitment_element_def Let_def)
qed

section \<open>The commitment\<close>

datatype commitment_scheme = Unspecified | LtHash16

fun scheme_id :: "commitment_scheme \<Rightarrow> u32" where
  "scheme_id Unspecified = 0"
| "scheme_id LtHash16 = 1"

definition scheme_from_id :: "u32 \<Rightarrow> commitment_scheme option" where
  "scheme_from_id i = (if i = 0 then Some Unspecified else if i = 1 then Some LtHash16 else None)"

record utxo_commitment =
  uc_scheme :: commitment_scheme
  uc_accumulator :: "2048 bytes"

definition commitment_empty :: utxo_commitment where
  "commitment_empty = \<lparr>uc_scheme = LtHash16, uc_accumulator = filled 0\<rparr>"

definition commitment_from_parts :: "commitment_scheme \<Rightarrow> u8 list \<Rightarrow> utxo_commitment option" where
  "commitment_from_parts scheme accumulator =
     (case try_into accumulator of
        None \<Rightarrow> None
      | Some acc \<Rightarrow> Some \<lparr>uc_scheme = scheme, uc_accumulator = acc\<rparr>)"

definition utxo_blake2x_expand :: "blake2b_fn \<Rightarrow> u8 list \<Rightarrow> 2048 bytes" where
  "utxo_blake2x_expand blake2b message =
     array_of (blake2x_expand_into blake2b message UTXO_SET_COMMITMENT_PERSONAL (replicate 2048 0))"

definition combine_lanes ::
    "blake2b_fn \<Rightarrow> (u16 \<Rightarrow> u16 \<Rightarrow> u16) \<Rightarrow> commitment_element \<Rightarrow> utxo_commitment \<Rightarrow> utxo_commitment" where
  "combine_lanes blake2b combine element c =
     (let expansion = utxo_blake2x_expand blake2b (encode_utxo_set_commitment_element element)
      in c\<lparr>uc_accumulator := combine_lane_bytes combine expansion (uc_accumulator c)\<rparr>)"

definition commitment_insert :: "blake2b_fn \<Rightarrow> commitment_element \<Rightarrow> utxo_commitment \<Rightarrow> utxo_commitment" where
  "commitment_insert blake2b = combine_lanes blake2b (+)"

definition commitment_subtract :: "blake2b_fn \<Rightarrow> commitment_element \<Rightarrow> utxo_commitment \<Rightarrow> utxo_commitment" where
  "commitment_subtract blake2b = combine_lanes blake2b (-)"

definition commitment_display_digest :: "blake2b_fn \<Rightarrow> utxo_commitment \<Rightarrow> 32 bytes" where
  "commitment_display_digest blake2b c =
     array_of (blake2b (blake2b_params_new\<lparr>hash_length := 32\<rparr>) (as_slice (uc_accumulator c)))"

definition element_lanes :: "blake2b_fn \<Rightarrow> commitment_element \<Rightarrow> lane_vec" where
  "element_lanes blake2b e =
     lanes_of (utxo_blake2x_expand blake2b (encode_utxo_set_commitment_element e))"

definition commitment_lanes :: "utxo_commitment \<Rightarrow> lane_vec" where
  "commitment_lanes c = lanes_of (uc_accumulator c)"

interpretation utxo_set: lane_accumulator
  "commitment_insert blake2b" "commitment_subtract blake2b" commitment_lanes uc_scheme
  "element_lanes blake2b"
  for blake2b
  by unfold_locales
    (simp_all add: commitment_insert_def commitment_subtract_def combine_lanes_def Let_def
      commitment_lanes_def element_lanes_def lanes_of_inject)

lemma commitment_lanes_empty [simp]: "commitment_lanes commitment_empty = 0"
  by (simp add: commitment_lanes_def commitment_empty_def)

lemma commitment_from_parts_accumulator [simp]:
  "commitment_from_parts (uc_scheme c) (as_slice (uc_accumulator c)) = Some c"
  by (simp add: commitment_from_parts_def)

lemma scheme_from_id_id [simp]: "scheme_from_id (scheme_id s) = Some s"
  by (cases s) (simp_all add: scheme_from_id_def)

text \<open>
  C24: the commitment depends only on which outputs it holds, not on how it was reached. Whatever
  order outputs are inserted in, after subtracting any of them again the accumulator equals the one
  built directly from the outputs that are left, in any order.
\<close>

theorem commitment_tracks_the_set:
  assumes "mset inserted = mset subtracted + mset remaining"
  shows "fold (commitment_subtract blake2b) subtracted (fold (commitment_insert blake2b) inserted c) =
         fold (commitment_insert blake2b) remaining c"
  using assms by (rule utxo_set.fold_remove_add)

definition sample_element :: "u32 \<Rightarrow> commitment_element" where
  "sample_element i =
     \<lparr>element_network_id = 1,
      element_outpoint = \<lparr>op_transaction_id = filled 7, op_output_index = i\<rparr>,
      element_value_zat = 5, element_script_pub_key = [0x6a], element_block_height = 3\<rparr>"

theorem commitment_tracks_the_set_witness:
  "fold (commitment_subtract (\<lambda>p m. replicate (hash_length p) (last m))) [sample_element 2]
     (fold (commitment_insert (\<lambda>p m. replicate (hash_length p) (last m)))
        [sample_element 2, sample_element 1] commitment_empty) =
   fold (commitment_insert (\<lambda>p m. replicate (hash_length p) (last m))) [sample_element 1] commitment_empty"
  by (rule commitment_tracks_the_set) simp

text \<open>
  C25: the preimage of one output determines the network, the outpoint, the value, the script and the
  height: distinct outputs are never folded in under the same preimage.
\<close>

theorem encode_utxo_set_commitment_element_injective:
  "encode_utxo_set_commitment_element a = encode_utxo_set_commitment_element b \<longleftrightarrow> a = b"
  using commitment_element_inject by blast

end
