(* ===== verification/Wallet_Contract.thy ===== *)
theory Wallet_Contract
  imports Facts_Digest Utxo_Commitment
begin

text \<open>
  What every part of \<open>zinder-wallet-projection\<close> shares: the error type
  (\<open>contract_error.rs\<close>), the version constants (\<open>lib.rs\<close>), bounded length prefixes, and the
  reading of fixed-size fields out of a byte string (\<open>rows.rs\<close>).
\<close>

datatype (plugins only: code) contract_error =
  OutputCreatorMismatch
| FieldTooLong string
| DurableFieldLengthMismatch string nat nat
| DurableValueTooShort string nat nat
| DurableLengthPrefixMismatch string
| DurableKeyOrder string
| DurableIdentityMismatch string
| UnsupportedEncodedValue string u64
| DurableTrailingBytes string
| DurableNonCanonicalEncoding string
| ProjectionDigestRowCountOverflow
| ProjectionDigestRowCountUnderflow
| UnsupportedProjectionAccumulatorVersion u64
| ProjectionAccumulatorLengthMismatch nat nat
| ProjectionAccumulatorDigestMismatch
| UnsupportedWalletProjectionEventCursorVersion u64
| WalletProjectionEventCursorZeroSequence
| WalletProjectionEventCursorSequenceMismatch
| ReorgUndoSourceSequenceVersionMismatch
| ReorgUndoSourceSequenceLengthMismatch
| SourceSequenceLength sequence_length_overflow
| NonContiguousBlock
| DuplicateOutput
| MissingTransparentPredecessor
| DuplicateSpend
| FactIndexOverflow
| FactIndexMismatch
| AddressBalanceOverflow
| AddressBalanceUnderflow
| UtxoCountOverflow
| UtxoValueOverflow
| UtxoCountUnderflow
| UtxoValueUnderflow
| ReadyUnspentOutputIndexCountMismatch
| ReadyUtxoCountMismatch
| ReadyReorgUndoCountMismatch
| ReadySettledTipOutsideSourceRange
| ReadySourceSequenceLengthMismatch
| ReadySourceSequenceVersionMismatch
| ReadyUtxoCommitmentSchemeMismatch
| UnsupportedWalletProjectionBuildLeaseVersion u64
| WalletProjectionBuildLeaseSchemaMismatch
| WalletProjectionBuildLeaseNetworkMismatch
| WalletProjectionBuildLeaseGenerationMismatch
| WalletProjectionBuildLeaseCanonicalAnchorMismatch
| WalletProjectionBuildLeaseRetainedEventAnchorMismatch
| ReadyControlRetainsBuildLease

definition WALLET_PROJECTION_SCHEMA_VERSION :: u16 where
  "WALLET_PROJECTION_SCHEMA_VERSION = 1"

definition WALLET_PROJECTION_VALUE_ENCODING_VERSION :: u16 where
  "WALLET_PROJECTION_VALUE_ENCODING_VERSION = 2"

definition WALLET_PROJECTION_BUILD_LEASE_VERSION :: u16 where
  "WALLET_PROJECTION_BUILD_LEASE_VERSION = 1"

definition REQUIRED_CANONICAL_STORE_SCHEMA_VERSION :: u16 where
  "REQUIRED_CANONICAL_STORE_SCHEMA_VERSION = 6"

definition REQUIRED_CANONICAL_REPLAY_FORMAT_VERSION :: u32 where
  "REQUIRED_CANONICAL_REPLAY_FORMAT_VERSION = 1"

definition REQUIRED_CANONICAL_FACTS_DIGEST_VERSION :: u16 where
  "REQUIRED_CANONICAL_FACTS_DIGEST_VERSION = 1"

definition REQUIRED_CANONICAL_SEQUENCE_DIGEST_VERSION :: u16 where
  "REQUIRED_CANONICAL_SEQUENCE_DIGEST_VERSION = 1"

definition WALLET_STORE_CONTROL_KEY :: "u8 list" where
  "WALLET_STORE_CONTROL_KEY = ascii ''store_control''"

definition WALLET_PROJECTION_STORE_IDENTITY :: "u8 list" where
  "WALLET_PROJECTION_STORE_IDENTITY = ascii ''wallet''"

definition encoded_len :: "nat \<Rightarrow> string \<Rightarrow> contract_error + u32" where
  "encoded_len n field = (if n < 2 ^ 32 then Ok (of_nat n) else Err (FieldTooLong field))"

lemma encoded_len_Ok_iff:
  "encoded_len n field = Inr l \<longleftrightarrow> unat l = n"
proof -
  have "unat l < 2 ^ 32" using unsigned_less [of l, where ?'a = nat] by simp
  then show ?thesis
    by (auto simp: encoded_len_def unat_of_nat take_bit_nat_eq_self)
qed

lemma encoded_len_Ok: "n < 2 ^ 32 \<Longrightarrow> encoded_len n field = Inr (of_nat n)"
  by (simp add: encoded_len_def)

section \<open>Reading fields of a byte string\<close>

definition slice_get :: "'a list \<Rightarrow> nat \<Rightarrow> nat \<Rightarrow> 'a list option" where
  "slice_get xs start end = (if start \<le> end \<and> end \<le> length xs then Some (take (end - start) (drop start xs)) else None)"

definition fixed_array :: "u8 list \<Rightarrow> string \<Rightarrow> contract_error + 'n::len bytes" where
  "fixed_array encoded field =
     (case try_into encoded of
        Some a \<Rightarrow> Ok a
      | None \<Rightarrow> Err (DurableFieldLengthMismatch field LENGTH('n) (length encoded)))"

definition array_at :: "u8 list \<Rightarrow> nat \<Rightarrow> string \<Rightarrow> contract_error + 'n::len bytes" where
  "array_at encoded offset field =
     and_then (ok_or (checked_add_usize offset LENGTH('n)) (DurableLengthPrefixMismatch field))
       (\<lambda>end. case slice_get encoded offset end of
          None \<Rightarrow> Err (DurableValueTooShort field end (length encoded))
        | Some bs \<Rightarrow> fixed_array bs field)"

lemma fixed_array_Ok_iff: "fixed_array bs field = Inr (a :: 'n::len bytes) \<longleftrightarrow> bs = as_slice a"
  by (auto simp: fixed_array_def try_into_Some_iff split: option.splits)

lemma fixed_array_as_slice [simp]: "fixed_array (as_slice a) field = Inr a"
  by (simp add: fixed_array_Ok_iff)

lemma array_at_Ok_iff:
  "array_at encoded offset field = Inr (a :: 'n::len bytes) \<longleftrightarrow>
     offset + LENGTH('n) < 2 ^ 64 \<and> offset + LENGTH('n) \<le> length encoded \<and>
     take LENGTH('n) (drop offset encoded) = as_slice a"
proof (cases "offset + LENGTH('n) < 2 ^ 64 \<and> offset + LENGTH('n) \<le> length encoded")
  case True
  then show ?thesis
    by (simp add: array_at_def checked_add_usize_def slice_get_def fixed_array_Ok_iff)
next
  case False
  then show ?thesis
    by (cases "offset + LENGTH('n) < 2 ^ 64")
      (simp_all add: array_at_def checked_add_usize_def slice_get_def)
qed

lemma array_at_append:
  fixes a :: "'n::len bytes"
  assumes "offset = length pre" and "offset + LENGTH('n) < 2 ^ 64"
  shows "array_at (pre @ as_slice a @ post) offset field = Inr a"
  using assms by (simp add: array_at_Ok_iff)

text \<open>Cutting the front field off a byte string; used right to left to reassemble one from its fields.\<close>

lemma take_drop_append: "take n (drop k xs) @ drop (k + n) xs = drop k xs"
proof -
  have "drop (k + n) xs = drop n (drop k xs)" by (simp add: add.commute)
  then show ?thesis by (simp only: append_take_drop_id)
qed

end
