(* ===== verification/Wallet_Keys.thy ===== *)
theory Wallet_Keys
  imports Wallet_Contract
begin

text \<open>
  The durable keys of the wallet projection (\<open>rows.rs\<close>): outpoint keys, the address secondary index
  of unspent outputs and address-transaction keys. Each key is a fixed-size byte array with its
  accessors; the byte order of the keys is the order of the fields they are built from.
\<close>

type_synonym outpoint_key = "36 bytes"
type_synonym address_unspent_key = "72 bytes"
type_synonym address_transaction_key = "40 bytes"

section \<open>Outpoint keys\<close>

definition outpoint_key_new :: "transparent_outpoint \<Rightarrow> outpoint_key" where
  "outpoint_key_new op = array_of (as_slice (op_transaction_id op) @ to_be_bytes (op_output_index op))"

definition outpoint_key_decode :: "u8 list \<Rightarrow> contract_error + outpoint_key" where
  "outpoint_key_decode encoded = fixed_array encoded ''wallet outpoint key''"

definition key_outpoint :: "outpoint_key \<Rightarrow> transparent_outpoint" where
  "key_outpoint key =
     \<lparr>op_transaction_id = array_of (take 32 (as_slice key)),
      op_output_index = from_be_bytes (drop 32 (as_slice key))\<rparr>"

lemma as_slice_outpoint_key_new [simp]:
  "as_slice (outpoint_key_new op) = as_slice (op_transaction_id op) @ to_be_bytes (op_output_index op)"
  by (simp add: outpoint_key_new_def)

lemma key_outpoint_new [simp]: "key_outpoint (outpoint_key_new op) = op"
  by (simp add: key_outpoint_def)

lemma outpoint_key_new_outpoint [simp]: "outpoint_key_new (key_outpoint k) = k"
  by (subst as_slice_eq_iff [symmetric]) (simp add: key_outpoint_def to_from_be_bytes)

lemma outpoint_key_new_inject [simp]: "outpoint_key_new a = outpoint_key_new b \<longleftrightarrow> a = b"
  by (metis key_outpoint_new)

section \<open>Address keys of unspent outputs\<close>

definition address_unspent_key_parts ::
    "script_hash \<Rightarrow> block_height \<Rightarrow> transaction_id \<Rightarrow> u32 \<Rightarrow> u8 list" where
  "address_unspent_key_parts address height txid index =
     as_slice address @ to_be_bytes height @ as_slice txid @ to_be_bytes index"

definition address_unspent_first_at_or_after :: "script_hash \<Rightarrow> block_height \<Rightarrow> address_unspent_key" where
  "address_unspent_first_at_or_after address height =
     array_of (as_slice address @ to_be_bytes height @ replicate 36 0)"

definition address_unspent_key_decode :: "u8 list \<Rightarrow> contract_error + address_unspent_key" where
  "address_unspent_key_decode encoded =
     fixed_array encoded ''transparent_unspent_output_by_address key''"

definition unspent_key_address_script_hash :: "address_unspent_key \<Rightarrow> script_hash" where
  "unspent_key_address_script_hash k = array_of (take 32 (as_slice k))"

definition unspent_key_creation_height :: "address_unspent_key \<Rightarrow> block_height" where
  "unspent_key_creation_height k = from_be_bytes (take 4 (drop 32 (as_slice k)))"

definition unspent_key_outpoint :: "address_unspent_key \<Rightarrow> transparent_outpoint" where
  "unspent_key_outpoint k =
     \<lparr>op_transaction_id = array_of (take 32 (drop 36 (as_slice k))),
      op_output_index = from_be_bytes (drop 68 (as_slice k))\<rparr>"

section \<open>Address-transaction keys\<close>

definition address_transaction_key_new ::
    "script_hash \<Rightarrow> block_height \<Rightarrow> u32 \<Rightarrow> address_transaction_key" where
  "address_transaction_key_new address height tx_index =
     array_of (as_slice address @ to_be_bytes height @ to_be_bytes tx_index)"

definition address_transaction_first_at_or_after ::
    "script_hash \<Rightarrow> block_height \<Rightarrow> address_transaction_key" where
  "address_transaction_first_at_or_after address height = address_transaction_key_new address height 0"

definition address_transaction_key_decode :: "u8 list \<Rightarrow> contract_error + address_transaction_key" where
  "address_transaction_key_decode encoded = fixed_array encoded ''transparent_address_transaction key''"

definition transaction_key_address_script_hash :: "address_transaction_key \<Rightarrow> script_hash" where
  "transaction_key_address_script_hash k = array_of (take 32 (as_slice k))"

definition transaction_key_block_height :: "address_transaction_key \<Rightarrow> block_height" where
  "transaction_key_block_height k = from_be_bytes (take 4 (drop 32 (as_slice k)))"

definition transaction_key_tx_index :: "address_transaction_key \<Rightarrow> u32" where
  "transaction_key_tx_index k = from_be_bytes (drop 36 (as_slice k))"

lemma as_slice_address_transaction_key_new [simp]:
  "as_slice (address_transaction_key_new address height tx_index) =
     as_slice address @ to_be_bytes height @ to_be_bytes tx_index"
  by (simp add: address_transaction_key_new_def)

lemma address_transaction_key_accessors [simp]:
  "transaction_key_address_script_hash (address_transaction_key_new a h i) = a"
  "transaction_key_block_height (address_transaction_key_new a h i) = h"
  "transaction_key_tx_index (address_transaction_key_new a h i) = i"
  by (simp_all add: transaction_key_address_script_hash_def transaction_key_block_height_def
      transaction_key_tx_index_def)

lemma address_transaction_key_new_accessors [simp]:
  "address_transaction_key_new (transaction_key_address_script_hash k)
     (transaction_key_block_height k) (transaction_key_tx_index k) = k"
proof -
  have "take 4 (drop 32 (as_slice k)) @ drop 36 (as_slice k) = drop 32 (as_slice k)"
    using take_drop_append [of 4 32 "as_slice k"] by simp
  then show ?thesis
    by (subst as_slice_eq_iff [symmetric])
      (simp add: transaction_key_address_script_hash_def transaction_key_block_height_def
        transaction_key_tx_index_def to_from_be_bytes)
qed

lemma address_transaction_key_new_inject [simp]:
  "address_transaction_key_new a h i = address_transaction_key_new a' h' i' \<longleftrightarrow>
     a = a' \<and> h = h' \<and> i = i'"
  by (metis address_transaction_key_accessors)

section \<open>Key order\<close>

lemma address_transaction_key_less_iff:
  "address_transaction_key_new a h i < address_transaction_key_new a' h' i' \<longleftrightarrow>
     a < a' \<or> a = a' \<and> (h < h' \<or> h = h' \<and> i < i')"
  by (simp add: less_bytes_def lex_append_same_length)

lemma outpoint_key_less_iff:
  "outpoint_key_new a < outpoint_key_new b \<longleftrightarrow>
     op_transaction_id a < op_transaction_id b \<or>
     op_transaction_id a = op_transaction_id b \<and> op_output_index a < op_output_index b"
  by (simp add: less_bytes_def lex_append_same_length)

lemma address_transaction_key_cases:
  obtains a h i where "k = address_transaction_key_new a h i"
  using address_transaction_key_new_accessors [of k] by metis

text \<open>
  C34: \<open>first_at_or_after\<close> is the exact lower bound of an address's transactions from a height on. A
  durable key sorts at or after the bound of an address and height, and still belongs to that
  address, exactly when its own block height is at least that height.
\<close>

theorem address_transaction_lower_bound:
  "address_transaction_first_at_or_after address height \<le> k \<and>
     transaction_key_address_script_hash k = address \<longleftrightarrow>
   transaction_key_address_script_hash k = address \<and> height \<le> transaction_key_block_height k"
proof (cases k rule: address_transaction_key_cases)
  case (1 a h i)
  then show ?thesis
    by (auto simp: address_transaction_first_at_or_after_def not_less [symmetric]
        address_transaction_key_less_iff)
qed

end
