(* ===== verification/Wallet_Rows.thy ===== *)
theory Wallet_Rows
  imports Wallet_Keys
begin

text \<open>
  The durable rows of the wallet projection (\<open>rows.rs\<close>): unspent and spent outputs, address
  transactions, address balances and reorg undo records, each with its encoder and its decoder. Every
  row type interprets one interface, \<open>row_codec\<close>: decoding inverts encoding, and a byte string that
  decodes is the encoding of what it decodes to.
\<close>

section \<open>The interface of a row codec\<close>

locale row_codec =
  fixes encode :: "'a \<Rightarrow> contract_error + u8 list"
    and decode :: "'k \<Rightarrow> u8 list \<Rightarrow> contract_error + 'a"
    and key_of :: "'a \<Rightarrow> 'k"
    and valid :: "'a \<Rightarrow> bool"
  assumes decode_encode: "valid a \<Longrightarrow> encode a = Inr bs \<Longrightarrow> decode (key_of a) bs = Inr a"
    and encode_decode: "decode k bs = Inr a \<Longrightarrow> valid a \<and> key_of a = k \<and> encode a = Inr bs"
begin

lemma decode_Ok_iff: "decode k bs = Inr a \<longleftrightarrow> valid a \<and> key_of a = k \<and> encode a = Inr bs"
  using decode_encode encode_decode by blast

lemma decode_inject: "decode k bs = Inr a \<Longrightarrow> decode k bs' = Inr a \<Longrightarrow> bs = bs'"
  by (metis encode_decode sum.inject(2))

lemma encode_inject:
  "valid a \<Longrightarrow> valid b \<Longrightarrow> key_of a = key_of b \<Longrightarrow> encode a = Inr bs \<Longrightarrow> encode b = Inr bs \<Longrightarrow> a = b"
  by (metis decode_encode sum.inject(2))

end

section \<open>Unspent outputs\<close>

record transaction_position =
  pos_transaction_id :: transaction_id
  pos_tx_index_in_block :: u32
  pos_block :: block_id

record unspent_output =
  uo_outpoint :: transparent_outpoint
  uo_address_script_hash :: script_hash
  uo_value_zat :: u64
  uo_script_pub_key :: "u8 list"
  uo_created_at :: transaction_position

definition unspent_output_new ::
    "transparent_outpoint \<Rightarrow> script_hash \<Rightarrow> u64 \<Rightarrow> u8 list \<Rightarrow> transaction_position \<Rightarrow>
       contract_error + unspent_output" where
  "unspent_output_new outpoint address value_zat script created_at =
     (if op_transaction_id outpoint \<noteq> pos_transaction_id created_at then Err OutputCreatorMismatch
      else Ok \<lparr>uo_outpoint = outpoint, uo_address_script_hash = address, uo_value_zat = value_zat,
               uo_script_pub_key = script, uo_created_at = created_at\<rparr>)"

definition UNSPENT_OUTPUT_FIXED_VALUE_LEN :: nat where
  "UNSPENT_OUTPUT_FIXED_VALUE_LEN = 84"

definition unspent_encode_value :: "unspent_output \<Rightarrow> contract_error + u8 list" where
  "unspent_encode_value u =
     and_then (encoded_len (length (uo_script_pub_key u)) ''unspent output script'')
       (\<lambda>script_len. Ok (
          as_slice (uo_address_script_hash u) @
          to_be_bytes (uo_value_zat u) @
          to_be_bytes (id_height (pos_block (uo_created_at u))) @
          as_slice (id_hash (pos_block (uo_created_at u))) @
          to_be_bytes (pos_tx_index_in_block (uo_created_at u)) @
          to_be_bytes script_len @
          uo_script_pub_key u))"

definition u32_at :: "u8 list \<Rightarrow> nat \<Rightarrow> string \<Rightarrow> contract_error + u32" where
  "u32_at encoded offset field =
     and_then (array_at encoded offset field :: contract_error + 4 bytes)
       (\<lambda>a. Ok (from_be_bytes (as_slice a)))"

definition u64_at :: "u8 list \<Rightarrow> nat \<Rightarrow> string \<Rightarrow> contract_error + u64" where
  "u64_at encoded offset field =
     and_then (array_at encoded offset field :: contract_error + 8 bytes)
       (\<lambda>a. Ok (from_be_bytes (as_slice a)))"

definition u16_at :: "u8 list \<Rightarrow> nat \<Rightarrow> string \<Rightarrow> contract_error + u16" where
  "u16_at encoded offset field =
     and_then (array_at encoded offset field :: contract_error + 2 bytes)
       (\<lambda>a. Ok (from_be_bytes (as_slice a)))"

definition unspent_decode_value :: "outpoint_key \<Rightarrow> u8 list \<Rightarrow> contract_error + unspent_output" where
  "unspent_decode_value key encoded =
     (if length encoded < UNSPENT_OUTPUT_FIXED_VALUE_LEN then
        Err (DurableValueTooShort ''transparent_unspent_output value''
               UNSPENT_OUTPUT_FIXED_VALUE_LEN (length encoded))
      else
        and_then (u32_at encoded 80 ''transparent_unspent_output script length'') (\<lambda>script_len.
        and_then (ok_or (checked_add_usize UNSPENT_OUTPUT_FIXED_VALUE_LEN (unat script_len))
                    (DurableLengthPrefixMismatch ''transparent_unspent_output value''))
          (\<lambda>expected_len.
        if length encoded \<noteq> expected_len then
          Err (DurableLengthPrefixMismatch ''transparent_unspent_output value'')
        else
          let outpoint = key_outpoint key in
          and_then (array_at encoded 0 ''transparent_unspent_output address'') (\<lambda>address.
          and_then (u64_at encoded 32 ''transparent_unspent_output value'') (\<lambda>value_zat.
          and_then (u32_at encoded 76 ''transparent_unspent_output transaction index'') (\<lambda>tx_index.
          and_then (u32_at encoded 40 ''transparent_unspent_output creation height'') (\<lambda>height.
          and_then (array_at encoded 44 ''transparent_unspent_output creation block hash'') (\<lambda>hash.
          unspent_output_new outpoint address value_zat
            (drop UNSPENT_OUTPUT_FIXED_VALUE_LEN encoded)
            \<lparr>pos_transaction_id = op_transaction_id outpoint, pos_tx_index_in_block = tx_index,
             pos_block = \<lparr>id_height = height, id_hash = hash\<rparr>\<rparr>))))))))"

definition output_commitment_element :: "network \<Rightarrow> unspent_output \<Rightarrow> commitment_element" where
  "output_commitment_element network u =
     \<lparr>element_network_id = network_id network, element_outpoint = uo_outpoint u,
      element_value_zat = uo_value_zat u, element_script_pub_key = uo_script_pub_key u,
      element_block_height = id_height (pos_block (uo_created_at u))\<rparr>"

definition address_unspent_key_new :: "unspent_output \<Rightarrow> address_unspent_key" where
  "address_unspent_key_new u =
     array_of (as_slice (uo_address_script_hash u) @
               to_be_bytes (id_height (pos_block (uo_created_at u))) @
               as_slice (op_transaction_id (uo_outpoint u)) @
               to_be_bytes (op_output_index (uo_outpoint u)))"

text \<open>What \<open>WalletUnspentOutput::new\<close> establishes.\<close>

definition unspent_valid :: "unspent_output \<Rightarrow> bool" where
  "unspent_valid u \<longleftrightarrow> op_transaction_id (uo_outpoint u) = pos_transaction_id (uo_created_at u)"

lemma fixed_array_length [simp]:
  "length bs = LENGTH('n) \<Longrightarrow> fixed_array bs field = Inr (array_of bs :: 'n::len bytes)"
  by (simp add: fixed_array_Ok_iff)

lemma be_field_Ok_iff:
  assumes "8 * LENGTH('n) = LENGTH('w)"
  shows "and_then (array_at encoded offset field :: contract_error + 'n::len bytes)
           (\<lambda>a. Inr (from_be_bytes (as_slice a) :: 'w::len word)) = Inr v \<longleftrightarrow>
         offset + LENGTH('n) < 2 ^ 64 \<and> offset + LENGTH('n) \<le> length encoded \<and>
         take LENGTH('n) (drop offset encoded) = to_be_bytes v"
proof -
  have len: "LENGTH('w) div 8 = LENGTH('n)" "8 dvd LENGTH('w)" using assms by presburger+
  have "from_be_bytes (as_slice a) = v \<longleftrightarrow> as_slice a = to_be_bytes v" for a :: "'n bytes"
    using from_to_be_bytes [where 'a = 'w] to_from_be_bytes [where 'a = 'w] len by (metis length_as_slice)
  moreover have "\<exists>a :: 'n bytes. as_slice a = to_be_bytes v"
    by (rule exI [of _ "array_of (to_be_bytes v)"]) (simp add: len)
  ultimately show ?thesis
    unfolding and_then_Ok_iff array_at_Ok_iff by (simp only: sum.inject) metis
qed

lemma be_at_Ok_iff:
  "u16_at encoded offset field = Inr h \<longleftrightarrow>
     offset + 2 < 2 ^ 64 \<and> offset + 2 \<le> length encoded \<and> take 2 (drop offset encoded) = to_be_bytes h"
  "u32_at encoded offset field = Inr w \<longleftrightarrow>
     offset + 4 < 2 ^ 64 \<and> offset + 4 \<le> length encoded \<and> take 4 (drop offset encoded) = to_be_bytes w"
  "u64_at encoded offset field = Inr v \<longleftrightarrow>
     offset + 8 < 2 ^ 64 \<and> offset + 8 \<le> length encoded \<and> take 8 (drop offset encoded) = to_be_bytes v"
  unfolding u16_at_def u32_at_def u64_at_def by (subst be_field_Ok_iff; simp)+

lemma as_slice_address_unspent_key_new [simp]:
  "as_slice (address_unspent_key_new u) =
     as_slice (uo_address_script_hash u) @ to_be_bytes (id_height (pos_block (uo_created_at u))) @
     as_slice (op_transaction_id (uo_outpoint u)) @ to_be_bytes (op_output_index (uo_outpoint u))"
  by (simp add: address_unspent_key_new_def)

text \<open>
  An encoded row seen as its slices. A concatenation of fields of known length is the same as one
  equation per slice, so an encoder and the decoder that reads the slices meet in these equations.
\<close>

definition unspent_slices :: "unspent_output \<Rightarrow> u8 list \<Rightarrow> bool" where
  "unspent_slices u bs \<longleftrightarrow>
     take 32 bs = as_slice (uo_address_script_hash u) \<and>
     take 8 (drop 32 bs) = to_be_bytes (uo_value_zat u) \<and>
     take 4 (drop 40 bs) = to_be_bytes (id_height (pos_block (uo_created_at u))) \<and>
     take 32 (drop 44 bs) = as_slice (id_hash (pos_block (uo_created_at u))) \<and>
     take 4 (drop 76 bs) = to_be_bytes (pos_tx_index_in_block (uo_created_at u)) \<and>
     take 4 (drop 80 bs) = to_be_bytes (of_nat (length (uo_script_pub_key u)) :: u32) \<and>
     drop 84 bs = uo_script_pub_key u \<and>
     length bs = 84 + length (uo_script_pub_key u) \<and>
     length (uo_script_pub_key u) < 2 ^ 32"

lemma eq_append_slices: "zs = xs @ ys \<longleftrightarrow> take (length xs) zs = xs \<and> drop (length xs) zs = ys"
  by (metis append_eq_conv_conj)

lemma unat_u32_less [simp]: "unat (x :: u32) < 4294967296"
  using unsigned_less [of x, where ?'a = nat] by simp

lemma encoded_len_iff: "encoded_len n field = Inr l \<longleftrightarrow> n < 2 ^ 32 \<and> l = of_nat n"
  by (auto simp: encoded_len_def)

lemma unspent_encode_Ok_iff: "unspent_encode_value u = Inr bs \<longleftrightarrow> unspent_slices u bs"
proof
  assume "unspent_encode_value u = Inr bs"
  then have "length (uo_script_pub_key u) < 2 ^ 32" and bs: "bs =
      as_slice (uo_address_script_hash u) @ to_be_bytes (uo_value_zat u) @
      to_be_bytes (id_height (pos_block (uo_created_at u))) @
      as_slice (id_hash (pos_block (uo_created_at u))) @
      to_be_bytes (pos_tx_index_in_block (uo_created_at u)) @
      to_be_bytes (of_nat (length (uo_script_pub_key u)) :: u32) @ uo_script_pub_key u"
    by (auto simp: unspent_encode_value_def and_then_Ok_iff encoded_len_iff)
  then show "unspent_slices u bs" by (simp add: unspent_slices_def)
next
  assume *: "unspent_slices u bs"
  have "bs = as_slice (uo_address_script_hash u) @ to_be_bytes (uo_value_zat u) @
      to_be_bytes (id_height (pos_block (uo_created_at u))) @
      as_slice (id_hash (pos_block (uo_created_at u))) @
      to_be_bytes (pos_tx_index_in_block (uo_created_at u)) @
      to_be_bytes (of_nat (length (uo_script_pub_key u)) :: u32) @ uo_script_pub_key u"
    using * by (simp add: eq_append_slices unspent_slices_def)
  with * show "unspent_encode_value u = Inr bs"
    by (simp add: unspent_encode_value_def encoded_len_def unspent_slices_def)
qed

lemma unspent_decode_Ok_iff:
  "unspent_decode_value key bs = Inr u \<longleftrightarrow>
     unspent_valid u \<and> outpoint_key_new (uo_outpoint u) = key \<and> unspent_slices u bs"
proof
  assume *: "unspent_decode_value key bs = Inr u"
  show "unspent_valid u \<and> outpoint_key_new (uo_outpoint u) = key \<and> unspent_slices u bs"
    using *
    by (auto simp: unspent_decode_value_def UNSPENT_OUTPUT_FIXED_VALUE_LEN_def and_then_Ok_iff
        be_at_Ok_iff array_at_Ok_iff checked_add_usize_def unspent_output_new_def Let_def
        unspent_valid_def unspent_slices_def split: if_splits)
next
  assume *: "unspent_valid u \<and> outpoint_key_new (uo_outpoint u) = key \<and> unspent_slices u bs"
  have "84 \<le> length bs" "84 + length (uo_script_pub_key u) < 2 ^ 64"
    using * by (simp_all add: unspent_slices_def)
  with * show "unspent_decode_value key bs = Inr u"
    by (auto simp: unspent_decode_value_def UNSPENT_OUTPUT_FIXED_VALUE_LEN_def and_then_Ok_iff
        be_at_Ok_iff array_at_Ok_iff checked_add_usize_def unspent_output_new_def Let_def
        unspent_valid_def unspent_slices_def unat_of_nat take_bit_nat_eq_self)
qed

interpretation unspent: row_codec unspent_encode_value unspent_decode_value
  "\<lambda>u. outpoint_key_new (uo_outpoint u)" unspent_valid
  by unfold_locales (simp_all add: unspent_encode_Ok_iff unspent_decode_Ok_iff)

section \<open>Spent outputs\<close>

record spent_output =
  so_output :: unspent_output
  so_spent_at :: transaction_position
  so_input_index :: u32

definition SPENT_OUTPUT_TRAILER_LEN :: nat where
  "SPENT_OUTPUT_TRAILER_LEN = 76"

definition spent_encode_value :: "spent_output \<Rightarrow> contract_error + u8 list" where
  "spent_encode_value s =
     and_then (unspent_encode_value (so_output s)) (\<lambda>bs. Ok (
       bs @
       as_slice (pos_transaction_id (so_spent_at s)) @
       to_be_bytes (so_input_index s) @
       to_be_bytes (pos_tx_index_in_block (so_spent_at s)) @
       to_be_bytes (id_height (pos_block (so_spent_at s))) @
       as_slice (id_hash (pos_block (so_spent_at s)))))"

definition spent_decode_value :: "outpoint_key \<Rightarrow> u8 list \<Rightarrow> contract_error + spent_output" where
  "spent_decode_value key encoded =
     (let minimum_len = UNSPENT_OUTPUT_FIXED_VALUE_LEN + SPENT_OUTPUT_TRAILER_LEN;
          prefix_mismatch = DurableLengthPrefixMismatch ''transparent_spent_output value''
      in
      if length encoded < minimum_len then
        Err (DurableValueTooShort ''transparent_spent_output value'' minimum_len (length encoded))
      else
        and_then (u32_at encoded 80 ''transparent_spent_output script length'') (\<lambda>script_len.
        and_then (ok_or (checked_add_usize UNSPENT_OUTPUT_FIXED_VALUE_LEN (unat script_len))
                    prefix_mismatch) (\<lambda>unspent_len.
        and_then (ok_or (checked_add_usize unspent_len SPENT_OUTPUT_TRAILER_LEN) prefix_mismatch)
          (\<lambda>expected_len.
        if length encoded \<noteq> expected_len then Err prefix_mismatch
        else
          and_then (unspent_decode_value key (take unspent_len encoded)) (\<lambda>output.
          and_then (array_at encoded unspent_len ''transparent_spent_output transaction id'') (\<lambda>txid.
          and_then (u32_at encoded (unspent_len + 36) ''transparent_spent_output transaction index'') (\<lambda>tx_index.
          and_then (u32_at encoded (unspent_len + 40) ''transparent_spent_output height'') (\<lambda>height.
          and_then (array_at encoded (unspent_len + 44) ''transparent_spent_output block hash'') (\<lambda>hash.
          and_then (u32_at encoded (unspent_len + 32) ''transparent_spent_output input index'') (\<lambda>input_index.
          Ok \<lparr>so_output = output,
              so_spent_at =
                \<lparr>pos_transaction_id = txid, pos_tx_index_in_block = tx_index,
                 pos_block = \<lparr>id_height = height, id_hash = hash\<rparr>\<rparr>,
              so_input_index = input_index\<rparr>))))))))))"

definition spent_slices :: "spent_output \<Rightarrow> u8 list \<Rightarrow> bool" where
  "spent_slices s bs \<longleftrightarrow>
     (let n = 84 + length (uo_script_pub_key (so_output s)) in
      unspent_slices (so_output s) (take n bs) \<and>
      take 32 (drop n bs) = as_slice (pos_transaction_id (so_spent_at s)) \<and>
      take 4 (drop (32 + n) bs) = to_be_bytes (so_input_index s) \<and>
      take 4 (drop (36 + n) bs) = to_be_bytes (pos_tx_index_in_block (so_spent_at s)) \<and>
      take 4 (drop (40 + n) bs) = to_be_bytes (id_height (pos_block (so_spent_at s))) \<and>
      drop (44 + n) bs = as_slice (id_hash (pos_block (so_spent_at s))) \<and>
      length bs = n + 76)"

lemma unspent_slices_length: "unspent_slices u bs \<Longrightarrow> length bs = 84 + length (uo_script_pub_key u)"
  by (simp add: unspent_slices_def)

lemma spent_encode_Ok_iff: "spent_encode_value s = Inr bs \<longleftrightarrow> spent_slices s bs"
proof
  assume "spent_encode_value s = Inr bs"
  then obtain us where us: "unspent_slices (so_output s) us" and bs: "bs = us @
      as_slice (pos_transaction_id (so_spent_at s)) @ to_be_bytes (so_input_index s) @
      to_be_bytes (pos_tx_index_in_block (so_spent_at s)) @
      to_be_bytes (id_height (pos_block (so_spent_at s))) @ as_slice (id_hash (pos_block (so_spent_at s)))"
    by (auto simp: spent_encode_value_def and_then_Ok_iff unspent_encode_Ok_iff)
  have "length us = 84 + length (uo_script_pub_key (so_output s))" using us by (rule unspent_slices_length)
  with us show "spent_slices s bs" by (simp add: spent_slices_def bs Let_def)
next
  assume *: "spent_slices s bs"
  let ?n = "84 + length (uo_script_pub_key (so_output s))"
  have "drop ?n bs = as_slice (pos_transaction_id (so_spent_at s)) @ to_be_bytes (so_input_index s) @
      to_be_bytes (pos_tx_index_in_block (so_spent_at s)) @
      to_be_bytes (id_height (pos_block (so_spent_at s))) @ as_slice (id_hash (pos_block (so_spent_at s)))"
    using * by (simp add: eq_append_slices spent_slices_def Let_def)
  moreover have "unspent_encode_value (so_output s) = Inr (take ?n bs)"
    using * by (simp add: unspent_encode_Ok_iff spent_slices_def Let_def)
  ultimately show "spent_encode_value s = Inr bs"
    by (simp add: spent_encode_value_def) (metis append_take_drop_id)
qed

lemma spent_decode_Ok_iff:
  "spent_decode_value key bs = Inr s \<longleftrightarrow>
     unspent_valid (so_output s) \<and> outpoint_key_new (uo_outpoint (so_output s)) = key \<and> spent_slices s bs"
proof
  assume *: "spent_decode_value key bs = Inr s"
  then obtain l where l: "length bs = 160 + unat (l :: u32)" "take 4 (drop 80 bs) = to_be_bytes l"
      "unspent_decode_value key (take (84 + unat l) bs) = Inr (so_output s)"
      "take 32 (drop (84 + unat l) bs) = as_slice (pos_transaction_id (so_spent_at s))"
      "take 4 (drop (116 + unat l) bs) = to_be_bytes (so_input_index s)"
      "take 4 (drop (120 + unat l) bs) = to_be_bytes (pos_tx_index_in_block (so_spent_at s))"
      "take 4 (drop (124 + unat l) bs) = to_be_bytes (id_height (pos_block (so_spent_at s)))"
      "take 32 (drop (128 + unat l) bs) = as_slice (id_hash (pos_block (so_spent_at s)))"
    by (auto simp: spent_decode_value_def UNSPENT_OUTPUT_FIXED_VALUE_LEN_def
        SPENT_OUTPUT_TRAILER_LEN_def and_then_Ok_iff be_at_Ok_iff array_at_Ok_iff
        checked_add_usize_def Let_def split: if_splits)
  have u: "unspent_valid (so_output s)" "outpoint_key_new (uo_outpoint (so_output s)) = key"
      "unspent_slices (so_output s) (take (84 + unat l) bs)"
    using l(3) by (simp_all add: unspent_decode_Ok_iff)
  have "length (uo_script_pub_key (so_output s)) = unat l"
    using unspent_slices_length [OF u(3)] l(1) by simp
  with l u show "unspent_valid (so_output s) \<and> outpoint_key_new (uo_outpoint (so_output s)) = key \<and>
      spent_slices s bs"
    by (simp add: spent_slices_def)
next
  assume *: "unspent_valid (so_output s) \<and> outpoint_key_new (uo_outpoint (so_output s)) = key \<and>
      spent_slices s bs"
  let ?l = "of_nat (length (uo_script_pub_key (so_output s))) :: u32"
  have bound: "length (uo_script_pub_key (so_output s)) < 2 ^ 32"
    using * by (simp add: spent_slices_def unspent_slices_def Let_def)
  then have l: "unat ?l = length (uo_script_pub_key (so_output s))"
    by (simp add: unat_of_nat take_bit_nat_eq_self)
  have "take 4 (drop 80 (take (84 + unat ?l) bs)) = to_be_bytes ?l"
    using * by (simp only: l) (simp add: spent_slices_def unspent_slices_def Let_def)
  then have "take 4 (drop 80 bs) = to_be_bytes ?l" by (simp add: drop_take min_def)
  moreover have "unspent_decode_value key (take (84 + unat ?l) bs) = Inr (so_output s)"
    using * by (simp only: l) (simp add: unspent_decode_Ok_iff spent_slices_def Let_def)
  moreover have "length bs = 160 + unat ?l"
    using * by (simp only: l) (simp add: spent_slices_def Let_def)
  ultimately show "spent_decode_value key bs = Inr s"
    using * bound
    by (auto simp: spent_decode_value_def UNSPENT_OUTPUT_FIXED_VALUE_LEN_def l
        SPENT_OUTPUT_TRAILER_LEN_def and_then_Ok_iff be_at_Ok_iff array_at_Ok_iff
        checked_add_usize_def Let_def spent_slices_def)
qed

interpretation spent: row_codec spent_encode_value spent_decode_value
  "\<lambda>s. outpoint_key_new (uo_outpoint (so_output s))" "\<lambda>s. unspent_valid (so_output s)"
  by unfold_locales (simp_all add: spent_encode_Ok_iff spent_decode_Ok_iff)

section \<open>Address transactions and balances\<close>

record address_transaction =
  at_key :: address_transaction_key
  at_transaction_id :: transaction_id
  at_block_hash :: block_hash

definition address_transaction_encode_value :: "address_transaction \<Rightarrow> 64 bytes" where
  "address_transaction_encode_value t =
     array_of (as_slice (at_transaction_id t) @ as_slice (at_block_hash t))"

definition address_transaction_decode_value ::
    "address_transaction_key \<Rightarrow> u8 list \<Rightarrow> contract_error + address_transaction" where
  "address_transaction_decode_value key encoded =
     and_then (fixed_array encoded ''transparent_address_transaction value'' :: contract_error + 64 bytes)
       (\<lambda>a. Ok \<lparr>at_key = key, at_transaction_id = array_of (take 32 (as_slice a)),
                at_block_hash = array_of (drop 32 (as_slice a))\<rparr>)"

record address_balance =
  ab_address_script_hash :: script_hash
  ab_balance_zat :: u64

definition balance_encode_key :: "address_balance \<Rightarrow> 32 bytes" where
  "balance_encode_key b = ab_address_script_hash b"

definition balance_encode_value :: "address_balance \<Rightarrow> 8 bytes" where
  "balance_encode_value b = array_of (to_be_bytes (ab_balance_zat b))"

definition balance_decode :: "u8 list \<Rightarrow> u8 list \<Rightarrow> contract_error + address_balance" where
  "balance_decode key encoded =
     and_then (fixed_array key ''transparent_address_balance key'' :: contract_error + 32 bytes) (\<lambda>k.
     and_then (fixed_array encoded ''transparent_address_balance value'' :: contract_error + 8 bytes) (\<lambda>v.
     Ok \<lparr>ab_address_script_hash = k, ab_balance_zat = from_be_bytes (as_slice v)\<rparr>))"

interpretation address_tx: row_codec "\<lambda>t. Inr (as_slice (address_transaction_encode_value t))"
  address_transaction_decode_value at_key "\<lambda>_. True"
proof
  fix a bs
  assume "Inr (as_slice (address_transaction_encode_value a)) = (Inr bs :: contract_error + u8 list)"
  then have "bs = as_slice (address_transaction_encode_value a)" by simp
  then show "address_transaction_decode_value (at_key a) bs = Inr a"
    by (simp add: address_transaction_decode_value_def address_transaction_encode_value_def)
next
  fix k bs a
  assume "address_transaction_decode_value k bs = Inr a"
  then obtain v :: "64 bytes" where "bs = as_slice v" and
    "a = \<lparr>at_key = k, at_transaction_id = array_of (take 32 bs), at_block_hash = array_of (drop 32 bs)\<rparr>"
    by (auto simp: address_transaction_decode_value_def and_then_Ok_iff fixed_array_Ok_iff)
  then show "True \<and> at_key a = k \<and> Inr (as_slice (address_transaction_encode_value a)) = (Inr bs :: contract_error + u8 list)"
    by (simp add: address_transaction_encode_value_def)
qed

interpretation balance: row_codec "\<lambda>b. Inr (as_slice (balance_encode_value b))"
  balance_decode "\<lambda>b. as_slice (balance_encode_key b)" "\<lambda>_. True"
proof
  fix a bs
  assume "Inr (as_slice (balance_encode_value a)) = (Inr bs :: contract_error + u8 list)"
  then show "balance_decode (as_slice (balance_encode_key a)) bs = Inr a"
    by (auto simp: balance_decode_def balance_encode_value_def balance_encode_key_def)
next
  fix k bs a
  assume "balance_decode k bs = Inr a"
  then show "True \<and> as_slice (balance_encode_key a) = k \<and>
      Inr (as_slice (balance_encode_value a)) = (Inr bs :: contract_error + u8 list)"
    by (auto simp: balance_decode_def balance_encode_value_def balance_encode_key_def and_then_Ok_iff
        fixed_array_Ok_iff to_from_be_bytes)
qed

section \<open>Reorg undo records\<close>

record reorg_undo =
  ru_block :: block_id
  ru_parent_hash :: block_hash
  ru_source_sequence_digest_before :: sequence_digest
  ru_source_sequence_digest_after :: sequence_digest
  ru_created_outpoints :: "outpoint_key list"
  ru_spent_outpoints :: "outpoint_key list"
  ru_address_transaction_keys :: "address_transaction_key list"

definition undo_encode_key :: "reorg_undo \<Rightarrow> 4 bytes" where
  "undo_encode_key undo = array_of (to_be_bytes (id_height (ru_block undo)))"

definition validate_source_sequence_bounds :: "reorg_undo \<Rightarrow> contract_error + unit" where
  "validate_source_sequence_bounds undo =
     (if sd_version (ru_source_sequence_digest_before undo) \<noteq> SequenceDigestV1 \<or>
         sd_version (ru_source_sequence_digest_after undo) \<noteq> SequenceDigestV1
      then Err ReorgUndoSourceSequenceVersionMismatch
      else if checked_add (sd_block_count (ru_source_sequence_digest_before undo)) 1 \<noteq>
              Some (sd_block_count (ru_source_sequence_digest_after undo))
      then Err ReorgUndoSourceSequenceLengthMismatch
      else Ok ())"

definition validate_strict_key_order :: "'k::linorder list \<Rightarrow> string \<Rightarrow> contract_error + unit" where
  "validate_strict_key_order keys field =
     (if list_ex (\<lambda>(a, b). a \<ge> b) (zip keys (tl keys)) then Err (DurableKeyOrder field) else Ok ())"

definition encode_source_sequence_digest :: "sequence_digest \<Rightarrow> u8 list \<Rightarrow> u8 list" where
  "encode_source_sequence_digest digest bs =
     bs @ to_be_bytes (sequence_digest_version_value (sd_version digest)) @
     to_be_bytes (sd_block_count digest) @ as_slice (sd_bytes digest)"

definition undo_encode_value :: "reorg_undo \<Rightarrow> contract_error + u8 list" where
  "undo_encode_value undo =
     and_then (validate_source_sequence_bounds undo) (\<lambda>_.
     and_then (validate_strict_key_order (ru_created_outpoints undo) ''reorg_undo created outpoint list'') (\<lambda>_.
     and_then (validate_strict_key_order (ru_spent_outpoints undo) ''reorg_undo spent outpoint list'') (\<lambda>_.
     and_then (validate_strict_key_order (ru_address_transaction_keys undo)
                 ''reorg_undo address transaction list'') (\<lambda>_.
     and_then (encoded_len (length (ru_created_outpoints undo)) ''created outpoint list'') (\<lambda>created_count.
     and_then (encoded_len (length (ru_spent_outpoints undo)) ''spent outpoint list'') (\<lambda>spent_count.
     and_then (encoded_len (length (ru_address_transaction_keys undo)) ''address transaction key list'')
       (\<lambda>address_transaction_count.
     Ok (let bs = as_slice (id_hash (ru_block undo)) @ as_slice (ru_parent_hash undo);
             bs = encode_source_sequence_digest (ru_source_sequence_digest_before undo) bs;
             bs = encode_source_sequence_digest (ru_source_sequence_digest_after undo) bs
         in bs @
            to_be_bytes created_count @ concat (map as_slice (ru_created_outpoints undo)) @
            to_be_bytes spent_count @ concat (map as_slice (ru_spent_outpoints undo)) @
            to_be_bytes address_transaction_count @
            concat (map as_slice (ru_address_transaction_keys undo)))))))))) "

definition decode_source_sequence_digest ::
    "u8 list \<Rightarrow> nat \<Rightarrow> string \<Rightarrow> contract_error + sequence_digest \<times> nat" where
  "decode_source_sequence_digest encoded offset field =
     and_then (u16_at encoded offset field) (\<lambda>version.
     and_then (ok_or (checked_add_usize offset 2) (DurableLengthPrefixMismatch field)) (\<lambda>offset.
     if version \<noteq> sequence_digest_version_value SequenceDigestV1 then
       Err ReorgUndoSourceSequenceVersionMismatch
     else
       and_then (u64_at encoded offset field) (\<lambda>block_count.
       and_then (ok_or (checked_add_usize offset 8) (DurableLengthPrefixMismatch field)) (\<lambda>offset.
       and_then (array_at encoded offset field) (\<lambda>digest.
       and_then (ok_or (checked_add_usize offset 32) (DurableLengthPrefixMismatch field)) (\<lambda>offset.
       Ok (\<lparr>sd_version = SequenceDigestV1, sd_block_count = block_count, sd_bytes = digest\<rparr>, offset)))))))"

definition decode_count :: "u8 list \<Rightarrow> nat \<Rightarrow> string \<Rightarrow> contract_error + nat \<times> nat" where
  "decode_count encoded offset field =
     and_then (u32_at encoded offset field) (\<lambda>count.
     and_then (ok_or (checked_add_usize offset 4) (DurableLengthPrefixMismatch field)) (\<lambda>offset.
     Ok (unat count, offset)))"

function chunks_exact :: "nat \<Rightarrow> 'a list \<Rightarrow> 'a list list" where
  "chunks_exact n xs =
     (if n = 0 \<or> length xs < n then [] else take n xs # chunks_exact n (drop n xs))"
  by auto

termination
  by (relation "measure (\<lambda>(n, xs). length xs)") auto

declare chunks_exact.simps [simp del]

definition push_decoded ::
    "(u8 list \<Rightarrow> contract_error + 'k) \<Rightarrow> u8 list \<Rightarrow> 'k list \<Rightarrow> contract_error + 'k list" where
  "push_decoded decode chunk keys = and_then (decode chunk) (\<lambda>key. Ok (keys @ [key]))"

definition decode_key_list ::
    "nat \<Rightarrow> (u8 list \<Rightarrow> contract_error + 'k::linorder) \<Rightarrow> u8 list \<Rightarrow> nat \<Rightarrow> string \<Rightarrow>
       contract_error + 'k list \<times> nat" where
  "decode_key_list key_len decode encoded offset field =
     and_then (decode_count encoded offset field) (\<lambda>(count, offset).
     and_then (ok_or (checked_mul_usize count key_len) (DurableLengthPrefixMismatch field)) (\<lambda>byte_len.
     and_then (ok_or (checked_add_usize offset byte_len) (DurableLengthPrefixMismatch field)) (\<lambda>end.
     case slice_get encoded offset end of
       None \<Rightarrow> Err (DurableLengthPrefixMismatch field)
     | Some list_bytes \<Rightarrow>
         and_then (try_fold (push_decoded decode) (chunks_exact key_len list_bytes) []) (\<lambda>keys.
         and_then (validate_strict_key_order keys field) (\<lambda>_.
         Ok (keys, end))))))"

definition decode_outpoint_list ::
    "u8 list \<Rightarrow> nat \<Rightarrow> string \<Rightarrow> contract_error + outpoint_key list \<times> nat" where
  "decode_outpoint_list = decode_key_list 36 outpoint_key_decode"

definition decode_address_transaction_list ::
    "u8 list \<Rightarrow> nat \<Rightarrow> string \<Rightarrow> contract_error + address_transaction_key list \<times> nat" where
  "decode_address_transaction_list = decode_key_list 40 address_transaction_key_decode"

definition REORG_UNDO_FIXED_VALUE_LEN :: nat where
  "REORG_UNDO_FIXED_VALUE_LEN = 160"

definition undo_decode :: "u8 list \<Rightarrow> u8 list \<Rightarrow> contract_error + reorg_undo" where
  "undo_decode key encoded =
     and_then (fixed_array key ''reorg_undo key'' :: contract_error + 4 bytes) (\<lambda>height.
     if length encoded < REORG_UNDO_FIXED_VALUE_LEN then
       Err (DurableValueTooShort ''reorg_undo value'' REORG_UNDO_FIXED_VALUE_LEN (length encoded))
     else
       and_then (array_at encoded 0 ''reorg_undo block hash'') (\<lambda>block_hash.
       and_then (array_at encoded 32 ''reorg_undo parent hash'') (\<lambda>parent_hash.
       and_then (decode_source_sequence_digest encoded 64 ''reorg_undo source digest before'')
         (\<lambda>(before, offset).
       and_then (decode_source_sequence_digest encoded offset ''reorg_undo source digest after'')
         (\<lambda>(after, offset).
       and_then (decode_outpoint_list encoded offset ''reorg_undo created outpoint list'')
         (\<lambda>(created, offset).
       and_then (decode_outpoint_list encoded offset ''reorg_undo spent outpoint list'')
         (\<lambda>(spent, offset).
       and_then (decode_address_transaction_list encoded offset ''reorg_undo address transaction list'')
         (\<lambda>(address_transactions, offset).
       if offset \<noteq> length encoded then Err (DurableLengthPrefixMismatch ''reorg_undo value'')
       else
         let undo =
           \<lparr>ru_block = \<lparr>id_height = from_be_bytes (as_slice height), id_hash = block_hash\<rparr>,
            ru_parent_hash = parent_hash,
            ru_source_sequence_digest_before = before,
            ru_source_sequence_digest_after = after,
            ru_created_outpoints = created,
            ru_spent_outpoints = spent,
            ru_address_transaction_keys = address_transactions\<rparr>
         in and_then (validate_source_sequence_bounds undo) (\<lambda>_. Ok undo)))))))))"

lemma chunks_exact_concat:
  assumes "0 < n" and "\<And>x. x \<in> set xss \<Longrightarrow> length x = n"
  shows "chunks_exact n (concat xss) = xss"
  using assms(2)
proof (induction xss)
  case Nil
  then show ?case using assms(1) by (simp add: chunks_exact.simps)
next
  case (Cons xs xss)
  then show ?case using assms(1) by (subst chunks_exact.simps) simp
qed

lemma concat_chunks_exact: "0 < n \<Longrightarrow> n dvd length xs \<Longrightarrow> concat (chunks_exact n xs) = xs"
proof (induction n xs rule: chunks_exact.induct)
  case (1 n xs)
  show ?case
  proof (cases "length xs < n")
    case True
    with 1 show ?thesis by (subst chunks_exact.simps) (auto dest: dvd_imp_le)
  next
    case False
    then have "concat (chunks_exact n (drop n xs)) = drop n xs"
      using 1 by (intro 1) (auto simp: dvd_diff_nat)
    then show ?thesis using False 1 by (subst chunks_exact.simps) simp
  qed
qed

lemma push_decoded_Ok_iff:
  "push_decoded decode chunk keys = Inr keys' \<longleftrightarrow> (\<exists>k. decode chunk = Inr k \<and> keys' = keys @ [k])"
  by (auto simp: push_decoded_def and_then_Ok_iff)

lemma push_decoded_fixed:
  "try_fold (push_decoded (\<lambda>bs. fixed_array bs field)) chunks acc = Inr keys \<longleftrightarrow>
     (\<exists>ks :: 'n::len bytes list. keys = acc @ ks \<and> chunks = map as_slice ks)"
proof (induction chunks arbitrary: acc)
  case Nil
  then show ?case by auto
next
  case (Cons c cs)
  show ?case (is "?l \<longleftrightarrow> ?r")
  proof
    assume ?l
    then obtain k :: "'n bytes" and ks where "c = as_slice k" "keys = (acc @ [k]) @ ks" "cs = map as_slice ks"
      by (auto simp: push_decoded_Ok_iff and_then_Ok_iff Cons fixed_array_Ok_iff)
    then show ?r by (intro exI [of _ "k # ks"]) simp
  next
    assume ?r
    then obtain k ks where "keys = acc @ k # ks" and "c = as_slice k" and "cs = map as_slice (ks :: 'n bytes list)"
      by (auto simp: Cons_eq_map_conv)
    moreover from this have "try_fold (push_decoded (\<lambda>bs. fixed_array bs field)) cs (acc @ [k]) = Inr keys"
      using Cons by auto
    ultimately show ?l by (auto simp: and_then_Ok_iff push_decoded_Ok_iff)
  qed
qed

lemma strict_key_order_Ok_iff: "validate_strict_key_order keys field = Inr u \<longleftrightarrow> sorted_wrt (<) keys"
proof -
  have "list_ex (\<lambda>(a, b). a \<ge> b) (zip keys (tl keys)) \<longleftrightarrow> \<not> sorted_wrt (<) keys"
  proof (induction keys)
    case Nil
    then show ?case by simp
  next
    case (Cons k ks)
    then show ?case by (cases ks) (auto simp: sorted_wrt1 sorted_wrt2 not_le simp del: sorted_wrt.simps(2))
  qed
  then show ?thesis by (simp add: validate_strict_key_order_def)
qed

definition digest_bytes :: "sequence_digest \<Rightarrow> u8 list" where
  "digest_bytes d = to_be_bytes (sequence_digest_version_value (sd_version d)) @
     to_be_bytes (sd_block_count d) @ as_slice (sd_bytes d)"

definition key_list_bytes :: "'n::len bytes list \<Rightarrow> u8 list" where
  "key_list_bytes keys = to_be_bytes (of_nat (length keys) :: u32) @ concat (map as_slice keys)"

lemma length_digest_bytes [simp]: "length (digest_bytes d) = 42"
  by (simp add: digest_bytes_def)

lemma length_concat_slices [simp]:
  "length (concat (map as_slice (keys :: 'n::len bytes list))) = LENGTH('n) * length keys"
  by (induction keys) simp_all

lemma length_key_list_bytes [simp]:
  "length (key_list_bytes (keys :: 'n::len bytes list)) = 4 + LENGTH('n) * length keys"
  by (simp add: key_list_bytes_def)

lemma sequence_digest_version_eq: "(v :: sequence_digest_version) = SequenceDigestV1"
  by (cases v) simp

lemma decode_source_sequence_digest_Ok_iff:
  "decode_source_sequence_digest bs k field = Inr (d, k') \<longleftrightarrow>
     k' = k + 42 \<and> k' < 2 ^ 64 \<and> k' \<le> length bs \<and> take 42 (drop k bs) = digest_bytes d"
proof -
  have slices: "take 42 (drop k bs) = digest_bytes d \<longleftrightarrow>
      take 2 (drop k bs) = to_be_bytes (sequence_digest_version_value (sd_version d)) \<and>
      take 8 (drop (k + 2) bs) = to_be_bytes (sd_block_count d) \<and>
      take 32 (drop (k + 10) bs) = as_slice (sd_bytes d)"
    unfolding add.commute [of k 2] add.commute [of k 10]
    by (simp add: digest_bytes_def eq_append_slices drop_take)
  show ?thesis
  proof
    assume "decode_source_sequence_digest bs k field = Inr (d, k')"
    then show "k' = k + 42 \<and> k' < 2 ^ 64 \<and> k' \<le> length bs \<and> take 42 (drop k bs) = digest_bytes d"
      by (auto simp: decode_source_sequence_digest_def and_then_Ok_iff be_at_Ok_iff array_at_Ok_iff
          checked_add_usize_def slices add.commute [of k 10] split: if_splits)
  next
    assume *: "k' = k + 42 \<and> k' < 2 ^ 64 \<and> k' \<le> length bs \<and> take 42 (drop k bs) = digest_bytes d"
    then have "u16_at bs k field = Inr 1" "u64_at bs (k + 2) field = Inr (sd_block_count d)"
        "array_at bs (k + 10) field = Inr (sd_bytes d)"
      using sequence_digest_version_eq [of "sd_version d"]
      by (simp_all add: be_at_Ok_iff array_at_Ok_iff slices)
    with * show "decode_source_sequence_digest bs k field = Inr (d, k')"
      using sequence_digest_version_eq [of "sd_version d"]
      by (simp add: decode_source_sequence_digest_def checked_add_usize_def
          add.commute [of k 10] add.commute [of k 42])
  qed
qed

lemma decode_key_list_Ok_iff:
  "decode_key_list LENGTH('n) (\<lambda>bs. fixed_array bs key_field) bs k field = Inr (keys :: 'n::len bytes list, k') \<longleftrightarrow>
     k' = k + 4 + LENGTH('n) * length keys \<and> k' < 2 ^ 64 \<and> k' \<le> length bs \<and>
     length keys < 2 ^ 32 \<and> sorted_wrt (<) keys \<and>
     take (4 + LENGTH('n) * length keys) (drop k bs) = key_list_bytes keys"
proof -
  let ?n = "LENGTH('n)"
  let ?c = "of_nat (length keys) :: u32"
  have slices: "take (4 + ?n * length keys) (drop k bs) = key_list_bytes keys \<longleftrightarrow>
      take 4 (drop k bs) = to_be_bytes ?c \<and>
      take (?n * length keys) (drop (k + 4) bs) = concat (map as_slice keys)"
    unfolding add.commute [of k 4] by (simp add: key_list_bytes_def eq_append_slices drop_take)
  have chunks: "chunks_exact ?n xs = map as_slice keys \<longleftrightarrow> xs = concat (map as_slice keys)"
    if "length xs = ?n * length keys" for xs
  proof
    have "chunks_exact ?n (concat (map as_slice keys)) = map as_slice keys"
      by (rule chunks_exact_concat) auto
    then show "xs = concat (map as_slice keys) \<Longrightarrow> chunks_exact ?n xs = map as_slice keys" by simp
  next
    assume "chunks_exact ?n xs = map as_slice keys"
    with concat_chunks_exact [of ?n xs] that show "xs = concat (map as_slice keys)" by simp
  qed
  show ?thesis
  proof
    assume "decode_key_list ?n (\<lambda>bs. fixed_array bs key_field) bs k field = Inr (keys, k')"
    then obtain c :: u32 where c: "take 4 (drop k bs) = to_be_bytes c" "k + 4 + unat c * ?n < 2 ^ 64"
        "k + 4 + unat c * ?n \<le> length bs" "k' = k + 4 + unat c * ?n"
        "chunks_exact ?n (take (unat c * ?n) (drop (k + 4) bs)) = map as_slice keys" "sorted_wrt (<) keys"
      by (auto simp: decode_key_list_def decode_count_def and_then_Ok_iff be_at_Ok_iff
          checked_add_usize_def checked_mul_usize_def slice_get_def strict_key_order_Ok_iff
          push_decoded_fixed split: if_splits)
    have "length (concat (chunks_exact ?n (take (unat c * ?n) (drop (k + 4) bs)))) = unat c * ?n"
      using c(3) by (subst concat_chunks_exact) auto
    then have "length keys = unat c" by (simp add: c(5))
    with c show "k' = k + 4 + ?n * length keys \<and> k' < 2 ^ 64 \<and> k' \<le> length bs \<and>
        length keys < 2 ^ 32 \<and> sorted_wrt (<) keys \<and>
        take (4 + ?n * length keys) (drop k bs) = key_list_bytes keys"
      unfolding slices using chunks [of "take (unat c * ?n) (drop (k + 4) bs)"] unat_u32_less [of c]
      by (simp add: mult.commute)
  next
    assume *: "k' = k + 4 + ?n * length keys \<and> k' < 2 ^ 64 \<and> k' \<le> length bs \<and>
        length keys < 2 ^ 32 \<and> sorted_wrt (<) keys \<and>
        take (4 + ?n * length keys) (drop k bs) = key_list_bytes keys"
    have c: "unat ?c = length keys" using * by (simp add: unat_of_nat take_bit_nat_eq_self)
    have "decode_count bs k field = Inr (length keys, k + 4)"
      using * c by (auto simp: decode_count_def and_then_Ok_iff be_at_Ok_iff checked_add_usize_def slices)
    moreover have "chunks_exact ?n (take (length keys * ?n) (drop (k + 4) bs)) = map as_slice keys"
      unfolding mult.commute [of "length keys" ?n]
      using * by (subst chunks) (auto simp: slices)
    ultimately show "decode_key_list ?n (\<lambda>bs. fixed_array bs key_field) bs k field = Inr (keys, k')"
      using * by (auto simp: decode_key_list_def checked_add_usize_def checked_mul_usize_def
          slice_get_def and_then_Ok_iff strict_key_order_Ok_iff push_decoded_fixed mult.commute)
  qed
qed

definition undo_bytes :: "reorg_undo \<Rightarrow> u8 list" where
  "undo_bytes undo =
     as_slice (id_hash (ru_block undo)) @ as_slice (ru_parent_hash undo) @
     digest_bytes (ru_source_sequence_digest_before undo) @
     digest_bytes (ru_source_sequence_digest_after undo) @
     key_list_bytes (ru_created_outpoints undo) @ key_list_bytes (ru_spent_outpoints undo) @
     key_list_bytes (ru_address_transaction_keys undo)"

definition undo_valid :: "reorg_undo \<Rightarrow> bool" where
  "undo_valid undo \<longleftrightarrow>
     checked_add (sd_block_count (ru_source_sequence_digest_before undo)) 1 =
       Some (sd_block_count (ru_source_sequence_digest_after undo)) \<and>
     sorted_wrt (<) (ru_created_outpoints undo) \<and> sorted_wrt (<) (ru_spent_outpoints undo) \<and>
     sorted_wrt (<) (ru_address_transaction_keys undo) \<and>
     length (ru_created_outpoints undo) < 2 ^ 32 \<and> length (ru_spent_outpoints undo) < 2 ^ 32 \<and>
     length (ru_address_transaction_keys undo) < 2 ^ 32"

lemma validate_source_sequence_bounds_Ok_iff:
  "validate_source_sequence_bounds undo = Inr u \<longleftrightarrow>
     checked_add (sd_block_count (ru_source_sequence_digest_before undo)) 1 =
       Some (sd_block_count (ru_source_sequence_digest_after undo))"
  using sequence_digest_version_eq by (auto simp: validate_source_sequence_bounds_def)

lemma undo_encode_Ok_iff: "undo_encode_value undo = Inr bs \<longleftrightarrow> undo_valid undo \<and> bs = undo_bytes undo"
  by (auto simp: undo_encode_value_def and_then_Ok_iff validate_source_sequence_bounds_Ok_iff
      strict_key_order_Ok_iff encoded_len_iff undo_valid_def undo_bytes_def Let_def
      encode_source_sequence_digest_def digest_bytes_def key_list_bytes_def)

lemma undo_bytes_slices:
  fixes undo :: reorg_undo
  defines "c \<equiv> 4 + 36 * length (ru_created_outpoints undo)"
    and "s \<equiv> 4 + 36 * length (ru_spent_outpoints undo)"
    and "t \<equiv> 4 + 40 * length (ru_address_transaction_keys undo)"
  shows "bs = undo_bytes undo \<longleftrightarrow>
     length bs = 148 + c + s + t \<and>
     take 32 bs = as_slice (id_hash (ru_block undo)) \<and>
     take 32 (drop 32 bs) = as_slice (ru_parent_hash undo) \<and>
     take 42 (drop 64 bs) = digest_bytes (ru_source_sequence_digest_before undo) \<and>
     take 42 (drop 106 bs) = digest_bytes (ru_source_sequence_digest_after undo) \<and>
     take c (drop 148 bs) = key_list_bytes (ru_created_outpoints undo) \<and>
     take s (drop (148 + c) bs) = key_list_bytes (ru_spent_outpoints undo) \<and>
     take t (drop (148 + c + s) bs) = key_list_bytes (ru_address_transaction_keys undo)"
    (is "_ \<longleftrightarrow> _ \<and> ?slices")
proof -
  have len: "length (key_list_bytes (ru_created_outpoints undo)) = c"
      "length (key_list_bytes (ru_spent_outpoints undo)) = s"
      "length (key_list_bytes (ru_address_transaction_keys undo)) = t"
    by (simp_all add: c_def s_def t_def)
  have "length (undo_bytes undo) = 148 + c + s + t"
    by (simp add: undo_bytes_def c_def s_def t_def)
  moreover have "bs = undo_bytes undo \<longleftrightarrow> ?slices" if "length bs = 148 + c + s + t"
  proof -
    have "take t (drop (148 + c + s) bs) = drop (148 + c + s) bs" using that by simp
    then show ?thesis
      by (simp add: undo_bytes_def eq_append_slices c_def s_def t_def
          add.commute [of "36 * length (ru_spent_outpoints undo)"])
  qed
  ultimately show ?thesis by (auto simp: t_def)
qed

lemma decode_outpoint_list_Ok_iff:
  "decode_outpoint_list bs k field = Inr (keys, k') \<longleftrightarrow>
     k' = k + 4 + 36 * length keys \<and> k' < 2 ^ 64 \<and> k' \<le> length bs \<and>
     length keys < 2 ^ 32 \<and> sorted_wrt (<) keys \<and>
     take (4 + 36 * length keys) (drop k bs) = key_list_bytes keys"
proof -
  have "outpoint_key_decode = (\<lambda>bs. fixed_array bs ''wallet outpoint key'')"
    by (simp add: fun_eq_iff outpoint_key_decode_def)
  with decode_key_list_Ok_iff [where 'n = 36, of "''wallet outpoint key''" bs k field keys k']
  show ?thesis by (simp add: decode_outpoint_list_def)
qed

lemma decode_address_transaction_list_Ok_iff:
  "decode_address_transaction_list bs k field = Inr (keys, k') \<longleftrightarrow>
     k' = k + 4 + 40 * length keys \<and> k' < 2 ^ 64 \<and> k' \<le> length bs \<and>
     length keys < 2 ^ 32 \<and> sorted_wrt (<) keys \<and>
     take (4 + 40 * length keys) (drop k bs) = key_list_bytes keys"
proof -
  have "address_transaction_key_decode = (\<lambda>bs. fixed_array bs ''transparent_address_transaction key'')"
    by (simp add: fun_eq_iff address_transaction_key_decode_def)
  with decode_key_list_Ok_iff [where 'n = 40, of "''transparent_address_transaction key''" bs k field keys k']
  show ?thesis by (simp add: decode_address_transaction_list_def)
qed

lemma undo_decode_Ok_iff:
  "undo_decode key bs = Inr undo \<longleftrightarrow>
     undo_valid undo \<and> as_slice (undo_encode_key undo) = key \<and> bs = undo_bytes undo"
proof
  assume "undo_decode key bs = Inr undo"
  then obtain h :: "4 bytes" and o1 o2 o3 o4 where d: "key = as_slice h"
      "id_height (ru_block undo) = from_be_bytes (as_slice h)"
      "array_at bs 0 ''reorg_undo block hash'' = Inr (id_hash (ru_block undo))"
      "array_at bs 32 ''reorg_undo parent hash'' = Inr (ru_parent_hash undo)"
      "decode_source_sequence_digest bs 64 ''reorg_undo source digest before'' =
         Inr (ru_source_sequence_digest_before undo, o1)"
      "decode_source_sequence_digest bs o1 ''reorg_undo source digest after'' =
         Inr (ru_source_sequence_digest_after undo, o2)"
      "decode_outpoint_list bs o2 ''reorg_undo created outpoint list'' = Inr (ru_created_outpoints undo, o3)"
      "decode_outpoint_list bs o3 ''reorg_undo spent outpoint list'' = Inr (ru_spent_outpoints undo, o4)"
      "decode_address_transaction_list bs o4 ''reorg_undo address transaction list'' =
         Inr (ru_address_transaction_keys undo, length bs)"
      "validate_source_sequence_bounds undo = Inr ()"
    by (auto simp: undo_decode_def and_then_Ok_iff fixed_array_Ok_iff Let_def split: if_splits)
  have "as_slice (undo_encode_key undo) = key"
    using d(1,2) by (simp add: undo_encode_key_def to_from_be_bytes)
  moreover have "undo_valid undo"
    using d(7-) by (simp add: undo_valid_def validate_source_sequence_bounds_Ok_iff
        decode_outpoint_list_Ok_iff decode_address_transaction_list_Ok_iff)
  moreover have "o1 = 106" "o2 = 148" "o3 = 152 + 36 * length (ru_created_outpoints undo)"
      "o4 = 156 + 36 * length (ru_created_outpoints undo) + 36 * length (ru_spent_outpoints undo)"
    using d(5-8) by (simp_all add: decode_source_sequence_digest_Ok_iff decode_outpoint_list_Ok_iff)
  then have "bs = undo_bytes undo"
    using d(3-9) unfolding undo_bytes_slices array_at_Ok_iff decode_source_sequence_digest_Ok_iff
      decode_outpoint_list_Ok_iff decode_address_transaction_list_Ok_iff by (simp add: add.assoc)
  ultimately show "undo_valid undo \<and> as_slice (undo_encode_key undo) = key \<and> bs = undo_bytes undo" by simp
next
  assume *: "undo_valid undo \<and> as_slice (undo_encode_key undo) = key \<and> bs = undo_bytes undo"
  then have slices: "bs = undo_bytes undo" by simp
  let ?c = "152 + 36 * length (ru_created_outpoints undo)"
  let ?s = "?c + (4 + 36 * length (ru_spent_outpoints undo))"
  have len: "length bs = ?s + (4 + 40 * length (ru_address_transaction_keys undo))"
    using slices unfolding undo_bytes_slices by simp
  have bound: "length bs < 2 ^ 64" "160 \<le> length bs"
    using * len by (simp_all add: undo_valid_def)
  have rec: "\<lparr>ru_block = \<lparr>id_height = id_height (ru_block undo), id_hash = id_hash (ru_block undo)\<rparr>,
      ru_parent_hash = ru_parent_hash undo,
      ru_source_sequence_digest_before = ru_source_sequence_digest_before undo,
      ru_source_sequence_digest_after = ru_source_sequence_digest_after undo,
      ru_created_outpoints = ru_created_outpoints undo, ru_spent_outpoints = ru_spent_outpoints undo,
      ru_address_transaction_keys = ru_address_transaction_keys undo\<rparr> = undo"
    by simp
  have "fixed_array key ''reorg_undo key'' = Inr (undo_encode_key undo)"
    using * by auto
  moreover have "from_be_bytes (as_slice (undo_encode_key undo)) = id_height (ru_block undo)"
    by (simp add: undo_encode_key_def)
  moreover have "array_at bs 0 field = Inr (id_hash (ru_block undo))"
      "array_at bs 32 field = Inr (ru_parent_hash undo)"
      "decode_source_sequence_digest bs 64 field = Inr (ru_source_sequence_digest_before undo, 106)"
      "decode_source_sequence_digest bs 106 field = Inr (ru_source_sequence_digest_after undo, 148)"
    for field
    using slices bound unfolding undo_bytes_slices
    by (simp_all add: array_at_Ok_iff decode_source_sequence_digest_Ok_iff)
  moreover have "decode_outpoint_list bs 148 field = Inr (ru_created_outpoints undo, ?c)"
      "decode_outpoint_list bs ?c field = Inr (ru_spent_outpoints undo, ?s)"
      "decode_address_transaction_list bs ?s field = Inr (ru_address_transaction_keys undo, length bs)"
    for field
    using * bound len slices [unfolded undo_bytes_slices]
    by (simp_all add: decode_outpoint_list_Ok_iff decode_address_transaction_list_Ok_iff undo_valid_def)
  moreover have "validate_source_sequence_bounds undo = Inr ()"
    using * by (simp add: validate_source_sequence_bounds_Ok_iff undo_valid_def)
  ultimately show "undo_decode key bs = Inr undo"
    using bound(2) by (simp add: undo_decode_def REORG_UNDO_FIXED_VALUE_LEN_def Let_def rec)
qed

interpretation undo: row_codec undo_encode_value undo_decode "\<lambda>u. as_slice (undo_encode_key u)" "\<lambda>_. True"
proof
  fix a bs
  show "undo_encode_value a = Inr bs \<Longrightarrow> undo_decode (as_slice (undo_encode_key a)) bs = Inr a"
    by (simp add: undo_encode_Ok_iff undo_decode_Ok_iff)
next
  fix k bs a
  show "undo_decode k bs = Inr a \<Longrightarrow>
      True \<and> as_slice (undo_encode_key a) = k \<and> undo_encode_value a = Inr bs"
    by (simp add: undo_encode_Ok_iff undo_decode_Ok_iff)
qed

section \<open>The properties of the rows\<close>

lemma address_unspent_key_accessors [simp]:
  "unspent_key_address_script_hash (address_unspent_key_new u) = uo_address_script_hash u"
  "unspent_key_creation_height (address_unspent_key_new u) = id_height (pos_block (uo_created_at u))"
  "unspent_key_outpoint (address_unspent_key_new u) = uo_outpoint u"
  by (simp_all add: unspent_key_address_script_hash_def unspent_key_creation_height_def
      unspent_key_outpoint_def)

lemma address_unspent_key_new_inject:
  assumes "uo_address_script_hash u = uo_address_script_hash v"
    and "uo_created_at u = uo_created_at v" and "uo_outpoint u = uo_outpoint v"
  shows "address_unspent_key_new u = address_unspent_key_new v"
  using assms by (simp add: address_unspent_key_new_def)

lemma replicate_0_least: "replicate (length xs) (0 :: 'a::len word) \<le> xs"
proof (induction xs)
  case (Cons x xs)
  then show ?case by (cases "x = 0") (auto simp: word_neq_0_conv)
qed simp

text \<open>
  C30: a stored unspent-output row decodes to an output exactly when it is the encoding of that
  output under that key. Decoding inverts encoding, no two byte strings decode to the same row, and
  every accepted row satisfies the constructor's check that the outpoint names the creating
  transaction.
\<close>

theorem unspent_row_codec:
  "unspent_decode_value key bs = Ok u \<longleftrightarrow>
     op_transaction_id (uo_outpoint u) = pos_transaction_id (uo_created_at u) \<and>
     outpoint_key_new (uo_outpoint u) = key \<and> unspent_encode_value u = Ok bs"
  using unspent.decode_Ok_iff by (simp add: unspent_valid_def)

text \<open>
  C31: the same for a stored spent-output row, whose trailer carries the spending transaction, the
  input index and the spending block.
\<close>

theorem spent_row_codec:
  "spent_decode_value key bs = Ok s \<longleftrightarrow>
     op_transaction_id (uo_outpoint (so_output s)) = pos_transaction_id (uo_created_at (so_output s)) \<and>
     outpoint_key_new (uo_outpoint (so_output s)) = key \<and> spent_encode_value s = Ok bs"
  using spent.decode_Ok_iff by (simp add: unspent_valid_def)

text \<open>
  C32: a stored reorg-undo row decodes to an undo record exactly when it is the encoding of that
  record under its height key; the encoder and the decoder accept the same records: strictly
  increasing key lists and source digests that differ by one block.
\<close>

theorem undo_row_codec:
  "undo_decode key bs = Ok undo \<longleftrightarrow>
     as_slice (undo_encode_key undo) = key \<and> undo_encode_value undo = Ok bs"
  using undo.decode_Ok_iff by simp

text \<open>
  C33: in the address index of unspent outputs, \<open>first_at_or_after\<close> is the exact lower bound: the
  index key of an output of the address sorts at or after the bound exactly when the output was
  created at that height or later.
\<close>

theorem address_unspent_lower_bound:
  assumes "uo_address_script_hash u = address"
  shows "address_unspent_first_at_or_after address height \<le> address_unspent_key_new u \<longleftrightarrow>
         height \<le> id_height (pos_block (uo_created_at u))"
proof -
  let ?op = "as_slice (op_transaction_id (uo_outpoint u)) @ to_be_bytes (op_output_index (uo_outpoint u))"
  have "replicate 36 0 \<le> ?op" using replicate_0_least [of ?op] by simp
  then have "\<not> ?op < replicate 36 0" by (simp only: not_less)
  then show ?thesis
    using assms
    by (auto simp: less_eq_bytes_def address_unspent_first_at_or_after_def not_less [symmetric]
        lex_append_same_length)
qed

definition sample_unspent :: "u8 \<Rightarrow> u32 \<Rightarrow> u64 \<Rightarrow> u8 \<Rightarrow> block_height \<Rightarrow> unspent_output" where
  "sample_unspent txid index zat script h =
     \<lparr>uo_outpoint = \<lparr>op_transaction_id = filled txid, op_output_index = index\<rparr>,
      uo_address_script_hash = filled script, uo_value_zat = zat, uo_script_pub_key = [script],
      uo_created_at =
        \<lparr>pos_transaction_id = filled txid, pos_tx_index_in_block = 0,
         pos_block = \<lparr>id_height = h, id_hash = filled 1\<rparr>\<rparr>\<rparr>"

theorem address_unspent_lower_bound_witness:
  "address_unspent_first_at_or_after (filled 9) 5 \<le> address_unspent_key_new (sample_unspent 7 0 10 9 6) \<and>
   \<not> address_unspent_first_at_or_after (filled 9) 7 \<le> address_unspent_key_new (sample_unspent 7 0 10 9 6)"
proof -
  have "uo_address_script_hash (sample_unspent 7 0 10 9 6) = filled 9" by (simp add: sample_unspent_def)
  from address_unspent_lower_bound [OF this, of 5] address_unspent_lower_bound [OF this, of 7]
  show ?thesis by (simp add: sample_unspent_def)
qed

end
