(* ===== verification/Projection_Digest.thy ===== *)
theory Projection_Digest
  imports Wallet_Contract
begin

text \<open>
  The order-independent accumulator over the durable rows of the wallet projection (\<open>digest.rs\<close>):
  row families, the preimage of a row, the builder with its accumulator and row counts, and the
  insertion and removal of a row.
\<close>

section \<open>Rows and their preimages\<close>

datatype row_family =
  TransparentUnspentOutput | TransparentUnspentOutputByAddress | TransparentSpentOutput
| TransparentAddressTransaction | TransparentAddressBalance | ReorgUndo

fun family_tag :: "row_family \<Rightarrow> u8" where
  "family_tag TransparentUnspentOutput = 1"
| "family_tag TransparentUnspentOutputByAddress = 2"
| "family_tag TransparentSpentOutput = 3"
| "family_tag TransparentAddressTransaction = 4"
| "family_tag TransparentAddressBalance = 5"
| "family_tag ReorgUndo = 6"

definition PROJECTION_ROW_DOMAIN :: "u8 list" where
  "PROJECTION_ROW_DOMAIN = ascii ''zinder:wallet-projection:row:v2'' @ [0]"

definition PROJECTION_ACCUMULATOR_PERSONAL :: "u8 list" where
  "PROJECTION_ACCUMULATOR_PERSONAL = ascii ''ZinderWalletProj''"

definition WALLET_PROJECTION_ACCUMULATOR_VERSION :: u16 where
  "WALLET_PROJECTION_ACCUMULATOR_VERSION = 1"

definition row_preimage :: "row_family \<Rightarrow> u8 list \<Rightarrow> u8 list \<Rightarrow> contract_error + u8 list" where
  "row_preimage family key encoded_value =
     and_then (encoded_len (length key) ''projection accumulator key'') (\<lambda>key_len.
     and_then (encoded_len (length encoded_value) ''projection accumulator value'') (\<lambda>value_len.
     Ok (PROJECTION_ROW_DOMAIN @
         to_be_bytes WALLET_PROJECTION_ACCUMULATOR_VERSION @
         to_be_bytes WALLET_PROJECTION_VALUE_ENCODING_VERSION @
         [family_tag family] @
         to_be_bytes key_len @ key @
         to_be_bytes value_len @ encoded_value)))"

type_synonym row = "row_family \<times> u8 list \<times> u8 list"

definition row_fits :: "row \<Rightarrow> bool" where
  "row_fits r \<longleftrightarrow> length (fst (snd r)) < 2 ^ 32 \<and> length (snd (snd r)) < 2 ^ 32"

lemma family_tag_inject [simp]: "family_tag a = family_tag b \<longleftrightarrow> a = b"
  by (cases a; cases b) simp_all

lemma row_preimage_Ok:
  "row_preimage f k v = Inr p \<Longrightarrow> row_fits (f, k, v)"
  by (auto simp: row_preimage_def row_fits_def and_then_Ok_iff encoded_len_def split: if_splits)

lemma row_preimage_fits: "row_fits (f, k, v) \<Longrightarrow> \<exists>p. row_preimage f k v = Inr p"
  by (auto simp: row_preimage_def row_fits_def encoded_len_def)

lemma row_preimage_inject:
  assumes "row_preimage f k v = Inr p" and "row_preimage f' k' v' = Inr p"
  shows "f = f' \<and> k = k' \<and> v = v'"
proof -
  have fits: "row_fits (f, k, v)" "row_fits (f', k', v')" using assms row_preimage_Ok by blast+
  moreover have "row_preimage f k v = row_preimage f' k' v'" using assms by simp
  ultimately have "[family_tag f] @ to_be_bytes (of_nat (length k) :: u32) @ k @
        to_be_bytes (of_nat (length v) :: u32) @ v =
      [family_tag f'] @ to_be_bytes (of_nat (length k') :: u32) @ k' @
        to_be_bytes (of_nat (length v') :: u32) @ v'"
    by (simp add: row_preimage_def row_fits_def encoded_len_def)
  then have *: "f = f'" "(of_nat (length k) :: u32) = of_nat (length k')"
      "k @ to_be_bytes (of_nat (length v) :: u32) @ v = k' @ to_be_bytes (of_nat (length v') :: u32) @ v'"
    by simp_all
  have "length k = length k'"
    using * (2) fits by (simp add: row_fits_def word_of_nat_eq_iff take_bit_nat_eq_self)
  with * show ?thesis by simp
qed

section \<open>The builder\<close>

record family_row_counts =
  transparent_unspent_output_count :: u64
  transparent_unspent_output_by_address_count :: u64
  transparent_spent_output_count :: u64
  transparent_address_transaction_count :: u64
  transparent_address_balance_count :: u64
  reorg_undo_count :: u64

type_synonym projection_accumulator = "2048 bytes"

record digest_builder =
  db_accumulator :: projection_accumulator
  db_row_counts :: family_row_counts

definition row_counts_default :: family_row_counts where
  "row_counts_default =
     \<lparr>transparent_unspent_output_count = 0, transparent_unspent_output_by_address_count = 0,
      transparent_spent_output_count = 0, transparent_address_transaction_count = 0,
      transparent_address_balance_count = 0, reorg_undo_count = 0\<rparr>"

definition accumulator_empty :: projection_accumulator where
  "accumulator_empty = filled 0"

definition accumulator_from_bytes :: "u8 list \<Rightarrow> contract_error + projection_accumulator" where
  "accumulator_from_bytes bs =
     ok_or (try_into bs) (ProjectionAccumulatorLengthMismatch 2048 (length bs))"

definition accumulator_display_digest :: "blake2b_fn \<Rightarrow> projection_accumulator \<Rightarrow> 32 bytes" where
  "accumulator_display_digest blake2b acc =
     array_of (blake2b (blake2b_params_new\<lparr>hash_length := 32\<rparr>) (as_slice acc))"

definition projection_blake2x_expand :: "blake2b_fn \<Rightarrow> u8 list \<Rightarrow> 2048 bytes" where
  "projection_blake2x_expand blake2b message =
     (let xof_length = 2048;
          root = blake2b (blake2b_params_new\<lparr>hash_length := 64,
                   node_offset := push_bit 32 (ucast xof_length),
                   personal := PROJECTION_ACCUMULATOR_PERSONAL\<rparr>) message
      in array_of (blake2x_blocks blake2b root PROJECTION_ACCUMULATOR_PERSONAL xof_length 0 0 2048
                     (replicate 2048 0)))"

definition combine_preimage ::
    "blake2b_fn \<Rightarrow> (u16 \<Rightarrow> u16 \<Rightarrow> u16) \<Rightarrow> u8 list \<Rightarrow> projection_accumulator \<Rightarrow> projection_accumulator" where
  "combine_preimage blake2b combine preimage acc =
     combine_lane_bytes combine (projection_blake2x_expand blake2b preimage) acc"

definition digest_builder_new :: digest_builder where
  "digest_builder_new = \<lparr>db_accumulator = accumulator_empty, db_row_counts = row_counts_default\<rparr>"

fun row_count :: "row_family \<Rightarrow> family_row_counts \<Rightarrow> u64" where
  "row_count TransparentUnspentOutput c = transparent_unspent_output_count c"
| "row_count TransparentUnspentOutputByAddress c = transparent_unspent_output_by_address_count c"
| "row_count TransparentSpentOutput c = transparent_spent_output_count c"
| "row_count TransparentAddressTransaction c = transparent_address_transaction_count c"
| "row_count TransparentAddressBalance c = transparent_address_balance_count c"
| "row_count ReorgUndo c = reorg_undo_count c"

fun set_row_count :: "row_family \<Rightarrow> u64 \<Rightarrow> family_row_counts \<Rightarrow> family_row_counts" where
  "set_row_count TransparentUnspentOutput n c = c\<lparr>transparent_unspent_output_count := n\<rparr>"
| "set_row_count TransparentUnspentOutputByAddress n c = c\<lparr>transparent_unspent_output_by_address_count := n\<rparr>"
| "set_row_count TransparentSpentOutput n c = c\<lparr>transparent_spent_output_count := n\<rparr>"
| "set_row_count TransparentAddressTransaction n c = c\<lparr>transparent_address_transaction_count := n\<rparr>"
| "set_row_count TransparentAddressBalance n c = c\<lparr>transparent_address_balance_count := n\<rparr>"
| "set_row_count ReorgUndo n c = c\<lparr>reorg_undo_count := n\<rparr>"

definition append_row ::
    "blake2b_fn \<Rightarrow> row_family \<Rightarrow> u8 list \<Rightarrow> u8 list \<Rightarrow> digest_builder \<Rightarrow> contract_error + digest_builder" where
  "append_row blake2b family key encoded_value b =
     and_then (row_preimage family key encoded_value) (\<lambda>preimage.
     and_then (ok_or (checked_add (row_count family (db_row_counts b)) 1)
                 ProjectionDigestRowCountOverflow) (\<lambda>next_count.
     Ok \<lparr>db_accumulator = combine_preimage blake2b (+) preimage (db_accumulator b),
         db_row_counts = set_row_count family next_count (db_row_counts b)\<rparr>))"

definition remove_row ::
    "blake2b_fn \<Rightarrow> row_family \<Rightarrow> u8 list \<Rightarrow> u8 list \<Rightarrow> digest_builder \<Rightarrow> contract_error + digest_builder" where
  "remove_row blake2b family key encoded_value b =
     and_then (row_preimage family key encoded_value) (\<lambda>preimage.
     and_then (ok_or (checked_sub (row_count family (db_row_counts b)) 1)
                 ProjectionDigestRowCountUnderflow) (\<lambda>next_count.
     Ok \<lparr>db_accumulator = combine_preimage blake2b (-) preimage (db_accumulator b),
         db_row_counts = set_row_count family next_count (db_row_counts b)\<rparr>))"

section \<open>Builder states as collections of rows\<close>

definition row_lanes :: "blake2b_fn \<Rightarrow> row \<Rightarrow> lane_vec" where
  "row_lanes blake2b r =
     (case row_preimage (fst r) (fst (snd r)) (snd (snd r)) of
        Inl _ \<Rightarrow> 0 | Inr p \<Rightarrow> lanes_of (projection_blake2x_expand blake2b p))"

interpretation projection_rows: lane_accumulator
  "combine_preimage blake2b (+)" "combine_preimage blake2b (-)" lanes_of "\<lambda>_. ()"
  "\<lambda>p. lanes_of (projection_blake2x_expand blake2b p)"
  for blake2b
  by unfold_locales (simp_all add: combine_preimage_def lanes_of_inject)

lemma row_count_set [simp]:
  "row_count f (set_row_count g n c) = (if f = g then n else row_count f c)"
  by (cases f; cases g) simp_all

lemma row_counts_eqI: "(\<And>f. row_count f a = row_count f b) \<Longrightarrow> a = b"
proof -
  assume eq: "\<And>f. row_count f a = row_count f b"
  show "a = b"
    using eq [of TransparentUnspentOutput] eq [of TransparentUnspentOutputByAddress]
      eq [of TransparentSpentOutput] eq [of TransparentAddressTransaction]
      eq [of TransparentAddressBalance] eq [of ReorgUndo] by simp
qed

lemma row_count_default [simp]: "row_count f row_counts_default = 0"
  by (cases f) (simp_all add: row_counts_default_def)

lemma digest_builder_eqI:
  fixes a b :: digest_builder
  assumes "lanes_of (db_accumulator a) = lanes_of (db_accumulator b)"
    and "\<And>f. row_count f (db_row_counts a) = row_count f (db_row_counts b)"
  shows "a = b"
  using assms row_counts_eqI [of "db_row_counts a" "db_row_counts b"]
  by (intro digest_builder.equality) (simp_all add: lanes_of_inject)

lemma append_row_Ok_iff:
  "append_row blake2b f k v b = Inr b' \<longleftrightarrow>
     row_fits (f, k, v) \<and>
     lanes_of (db_accumulator b') = lanes_of (db_accumulator b) + row_lanes blake2b (f, k, v) \<and>
     (\<forall>g. unat (row_count g (db_row_counts b')) =
        unat (row_count g (db_row_counts b)) + (if g = f then 1 else 0))"
proof (cases "row_preimage f k v")
  case (Inl e)
  then show ?thesis using row_preimage_fits [of f k v] by (auto simp: append_row_def)
next
  case (Inr p)
  then have fits: "row_fits (f, k, v)" by (rule row_preimage_Ok)
  show ?thesis
  proof
    assume "append_row blake2b f k v b = Inr b'"
    then show "row_fits (f, k, v) \<and>
        lanes_of (db_accumulator b') = lanes_of (db_accumulator b) + row_lanes blake2b (f, k, v) \<and>
        (\<forall>g. unat (row_count g (db_row_counts b')) =
          unat (row_count g (db_row_counts b)) + (if g = f then 1 else 0))"
      using fits by (auto simp: append_row_def Inr row_lanes_def and_then_Ok_iff checked_add_Some_iff
          projection_rows.lanes_add)
  next
    assume *: "row_fits (f, k, v) \<and>
        lanes_of (db_accumulator b') = lanes_of (db_accumulator b) + row_lanes blake2b (f, k, v) \<and>
        (\<forall>g. unat (row_count g (db_row_counts b')) =
          unat (row_count g (db_row_counts b)) + (if g = f then 1 else 0))"
    then have "checked_add (row_count f (db_row_counts b)) 1 = Some (row_count f (db_row_counts b'))"
      by (simp add: checked_add_Some_iff)
    then have "append_row blake2b f k v b =
        Inr \<lparr>db_accumulator = combine_preimage blake2b (+) p (db_accumulator b),
             db_row_counts = set_row_count f (row_count f (db_row_counts b')) (db_row_counts b)\<rparr>"
      by (simp add: append_row_def Inr)
    also have "\<dots> = Inr b'"
      using * by (intro arg_cong [of _ _ Inr] digest_builder_eqI)
        (auto simp: projection_rows.lanes_add row_lanes_def Inr word_unat_eq_iff)
    finally show "append_row blake2b f k v b = Inr b'" .
  qed
qed

text \<open>A removal is the exact inverse of an insertion, on every field of the builder.\<close>

lemma remove_row_iff_append_row:
  "remove_row blake2b f k v b' = Inr b \<longleftrightarrow> append_row blake2b f k v b = Inr b'"
proof (cases "row_preimage f k v")
  case (Inl e)
  then show ?thesis by (simp add: append_row_def remove_row_def)
next
  case (Inr p)
  show ?thesis
  proof
    assume "remove_row blake2b f k v b' = Inr b"
    then have "lanes_of (db_accumulator b) = lanes_of (db_accumulator b') - row_lanes blake2b (f, k, v)"
        "\<forall>g. unat (row_count g (db_row_counts b')) =
          unat (row_count g (db_row_counts b)) + (if g = f then 1 else 0)"
      by (auto simp: remove_row_def Inr row_lanes_def and_then_Ok_iff checked_sub_Some_iff
          projection_rows.lanes_remove)
    then show "append_row blake2b f k v b = Inr b'"
      using row_preimage_Ok [OF Inr] by (simp add: append_row_Ok_iff)
  next
    assume *: "append_row blake2b f k v b = Inr b'"
    then have "checked_sub (row_count f (db_row_counts b')) 1 = Some (row_count f (db_row_counts b))"
      by (simp add: append_row_Ok_iff checked_sub_Some_iff)
    then have "remove_row blake2b f k v b' =
        Inr \<lparr>db_accumulator = combine_preimage blake2b (-) p (db_accumulator b'),
             db_row_counts = set_row_count f (row_count f (db_row_counts b)) (db_row_counts b')\<rparr>"
      by (simp add: remove_row_def Inr)
    also have "\<dots> = Inr b"
      using * [unfolded append_row_Ok_iff] by (intro arg_cong [of _ _ Inr] digest_builder_eqI)
        (auto simp: projection_rows.lanes_remove row_lanes_def Inr word_unat_eq_iff)
    finally show "remove_row blake2b f k v b' = Inr b" .
  qed
qed

lemma append_row_total:
  assumes "row_fits (f, k, v)" and "unat (row_count f (db_row_counts b)) + 1 < 2 ^ 64"
  shows "\<exists>b'. append_row blake2b f k v b = Inr b'"
  using assms row_preimage_fits [of f k v] by (auto simp: append_row_def checked_add_def)

definition append_rows :: "blake2b_fn \<Rightarrow> row list \<Rightarrow> digest_builder \<Rightarrow> contract_error + digest_builder" where
  "append_rows blake2b = try_fold (\<lambda>(f, k, v). append_row blake2b f k v)"

lemma append_rows_Ok_iff:
  "append_rows blake2b rows b = Inr b' \<longleftrightarrow>
     (\<forall>r \<in> set rows. row_fits r) \<and>
     lanes_of (db_accumulator b') = lanes_of (db_accumulator b) + (\<Sum>r\<in>#mset rows. row_lanes blake2b r) \<and>
     (\<forall>g. unat (row_count g (db_row_counts b')) =
        unat (row_count g (db_row_counts b)) + size (filter_mset (\<lambda>r. fst r = g) (mset rows)))"
proof (induction rows arbitrary: b)
  case Nil
  show ?case by (auto simp: append_rows_def word_unat_eq_iff [symmetric] intro: digest_builder_eqI)
next
  case (Cons r rows)
  obtain f k v where r: "r = (f, k, v)" by (metis prod.exhaust)
  have step: "append_rows blake2b (r # rows) b = Inr b' \<longleftrightarrow>
      (\<exists>c. append_row blake2b f k v b = Inr c \<and> append_rows blake2b rows c = Inr b')"
    by (simp add: append_rows_def r and_then_Ok_iff)
  show ?case (is "?l \<longleftrightarrow> ?r")
  proof
    assume ?l
    then obtain c where "append_row blake2b f k v b = Inr c" "append_rows blake2b rows c = Inr b'"
      unfolding step by blast
    then show ?r unfolding Cons append_row_Ok_iff by (auto simp: r algebra_simps)
  next
    assume *: ?r
    then have fits: "row_fits (f, k, v)"
      and count: "unat (row_count f (db_row_counts b)) + 1 \<le> unat (row_count f (db_row_counts b'))"
      by (auto simp: r)
    have "unat (row_count f (db_row_counts b')) < 2 ^ 64"
      using unsigned_less [of "row_count f (db_row_counts b')", where ?'a = nat] by simp
    with count append_row_total [OF fits] obtain c where c: "append_row blake2b f k v b = Inr c"
      by fastforce
    moreover have "append_rows blake2b rows c = Inr b'"
      unfolding Cons using c [unfolded append_row_Ok_iff] * by (auto simp: r algebra_simps)
    ultimately show ?l unfolding step by blast
  qed
qed

text \<open>
  C26: the projection digest depends only on which rows are present. Appending the same rows in any
  order ends in the same builder: the same 2048-byte accumulator and the same six family counts.
\<close>

theorem projection_digest_order_independent:
  assumes "mset rows = mset rows'"
  shows "append_rows blake2b rows b = Ok b' \<longleftrightarrow> append_rows blake2b rows' b = Ok b'"
proof -
  have "set rows = set rows'" using assms by (rule mset_eq_setD)
  then show ?thesis unfolding append_rows_Ok_iff assms by simp
qed

theorem projection_digest_order_independent_witness:
  "\<exists>b'. append_rows (\<lambda>p m. replicate (hash_length p) (last m))
      [(TransparentAddressBalance, [2], [3]), (TransparentSpentOutput, [1], [])] digest_builder_new = Ok b'"
proof -
  let ?B = "\<lambda>p m. replicate (hash_length p) (last m)"
  let ?r = "(TransparentSpentOutput, [1], [])" and ?s = "(TransparentAddressBalance, [2], [3])"
  obtain b' where "append_rows ?B [?r, ?s] digest_builder_new = Ok b'"
    by (simp add: append_rows_def append_row_def row_preimage_def encoded_len_def checked_add_def
        digest_builder_new_def row_counts_default_def)
  moreover have "mset [?r, ?s] = mset [?s, ?r]" by simp
  ultimately show ?thesis
    using projection_digest_order_independent [of "[?r, ?s]" "[?s, ?r]" ?B digest_builder_new b'] by blast
qed

text \<open>
  C27: \<open>remove_row\<close> is the exact inverse of \<open>append_row\<close>: a builder reached by appending a row is
  taken back to the state before by removing the same row, and the other way round, including every
  rejected case.
\<close>

theorem projection_digest_remove_inverse:
  "remove_row blake2b family key encoded_value b' = Ok b \<longleftrightarrow>
   append_row blake2b family key encoded_value b = Ok b'"
  by (rule remove_row_iff_append_row)

end
