(* ===== verification/Wallet_Control.thy ===== *)
theory Wallet_Control
  imports Wallet_Rows Projection_Digest
begin

text \<open>
  The singleton control record of the wallet store (\<open>control.rs\<close>): source positions and event
  cursors, build leases, READY evidence, the encoder, the offset-driven decoder, and the validations
  both apply.
\<close>

section \<open>Event cursors and source positions\<close>

definition WALLET_PROJECTION_EVENT_CURSOR_VERSION :: u8 where
  "WALLET_PROJECTION_EVENT_CURSOR_VERSION = 1"

type_synonym event_cursor = "9 bytes"

definition cursor_for_sequence :: "u64 \<Rightarrow> event_cursor" where
  "cursor_for_sequence event_sequence =
     array_of (WALLET_PROJECTION_EVENT_CURSOR_VERSION # to_be_bytes event_sequence)"

definition cursor_event_sequence :: "event_cursor \<Rightarrow> u64" where
  "cursor_event_sequence cursor = from_be_bytes (drop 1 (as_slice cursor))"

definition cursor_from_bytes :: "9 bytes \<Rightarrow> contract_error + event_cursor" where
  "cursor_from_bytes bs =
     (if as_slice bs ! 0 \<noteq> WALLET_PROJECTION_EVENT_CURSOR_VERSION then
        Err (UnsupportedWalletProjectionEventCursorVersion (ucast (as_slice bs ! 0)))
      else if cursor_event_sequence bs = 0 then Err WalletProjectionEventCursorZeroSequence
      else Ok bs)"

record source_position =
  sp_chain_epoch_id :: chain_epoch_id
  sp_tip :: block_id
  sp_event_sequence :: u64
  sp_event_cursor :: event_cursor

definition source_position_new :: "chain_epoch_id \<Rightarrow> block_id \<Rightarrow> u64 \<Rightarrow> source_position" where
  "source_position_new epoch tip event_sequence =
     \<lparr>sp_chain_epoch_id = epoch, sp_tip = tip, sp_event_sequence = event_sequence,
      sp_event_cursor = cursor_for_sequence event_sequence\<rparr>"

definition validate_event_cursor :: "source_position \<Rightarrow> contract_error + unit" where
  "validate_event_cursor p =
     (if cursor_event_sequence (sp_event_cursor p) \<noteq> sp_event_sequence p
      then Err WalletProjectionEventCursorSequenceMismatch
      else if sp_event_sequence p = 0 then Err WalletProjectionEventCursorZeroSequence
      else Ok ())"

definition with_event_cursor ::
    "chain_epoch_id \<Rightarrow> block_id \<Rightarrow> u64 \<Rightarrow> event_cursor \<Rightarrow> contract_error + source_position" where
  "with_event_cursor epoch tip event_sequence cursor =
     (let p = \<lparr>sp_chain_epoch_id = epoch, sp_tip = tip, sp_event_sequence = event_sequence,
               sp_event_cursor = cursor\<rparr>
      in and_then (validate_event_cursor p) (\<lambda>_. Ok p))"

record canonical_source_identity =
  si_source_position :: source_position
  si_source_sequence_digest :: sequence_digest
  si_settled_tip :: block_id

section \<open>Build leases, READY evidence and the control record\<close>

record build_lease_request =
  lr_owner :: "16 bytes"
  lr_pinned_canonical_anchor :: canonical_source_identity
  lr_earliest_retained_event_sequence :: u64
  lr_expires_at :: unix_timestamp_millis

record build_lease =
  bl_version :: u16
  bl_owner :: "16 bytes"
  bl_generation :: u64
  bl_network :: network
  bl_projection_schema_version :: u16
  bl_pinned_canonical_anchor :: canonical_source_identity
  bl_earliest_retained_event_sequence :: u64
  bl_expires_at :: unix_timestamp_millis

definition lease_from_request :: "build_lease_request \<Rightarrow> u64 \<Rightarrow> network \<Rightarrow> build_lease" where
  "lease_from_request request generation network =
     \<lparr>bl_version = WALLET_PROJECTION_BUILD_LEASE_VERSION, bl_owner = lr_owner request,
      bl_generation = generation, bl_network = network,
      bl_projection_schema_version = WALLET_PROJECTION_SCHEMA_VERSION,
      bl_pinned_canonical_anchor = lr_pinned_canonical_anchor request,
      bl_earliest_retained_event_sequence = lr_earliest_retained_event_sequence request,
      bl_expires_at = lr_expires_at request\<rparr>"

definition lease_renewed :: "unix_timestamp_millis \<Rightarrow> build_lease \<Rightarrow> build_lease" where
  "lease_renewed expires_at lease = lease\<lparr>bl_expires_at := expires_at\<rparr>"

record utxo_set_summary =
  us_utxo_count :: u64
  us_total_value_zat :: u64
  us_commitment :: utxo_commitment

record ready_evidence =
  re_source_position :: source_position
  re_source_sequence_digest :: sequence_digest
  re_settled_tip :: block_id
  re_projection_digest :: "32 bytes"
  re_projection_accumulator :: projection_accumulator
  re_row_counts :: family_row_counts
  re_utxo_summary :: utxo_set_summary

definition source_identity_from_ready_evidence :: "ready_evidence \<Rightarrow> canonical_source_identity" where
  "source_identity_from_ready_evidence e =
     \<lparr>si_source_position = re_source_position e,
      si_source_sequence_digest = re_source_sequence_digest e, si_settled_tip = re_settled_tip e\<rparr>"

datatype build_state = Building source_position | Ready ready_evidence

record store_control =
  sc_network :: network
  sc_supported_reorg_depth :: u32
  sc_writer_generation :: u64
  sc_build_lease :: "build_lease option"
  sc_build_state :: build_state

section \<open>Validations\<close>

definition validate_build_lease :: "store_control \<Rightarrow> contract_error + unit" where
  "validate_build_lease control =
     (case sc_build_lease control of
        None \<Rightarrow> Ok ()
      | Some lease \<Rightarrow>
          if bl_version lease \<noteq> WALLET_PROJECTION_BUILD_LEASE_VERSION then
            Err (UnsupportedWalletProjectionBuildLeaseVersion (ucast (bl_version lease)))
          else if bl_projection_schema_version lease \<noteq> WALLET_PROJECTION_SCHEMA_VERSION then
            Err WalletProjectionBuildLeaseSchemaMismatch
          else if bl_network lease \<noteq> sc_network control then
            Err WalletProjectionBuildLeaseNetworkMismatch
          else if bl_generation lease \<noteq> sc_writer_generation control then
            Err WalletProjectionBuildLeaseGenerationMismatch
          else case sc_build_state control of
            Ready _ \<Rightarrow> Err ReadyControlRetainsBuildLease
          | Building target \<Rightarrow>
              if si_source_position (bl_pinned_canonical_anchor lease) \<noteq> target then
                Err WalletProjectionBuildLeaseCanonicalAnchorMismatch
              else if bl_earliest_retained_event_sequence lease >
                      sp_event_sequence (si_source_position (bl_pinned_canonical_anchor lease)) then
                Err WalletProjectionBuildLeaseRetainedEventAnchorMismatch
              else Ok ())"

definition validate_ready_evidence ::
    "blake2b_fn \<Rightarrow> ready_evidence \<Rightarrow> u32 \<Rightarrow> contract_error + unit" where
  "validate_ready_evidence blake2b e supported_reorg_depth =
     and_then (validate_event_cursor (re_source_position e)) (\<lambda>_.
     let counts = re_row_counts e; tip = sp_tip (re_source_position e); settled = re_settled_tip e in
     if re_projection_digest e \<noteq> accumulator_display_digest blake2b (re_projection_accumulator e) then
       Err ProjectionAccumulatorDigestMismatch
     else if transparent_unspent_output_count counts \<noteq> transparent_unspent_output_by_address_count counts then
       Err ReadyUnspentOutputIndexCountMismatch
     else if transparent_unspent_output_count counts \<noteq> us_utxo_count (re_utxo_summary e) then
       Err ReadyUtxoCountMismatch
     else if sequence_digest_version_value (sd_version (re_source_sequence_digest e)) \<noteq>
             REQUIRED_CANONICAL_SEQUENCE_DIGEST_VERSION then
       Err ReadySourceSequenceVersionMismatch
     else if sd_block_count (re_source_sequence_digest e) = 0 then
       Err ReadySourceSequenceLengthMismatch
     else if id_height settled > id_height tip \<or>
             id_height settled = id_height tip \<and> id_hash settled \<noteq> id_hash tip then
       Err ReadySettledTipOutsideSourceRange
     else
       and_then (ok_or (checked_sub (ucast (id_height tip) :: u64) (ucast (id_height settled)))
                   ReadySettledTipOutsideSourceRange) (\<lambda>required.
       if required > ucast supported_reorg_depth \<or> reorg_undo_count counts \<noteq> required then
         Err ReadyReorgUndoCountMismatch
       else if uc_scheme (us_commitment (re_utxo_summary e)) \<noteq> LtHash16 then
         Err ReadyUtxoCommitmentSchemeMismatch
       else Ok ()))"

section \<open>Encoding\<close>

definition encode_block_id :: "block_id \<Rightarrow> u8 list" where
  "encode_block_id b = to_be_bytes (id_height b) @ as_slice (id_hash b)"

definition encode_source_position :: "source_position \<Rightarrow> u8 list" where
  "encode_source_position p =
     to_be_bytes (sp_chain_epoch_id p) @ to_be_bytes (id_height (sp_tip p)) @
     as_slice (id_hash (sp_tip p)) @ to_be_bytes (sp_event_sequence p) @
     as_slice (sp_event_cursor p)"

definition encode_build_lease :: "build_lease \<Rightarrow> u8 list" where
  "encode_build_lease lease =
     to_be_bytes (bl_version lease) @ as_slice (bl_owner lease) @ to_be_bytes (bl_generation lease) @
     to_be_bytes (network_id (bl_network lease)) @ to_be_bytes (bl_projection_schema_version lease) @
     encode_source_position (si_source_position (bl_pinned_canonical_anchor lease)) @
     encode_source_sequence_digest (si_source_sequence_digest (bl_pinned_canonical_anchor lease)) [] @
     encode_block_id (si_settled_tip (bl_pinned_canonical_anchor lease)) @
     to_be_bytes (bl_earliest_retained_event_sequence lease) @ to_be_bytes (bl_expires_at lease)"

definition encode_ready_evidence ::
    "blake2b_fn \<Rightarrow> ready_evidence \<Rightarrow> u32 \<Rightarrow> contract_error + u8 list" where
  "encode_ready_evidence blake2b e supported_reorg_depth =
     and_then (validate_ready_evidence blake2b e supported_reorg_depth) (\<lambda>_. Ok (
       encode_source_position (re_source_position e) @
       encode_source_sequence_digest (re_source_sequence_digest e) [] @
       encode_block_id (re_settled_tip e) @
       to_be_bytes WALLET_PROJECTION_ACCUMULATOR_VERSION @
       as_slice (re_projection_accumulator e) @
       to_be_bytes (transparent_unspent_output_count (re_row_counts e)) @
       to_be_bytes (transparent_unspent_output_by_address_count (re_row_counts e)) @
       to_be_bytes (transparent_spent_output_count (re_row_counts e)) @
       to_be_bytes (transparent_address_transaction_count (re_row_counts e)) @
       to_be_bytes (transparent_address_balance_count (re_row_counts e)) @
       to_be_bytes (reorg_undo_count (re_row_counts e)) @
       to_be_bytes (us_utxo_count (re_utxo_summary e)) @
       to_be_bytes (us_total_value_zat (re_utxo_summary e)) @
       to_be_bytes (scheme_id (uc_scheme (us_commitment (re_utxo_summary e)))) @
       as_slice (uc_accumulator (us_commitment (re_utxo_summary e)))))"

definition control_encode :: "blake2b_fn \<Rightarrow> store_control \<Rightarrow> contract_error + u8 list" where
  "control_encode blake2b control =
     and_then (case sc_build_state control of
                 Building target \<Rightarrow> validate_event_cursor target | Ready _ \<Rightarrow> Ok ()) (\<lambda>_.
     and_then (validate_build_lease control) (\<lambda>_.
     let header =
           WALLET_PROJECTION_STORE_IDENTITY @
           to_be_bytes WALLET_PROJECTION_SCHEMA_VERSION @
           to_be_bytes WALLET_PROJECTION_VALUE_ENCODING_VERSION @
           to_be_bytes (network_id (sc_network control)) @
           to_be_bytes REQUIRED_CANONICAL_STORE_SCHEMA_VERSION @
           to_be_bytes REQUIRED_CANONICAL_REPLAY_FORMAT_VERSION @
           to_be_bytes REQUIRED_CANONICAL_FACTS_DIGEST_VERSION @
           to_be_bytes REQUIRED_CANONICAL_SEQUENCE_DIGEST_VERSION @
           to_be_bytes (sc_supported_reorg_depth control) @
           to_be_bytes (sc_writer_generation control);
         lease = (case sc_build_lease control of None \<Rightarrow> [0] | Some l \<Rightarrow> 1 # encode_build_lease l)
     in case sc_build_state control of
          Building target \<Rightarrow> Ok (header @ lease @ [1] @ encode_source_position target)
        | Ready e \<Rightarrow>
            and_then (encode_ready_evidence blake2b e (sc_supported_reorg_depth control))
              (\<lambda>bs. Ok (header @ lease @ [2] @ bs))))"

section \<open>Decoding\<close>

text \<open>
  \<open>WalletControlDecoder\<close> reads fields off an encoded record and advances its offset. A reader takes
  the encoded bytes and the offset, and returns the value read and the new offset.
\<close>

type_synonym 'a reader = "u8 list \<Rightarrow> nat \<Rightarrow> contract_error + 'a \<times> nat"

definition bind_reader :: "'a reader \<Rightarrow> ('a \<Rightarrow> 'b reader) \<Rightarrow> 'b reader" where
  "bind_reader p q encoded offset = and_then (p encoded offset) (\<lambda>(x, offset). q x encoded offset)"

definition lift_reader :: "contract_error + 'a \<Rightarrow> 'a reader" where
  "lift_reader r encoded offset = and_then r (\<lambda>x. Ok (x, offset))"

definition read_bytes :: "nat \<Rightarrow> u8 list reader" where
  "read_bytes len encoded offset =
     and_then (ok_or (checked_add_usize offset len) (DurableLengthPrefixMismatch ''wallet store control''))
       (\<lambda>end. case slice_get encoded offset end of
          None \<Rightarrow> Err (DurableValueTooShort ''wallet store control'' end (length encoded))
        | Some bs \<Rightarrow> Ok (bs, end))"

definition read_array :: "'n::len bytes reader" where
  "read_array encoded offset =
     and_then (read_bytes LENGTH('n) encoded offset) (\<lambda>(bs, offset).
     and_then (ok_or (try_into bs)
                 (DurableFieldLengthMismatch ''wallet store control field'' LENGTH('n) (length encoded - offset)))
       (\<lambda>a. Ok (a, offset)))"

definition read_u8 :: "u8 reader" where
  "read_u8 = bind_reader (read_array :: 1 bytes reader) (\<lambda>a. lift_reader (Ok (as_slice a ! 0)))"

definition read_u16 :: "u16 reader" where
  "read_u16 = bind_reader (read_array :: 2 bytes reader) (\<lambda>a. lift_reader (Ok (from_be_bytes (as_slice a))))"

definition read_u32 :: "u32 reader" where
  "read_u32 = bind_reader (read_array :: 4 bytes reader) (\<lambda>a. lift_reader (Ok (from_be_bytes (as_slice a))))"

definition read_u64 :: "u64 reader" where
  "read_u64 = bind_reader (read_array :: 8 bytes reader) (\<lambda>a. lift_reader (Ok (from_be_bytes (as_slice a))))"

definition require_u16 :: "string \<Rightarrow> u16 \<Rightarrow> unit reader" where
  "require_u16 field expected = bind_reader read_u16 (\<lambda>encoded. lift_reader
     (if encoded \<noteq> expected then Err (UnsupportedEncodedValue field (ucast encoded)) else Ok ()))"

definition require_u32 :: "string \<Rightarrow> u32 \<Rightarrow> unit reader" where
  "require_u32 field expected = bind_reader read_u32 (\<lambda>encoded. lift_reader
     (if encoded \<noteq> expected then Err (UnsupportedEncodedValue field (ucast encoded)) else Ok ()))"

definition read_block_id :: "block_id reader" where
  "read_block_id =
     bind_reader read_u32 (\<lambda>height.
     bind_reader read_array (\<lambda>hash.
     lift_reader (Ok \<lparr>id_height = height, id_hash = hash\<rparr>)))"

definition read_source_sequence_digest :: "sequence_digest reader" where
  "read_source_sequence_digest =
     bind_reader (require_u16 ''wallet source sequence digest version''
                    REQUIRED_CANONICAL_SEQUENCE_DIGEST_VERSION) (\<lambda>_.
     bind_reader read_u64 (\<lambda>block_count.
     bind_reader read_array (\<lambda>digest.
     lift_reader (Ok \<lparr>sd_version = SequenceDigestV1, sd_block_count = block_count, sd_bytes = digest\<rparr>))))"

definition read_source_position :: "source_position reader" where
  "read_source_position =
     bind_reader read_u64 (\<lambda>epoch.
     bind_reader read_u32 (\<lambda>height.
     bind_reader read_array (\<lambda>hash.
     bind_reader read_u64 (\<lambda>event_sequence.
     bind_reader read_array (\<lambda>cursor_bytes.
     bind_reader (lift_reader (cursor_from_bytes cursor_bytes)) (\<lambda>cursor.
     lift_reader (with_event_cursor epoch \<lparr>id_height = height, id_hash = hash\<rparr> event_sequence cursor)))))))"

definition read_build_lease :: "build_lease reader" where
  "read_build_lease =
     bind_reader read_u16 (\<lambda>version.
     bind_reader (lift_reader
         (if version \<noteq> WALLET_PROJECTION_BUILD_LEASE_VERSION then
            Err (UnsupportedWalletProjectionBuildLeaseVersion (ucast version)) else Ok ())) (\<lambda>_.
     bind_reader read_array (\<lambda>owner.
     bind_reader read_u64 (\<lambda>generation.
     bind_reader read_u32 (\<lambda>network_id.
     bind_reader (lift_reader (ok_or (network_from_id network_id)
         (UnsupportedEncodedValue ''wallet projection build lease network'' (ucast network_id)))) (\<lambda>network.
     bind_reader read_u16 (\<lambda>projection_schema_version.
     bind_reader read_source_position (\<lambda>position.
     bind_reader read_source_sequence_digest (\<lambda>digest.
     bind_reader read_block_id (\<lambda>settled_tip.
     bind_reader read_u64 (\<lambda>earliest.
     bind_reader read_u64 (\<lambda>expires_at.
     lift_reader (Ok
       \<lparr>bl_version = version, bl_owner = owner, bl_generation = generation, bl_network = network,
        bl_projection_schema_version = projection_schema_version,
        bl_pinned_canonical_anchor =
          \<lparr>si_source_position = position, si_source_sequence_digest = digest, si_settled_tip = settled_tip\<rparr>,
        bl_earliest_retained_event_sequence = earliest, bl_expires_at = expires_at\<rparr>)))))))))))))"

definition read_row_counts :: "family_row_counts reader" where
  "read_row_counts =
     bind_reader read_u64 (\<lambda>unspent.
     bind_reader read_u64 (\<lambda>by_address.
     bind_reader read_u64 (\<lambda>spent.
     bind_reader read_u64 (\<lambda>address_transaction.
     bind_reader read_u64 (\<lambda>balance.
     bind_reader read_u64 (\<lambda>undo.
     lift_reader (Ok
       \<lparr>transparent_unspent_output_count = unspent,
        transparent_unspent_output_by_address_count = by_address,
        transparent_spent_output_count = spent,
        transparent_address_transaction_count = address_transaction,
        transparent_address_balance_count = balance, reorg_undo_count = undo\<rparr>)))))))"

definition read_ready_evidence :: "blake2b_fn \<Rightarrow> u32 \<Rightarrow> ready_evidence reader" where
  "read_ready_evidence blake2b supported_reorg_depth =
     bind_reader read_source_position (\<lambda>position.
     bind_reader read_source_sequence_digest (\<lambda>digest.
     bind_reader read_block_id (\<lambda>settled_tip.
     bind_reader (require_u16 ''wallet projection accumulator version''
                    WALLET_PROJECTION_ACCUMULATOR_VERSION) (\<lambda>_.
     bind_reader (read_bytes 2048) (\<lambda>accumulator_bytes.
     bind_reader (lift_reader (accumulator_from_bytes accumulator_bytes)) (\<lambda>accumulator.
     bind_reader read_row_counts (\<lambda>counts.
     bind_reader read_u64 (\<lambda>utxo_count.
     bind_reader read_u64 (\<lambda>total_value_zat.
     bind_reader read_u32 (\<lambda>scheme_id.
     bind_reader (lift_reader (ok_or (scheme_from_id scheme_id)
         (UnsupportedEncodedValue ''wallet UTXO commitment scheme'' (ucast scheme_id)))) (\<lambda>scheme.
     bind_reader (read_bytes 2048) (\<lambda>commitment_bytes.
     bind_reader (lift_reader (ok_or (commitment_from_parts scheme commitment_bytes)
         (DurableFieldLengthMismatch ''wallet UTXO commitment accumulator'' 2048
            (length commitment_bytes)))) (\<lambda>commitment.
     let evidence =
       \<lparr>re_source_position = position, re_source_sequence_digest = digest,
        re_settled_tip = settled_tip,
        re_projection_digest = accumulator_display_digest blake2b accumulator,
        re_projection_accumulator = accumulator, re_row_counts = counts,
        re_utxo_summary =
          \<lparr>us_utxo_count = utxo_count, us_total_value_zat = total_value_zat,
           us_commitment = commitment\<rparr>\<rparr>
     in bind_reader (lift_reader (validate_ready_evidence blake2b evidence supported_reorg_depth))
          (\<lambda>_. lift_reader (Ok evidence)))))))))))))))"

definition read_finish :: "unit reader" where
  "read_finish encoded offset =
     (if offset \<noteq> length encoded then Err (DurableTrailingBytes ''wallet store control'')
      else Ok ((), offset))"

definition read_control_fields :: "blake2b_fn \<Rightarrow> store_control reader" where
  "read_control_fields blake2b =
     bind_reader (read_bytes (length WALLET_PROJECTION_STORE_IDENTITY)) (\<lambda>identity.
     bind_reader (lift_reader (if identity \<noteq> WALLET_PROJECTION_STORE_IDENTITY
                               then Err (DurableIdentityMismatch ''wallet store control'') else Ok ())) (\<lambda>_.
     bind_reader (require_u16 ''wallet projection schema version'' WALLET_PROJECTION_SCHEMA_VERSION) (\<lambda>_.
     bind_reader (require_u16 ''wallet projection value encoding version''
                    WALLET_PROJECTION_VALUE_ENCODING_VERSION) (\<lambda>_.
     bind_reader read_u32 (\<lambda>network_id.
     bind_reader (lift_reader (ok_or (network_from_id network_id)
         (UnsupportedEncodedValue ''wallet projection network'' (ucast network_id)))) (\<lambda>network.
     bind_reader (require_u16 ''required canonical store schema version''
                    REQUIRED_CANONICAL_STORE_SCHEMA_VERSION) (\<lambda>_.
     bind_reader (require_u32 ''required canonical replay format version''
                    REQUIRED_CANONICAL_REPLAY_FORMAT_VERSION) (\<lambda>_.
     bind_reader (require_u16 ''required canonical facts digest version''
                    REQUIRED_CANONICAL_FACTS_DIGEST_VERSION) (\<lambda>_.
     bind_reader (require_u16 ''required canonical sequence digest version''
                    REQUIRED_CANONICAL_SEQUENCE_DIGEST_VERSION) (\<lambda>_.
     bind_reader read_u32 (\<lambda>supported_reorg_depth.
     bind_reader read_u64 (\<lambda>writer_generation.
     bind_reader read_u8 (\<lambda>presence.
     bind_reader
       (if presence = 0 then lift_reader (Ok None)
        else if presence = 1 then bind_reader read_build_lease (\<lambda>lease. lift_reader (Ok (Some lease)))
        else lift_reader (Err (UnsupportedEncodedValue ''wallet projection build lease presence''
                                 (ucast presence)))) (\<lambda>build_lease.
     bind_reader read_u8 (\<lambda>state.
     bind_reader
       (if state = 1 then bind_reader read_source_position (\<lambda>target. lift_reader (Ok (Building target)))
        else if state = 2 then
          bind_reader (read_ready_evidence blake2b supported_reorg_depth) (\<lambda>e. lift_reader (Ok (Ready e)))
        else lift_reader (Err (UnsupportedEncodedValue ''wallet projection build state''
                                 (ucast state)))) (\<lambda>build_state.
     lift_reader (Ok
       \<lparr>sc_network = network, sc_supported_reorg_depth = supported_reorg_depth,
        sc_writer_generation = writer_generation, sc_build_lease = build_lease,
        sc_build_state = build_state\<rparr>)))))))))))))))))"

definition read_control :: "blake2b_fn \<Rightarrow> store_control reader" where
  "read_control blake2b =
     bind_reader (read_control_fields blake2b) (\<lambda>control.
     bind_reader read_finish (\<lambda>_. lift_reader (Ok control)))"

definition control_decode :: "blake2b_fn \<Rightarrow> u8 list \<Rightarrow> contract_error + store_control" where
  "control_decode blake2b encoded =
     and_then (read_control blake2b encoded 0) (\<lambda>(control, _).
     and_then (validate_build_lease control) (\<lambda>_.
     and_then (control_encode blake2b control) (\<lambda>reencoded.
     if reencoded \<noteq> encoded then
       Err (DurableNonCanonicalEncoding ''wallet store control canonical encoding'')
     else Ok control)))"

section \<open>Readers invert encoders\<close>

text \<open>
  \<open>reads p bs x\<close>: wherever the bytes \<open>bs\<close> stand in a record, the reader \<open>p\<close> started at their
  beginning returns \<open>x\<close> and stops at their end. Readers compose as their bytes concatenate.
\<close>

definition reads :: "'a reader \<Rightarrow> u8 list \<Rightarrow> 'a \<Rightarrow> bool" where
  "reads p bs x \<longleftrightarrow> (\<forall>pre post. length pre + length bs < 2 ^ 64 \<longrightarrow>
     p (pre @ bs @ post) (length pre) = Inr (x, length pre + length bs))"

lemma readsD:
  "reads p bs x \<Longrightarrow> length pre + length bs < 2 ^ 64 \<Longrightarrow>
     p (pre @ bs @ post) (length pre) = Inr (x, length pre + length bs)"
  by (simp add: reads_def)

lemma reads_bind:
  assumes "reads p a x" and "reads (q x) b y"
  shows "reads (bind_reader p q) (a @ b) y"
  unfolding reads_def
proof (intro allI impI)
  fix pre post :: "u8 list"
  assume len: "length pre + length (a @ b) < 2 ^ 64"
  have "p (pre @ a @ (b @ post)) (length pre) = Inr (x, length (pre @ a))"
    using readsD [OF assms(1), of pre "b @ post"] len by simp
  moreover have "q x ((pre @ a) @ b @ post) (length (pre @ a)) = Inr (y, length (pre @ a) + length b)"
    using len by (intro readsD [OF assms(2)]) simp
  ultimately show "bind_reader p q (pre @ (a @ b) @ post) (length pre) = Inr (y, length pre + length (a @ b))"
    by (simp add: bind_reader_def)
qed

lemma reads_lift: "r = Inr x \<Longrightarrow> reads (lift_reader r) [] x"
  by (simp add: reads_def lift_reader_def)

lemma reads_bind_lift: "r = Inr x \<Longrightarrow> reads (q x) b y \<Longrightarrow> reads (bind_reader (lift_reader r) q) b y"
  using reads_bind [of "lift_reader r" "[]" x q b y] by (simp add: reads_lift)

lemma reads_last: "reads p a x \<Longrightarrow> reads (q x) [] y \<Longrightarrow> reads (bind_reader p q) a y"
  using reads_bind [of p a x q "[]" y] by simp

lemma reads_read_bytes: "length bs = n \<Longrightarrow> reads (read_bytes n) bs bs"
  by (simp add: reads_def read_bytes_def checked_add_usize_def slice_get_def)

lemma reads_read_array: "reads read_array (as_slice a) (a :: 'n::len bytes)"
  unfolding reads_def read_array_def
  using readsD [OF reads_read_bytes [OF length_as_slice [of a]]] by simp

lemma reads_read_u8: "reads read_u8 [v] v"
proof -
  have "reads (read_array :: 1 bytes reader) [v] (array_of [v])"
    using reads_read_array [of "array_of [v] :: 1 bytes"] by simp
  then show ?thesis unfolding read_u8_def by (rule reads_last) (simp add: reads_lift)
qed

lemma reads_be_word:
  assumes "8 * LENGTH('n) = LENGTH('w)"
  shows "reads (bind_reader (read_array :: 'n::len bytes reader)
           (\<lambda>a. lift_reader (Ok (from_be_bytes (as_slice a) :: 'w::len word)))) (to_be_bytes v) v"
proof -
  have len: "length (to_be_bytes v) = LENGTH('n)" "8 dvd LENGTH('w)"
    using assms by (simp, presburger)+
  then have slice: "as_slice (array_of (to_be_bytes v) :: 'n bytes) = to_be_bytes v" by simp
  have "reads read_array (to_be_bytes v) (array_of (to_be_bytes v) :: 'n bytes)"
    using reads_read_array [of "array_of (to_be_bytes v) :: 'n bytes"] by (simp only: slice)
  then show ?thesis
    by (rule reads_last) (simp add: slice len(2) from_to_be_bytes reads_lift)
qed

lemma reads_be:
  "reads read_u16 (to_be_bytes h) h"
  "reads read_u32 (to_be_bytes w) w"
  "reads read_u64 (to_be_bytes v) v"
  unfolding read_u16_def read_u32_def read_u64_def by (rule reads_be_word, simp)+

lemma reads_require:
  "reads (require_u16 field h) (to_be_bytes h) ()"
  "reads (require_u32 field w) (to_be_bytes w) ()"
  unfolding require_u16_def require_u32_def
  by (rule reads_last, rule reads_be, simp add: reads_lift)+

lemmas reads_basic = reads_read_array reads_read_u8 reads_be reads_require

lemma reads_block_id: "reads read_block_id (encode_block_id b) b"
  unfolding read_block_id_def encode_block_id_def
  by (rule reads_bind, rule reads_basic, rule reads_last, rule reads_basic, rule reads_lift) simp

lemma reads_source_sequence_digest:
  "reads read_source_sequence_digest (encode_source_sequence_digest d []) d"
proof -
  have v: "sd_version d = SequenceDigestV1" by (rule sequence_digest_version_eq)
  have "sequence_digest_version_value (sd_version d) = REQUIRED_CANONICAL_SEQUENCE_DIGEST_VERSION"
    by (simp add: v REQUIRED_CANONICAL_SEQUENCE_DIGEST_VERSION_def)
  then show ?thesis
    unfolding read_source_sequence_digest_def encode_source_sequence_digest_def append_Nil
    by (simp only:)
      (rule reads_bind, rule reads_basic, rule reads_bind, rule reads_basic, rule reads_last,
        rule reads_basic, rule reads_lift, simp add: v [symmetric])
qed

text \<open>
  The cursor of a position in memory comes from \<open>for_sequence\<close> or \<open>from_bytes\<close>, so its first byte is
  the cursor version: the invariant of the private field of \<open>WalletProjectionEventCursor\<close>.
\<close>

definition position_wf :: "source_position \<Rightarrow> bool" where
  "position_wf p \<longleftrightarrow> as_slice (sp_event_cursor p) ! 0 = WALLET_PROJECTION_EVENT_CURSOR_VERSION"

definition control_wf :: "store_control \<Rightarrow> bool" where
  "control_wf c \<longleftrightarrow>
     (case sc_build_state c of Building p \<Rightarrow> position_wf p | Ready e \<Rightarrow> position_wf (re_source_position e)) \<and>
     (case sc_build_lease c of
        None \<Rightarrow> True | Some l \<Rightarrow> position_wf (si_source_position (bl_pinned_canonical_anchor l)))"

lemma position_wf_new [simp]: "position_wf (source_position_new epoch tip n)"
  by (simp add: position_wf_def source_position_new_def cursor_for_sequence_def)

lemma reads_source_position:
  assumes "position_wf p" and "validate_event_cursor p = Inr ()"
  shows "reads read_source_position (encode_source_position p) p"
proof -
  have "cursor_from_bytes (sp_event_cursor p) = Inr (sp_event_cursor p)"
    using assms by (auto simp: cursor_from_bytes_def position_wf_def validate_event_cursor_def split: if_splits)
  moreover have "with_event_cursor (sp_chain_epoch_id p)
      \<lparr>id_height = id_height (sp_tip p), id_hash = id_hash (sp_tip p)\<rparr> (sp_event_sequence p)
      (sp_event_cursor p) = Inr p"
  proof -
    have "\<lparr>sp_chain_epoch_id = sp_chain_epoch_id p,
        sp_tip = \<lparr>id_height = id_height (sp_tip p), id_hash = id_hash (sp_tip p)\<rparr>,
        sp_event_sequence = sp_event_sequence p, sp_event_cursor = sp_event_cursor p\<rparr> = p"
      by simp
    then show ?thesis using assms(2) by (simp only: with_event_cursor_def Let_def and_then_simps)
  qed
  ultimately show ?thesis
    unfolding read_source_position_def encode_source_position_def
    apply -
    apply (rule reads_bind, rule reads_basic)
    apply (rule reads_bind, rule reads_basic)
    apply (rule reads_bind, rule reads_basic)
    apply (rule reads_bind, rule reads_basic)
    apply (rule reads_last, rule reads_basic)
    apply (rule reads_bind_lift, assumption)
    apply (rule reads_lift, assumption)
    done
qed

lemma reads_row_counts:
  "reads read_row_counts
     (to_be_bytes (transparent_unspent_output_count c) @
      to_be_bytes (transparent_unspent_output_by_address_count c) @
      to_be_bytes (transparent_spent_output_count c) @
      to_be_bytes (transparent_address_transaction_count c) @
      to_be_bytes (transparent_address_balance_count c) @
      to_be_bytes (reorg_undo_count c)) c"
  unfolding read_row_counts_def
  apply (rule reads_bind, rule reads_basic)
  apply (rule reads_bind, rule reads_basic)
  apply (rule reads_bind, rule reads_basic)
  apply (rule reads_bind, rule reads_basic)
  apply (rule reads_bind, rule reads_basic)
  apply (rule reads_last, rule reads_basic)
  apply (rule reads_lift, simp)
  done

lemma reads_build_lease:
  assumes "bl_version l = WALLET_PROJECTION_BUILD_LEASE_VERSION"
    and "position_wf (si_source_position (bl_pinned_canonical_anchor l))"
    and "validate_event_cursor (si_source_position (bl_pinned_canonical_anchor l)) = Inr ()"
  shows "reads read_build_lease (encode_build_lease l) l"
  unfolding read_build_lease_def encode_build_lease_def
  apply (rule reads_bind, rule reads_basic)
  apply (rule reads_bind_lift, simp add: assms(1))
  apply (rule reads_bind, rule reads_basic)
  apply (rule reads_bind, rule reads_basic)
  apply (rule reads_bind, rule reads_basic)
  apply (rule reads_bind_lift, simp)
  apply (rule reads_bind, rule reads_basic)
  apply (rule reads_bind, rule reads_source_position [OF assms(2,3)])
  apply (rule reads_bind, rule reads_source_sequence_digest)
  apply (rule reads_bind, rule reads_block_id)
  apply (rule reads_bind, rule reads_basic)
  apply (rule reads_last, rule reads_basic)
  apply (rule reads_lift, simp)
  done

lemma reads_ready_evidence:
  assumes "position_wf (re_source_position e)"
    and "encode_ready_evidence blake2b e depth = Inr bs"
  shows "reads (read_ready_evidence blake2b depth) bs e"
proof -
  have valid: "validate_ready_evidence blake2b e depth = Inr ()"
    using assms(2) by (auto simp: encode_ready_evidence_def and_then_Ok_iff)
  then have cursor: "validate_event_cursor (re_source_position e) = Inr ()"
    and digest: "re_projection_digest e = accumulator_display_digest blake2b (re_projection_accumulator e)"
    by (auto simp: validate_ready_evidence_def and_then_Ok_iff Let_def split: if_splits)
  have bs: "bs = encode_source_position (re_source_position e) @
       encode_source_sequence_digest (re_source_sequence_digest e) [] @
       encode_block_id (re_settled_tip e) @
       to_be_bytes WALLET_PROJECTION_ACCUMULATOR_VERSION @
       as_slice (re_projection_accumulator e) @
       (to_be_bytes (transparent_unspent_output_count (re_row_counts e)) @
       to_be_bytes (transparent_unspent_output_by_address_count (re_row_counts e)) @
       to_be_bytes (transparent_spent_output_count (re_row_counts e)) @
       to_be_bytes (transparent_address_transaction_count (re_row_counts e)) @
       to_be_bytes (transparent_address_balance_count (re_row_counts e)) @
       to_be_bytes (reorg_undo_count (re_row_counts e))) @
       to_be_bytes (us_utxo_count (re_utxo_summary e)) @
       to_be_bytes (us_total_value_zat (re_utxo_summary e)) @
       to_be_bytes (scheme_id (uc_scheme (us_commitment (re_utxo_summary e)))) @
       as_slice (uc_accumulator (us_commitment (re_utxo_summary e)))"
    using assms(2) by (simp add: encode_ready_evidence_def valid)
  have rec: "\<lparr>re_source_position = re_source_position e,
        re_source_sequence_digest = re_source_sequence_digest e, re_settled_tip = re_settled_tip e,
        re_projection_digest = accumulator_display_digest blake2b (re_projection_accumulator e),
        re_projection_accumulator = re_projection_accumulator e, re_row_counts = re_row_counts e,
        re_utxo_summary = \<lparr>us_utxo_count = us_utxo_count (re_utxo_summary e),
          us_total_value_zat = us_total_value_zat (re_utxo_summary e),
          us_commitment = us_commitment (re_utxo_summary e)\<rparr>\<rparr> = e"
    by (simp flip: digest)
  show ?thesis
    unfolding read_ready_evidence_def bs
    apply (rule reads_bind, rule reads_source_position [OF assms(1) cursor])
    apply (rule reads_bind, rule reads_source_sequence_digest)
    apply (rule reads_bind, rule reads_block_id)
    apply (rule reads_bind, rule reads_basic)
    apply (rule reads_bind, rule reads_read_bytes, simp)
    apply (rule reads_bind_lift, simp add: accumulator_from_bytes_def)
    apply (rule reads_bind, rule reads_row_counts)
    apply (rule reads_bind, rule reads_basic)
    apply (rule reads_bind, rule reads_basic)
    apply (rule reads_bind, rule reads_basic)
    apply (rule reads_bind_lift, simp)
    apply (rule reads_last, rule reads_read_bytes, simp)
    apply (rule reads_bind_lift, simp)
    apply (simp only: Let_def rec)
    apply (rule reads_bind_lift, rule valid)
    apply (rule reads_lift, simp)
    done
qed

lemma validate_build_lease_Some:
  assumes "validate_build_lease c = Inr ()" and "sc_build_lease c = Some l"
  shows "bl_version l = WALLET_PROJECTION_BUILD_LEASE_VERSION \<and>
         sc_build_state c = Building (si_source_position (bl_pinned_canonical_anchor l))"
  using assms by (auto simp: validate_build_lease_def split: if_splits build_state.splits)

lemma reads_optional_lease:
  assumes "validate_build_lease c = Inr ()" and "control_wf c"
    and "\<And>p. sc_build_state c = Building p \<Longrightarrow> validate_event_cursor p = Inr ()"
  shows "\<exists>presence bs.
      (case sc_build_lease c of None \<Rightarrow> [0] | Some l \<Rightarrow> 1 # encode_build_lease l) = [presence] @ bs \<and>
      reads (if presence = 0 then lift_reader (Ok None)
        else if presence = 1 then bind_reader read_build_lease (\<lambda>lease. lift_reader (Ok (Some lease)))
        else lift_reader (Err (UnsupportedEncodedValue ''wallet projection build lease presence''
                                 (ucast presence)))) bs (sc_build_lease c)"
proof (cases "sc_build_lease c")
  case None
  then show ?thesis by (auto intro: reads_lift)
next
  case (Some l)
  then have "reads read_build_lease (encode_build_lease l) l"
    using validate_build_lease_Some [OF assms(1) Some] assms(2,3)
    by (intro reads_build_lease) (auto simp: control_wf_def)
  then have "reads (bind_reader read_build_lease (\<lambda>lease. lift_reader (Ok (Some lease))))
      (encode_build_lease l) (Some l)"
    by (rule reads_last) (simp add: reads_lift)
  with Some show ?thesis by (intro exI [of _ 1] exI [of _ "encode_build_lease l"]) simp
qed

lemma reads_build_state:
  assumes "control_encode blake2b c = Inr bs" and "control_wf c"
  shows "\<exists>state rest.
      (case sc_build_state c of
         Building target \<Rightarrow> Inr ([1] @ encode_source_position target)
       | Ready e \<Rightarrow> and_then (encode_ready_evidence blake2b e (sc_supported_reorg_depth c)) (\<lambda>bs. Inr ([2] @ bs)))
        = Inr ([state] @ rest) \<and>
      reads (if state = 1 then bind_reader read_source_position (\<lambda>target. lift_reader (Ok (Building target)))
        else if state = 2 then
          bind_reader (read_ready_evidence blake2b (sc_supported_reorg_depth c)) (\<lambda>e. lift_reader (Ok (Ready e)))
        else lift_reader (Err (UnsupportedEncodedValue ''wallet projection build state''
                                 (ucast state)))) rest (sc_build_state c)"
proof (cases "sc_build_state c")
  case (Building p)
  then have "reads read_source_position (encode_source_position p) p"
    using assms by (intro reads_source_position) (auto simp: control_wf_def control_encode_def and_then_Ok_iff)
  then have "reads (bind_reader read_source_position (\<lambda>target. lift_reader (Ok (Building target))))
      (encode_source_position p) (Building p)"
    by (rule reads_last) (simp add: reads_lift)
  with Building show ?thesis by (intro exI [of _ 1] exI [of _ "encode_source_position p"]) simp
next
  case (Ready e)
  then obtain rest where rest: "encode_ready_evidence blake2b e (sc_supported_reorg_depth c) = Inr rest"
    using assms(1) by (auto simp: control_encode_def and_then_Ok_iff Let_def)
  then have "reads (read_ready_evidence blake2b (sc_supported_reorg_depth c)) rest e"
    using assms(2) Ready by (intro reads_ready_evidence) (auto simp: control_wf_def)
  then have "reads (bind_reader (read_ready_evidence blake2b (sc_supported_reorg_depth c))
      (\<lambda>e. lift_reader (Ok (Ready e)))) rest (Ready e)"
    by (rule reads_last) (simp add: reads_lift)
  with Ready rest show ?thesis by (intro exI [of _ 2] exI [of _ rest]) simp
qed

lemma reads_control_fields:
  assumes "control_encode blake2b c = Inr bs" and "control_wf c"
  shows "reads (read_control_fields blake2b) bs c"
proof -
  have lease: "validate_build_lease c = Inr ()"
      "\<And>p. sc_build_state c = Building p \<Longrightarrow> validate_event_cursor p = Inr ()"
    using assms(1) by (auto simp: control_encode_def and_then_Ok_iff)
  obtain presence lbs where l:
      "(case sc_build_lease c of None \<Rightarrow> [0] | Some l \<Rightarrow> 1 # encode_build_lease l) = [presence] @ lbs"
      "reads (if presence = 0 then lift_reader (Ok None)
        else if presence = 1 then bind_reader read_build_lease (\<lambda>lease. lift_reader (Ok (Some lease)))
        else lift_reader (Err (UnsupportedEncodedValue ''wallet projection build lease presence''
                                 (ucast presence)))) lbs (sc_build_lease c)"
    using reads_optional_lease [OF lease(1) assms(2) lease(2)] by blast
  obtain state rest where s:
      "(case sc_build_state c of
         Building target \<Rightarrow> Inr ([1] @ encode_source_position target)
       | Ready e \<Rightarrow> and_then (encode_ready_evidence blake2b e (sc_supported_reorg_depth c)) (\<lambda>bs. Inr ([2] @ bs)))
        = Inr ([state] @ rest)"
      "reads (if state = 1 then bind_reader read_source_position (\<lambda>target. lift_reader (Ok (Building target)))
        else if state = 2 then
          bind_reader (read_ready_evidence blake2b (sc_supported_reorg_depth c)) (\<lambda>e. lift_reader (Ok (Ready e)))
        else lift_reader (Err (UnsupportedEncodedValue ''wallet projection build state''
                                 (ucast state)))) rest (sc_build_state c)"
    using reads_build_state [OF assms] by blast
  have bs: "bs = WALLET_PROJECTION_STORE_IDENTITY @
      to_be_bytes WALLET_PROJECTION_SCHEMA_VERSION @
      to_be_bytes WALLET_PROJECTION_VALUE_ENCODING_VERSION @
      to_be_bytes (network_id (sc_network c)) @
      to_be_bytes REQUIRED_CANONICAL_STORE_SCHEMA_VERSION @
      to_be_bytes REQUIRED_CANONICAL_REPLAY_FORMAT_VERSION @
      to_be_bytes REQUIRED_CANONICAL_FACTS_DIGEST_VERSION @
      to_be_bytes REQUIRED_CANONICAL_SEQUENCE_DIGEST_VERSION @
      to_be_bytes (sc_supported_reorg_depth c) @ to_be_bytes (sc_writer_generation c) @
      [presence] @ lbs @ [state] @ rest"
    using assms(1) s(1) by (cases "sc_build_state c")
      (auto simp: control_encode_def and_then_Ok_iff Let_def l(1))
  show ?thesis
    unfolding read_control_fields_def bs
    apply (rule reads_bind, rule reads_read_bytes, rule refl)
    apply (rule reads_bind_lift, simp)
    apply (rule reads_bind, rule reads_basic)
    apply (rule reads_bind, rule reads_basic)
    apply (rule reads_bind, rule reads_basic)
    apply (rule reads_bind_lift, simp)
    apply (rule reads_bind, rule reads_basic)
    apply (rule reads_bind, rule reads_basic)
    apply (rule reads_bind, rule reads_basic)
    apply (rule reads_bind, rule reads_basic)
    apply (rule reads_bind, rule reads_basic)
    apply (rule reads_bind, rule reads_basic)
    apply (rule reads_bind, rule reads_basic)
    apply (rule reads_bind, rule l(2))
    apply (rule reads_bind, rule reads_basic)
    apply (rule reads_last, rule s(2))
    apply (rule reads_lift, simp)
    done
qed

lemma length_position [simp]: "length (encode_source_position p) = 61"
  by (simp add: encode_source_position_def)

lemma length_lease [simp]: "length (encode_build_lease l) = 187"
  by (simp add: encode_build_lease_def encode_source_sequence_digest_def encode_block_id_def)

lemma length_ready_evidence:
  "encode_ready_evidence blake2b e depth = Inr bs \<Longrightarrow> length bs = 4305"
  by (auto simp: encode_ready_evidence_def and_then_Ok_iff encode_source_sequence_digest_def
      encode_block_id_def)

lemma control_encode_bound:
  assumes "control_encode blake2b c = Inr bs"
  shows "length bs < 8192"
proof -
  have "length (case sc_build_lease c of None \<Rightarrow> [0 :: u8] | Some l \<Rightarrow> 1 # encode_build_lease l) \<le> 188"
    by (cases "sc_build_lease c") simp_all
  then show ?thesis
    using assms by (auto simp: control_encode_def and_then_Ok_iff Let_def length_ready_evidence
        WALLET_PROJECTION_STORE_IDENTITY_def split: build_state.splits)
qed

lemma control_decode_encode:
  assumes "control_wf c" and "control_encode blake2b c = Inr bs"
  shows "control_decode blake2b bs = Inr c"
proof -
  have "read_control_fields blake2b bs 0 = Inr (c, length bs)"
    using readsD [OF reads_control_fields [OF assms(2,1)], of "[]" "[]"] control_encode_bound [OF assms(2)]
    by simp
  then have "read_control blake2b bs 0 = Inr (c, length bs)"
    by (simp add: read_control_def bind_reader_def read_finish_def lift_reader_def)
  moreover have "validate_build_lease c = Inr ()"
    using assms(2) by (auto simp: control_encode_def and_then_Ok_iff)
  ultimately show ?thesis
    using assms(2) by (simp add: control_decode_def)
qed

text \<open>\<open>yields p P\<close>: every value the reader returns satisfies \<open>P\<close>.\<close>

definition yields :: "'a reader \<Rightarrow> ('a \<Rightarrow> bool) \<Rightarrow> bool" where
  "yields p P \<longleftrightarrow> (\<forall>bs k x k'. p bs k = Inr (x, k') \<longrightarrow> P x)"

lemma yields_any: "yields p (\<lambda>_. True)"
  by (simp add: yields_def)

lemma yields_bind:
  assumes "yields p Q" and "\<And>x. Q x \<Longrightarrow> yields (q x) P"
  shows "yields (bind_reader p q) P"
  using assms unfolding yields_def bind_reader_def and_then_Ok_iff by (auto split: prod.splits) blast

lemma yields_skip: "(\<And>x. yields (q x) P) \<Longrightarrow> yields (bind_reader p q) P"
  by (rule yields_bind [OF yields_any])

lemma yields_lift: "(\<And>x. r = Inr x \<Longrightarrow> P x) \<Longrightarrow> yields (lift_reader r) P"
  by (auto simp: yields_def lift_reader_def and_then_Ok_iff)

lemma yields_source_position: "yields read_source_position position_wf"
proof -
  have "position_wf p" if "with_event_cursor epoch tip n cursor = Inr p" "cursor_from_bytes bs = Inr cursor"
    for epoch tip n cursor bs p
    using that by (auto simp: with_event_cursor_def cursor_from_bytes_def position_wf_def and_then_Ok_iff
        Let_def split: if_splits)
  then have "yields (bind_reader (lift_reader (cursor_from_bytes bs)) (\<lambda>cursor.
      lift_reader (with_event_cursor epoch tip n cursor))) position_wf" for epoch tip n bs
    by (intro yields_bind [where Q = "\<lambda>cursor. cursor_from_bytes bs = Inr cursor"] yields_lift) auto
  note * = this
  show ?thesis
    unfolding read_source_position_def by (rule * yields_skip)+
qed

lemmas yields_position_bind = yields_bind [OF yields_source_position]

lemma yields_build_lease:
  "yields read_build_lease (\<lambda>l. position_wf (si_source_position (bl_pinned_canonical_anchor l)))"
  unfolding read_build_lease_def
  by (rule yields_position_bind yields_skip yields_lift)+ auto

lemma yields_ready_evidence:
  "yields (read_ready_evidence blake2b depth) (\<lambda>e. position_wf (re_source_position e))"
  unfolding read_ready_evidence_def Let_def
  by (rule yields_position_bind yields_skip yields_lift)+ auto

lemma yields_optional_lease:
  "yields (if presence = 0 then lift_reader (Ok None)
      else if presence = (1 :: u8) then bind_reader read_build_lease (\<lambda>lease. lift_reader (Ok (Some lease)))
      else lift_reader (Err err))
     (\<lambda>lease. case lease of
        None \<Rightarrow> True | Some l \<Rightarrow> position_wf (si_source_position (bl_pinned_canonical_anchor l)))"
  by (auto intro!: yields_lift yields_bind [OF yields_build_lease])

lemma yields_build_state:
  "yields (if state = (1 :: u8) then bind_reader read_source_position (\<lambda>target. lift_reader (Ok (Building target)))
      else if state = 2 then bind_reader (read_ready_evidence blake2b depth) (\<lambda>e. lift_reader (Ok (Ready e)))
      else lift_reader (Err err))
     (\<lambda>st. case st of Building p \<Rightarrow> position_wf p | Ready e \<Rightarrow> position_wf (re_source_position e))"
  by (auto intro!: yields_lift yields_bind [OF yields_source_position] yields_bind [OF yields_ready_evidence])

lemma yields_control_fields: "yields (read_control_fields blake2b) control_wf"
  unfolding read_control_fields_def
  by (rule yields_bind [OF yields_optional_lease] yields_bind [OF yields_build_state] yields_skip yields_lift)+
    (auto simp: control_wf_def)

lemma control_decode_wf:
  assumes "control_decode blake2b bs = Inr c"
  shows "control_wf c"
proof -
  obtain k where "read_control blake2b bs 0 = Inr (c, k)"
    using assms by (auto simp: control_decode_def and_then_Ok_iff split: if_splits)
  then obtain k' where "read_control_fields blake2b bs 0 = Inr (c, k')"
    by (auto simp: read_control_def bind_reader_def lift_reader_def and_then_Ok_iff)
  then show ?thesis using yields_control_fields unfolding yields_def by blast
qed

interpretation control: row_codec "control_encode blake2b" "\<lambda>_ :: unit. control_decode blake2b" "\<lambda>_. ()" control_wf
  for blake2b
proof
  fix a bs
  show "control_wf a \<Longrightarrow> control_encode blake2b a = Inr bs \<Longrightarrow> control_decode blake2b bs = Inr a"
    by (rule control_decode_encode)
next
  fix k :: unit and bs a
  assume *: "control_decode blake2b bs = Inr a"
  then have "control_encode blake2b a = Inr bs"
    by (auto simp: control_decode_def and_then_Ok_iff split: if_splits)
  with control_decode_wf [OF *] show "control_wf a \<and> () = k \<and> control_encode blake2b a = Inr bs" by simp
qed

section \<open>The properties of the control record\<close>

lemma unat_ucast_u32 [simp]: "unat (ucast (w :: u32) :: u64) = unat w"
proof -
  have "unat w < 2 ^ 64" by (rule less_trans [OF unat_u32_less]) simp
  then show ?thesis by (simp add: unsigned_ucast_eq take_bit_nat_eq_self)
qed

text \<open>
  C28: the control record survives storage. Bytes decode to a control record exactly when the encoder
  produces those bytes for it, so a record is read back as it was written and no other byte string
  is accepted in its place. (\<open>control_wf\<close> says that event cursors in memory carry the cursor version,
  which their constructors enforce.)
\<close>

theorem control_record_codec:
  "control_decode blake2b bs = Ok c \<longleftrightarrow> control_wf c \<and> control_encode blake2b c = Ok bs"
  using control.decode_Ok_iff by simp

text \<open>
  C29: a READY control record that is accepted from storage is internally consistent: it carries no
  build lease, its event cursor names its nonzero event sequence, its digest is the digest of its
  accumulator, the unspent rows, their address index and the UTXO summary agree on one count, and
  the undo rows cover the unsettled suffix exactly, within the supported reorg depth.
\<close>

theorem ready_control_consistent:
  assumes "control_decode blake2b bs = Ok c" and "sc_build_state c = Ready e"
  shows "sc_build_lease c = None \<and>
         cursor_event_sequence (sp_event_cursor (re_source_position e)) = sp_event_sequence (re_source_position e) \<and>
         sp_event_sequence (re_source_position e) \<noteq> 0 \<and>
         re_projection_digest e = accumulator_display_digest blake2b (re_projection_accumulator e) \<and>
         transparent_unspent_output_count (re_row_counts e) = us_utxo_count (re_utxo_summary e) \<and>
         transparent_unspent_output_by_address_count (re_row_counts e) = us_utxo_count (re_utxo_summary e) \<and>
         sd_block_count (re_source_sequence_digest e) \<noteq> 0 \<and>
         unat (id_height (re_settled_tip e)) + unat (reorg_undo_count (re_row_counts e)) =
           unat (id_height (sp_tip (re_source_position e))) \<and>
         unat (reorg_undo_count (re_row_counts e)) \<le> unat (sc_supported_reorg_depth c)"
proof -
  have enc: "control_encode blake2b c = Inr bs" using control.encode_decode [OF assms(1)] by simp
  then have lease: "validate_build_lease c = Inr ()"
    by (auto simp: control_encode_def and_then_Ok_iff)
  have valid: "validate_ready_evidence blake2b e (sc_supported_reorg_depth c) = Inr ()"
    using enc assms(2) by (auto simp: control_encode_def encode_ready_evidence_def and_then_Ok_iff Let_def)
  have "sc_build_lease c = None"
    using lease assms(2) validate_build_lease_Some [OF lease] by (cases "sc_build_lease c") auto
  then show ?thesis
    using valid
    by (auto simp: validate_ready_evidence_def validate_event_cursor_def and_then_Ok_iff Let_def
        checked_sub_Some_iff not_less word_le_nat_alt split: if_splits)
qed

definition sample_position :: "block_height \<Rightarrow> u8 \<Rightarrow> u64 \<Rightarrow> source_position" where
  "sample_position h hash n = source_position_new 1 \<lparr>id_height = h, id_hash = filled hash\<rparr> n"

definition sample_digest :: "u64 \<Rightarrow> sequence_digest" where
  "sample_digest n = \<lparr>sd_version = SequenceDigestV1, sd_block_count = n, sd_bytes = filled 0\<rparr>"

definition sample_ready :: "blake2b_fn \<Rightarrow> ready_evidence" where
  "sample_ready blake2b =
     \<lparr>re_source_position = sample_position 5 2 3, re_source_sequence_digest = sample_digest 5,
      re_settled_tip = \<lparr>id_height = 3, id_hash = filled 9\<rparr>,
      re_projection_digest = accumulator_display_digest blake2b accumulator_empty,
      re_projection_accumulator = accumulator_empty,
      re_row_counts = row_counts_default\<lparr>reorg_undo_count := 2\<rparr>,
      re_utxo_summary = \<lparr>us_utxo_count = 0, us_total_value_zat = 0, us_commitment = commitment_empty\<rparr>\<rparr>"

definition sample_control :: "blake2b_fn \<Rightarrow> store_control" where
  "sample_control blake2b =
     \<lparr>sc_network = ZcashRegtest, sc_supported_reorg_depth = 100, sc_writer_generation = 1,
      sc_build_lease = None, sc_build_state = Ready (sample_ready blake2b)\<rparr>"

lemma sample_control_encodes: "\<exists>bs. control_encode blake2b (sample_control blake2b) = Inr bs"
  by (simp add: control_encode_def sample_control_def sample_ready_def sample_position_def
      sample_digest_def source_position_new_def validate_build_lease_def encode_ready_evidence_def
      validate_ready_evidence_def validate_event_cursor_def cursor_event_sequence_def
      cursor_for_sequence_def row_counts_default_def commitment_empty_def checked_sub_def
      REQUIRED_CANONICAL_SEQUENCE_DIGEST_VERSION_def)

lemma sample_control_wf: "control_wf (sample_control blake2b)"
  by (simp add: control_wf_def sample_control_def sample_ready_def sample_position_def)

theorem ready_control_consistent_witness:
  "\<exists>blake2b bs. control_decode blake2b bs = Ok (sample_control blake2b) \<and>
     unat (id_height (re_settled_tip (sample_ready blake2b))) +
       unat (reorg_undo_count (re_row_counts (sample_ready blake2b))) =
     unat (id_height (sp_tip (re_source_position (sample_ready blake2b))))"
proof -
  let ?B = "\<lambda>p m. replicate (hash_length p) 0 :: u8 list"
  obtain bs where "control_encode ?B (sample_control ?B) = Inr bs" using sample_control_encodes by blast
  then have dec: "control_decode ?B bs = Ok (sample_control ?B)"
    by (rule control_decode_encode [OF sample_control_wf])
  have "sc_build_state (sample_control ?B) = Ready (sample_ready ?B)" by (simp add: sample_control_def)
  with ready_control_consistent [OF dec] dec show ?thesis by blast
qed

end
