(* ===== verification/Wallet_Ledger.thy ===== *)
theory Wallet_Ledger
  imports Wallet_Control
begin

text \<open>
  The wallet ledger: unspent and spent outputs, address transactions, balances and the UTXO
  aggregate, as the serial oracle (\<open>serial_oracle.rs\<close>) keeps them in memory. The account fields
  (balances, count, total value, commitment) are a function of the unspent outputs; this is the
  invariant \<open>accounts\<close>, which adding and subtracting an output maintain.
\<close>

section \<open>The ledger\<close>

record ledger =
  lg_unspent_outputs :: "(outpoint_key, unspent_output) fmap"
  lg_spent_outputs :: "(outpoint_key, spent_output) fmap"
  lg_address_transactions :: "(address_transaction_key, address_transaction) fmap"
  lg_balance_by_address :: "(script_hash, u64) fmap"
  lg_utxo_count :: u64
  lg_total_utxo_value_zat :: u64
  lg_utxo_commitment :: utxo_commitment

definition ledger_empty :: ledger where
  "ledger_empty =
     \<lparr>lg_unspent_outputs = fmempty, lg_spent_outputs = fmempty, lg_address_transactions = fmempty,
      lg_balance_by_address = fmempty, lg_utxo_count = 0, lg_total_utxo_value_zat = 0,
      lg_utxo_commitment = commitment_empty\<rparr>"

definition balance_of :: "script_hash \<Rightarrow> (script_hash, u64) fmap \<Rightarrow> u64" where
  "balance_of address balances =
     (case fmlookup balances address of None \<Rightarrow> 0 | Some b \<Rightarrow> b)"

definition add_unspent_output ::
    "blake2b_fn \<Rightarrow> network \<Rightarrow> unspent_output \<Rightarrow> ledger \<Rightarrow> contract_error + ledger" where
  "add_unspent_output blake2b network u l =
     (let address = uo_address_script_hash u; value_zat = uo_value_zat u;
          balances = lg_balance_by_address l in
      and_then
        (if value_zat > 0 then
           and_then (ok_or (checked_add (balance_of address balances) value_zat) AddressBalanceOverflow)
             (\<lambda>balance. Ok (fmupd address balance balances))
         else Ok balances) (\<lambda>balances.
      and_then (ok_or (checked_add (lg_utxo_count l) 1) UtxoCountOverflow) (\<lambda>utxo_count.
      and_then (ok_or (checked_add (lg_total_utxo_value_zat l) value_zat) UtxoValueOverflow) (\<lambda>total.
      Ok (l\<lparr>lg_balance_by_address := balances, lg_utxo_count := utxo_count,
            lg_total_utxo_value_zat := total,
            lg_utxo_commitment :=
              commitment_insert blake2b (output_commitment_element network u) (lg_utxo_commitment l)\<rparr>)))))"

definition subtract_unspent_output ::
    "blake2b_fn \<Rightarrow> network \<Rightarrow> unspent_output \<Rightarrow> ledger \<Rightarrow> contract_error + ledger" where
  "subtract_unspent_output blake2b network u l =
     (let address = uo_address_script_hash u; value_zat = uo_value_zat u;
          balances = lg_balance_by_address l in
      and_then
        (if value_zat > 0 then
           and_then (ok_or (fmlookup balances address) AddressBalanceUnderflow) (\<lambda>balance.
           and_then (ok_or (checked_sub balance value_zat) AddressBalanceUnderflow) (\<lambda>balance.
           Ok (if balance = 0 then fmdrop address balances else fmupd address balance balances)))
         else Ok balances) (\<lambda>balances.
      and_then (ok_or (checked_sub (lg_utxo_count l) 1) UtxoCountUnderflow) (\<lambda>utxo_count.
      and_then (ok_or (checked_sub (lg_total_utxo_value_zat l) value_zat) UtxoValueUnderflow) (\<lambda>total.
      Ok (l\<lparr>lg_balance_by_address := balances, lg_utxo_count := utxo_count,
            lg_total_utxo_value_zat := total,
            lg_utxo_commitment :=
              commitment_subtract blake2b (output_commitment_element network u) (lg_utxo_commitment l)\<rparr>)))))"

section \<open>Accounts follow the unspent outputs\<close>

definition address_value :: "script_hash \<Rightarrow> (outpoint_key, unspent_output) fmap \<Rightarrow> nat" where
  "address_value a m = fm_sum (\<lambda>_ u. if uo_address_script_hash u = a then unat (uo_value_zat u) else 0) m"

definition total_value :: "(outpoint_key, unspent_output) fmap \<Rightarrow> nat" where
  "total_value m = fm_sum (\<lambda>_ u. unat (uo_value_zat u)) m"

definition set_lanes :: "blake2b_fn \<Rightarrow> network \<Rightarrow> (outpoint_key, unspent_output) fmap \<Rightarrow> lane_vec" where
  "set_lanes blake2b network m =
     fm_sum (\<lambda>_ u. element_lanes blake2b (output_commitment_element network u)) m"

definition accounts ::
    "blake2b_fn \<Rightarrow> network \<Rightarrow> (outpoint_key, unspent_output) fmap \<Rightarrow> ledger \<Rightarrow> bool" where
  "accounts blake2b network m l \<longleftrightarrow>
     (\<forall>a. unat (balance_of a (lg_balance_by_address l)) = address_value a m) \<and>
     (\<forall>a. fmlookup (lg_balance_by_address l) a \<noteq> Some 0) \<and>
     unat (lg_utxo_count l) = fm_sum (\<lambda>_ _. 1) m \<and>
     unat (lg_total_utxo_value_zat l) = total_value m \<and>
     uc_scheme (lg_utxo_commitment l) = LtHash16 \<and>
     commitment_lanes (lg_utxo_commitment l) = set_lanes blake2b network m"

lemma balance_of_upd [simp]:
  "balance_of a (fmupd b v balances) = (if a = b then v else balance_of a balances)"
  "balance_of a (fmdrop b balances) = (if a = b then 0 else balance_of a balances)"
  by (simp_all add: balance_of_def)

lemma fmap_balance_eqI:
  assumes "\<And>a. balance_of a m = balance_of a n"
    and "\<And>a. fmlookup m a \<noteq> Some 0" and "\<And>a. fmlookup n a \<noteq> Some 0"
  shows "m = n"
proof (rule fmap_ext)
  fix a
  show "fmlookup m a = fmlookup n a"
    using assms(1) [of a] assms(2) [of a] assms(3) [of a]
    by (auto simp: balance_of_def split: option.splits)
qed

lemma accounts_empty: "accounts blake2b network fmempty ledger_empty"
  by (simp add: accounts_def ledger_empty_def balance_of_def address_value_def total_value_def
      set_lanes_def) (simp add: commitment_empty_def)

lemma accounts_unique:
  assumes "accounts blake2b network m l" and "accounts blake2b network m l'"
  shows "lg_balance_by_address l = lg_balance_by_address l' \<and> lg_utxo_count l = lg_utxo_count l' \<and>
         lg_total_utxo_value_zat l = lg_total_utxo_value_zat l' \<and>
         lg_utxo_commitment l = lg_utxo_commitment l'"
proof -
  have "lg_balance_by_address l = lg_balance_by_address l'"
    using assms by (intro fmap_balance_eqI) (auto simp: accounts_def word_unat_eq_iff)
  moreover have "lg_utxo_commitment l = lg_utxo_commitment l'"
    using assms by (intro utxo_set.lanes_inject) (simp_all add: accounts_def)
  ultimately show ?thesis
    using assms by (simp add: accounts_def word_unat_eq_iff)
qed

lemma address_value_upd:
  "fmlookup m k = None \<Longrightarrow> address_value a (fmupd k u m) =
     (if uo_address_script_hash u = a then unat (uo_value_zat u) else 0) + address_value a m"
  by (simp add: address_value_def fm_sum_upd_fresh)

lemma address_value_drop:
  "fmlookup m k = Some u \<Longrightarrow> address_value a m =
     (if uo_address_script_hash u = a then unat (uo_value_zat u) else 0) + address_value a (fmdrop k m)"
  unfolding address_value_def by (rule fm_sum_drop)

lemma add_unspent_output_accounts:
  assumes "accounts blake2b network m l" and "fmlookup m k = None"
    and "add_unspent_output blake2b network u l = Inr l'"
  shows "accounts blake2b network (fmupd k u m) l'"
proof -
  let ?a = "uo_address_script_hash u" and ?v = "uo_value_zat u"
  have l': "unat (lg_utxo_count l') = unat (lg_utxo_count l) + 1"
      "unat (lg_total_utxo_value_zat l') = unat (lg_total_utxo_value_zat l) + unat ?v"
      "lg_utxo_commitment l' =
         commitment_insert blake2b (output_commitment_element network u) (lg_utxo_commitment l)"
      "(if ?v > 0 then \<exists>b. unat b = unat (balance_of ?a (lg_balance_by_address l)) + unat ?v \<and>
           lg_balance_by_address l' = fmupd ?a b (lg_balance_by_address l)
        else lg_balance_by_address l' = lg_balance_by_address l)"
    using assms(3) by (auto simp: add_unspent_output_def Let_def and_then_Ok_iff checked_add_Some_iff
        split: if_splits)
  have "unat (balance_of a (lg_balance_by_address l')) = address_value a (fmupd k u m)" for a
    using l'(4) assms(1,2)
    by (auto simp: accounts_def address_value_upd word_neq_0_conv [symmetric] split: if_splits)
  moreover have "fmlookup (lg_balance_by_address l') a \<noteq> Some 0" for a
    using l'(4) assms(1) by (auto simp: accounts_def word_less_nat_alt split: if_splits)
  ultimately show ?thesis
    using assms(1,2) l'(1-3)
    by (simp add: accounts_def total_value_def set_lanes_def fm_sum_upd_fresh utxo_set.lanes_add
        utxo_set.frame_add algebra_simps)
qed

text \<open>
  A known output can always be subtracted: none of the underflow errors of the source is reachable
  while the accounts follow the unspent outputs.
\<close>

lemma subtract_unspent_output_accounts:
  assumes "accounts blake2b network m l" and k: "fmlookup m k = Some u"
  shows "\<exists>l'. subtract_unspent_output blake2b network u l = Inr l' \<and>
              accounts blake2b network (fmdrop k m) l' \<and>
              lg_unspent_outputs l' = lg_unspent_outputs l \<and> lg_spent_outputs l' = lg_spent_outputs l \<and>
              lg_address_transactions l' = lg_address_transactions l"
proof -
  let ?a = "uo_address_script_hash u" and ?v = "uo_value_zat u" and ?bs = "lg_balance_by_address l"
  have total: "total_value m = unat ?v + total_value (fmdrop k m)"
    and count: "fm_sum (\<lambda>_ _. 1 :: nat) m = 1 + fm_sum (\<lambda>_ _. 1) (fmdrop k m)"
    and lanes: "set_lanes blake2b network m =
      element_lanes blake2b (output_commitment_element network u) + set_lanes blake2b network (fmdrop k m)"
    unfolding total_value_def set_lanes_def using fm_sum_drop [OF k] by blast+
  define balance where "balance = balance_of ?a ?bs - ?v"
  define bs' where "bs' = (if ?v > 0 then
      (if balance = 0 then fmdrop ?a ?bs else fmupd ?a balance ?bs) else ?bs)"
  have le: "?v \<le> balance_of ?a ?bs"
    using assms(1) address_value_drop [OF k, of ?a] by (simp add: accounts_def word_le_nat_alt)
  have balance: "unat balance = address_value ?a (fmdrop k m)"
    using assms(1) address_value_drop [OF k, of ?a] le
    by (simp add: balance_def accounts_def unat_sub)
  have known: "fmlookup ?bs ?a = Some (balance_of ?a ?bs)" if "?v > 0"
    using le that by (cases "fmlookup ?bs ?a") (auto simp: balance_of_def)
  have vals: "unat (balance_of a bs') = address_value a (fmdrop k m)" for a
    using balance assms(1) address_value_drop [OF k, of a]
    by (auto simp: bs'_def accounts_def word_neq_0_conv [symmetric])
  have nonzero: "fmlookup bs' a \<noteq> Some 0" for a
    using assms(1) by (auto simp: bs'_def accounts_def)
  let ?l' = "l\<lparr>lg_balance_by_address := bs', lg_utxo_count := lg_utxo_count l - 1,
      lg_total_utxo_value_zat := lg_total_utxo_value_zat l - ?v,
      lg_utxo_commitment :=
        commitment_subtract blake2b (output_commitment_element network u) (lg_utxo_commitment l)\<rparr>"
  have pre: "1 \<le> lg_utxo_count l" "?v \<le> lg_total_utxo_value_zat l"
    using assms(1) count total by (simp_all add: accounts_def word_le_nat_alt)
  then have "subtract_unspent_output blake2b network u l = Inr ?l'"
    using known le by (simp add: subtract_unspent_output_def Let_def checked_sub_def bs'_def balance_def)
  moreover have "accounts blake2b network (fmdrop k m) ?l'"
    using assms(1) vals nonzero count total lanes pre
    by (simp add: accounts_def unat_sub utxo_set.lanes_remove utxo_set.frame_remove)
  ultimately show ?thesis by auto
qed

end
