(* ===== verification/Block_Scan.thy ===== *)
theory Block_Scan
  imports Wallet_Ledger
begin

text \<open>
  The block loop of the wallet projection. The serial oracle (\<open>apply_block_in_place\<close> of
  \<open>serial_oracle.rs\<close>) and the durable planner (\<open>apply_block_rows\<close> of \<open>transition.rs\<close>) run the same
  loop over the transactions of a block; they differ in the operations the loop calls on their
  state. The loop is written once, over a record of these operations. The locale
  \<open>scan_simulation\<close> carries any relation between two states through the loop; with equal
  operations on both sides it is the invariant rule of the loop.
\<close>

section \<open>Operations and local variables of the loop\<close>

text \<open>
  \<open>ops_contract\<close> is the conversion of a contract error into the caller's error type (\<open>.into()\<close>).
\<close>

record ('s, 'e) block_ops =
  ops_contract :: "contract_error \<Rightarrow> 'e"
  ops_spend :: "outpoint_key \<Rightarrow> transaction_position \<Rightarrow> u32 \<Rightarrow> 's \<Rightarrow> 'e + unspent_output \<times> 's"
  ops_contains :: "outpoint_key \<Rightarrow> 's \<Rightarrow> 'e + bool"
  ops_create :: "outpoint_key \<Rightarrow> unspent_output \<Rightarrow> 's \<Rightarrow> 'e + 's"
  ops_record :: "address_transaction \<Rightarrow> 's \<Rightarrow> 'e + 's"

text \<open>
  \<open>Vec\<close>s are lists. The \<open>BTreeSet\<close>s \<open>created_outpoint_keys\<close> and \<open>touched_addresses\<close> are sorted lists
  without repetition.
\<close>

record block_locals =
  created_outpoints :: "outpoint_key list"
  created_outpoint_keys :: "outpoint_key list"
  spent_outpoints :: "outpoint_key list"
  address_transaction_keys :: "address_transaction_key list"

definition no_locals :: block_locals where
  "no_locals = \<lparr>created_outpoints = [], created_outpoint_keys = [], spent_outpoints = [],
                address_transaction_keys = []\<rparr>"

definition note_spent :: "outpoint_key \<Rightarrow> block_locals \<Rightarrow> block_locals" where
  "note_spent key loc =
     (if key \<in> set (created_outpoint_keys loc) then loc
      else loc\<lparr>spent_outpoints := spent_outpoints loc @ [key]\<rparr>)"

definition note_created :: "outpoint_key \<Rightarrow> block_locals \<Rightarrow> block_locals" where
  "note_created key loc =
     loc\<lparr>created_outpoints := created_outpoints loc @ [key],
         created_outpoint_keys := insort_insert key (created_outpoint_keys loc)\<rparr>"

definition note_recorded :: "address_transaction_key \<Rightarrow> block_locals \<Rightarrow> block_locals" where
  "note_recorded key loc = loc\<lparr>address_transaction_keys := address_transaction_keys loc @ [key]\<rparr>"

section \<open>The loop\<close>

definition u32_try_from :: "nat \<Rightarrow> contract_error + u32" where
  "u32_try_from n = (if n < 2 ^ 32 then Ok (of_nat n) else Err FactIndexOverflow)"

definition scan_input ::
    "('s, 'e) block_ops \<Rightarrow> transaction_position \<Rightarrow> nat \<times> transparent_input_fact \<Rightarrow>
       script_hash list \<times> block_locals \<times> 's \<Rightarrow> 'e + script_hash list \<times> block_locals \<times> 's" where
  "scan_input ops transaction_position numbered = (\<lambda>(touched_addresses, loc, s).
     let input = snd numbered in
     and_then (map_err (ops_contract ops) (u32_try_from (fst numbered))) (\<lambda>expected_input_index.
     if in_input_index input \<noteq> expected_input_index then Err (ops_contract ops FactIndexMismatch)
     else if is_coinbase_sentinel (in_spent_outpoint input) then Ok (touched_addresses, loc, s)
     else
       let key = outpoint_key_new (in_spent_outpoint input) in
       and_then (ops_spend ops key transaction_position (in_input_index input) s) (\<lambda>(output, s).
       Ok (insort_insert (uo_address_script_hash output) touched_addresses, note_spent key loc, s))))"

definition scan_output ::
    "('s, 'e) block_ops \<Rightarrow> transaction_position \<Rightarrow> nat \<times> transparent_output_fact \<Rightarrow>
       script_hash list \<times> block_locals \<times> 's \<Rightarrow> 'e + script_hash list \<times> block_locals \<times> 's" where
  "scan_output ops transaction_position numbered = (\<lambda>(touched_addresses, loc, s).
     let output = snd numbered in
     and_then (map_err (ops_contract ops) (u32_try_from (fst numbered))) (\<lambda>expected_output_index.
     if out_output_index output \<noteq> expected_output_index then Err (ops_contract ops FactIndexMismatch)
     else
       let outpoint = \<lparr>op_transaction_id = pos_transaction_id transaction_position,
                       op_output_index = out_output_index output\<rparr>;
           key = outpoint_key_new outpoint in
       and_then (ops_contains ops key s) (\<lambda>known.
       if known then Err (ops_contract ops DuplicateOutput)
       else
         and_then (map_err (ops_contract ops)
                    (unspent_output_new outpoint (out_address_script_hash output) (out_value_zat output)
                       (out_script_pub_key output) transaction_position)) (\<lambda>unspent_output.
         and_then (ops_create ops key unspent_output s) (\<lambda>s.
         Ok (insort_insert (out_address_script_hash output) touched_addresses,
             note_created key loc, s))))))"

definition scan_address ::
    "('s, 'e) block_ops \<Rightarrow> transaction_position \<Rightarrow> script_hash \<Rightarrow> block_locals \<times> 's \<Rightarrow>
       'e + block_locals \<times> 's" where
  "scan_address ops transaction_position address = (\<lambda>(loc, s).
     let block = pos_block transaction_position;
         key = address_transaction_key_new address (id_height block)
                 (pos_tx_index_in_block transaction_position) in
     and_then (ops_record ops \<lparr>at_key = key, at_transaction_id = pos_transaction_id transaction_position,
                               at_block_hash = id_hash block\<rparr> s) (\<lambda>s.
     Ok (note_recorded key loc, s)))"

definition scan_transaction ::
    "('s, 'e) block_ops \<Rightarrow> block_id \<Rightarrow> nat \<times> canonical_transaction_facts \<Rightarrow> block_locals \<times> 's \<Rightarrow>
       'e + block_locals \<times> 's" where
  "scan_transaction ops block numbered = (\<lambda>(loc, s).
     let transaction = snd numbered in
     and_then (map_err (ops_contract ops) (u32_try_from (fst numbered))) (\<lambda>tx_index_in_block.
     let transaction_position =
           \<lparr>pos_transaction_id = facts_transaction_id (public_facts transaction),
            pos_tx_index_in_block = tx_index_in_block, pos_block = block\<rparr>
     in
     and_then (try_fold (scan_input ops transaction_position)
                 (enumerate 0 (transparent_inputs transaction)) ([], loc, s)) (\<lambda>progress.
     and_then (try_fold (scan_output ops transaction_position)
                 (enumerate 0 (transparent_outputs transaction)) progress) (\<lambda>(touched_addresses, loc, s).
     try_fold (scan_address ops transaction_position) touched_addresses (loc, s)))))"

definition scan_block ::
    "('s, 'e) block_ops \<Rightarrow> block_id \<Rightarrow> canonical_block_facts \<Rightarrow> 's \<Rightarrow> 'e + block_locals \<times> 's" where
  "scan_block ops block facts s =
     try_fold (scan_transaction ops block) (enumerate 0 (transactions facts)) (no_locals, s)"

text \<open>The undo record built from the local variables once the loop has ended.\<close>

definition block_undo ::
    "block_id \<Rightarrow> block_hash \<Rightarrow> sequence_digest \<Rightarrow> sequence_digest \<Rightarrow> block_locals \<Rightarrow> reorg_undo" where
  "block_undo block parent_hash before after loc =
     \<lparr>ru_block = block, ru_parent_hash = parent_hash,
      ru_source_sequence_digest_before = before, ru_source_sequence_digest_after = after,
      ru_created_outpoints = sort (created_outpoints loc),
      ru_spent_outpoints = sort (spent_outpoints loc),
      ru_address_transaction_keys = sort (address_transaction_keys loc)\<rparr>"

section \<open>Simulation of the loop\<close>

lemma sim_map_err:
  "(\<And>e. r = Inl e \<Longrightarrow> E (f e) (g e)) \<Longrightarrow> sim Q E (\<lambda>x y. x = y \<and> r = Inr x) (map_err f r) (map_err g r)"
  by (cases r) auto

lemma u32_try_from_Err: "u32_try_from n = Inl e \<Longrightarrow> e = FactIndexOverflow"
  by (simp add: u32_try_from_def split: if_splits)

lemma unspent_output_new_Err: "unspent_output_new outpoint address v script pos = Inl e \<Longrightarrow> e = OutputCreatorMismatch"
  by (simp add: unspent_output_new_def split: if_splits)

text \<open>The errors the loop itself raises, apart from those of the operations.\<close>

definition loop_errors :: "contract_error set" where
  "loop_errors = {FactIndexOverflow, FactIndexMismatch, DuplicateOutput, OutputCreatorMismatch}"

lemma unspent_output_new_Ok_iff:
  "unspent_output_new outpoint address v script pos = Inr u \<longleftrightarrow>
     op_transaction_id outpoint = pos_transaction_id pos \<and>
     u = \<lparr>uo_outpoint = outpoint, uo_address_script_hash = address, uo_value_zat = v,
          uo_script_pub_key = script, uo_created_at = pos\<rparr>"
  by (auto simp: unspent_output_new_def)

locale scan_simulation =
  fixes A :: "('a, 'e) block_ops" and C :: "('c, 'f) block_ops"
    and block :: block_id and Q :: "'f \<Rightarrow> bool" and E :: "'e \<Rightarrow> 'f \<Rightarrow> bool" and R :: "block_locals \<Rightarrow> 'a \<Rightarrow> 'c \<Rightarrow> bool"
  assumes contract: "err \<in> loop_errors \<Longrightarrow> E (ops_contract A err) (ops_contract C err)"
    and spend: "\<lbrakk>R loc s t; pos_block pos = block\<rbrakk> \<Longrightarrow>
      sim Q E (\<lambda>(u, s') (v, t'). u = v \<and> R (note_spent key loc) s' t')
        (ops_spend A key pos i s) (ops_spend C key pos i t)"
    and contains: "R loc s t \<Longrightarrow> sim Q E (=) (ops_contains A key s) (ops_contains C key t)"
    and create: "\<lbrakk>R loc s t; ops_contains A (outpoint_key_new (uo_outpoint u)) s = Inr False;
                  unspent_valid u; pos_block (uo_created_at u) = block\<rbrakk> \<Longrightarrow>
      sim Q E (R (note_created (outpoint_key_new (uo_outpoint u)) loc))
        (ops_create A (outpoint_key_new (uo_outpoint u)) u s)
        (ops_create C (outpoint_key_new (uo_outpoint u)) u t)"
    and record_address: "\<lbrakk>R loc s t; at_key e \<notin> set (address_transaction_keys loc);
                  transaction_key_block_height (at_key e) = id_height block;
                  at_block_hash e = id_hash block\<rbrakk> \<Longrightarrow>
      sim Q E (R (note_recorded (at_key e) loc)) (ops_record A e s) (ops_record C e t)"
begin

lemma contract_map_err:
  assumes "\<And>e. r = Inl e \<Longrightarrow> e \<in> loop_errors"
  shows "sim Q E (\<lambda>x y. x = y \<and> r = Inr x) (map_err (ops_contract A) r) (map_err (ops_contract C) r)"
  using assms by (intro sim_map_err contract)

lemma contract_index:
  "sim Q E (\<lambda>x y. x = y \<and> u32_try_from n = Inr x)
     (map_err (ops_contract A) (u32_try_from n)) (map_err (ops_contract C) (u32_try_from n))"
  by (rule contract_map_err) (auto simp: loop_errors_def dest: u32_try_from_Err)

lemma contract_output:
  "sim Q E (\<lambda>x y. x = y \<and> unspent_output_new outpoint address v script pos = Inr x)
     (map_err (ops_contract A) (unspent_output_new outpoint address v script pos))
     (map_err (ops_contract C) (unspent_output_new outpoint address v script pos))"
  by (rule contract_map_err) (auto simp: loop_errors_def dest: unspent_output_new_Err)

definition before :: "nat \<Rightarrow> block_locals \<Rightarrow> bool" where
  "before n loc \<longleftrightarrow> (\<forall>k \<in> set (address_transaction_keys loc). unat (transaction_key_tx_index k) < n)"

definition scanned :: "nat \<Rightarrow> script_hash list \<times> block_locals \<times> 'a \<Rightarrow> script_hash list \<times> block_locals \<times> 'c \<Rightarrow> bool" where
  "scanned n = (\<lambda>(touched, loc, s) (touched', loc', t).
     touched = touched' \<and> loc = loc' \<and> distinct touched \<and> R loc s t \<and> before n loc)"

lemma before_note [simp]:
  "before n (note_spent key loc) \<longleftrightarrow> before n loc"
  "before n (note_created key loc) \<longleftrightarrow> before n loc"
  by (simp_all add: before_def note_spent_def note_created_def)

lemma scan_input_sim:
  assumes "scanned n p q" and "pos_block pos = block"
  shows "sim Q E (scanned n) (scan_input A pos numbered p) (scan_input C pos numbered q)"
proof -
  obtain touched loc s t where pq: "p = (touched, loc, s)" "q = (touched, loc, t)"
    and R: "R loc s t" "distinct touched" "before n loc"
    using assms(1) by (cases p; cases q) (auto simp: scanned_def)
  show ?thesis
    unfolding scan_input_def pq Let_def prod.case
    by (intro sim_and_then [OF contract_index])
      (auto simp: scanned_def R contract loop_errors_def distinct_insort_insert intro!: sim_and_then [OF spend [OF R(1) assms(2)]])
qed

lemma scan_output_sim:
  assumes "scanned n p q" and "pos_block pos = block"
  shows "sim Q E (scanned n) (scan_output A pos numbered p) (scan_output C pos numbered q)"
proof -
  obtain touched loc s t where pq: "p = (touched, loc, s)" "q = (touched, loc, t)"
    and R: "R loc s t" "distinct touched" "before n loc"
    using assms(1) by (cases p; cases q) (auto simp: scanned_def)
  let ?key = "outpoint_key_new \<lparr>op_transaction_id = pos_transaction_id pos,
      op_output_index = out_output_index (snd numbered)\<rparr>"
  have known: "sim Q E (\<lambda>b c. b = c \<and> ops_contains A ?key s = Inr b) (ops_contains A ?key s) (ops_contains C ?key t)"
    using contains [OF R(1), of ?key] by (cases "ops_contains A ?key s"; cases "ops_contains C ?key t") auto
  let ?u = "\<lparr>uo_outpoint = \<lparr>op_transaction_id = pos_transaction_id pos,
        op_output_index = out_output_index (snd numbered)\<rparr>,
      uo_address_script_hash = out_address_script_hash (snd numbered),
      uo_value_zat = out_value_zat (snd numbered),
      uo_script_pub_key = out_script_pub_key (snd numbered), uo_created_at = pos\<rparr>"
  have created: "ops_contains A ?key s = Inr False \<Longrightarrow>
      sim Q E (R (note_created ?key loc)) (ops_create A ?key ?u s) (ops_create C ?key ?u t)"
    using create [OF R(1), of ?u] assms(2) by (simp add: unspent_valid_def)
  show ?thesis
    unfolding scan_output_def pq Let_def prod.case
    by (intro sim_and_then [OF contract_index])
      (auto simp: scanned_def R contract loop_errors_def distinct_insort_insert unspent_output_new_Ok_iff
        intro!: sim_and_then [OF known] sim_and_then [OF contract_output] sim_and_then [OF created])
qed

lemma scan_addresses_sim:
  assumes "R loc s t" and "distinct touched" and "pos_block pos = block"
    and "\<And>a k. a \<in> set touched \<Longrightarrow> k \<in> set (address_transaction_keys loc) \<Longrightarrow>
           k \<noteq> address_transaction_key_new a (id_height block) (pos_tx_index_in_block pos)"
    and "\<And>k. k \<in> set (address_transaction_keys loc) \<Longrightarrow> unat (transaction_key_tx_index k) \<le> unat (pos_tx_index_in_block pos)"
  shows "sim Q E (\<lambda>(loc, s) (loc', t). loc = loc' \<and> R loc s t \<and> before (Suc (unat (pos_tx_index_in_block pos))) loc)
           (try_fold (scan_address A pos) touched (loc, s)) (try_fold (scan_address C pos) touched (loc, t))"
  using assms
proof (induction touched arbitrary: loc s t)
  case Nil
  then show ?case by (auto simp: before_def less_Suc_eq_le)
next
  case (Cons a touched)
  let ?key = "address_transaction_key_new a (id_height block) (pos_tx_index_in_block pos)"
  have key: "?key \<notin> set (address_transaction_keys loc)"
    using Cons.prems(4) [of a ?key] by auto
  show ?case
    unfolding try_fold.simps scan_address_def Let_def prod.case and_then_assoc
  proof (rule sim_and_then [OF record_address [OF Cons.prems(1)]], goal_cases)
    case (4 s' t')
    show ?case
      unfolding and_then_simps
      by (rule Cons.IH [unfolded scan_address_def Let_def])
        (use 4 Cons.prems in \<open>auto simp: note_recorded_def\<close>)
  qed (simp_all add: key Cons.prems(3))
qed

lemma scan_transaction_sim:
  assumes "R loc s t" and "before n loc"
  shows "sim Q E (\<lambda>(loc, s) (loc', t). loc = loc' \<and> R loc s t \<and> before (Suc n) loc)
           (scan_transaction A block (n, transaction) (loc, s))
           (scan_transaction C block (n, transaction) (loc, t))"
  unfolding scan_transaction_def Let_def prod.case fst_conv snd_conv
proof (intro sim_and_then [OF contract_index], goal_cases)
  case (1 i j)
  then have i: "j = i" "unat i = n"
    by (auto simp: u32_try_from_def unat_of_nat take_bit_nat_eq_self split: if_splits)
  let ?pos = "\<lparr>pos_transaction_id = facts_transaction_id (public_facts transaction),
      pos_tx_index_in_block = i, pos_block = block\<rparr>"
  have start: "scanned n ([], loc, s) ([], loc, t)"
    using assms by (simp add: scanned_def)
  show ?case
    unfolding i(1)
  proof (intro sim_and_then [OF sim_try_fold [where R = "scanned n", OF start]], goal_cases)
    case (1 x s t) then show ?case by (simp add: scan_input_sim)
  next
    case (2 p q)
    show ?case
    proof (intro sim_and_then [OF sim_try_fold [where R = "scanned n", OF 2]], goal_cases)
      case (1 x s t) then show ?case by (simp add: scan_output_sim)
    next
      case (2 p q)
      then obtain touched loc s t where pq: "p = (touched, loc, s)" "q = (touched, loc, t)"
        and R: "R loc s t" "distinct touched" "before n loc"
        by (cases p; cases q) (auto simp: scanned_def)
      show ?case
        unfolding pq prod.case
        using scan_addresses_sim [of loc s t touched ?pos] R i(2)
        by (force simp: before_def)
    qed
  qed
qed

lemma scan_block_sim:
  assumes "R no_locals s t"
  shows "sim Q E (\<lambda>(loc, s) (loc', t). loc = loc' \<and> R loc s t)
           (scan_block A block facts s) (scan_block C block facts t)"
proof -
  have "sim Q E (\<lambda>(loc, s) (loc', t). loc = loc' \<and> R loc s t)
      (try_fold (scan_transaction A block) (enumerate n xs) (loc, s))
      (try_fold (scan_transaction C block) (enumerate n xs) (loc, t))"
    if "R loc s t" "before n loc" for n xs loc s t
    using that
  proof (induction xs arbitrary: n loc s t)
    case Nil
    then show ?case by simp
  next
    case (Cons x xs)
    show ?case
      by (auto intro!: sim_and_then [OF scan_transaction_sim [OF Cons.prems]] Cons.IH)
  qed
  from this [OF assms] show ?thesis
    by (simp add: scan_block_def before_def no_locals_def)
qed

end

end
