(* ===== verification/File_Io.thy ===== *)
theory File_Io
  imports Byte_Codec
begin

text \<open>
  Operations on the disk: the errors of the file system, of RocksDB and of the bulk loader
  (\<open>zinder-rocksdb-bulk-load/src/bulk_load.rs\<close>), the \<open>?\<close> operator on operations that change the state
  of the disk, and the files that the external sorter reads and writes.
\<close>

section \<open>Errors\<close>

typedecl rocksdb_error

typedecl try_reserve_error

datatype io_error_kind = NotFound | AlreadyExists | UnexpectedEof | OtherKind string

datatype io_error = IoError (io_kind: io_error_kind) string

datatype (plugins only: code) bulk_load_error =
  BulkInvalidInput string
| BulkAccountedMemoryLimit u64 u64
| BulkTemporaryFileLimit u64 u64
| BulkMemoryAllocation string try_reserve_error
| BulkPathUnavailable string io_error
| BulkRocksDbOperation string rocksdb_error

section \<open>Operations that change the disk\<close>

text \<open>
  An operation takes the state \<open>'d\<close> of the disk and returns its result and the next state. \<open>db_then\<close>
  is the source's \<open>?\<close> on such operations.
\<close>

definition db_then :: "('e + 'a) \<times> 'd \<Rightarrow> ('a \<Rightarrow> 'd \<Rightarrow> ('e + 'b) \<times> 'd) \<Rightarrow> ('e + 'b) \<times> 'd" where
  "db_then r f = (case r of (Inl e, db) \<Rightarrow> (Inl e, db) | (Inr x, db) \<Rightarrow> f x db)"

definition db_map_err :: "('e \<Rightarrow> 'f) \<Rightarrow> ('e + 'a) \<times> 'd \<Rightarrow> ('f + 'a) \<times> 'd" where
  "db_map_err g r = (map_err g (fst r), snd r)"

lemma db_then_simps [simp]:
  "db_then (Inl e, db) f = (Inl e, db)" "db_then (Inr x, db) f = f x db"
  by (simp_all add: db_then_def)

lemma db_then_unit: "db_then r (\<lambda>_ db. (Ok (), db)) = r" for r :: "('e + unit) \<times> 'd"
  by (cases r; cases "fst r") auto

lemma db_then_assoc: "db_then (db_then r f) g = db_then r (\<lambda>x db. db_then (f x db) g)"
  by (cases r; cases "fst r") auto

lemma db_then_and_then: "db_then (and_then r f, db) g = db_then (r, db) (\<lambda>x db. db_then (f x, db) g)"
  by (cases r) simp_all

lemma db_then_Ok_iff: "db_then r f = (Ok y, db') \<longleftrightarrow> (\<exists>x db. r = (Ok x, db) \<and> f x db = (Ok y, db'))"
  by (cases r; cases "fst r") auto

lemma db_map_err_Ok_iff [simp]: "db_map_err g r = (Ok x, db) \<longleftrightarrow> r = (Ok x, db)"
  by (cases r; cases "fst r") (auto simp: db_map_err_def)

lemma db_then_cong [fundef_cong]:
  "r = r' \<Longrightarrow> (\<And>x db. r' = (Inr x, db) \<Longrightarrow> f x db = g x db) \<Longrightarrow> db_then r f = db_then r' g"
  by (cases r'; cases "fst r'") auto

text \<open>A \<open>for\<close> loop whose body changes the disk and may return early.\<close>

fun db_fold :: "('x \<Rightarrow> 's \<Rightarrow> 'd \<Rightarrow> ('e + 's) \<times> 'd) \<Rightarrow> 'x list \<Rightarrow> 's \<Rightarrow> 'd \<Rightarrow> ('e + 's) \<times> 'd" where
  "db_fold f [] s db = (Ok s, db)"
| "db_fold f (x # xs) s db = db_then (f x s db) (db_fold f xs)"

section \<open>Files\<close>

text \<open>
  A file that is open for reading: the bytes that can still be read, and the error that a read reports
  once they are used up; without an error this is the end of the file.
\<close>

record file_reader =
  fr_bytes :: "u8 list"
  fr_error :: "io_error option"

text \<open>
  The files of a disk of type \<open>'f\<close>: a new temporary directory with a prefix, creating, appending to and
  flushing a file, its length, removing it and opening it for reading; and the fallible reservation of memory.
\<close>

record 'f files =
  fs_tempdir_in :: "string \<Rightarrow> string \<Rightarrow> 'f \<Rightarrow> (io_error + string) \<times> 'f"
  fs_create :: "string \<Rightarrow> 'f \<Rightarrow> (io_error + unit) \<times> 'f"
  fs_write_all :: "string \<Rightarrow> u8 list \<Rightarrow> 'f \<Rightarrow> (io_error + unit) \<times> 'f"
  fs_flush :: "string \<Rightarrow> 'f \<Rightarrow> (io_error + unit) \<times> 'f"
  fs_metadata_len :: "string \<Rightarrow> 'f \<Rightarrow> (io_error + u64) \<times> 'f"
  fs_remove_file :: "string \<Rightarrow> 'f \<Rightarrow> (io_error + unit) \<times> 'f"
  fs_open :: "string \<Rightarrow> 'f \<Rightarrow> (io_error + file_reader) \<times> 'f"
  fs_try_reserve :: "nat \<Rightarrow> 'f \<Rightarrow> (try_reserve_error + unit) \<times> 'f"

definition read_exact :: "nat \<Rightarrow> file_reader \<Rightarrow> io_error + u8 list \<times> file_reader" where
  "read_exact n reader =
     (if n \<le> length (fr_bytes reader)
      then Ok (take n (fr_bytes reader), reader\<lparr>fr_bytes := drop n (fr_bytes reader)\<rparr>)
      else Err (case fr_error reader of
                  Some e \<Rightarrow> e | None \<Rightarrow> IoError UnexpectedEof ''failed to fill whole buffer''))"

definition path_join :: "string \<Rightarrow> string \<Rightarrow> string" where
  "path_join directory name = directory @ ''/'' @ name"

text \<open>Decimal numbers, padded with zeros to a width, as \<open>format!\<close> prints them.\<close>

fun decimal :: "nat \<Rightarrow> nat \<Rightarrow> string" where
  "decimal width n =
     (if n < 10 then replicate (width - 1) (CHR ''0'') @ [char_of (48 + n)]
      else decimal (width - 1) (n div 10) @ [char_of (48 + n mod 10)])"

declare decimal.simps [simp del]

end
