(* ===== verification/Wallet_Error.thy ===== *)
theory Wallet_Error
  imports Wallet_Control Block_Scan File_Io
begin

text \<open>
  The errors of the durable wallet store (\<open>zinder-wallet-rocksdb/src/error.rs\<close>), and what the
  canonical store hands to it: validated block replays, event fences and retained events. The errors
  of the canonical store are an opaque type. \<open>SequenceLength\<close> is the source's \<open>SourceSequenceLength\<close>, a name that
  the contract errors use too.
\<close>

section \<open>Errors\<close>

typedecl canonical_store_error

datatype (plugins only: code) wallet_error =
  CanonicalReplay canonical_store_error
| EmptyCanonicalHistory
| SequenceLength sequence_length_overflow
| AccountedReorgUndoMemoryLimit u64 u64
| BulkLoad bulk_load_error
| BuildCounterOverflow
| CanonicalSourceFenceMismatch string
| PathNotFresh string
| CheckpointTargetExists string
| CheckpointFailed string rocksdb_error
| ProjectionStagingPathNotFresh string
| PathUnavailable string io_error
| InvalidResourceBudget string
| WalletProjectionLoadAccountingOverflow
| AddressTransactionConflict
| RocksDbOperation string rocksdb_error
| ColumnFamilyContractMismatch "string list" "string list"
| StoreControlCardinalityMismatch
| StoreControlMissing
| StoreNotReady string
| NetworkMismatch network network
| CanonicalSourceMismatch canonical_source_identity canonical_source_identity
| BuildLeaseHeld unix_timestamp_millis
| BuildLeaseExpired unix_timestamp_millis
| BuildLeaseExpiryNotFuture
| BuildLeaseRenewalNotExtended
| BuildLeaseOwnerMismatch "16 bytes" "16 bytes"
| BuildLeaseGenerationMismatch u64 u64
| BuildLeaseCanonicalAnchorMismatch string
| BuildLeaseMissing
| BuildLeaseGenerationOverflow
| ProjectionBuildCancelled
| BuildLeaseCleanup wallet_error wallet_error
| ProjectionTransitionCancelled
| InvalidTransitionLogicalByteLimit u64 u64
| TransitionLogicalByteLimit u64 u64
| TransitionLogicalByteAccountingOverflow
| WalletProjectionRebuildRequired string
| ProjectionTransitionRejected string
| ProjectionTransitionGenerationOverflow
| ContinuationAddressMismatch string
| ColumnFamilyUnavailable string
| AdmissionChanged string
| Contract contract_error

section \<open>Replays, fences and retained events of the canonical store\<close>

datatype replay_format_version = ReplayFormatV1

record validated_block_replay =
  rp_format_version :: replay_format_version
  rp_reference_digest :: block_digest
  rp_facts :: canonical_block_facts

record event_fence =
  fence_chain_epoch_id :: chain_epoch_id
  fence_chain_event_sequence :: u64
  fence_visible_tip :: block_id
  fence_sequence_digest :: sequence_digest

datatype event_kind = Committed | Reorged

text \<open>The canonical cursor has the bytes of the wallet projection's cursor: a version and a sequence.\<close>

record retained_event =
  ev_cursor :: event_cursor
  ev_resulting_epoch_id :: chain_epoch_id
  ev_previous_epoch_id :: "chain_epoch_id option"
  ev_kind :: event_kind
  ev_reverted_range :: "block_height_range option"
  ev_committed_range :: block_height_range
  ev_resulting_fence :: event_fence

end
