(* ===== verification/Wallet_Transition.thy ===== *)
theory Wallet_Transition
  imports Wallet_Error
begin

text \<open>
  The control flow of the wallet transition planner (\<open>zinder-wallet-rocksdb/src/transition.rs\<close>):
  applying replayed blocks, rolling a suffix back along its undo records, advancing the settled tip
  and checking that the undo suffix is publishable. The row operations the planner calls on its
  durable rows are an argument, the record \<open>row_ops\<close>: the planner's own operations are one instance,
  the abstract wallet machine is another. The locale \<open>transition_simulation\<close> carries a relation
  between two instances through every function.
\<close>

section \<open>Row operations\<close>

record 's row_ops =
  ro_block :: "('s, wallet_error) block_ops"
  ro_load_undo :: "block_height \<Rightarrow> 's \<Rightarrow> wallet_error + (reorg_undo \<times> u8 list) option"
  ro_insert_undo :: "reorg_undo \<Rightarrow> 's \<Rightarrow> wallet_error + 's"
  ro_remove_undo :: "block_height \<Rightarrow> u8 list \<Rightarrow> 's \<Rightarrow> wallet_error + 's"
  ro_remove_address_transaction :: "address_transaction_key \<Rightarrow> block_id \<Rightarrow> 's \<Rightarrow> wallet_error + 's"
  ro_remove_created :: "outpoint_key \<Rightarrow> block_id \<Rightarrow> 's \<Rightarrow> wallet_error + 's"
  ro_remove_spent :: "outpoint_key \<Rightarrow> 's \<Rightarrow> wallet_error + spent_output \<times> 's"
  ro_insert_unspent :: "unspent_output \<Rightarrow> 's \<Rightarrow> wallet_error + 's"
  ro_undo_count :: "'s \<Rightarrow> u64"

text \<open>The fields of the planner that follow the source, next to its rows.\<close>

record 's transition_state =
  ts_rows :: 's
  ts_current_tip :: block_id
  ts_settled_tip :: block_id
  ts_source_sequence_digest :: sequence_digest

abbreviation rejected :: "string \<Rightarrow> wallet_error + 'a" where
  "rejected reason \<equiv> Err (ProjectionTransitionRejected reason)"

abbreviation rebuild_required :: "string \<Rightarrow> wallet_error + 'a" where
  "rebuild_required reason \<equiv> Err (WalletProjectionRebuildRequired reason)"

section \<open>Applying replayed blocks\<close>

definition extend_source_sequence_digest ::
    "sha256_fn \<Rightarrow> sequence_digest \<Rightarrow> block_digest \<Rightarrow> wallet_error + sequence_digest" where
  "extend_source_sequence_digest sha256 before replay_digest =
     and_then (ok_or (checked_add (sd_block_count before) 1) (SequenceLength SequenceLengthOverflow))
       (\<lambda>expected_source_count.
     and_then (map_err SequenceLength (try_append sha256 replay_digest (resume_from_prefix before)))
       (\<lambda>source_builder.
     let after = builder_finish source_builder in
     if sd_block_count after \<noteq> expected_source_count
     then rejected ''bounded canonical replay does not advance the source digest by one block''
     else Ok after))"

definition retain_undo :: "'s row_ops \<Rightarrow> block_id \<Rightarrow> reorg_undo \<Rightarrow> 's \<Rightarrow> wallet_error + 's" where
  "retain_undo ops settled_tip undo s =
     (if id_height (ru_block undo) \<le> id_height settled_tip then Ok s else ro_insert_undo ops undo s)"

definition apply_block_rows ::
    "'s row_ops \<Rightarrow> canonical_block_facts \<Rightarrow> block_id \<Rightarrow> sequence_digest \<Rightarrow> sequence_digest \<Rightarrow>
       's transition_state \<Rightarrow> wallet_error + 's transition_state" where
  "apply_block_rows ops facts block before after st =
     and_then (scan_block (ro_block ops) block facts (ts_rows st)) (\<lambda>(loc, s).
     and_then (retain_undo ops (ts_settled_tip st)
                 (block_undo block (header_parent_hash (block_header facts)) before after loc) s) (\<lambda>s.
     Ok (st\<lparr>ts_rows := s\<rparr>)))"

definition apply_replay ::
    "sha256_fn \<Rightarrow> 's row_ops \<Rightarrow> validated_block_replay \<Rightarrow> 's transition_state \<Rightarrow>
       wallet_error + 's transition_state" where
  "apply_replay sha256 ops replay st =
     (let facts = rp_facts replay;
          block = \<lparr>id_height = header_height (block_header facts),
                   id_hash = header_block_hash (block_header facts)\<rparr> in
      if rp_format_version replay \<noteq> ReplayFormatV1 \<or>
         rp_reference_digest replay \<noteq> facts_digest sha256 facts FactsDigestV1
      then rejected ''bounded canonical replay does not satisfy the admitted facts contract''
      else
        and_then (ok_or (block_height_next (id_height (ts_current_tip st)))
                    (ProjectionTransitionRejected ''wallet tip cannot be extended beyond the height domain''))
          (\<lambda>expected_height.
        if id_height block \<noteq> expected_height \<or>
           header_parent_hash (block_header facts) \<noteq> id_hash (ts_current_tip st)
        then rejected ''bounded canonical replay is detached from the wallet tip''
        else
          let before = ts_source_sequence_digest st in
          and_then (extend_source_sequence_digest sha256 before (rp_reference_digest replay)) (\<lambda>after.
          and_then (apply_block_rows ops facts block before after st) (\<lambda>st.
          Ok (st\<lparr>ts_current_tip := block, ts_source_sequence_digest := after\<rparr>)))))"

definition MAX_CANONICAL_INCREMENTAL_REPLAY_BLOCKS :: u32 where
  "MAX_CANONICAL_INCREMENTAL_REPLAY_BLOCKS = 4096"

definition range_is_anchored_empty :: "block_height_range \<Rightarrow> bool" where
  "range_is_anchored_empty rng \<longleftrightarrow>
     range_start rng > range_end rng \<and> block_height_next (range_end rng) = Some (range_start rng)"

definition validate_event_range :: "block_height_range \<Rightarrow> bool \<Rightarrow> wallet_error + unit" where
  "validate_event_range rng allow_anchored_empty =
     (if range_start rng \<le> range_end rng \<or> (allow_anchored_empty \<and> range_is_anchored_empty rng)
      then Ok ()
      else rejected ''canonical event range is neither inclusive nor anchored empty'')"

definition inclusive_range_len :: "block_height_range \<Rightarrow> wallet_error + u64" where
  "inclusive_range_len rng =
     (if range_is_anchored_empty rng then Ok 0
      else
        and_then (validate_event_range rng False) (\<lambda>_.
        ok_or (case checked_sub (ucast (range_end rng) :: u64) (ucast (range_start rng)) of
                 None \<Rightarrow> None | Some distance \<Rightarrow> checked_add distance 1)
          (ProjectionTransitionRejected ''canonical range length overflows the replay domain'')))"

definition validate_incremental_replay_range :: "block_height_range \<Rightarrow> wallet_error + unit" where
  "validate_incremental_replay_range replay_range =
     and_then (inclusive_range_len replay_range) (\<lambda>replay_count.
     if replay_count > ucast MAX_CANONICAL_INCREMENTAL_REPLAY_BLOCKS
     then rejected ''reconciliation replay exceeds the canonical incremental replay limit''
     else Ok ())"

definition apply_replay_row ::
    "sha256_fn \<Rightarrow> 's row_ops \<Rightarrow> canonical_store_error + validated_block_replay \<Rightarrow>
       range_iter \<times> 's transition_state \<Rightarrow> wallet_error + range_iter \<times> 's transition_state" where
  "apply_replay_row sha256 ops row = (\<lambda>(expected_heights, st).
     and_then (map_err CanonicalReplay row) (\<lambda>replay.
     and_then (ok_or (range_iter_next expected_heights)
                 (ProjectionTransitionRejected
                    ''bounded canonical replay contains more rows than its event range''))
       (\<lambda>(expected_height, expected_heights).
     if header_height (block_header (rp_facts replay)) \<noteq> expected_height
     then rejected ''bounded canonical replay height differs from its event range''
     else and_then (apply_replay sha256 ops replay st) (\<lambda>st. Ok (expected_heights, st)))))"

definition apply_replay_range ::
    "sha256_fn \<Rightarrow> 's row_ops \<Rightarrow> block_height_range \<Rightarrow> (canonical_store_error + validated_block_replay) list \<Rightarrow>
       's transition_state \<Rightarrow> wallet_error + 's transition_state" where
  "apply_replay_range sha256 ops rng replay_rows st =
     and_then (validate_incremental_replay_range rng) (\<lambda>_.
     and_then (try_fold (apply_replay_row sha256 ops) replay_rows (into_iter rng, st))
       (\<lambda>(expected_heights, st).
     if range_iter_next expected_heights \<noteq> None
     then rejected ''bounded canonical replay ends before its event range''
     else Ok st))"

section \<open>Rolling back\<close>

definition rollback_spent :: "'s row_ops \<Rightarrow> block_id \<Rightarrow> outpoint_key \<Rightarrow> 's \<Rightarrow> wallet_error + 's" where
  "rollback_spent ops block key s =
     and_then (ro_remove_spent ops key s) (\<lambda>(spent, s).
     if pos_block (so_spent_at spent) \<noteq> block
     then rejected ''wallet undo restores a spend from a different block''
     else ro_insert_unspent ops (so_output spent) s)"

definition rollback_undo :: "'s row_ops \<Rightarrow> reorg_undo \<Rightarrow> u8 list \<Rightarrow> 's \<Rightarrow> wallet_error + 's" where
  "rollback_undo ops undo encoded_undo s =
     and_then (try_fold (\<lambda>key. ro_remove_address_transaction ops key (ru_block undo))
                 (ru_address_transaction_keys undo) s) (\<lambda>s.
     and_then (try_fold (\<lambda>key. ro_remove_created ops key (ru_block undo)) (ru_created_outpoints undo) s) (\<lambda>s.
     and_then (try_fold (rollback_spent ops (ru_block undo)) (ru_spent_outpoints undo) s) (\<lambda>s.
     ro_remove_undo ops (id_height (ru_block undo)) encoded_undo s)))"

text \<open>One turn of the loop of \<open>rollback_range\<close>, at one height.\<close>

definition rollback_height :: "'s row_ops \<Rightarrow> block_height \<Rightarrow> 's transition_state \<Rightarrow> wallet_error + 's transition_state" where
  "rollback_height ops block_height st =
     and_then (ro_load_undo ops block_height (ts_rows st)) (\<lambda>loaded.
     and_then (ok_or loaded (WalletProjectionRebuildRequired
                ''durable undo suffix cannot roll back the requested canonical range'')) (\<lambda>(undo, encoded).
     if ru_block undo \<noteq> ts_current_tip st \<or> ru_source_sequence_digest_after undo \<noteq> ts_source_sequence_digest st
     then rejected ''durable wallet undo does not match the current source fence''
     else
       and_then (rollback_undo ops undo encoded (ts_rows st)) (\<lambda>s.
       and_then (ok_or (checked_sub block_height 1)
                   (ProjectionTransitionRejected ''wallet undo attempts to roll back below height zero''))
         (\<lambda>parent_height.
       Ok (st\<lparr>ts_rows := s,
              ts_current_tip := \<lparr>id_height = parent_height, id_hash = ru_parent_hash undo\<rparr>,
              ts_source_sequence_digest := ru_source_sequence_digest_before undo\<rparr>)))))"

function rollback_loop ::
    "'s row_ops \<Rightarrow> block_height \<Rightarrow> block_height \<Rightarrow> 's transition_state \<Rightarrow> wallet_error + 's transition_state" where
  "rollback_loop ops start height st =
     and_then (rollback_height ops height st) (\<lambda>st.
     if height = start then Ok st
     else
       case checked_sub height 1 of
         None \<Rightarrow> rejected ''wallet reorg range underflows while walking undo rows''
       | Some height \<Rightarrow> rollback_loop ops start height st)"
  by auto

termination
  by (relation "measure (\<lambda>(ops, start, height, st). unat height)") (auto simp: checked_sub_Some_iff)

definition rollback_range :: "'s row_ops \<Rightarrow> block_height_range \<Rightarrow> 's transition_state \<Rightarrow> wallet_error + 's transition_state" where
  "rollback_range ops reverted st = rollback_loop ops (range_start reverted) (range_end reverted) st"

section \<open>Settling\<close>

definition prune_height :: "'s row_ops \<Rightarrow> block_height \<Rightarrow> 's \<Rightarrow> wallet_error + 's" where
  "prune_height ops height s =
     and_then (ro_load_undo ops height s) (\<lambda>loaded.
     and_then (ok_or loaded (WalletProjectionRebuildRequired
                ''durable undo suffix cannot prune the advanced canonical settled range'')) (\<lambda>(undo, encoded).
     if id_height (ru_block undo) \<noteq> height
     then rejected ''durable wallet undo floor has a height/key mismatch''
     else ro_remove_undo ops height encoded s))"

function prune_loop :: "'s row_ops \<Rightarrow> block_height \<Rightarrow> block_height \<Rightarrow> 's \<Rightarrow> wallet_error + 's" where
  "prune_loop ops last_height height s =
     and_then (prune_height ops height s) (\<lambda>s.
     if height = last_height then Ok s
     else
       case block_height_next height of
         None \<Rightarrow> rejected ''wallet undo floor overflows while pruning settled rows''
       | Some height \<Rightarrow> prune_loop ops last_height height s)"
  by auto

termination
proof (relation "measure (\<lambda>(ops, last_height, height, s). 2 ^ 32 - unat height)", goal_cases)
  case (2 ops last_height height s x h)
  then show ?case
    using unsigned_less [of h, where ?'a = nat] by (simp add: block_height_next_Some_iff)
qed simp

definition authenticate_settled_tip :: "'s row_ops \<Rightarrow> block_id \<Rightarrow> 's transition_state \<Rightarrow> wallet_error + unit" where
  "authenticate_settled_tip ops resulting_settled_tip st =
     (if resulting_settled_tip = ts_current_tip st then Ok ()
      else
        and_then (ok_or (block_height_next (id_height resulting_settled_tip))
                    (ProjectionTransitionRejected
                       ''canonical settled tip cannot have a successor beyond the height domain''))
          (\<lambda>successor_height.
        and_then (ro_load_undo ops successor_height (ts_rows st)) (\<lambda>loaded.
        and_then (ok_or loaded (WalletProjectionRebuildRequired
                    ''durable undo suffix cannot authenticate the advanced canonical settled tip''))
          (\<lambda>(successor, _).
        if id_height (ru_block successor) \<noteq> successor_height \<or>
           ru_parent_hash successor \<noteq> id_hash resulting_settled_tip
        then rejected ''canonical settled tip does not match the retained successor undo record''
        else Ok ()))))"

definition advance_settled_tip ::
    "'s row_ops \<Rightarrow> block_id \<Rightarrow> 's transition_state \<Rightarrow> wallet_error + 's transition_state" where
  "advance_settled_tip ops resulting_settled_tip st =
     (if resulting_settled_tip = ts_settled_tip st then Ok st
      else if id_height resulting_settled_tip \<le> id_height (ts_settled_tip st) \<or>
              id_height resulting_settled_tip > id_height (ts_current_tip st)
      then rejected ''planned canonical settled tip is not a forward wallet undo floor''
      else
        and_then (authenticate_settled_tip ops resulting_settled_tip st) (\<lambda>_.
        and_then (ok_or (block_height_next (id_height (ts_settled_tip st)))
                    (ProjectionTransitionRejected
                       ''wallet undo floor cannot advance beyond the height domain'')) (\<lambda>height.
        and_then (prune_loop ops (id_height resulting_settled_tip) height (ts_rows st)) (\<lambda>s.
        Ok (st\<lparr>ts_rows := s, ts_settled_tip := resulting_settled_tip\<rparr>)))))"

text \<open>The body of the publication loop; \<open>last\<close> holds in its final turn.\<close>

definition publishable_undo ::
    "'s row_ops \<Rightarrow> 's transition_state \<Rightarrow> u64 \<Rightarrow> nat \<Rightarrow> sequence_digest option \<times> block_height \<Rightarrow>
       wallet_error + sequence_digest option \<times> block_height" where
  "publishable_undo ops st expected_count offset = (\<lambda>(previous_digest_after, block_height).
     and_then (ro_load_undo ops block_height (ts_rows st)) (\<lambda>loaded.
     and_then (ok_or loaded (ProjectionTransitionRejected
                 ''planned wallet undo suffix has a missing durable record'')) (\<lambda>(undo, _).
     if id_height (ru_block undo) \<noteq> block_height
     then rejected ''durable wallet undo suffix has a height/key mismatch''
     else if previous_digest_after \<noteq> None \<and>
             previous_digest_after \<noteq> Some (ru_source_sequence_digest_before undo)
     then rejected ''durable wallet undo suffix has disconnected source digests''
     else if offset + 1 = unat expected_count \<and>
             (ru_block undo \<noteq> ts_current_tip st \<or>
              ru_source_sequence_digest_after undo \<noteq> ts_source_sequence_digest st)
     then rejected ''durable wallet tip undo does not match the planned source fence''
     else if offset + 1 \<noteq> unat expected_count then
       and_then (ok_or (block_height_next block_height)
                   (ProjectionTransitionRejected
                      ''wallet undo suffix height overflows while checking publication'')) (\<lambda>block_height.
       Ok (Some (ru_source_sequence_digest_after undo), block_height))
     else Ok (Some (ru_source_sequence_digest_after undo), block_height))))"

definition require_publishable_undo_suffix ::
    "'s row_ops \<Rightarrow> u32 \<Rightarrow> 's transition_state \<Rightarrow> wallet_error + unit" where
  "require_publishable_undo_suffix ops supported_reorg_depth st =
     (let undo_count = ro_undo_count ops (ts_rows st) in
      and_then (ok_or (checked_sub (ucast (id_height (ts_current_tip st)) :: u64)
                         (ucast (id_height (ts_settled_tip st))))
                  (ProjectionTransitionRejected ''wallet settled tip lies beyond the planned source tip''))
        (\<lambda>expected_count.
      if expected_count > ucast supported_reorg_depth
      then rebuild_required ''canonical unsettled suffix exceeds the wallet's configured undo capacity''
      else if undo_count \<noteq> expected_count
      then rejected ''planned wallet undo rows do not exactly cover the canonical unsettled suffix''
      else if expected_count = 0 then Ok ()
      else
        and_then (ok_or (block_height_next (id_height (ts_settled_tip st)))
                    (ProjectionTransitionRejected
                       ''wallet undo suffix starts beyond the height domain'')) (\<lambda>first_height.
        and_then (try_fold (publishable_undo ops st expected_count) [0..<unat expected_count]
                    (None, first_height)) (\<lambda>_. Ok ()))))"

declare rollback_loop.simps [simp del] prune_loop.simps [simp del]

section \<open>Simulation of transitions\<close>

lemma sim_same: "(\<And>e. r = Inl e \<Longrightarrow> E e e) \<Longrightarrow> sim Q E (\<lambda>x y. x = y \<and> r = Inr x) r r"
  by (cases r) auto

lemma sim_if:
  assumes "b = b'" and "b \<Longrightarrow> sim Q E R a c" and "\<not> b \<Longrightarrow> sim Q E R a' c'"
  shows "sim Q E R (if b then a else a') (if b' then c else c')"
  using assms by simp

locale transition_simulation =
  fixes A :: "'a row_ops" and C :: "'c row_ops"
    and Q :: "wallet_error \<Rightarrow> bool" and E :: "wallet_error \<Rightarrow> wallet_error \<Rightarrow> bool"
    and R :: "'a \<Rightarrow> 'c \<Rightarrow> bool"
  assumes same_error: "E e e"
    and scan: "R s t \<Longrightarrow> sim Q E (\<lambda>(loc, s') (loc', t'). loc = loc' \<and> R s' t')
        (scan_block (ro_block A) block facts s) (scan_block (ro_block C) block facts t)"
    and load_undo: "R s t \<Longrightarrow> sim Q E (=) (ro_load_undo A h s) (ro_load_undo C h t)"
    and insert_undo: "R s t \<Longrightarrow> sim Q E R (ro_insert_undo A undo s) (ro_insert_undo C undo t)"
    and remove_undo: "R s t \<Longrightarrow> sim Q E R (ro_remove_undo A h v s) (ro_remove_undo C h v t)"
    and remove_address: "R s t \<Longrightarrow> sim Q E R (ro_remove_address_transaction A a block s)
        (ro_remove_address_transaction C a block t)"
    and remove_created: "R s t \<Longrightarrow> sim Q E R (ro_remove_created A k' block s) (ro_remove_created C k' block t)"
    and remove_spent: "R s t \<Longrightarrow> sim Q E (\<lambda>(x, s') (y, t'). x = y \<and> R s' t')
        (ro_remove_spent A k' s) (ro_remove_spent C k' t)"
    and insert_unspent: "R s t \<Longrightarrow> unspent_valid u \<Longrightarrow>
        sim Q E R (ro_insert_unspent A u s) (ro_insert_unspent C u t)"
    and spent_valid: "R s t \<Longrightarrow> ro_remove_spent A k' s = Inr (x, s') \<Longrightarrow> unspent_valid (so_output x)"
    and undo_count: "R s t \<Longrightarrow> ro_undo_count A s = ro_undo_count C t"
begin

definition related :: "'a transition_state \<Rightarrow> 'c transition_state \<Rightarrow> bool" where
  "related x y \<longleftrightarrow>
     R (ts_rows x) (ts_rows y) \<and> ts_current_tip x = ts_current_tip y \<and>
     ts_settled_tip x = ts_settled_tip y \<and> ts_source_sequence_digest x = ts_source_sequence_digest y"

lemma same [sim_intros]: "sim Q E (\<lambda>x y. x = y \<and> r = Inr x) r r"
  by (rule sim_same) (rule same_error)

declare same_error [simp]

lemma apply_block_rows_sim:
  assumes "related x y"
  shows "sim Q E related (apply_block_rows A facts block before after x) (apply_block_rows C facts block before after y)"
  unfolding apply_block_rows_def retain_undo_def
  by (rule sim_and_then [OF scan [of "ts_rows x" "ts_rows y"]])
    (use assms in \<open>auto simp: related_def intro!: sim_and_then [where R = R] insert_undo\<close>)

lemma apply_replay_sim:
  assumes "related x y"
  shows "sim Q E related (apply_replay sha256 A replay x) (apply_replay sha256 C replay y)"
proof -
  have "ts_current_tip y = ts_current_tip x" "ts_source_sequence_digest y = ts_source_sequence_digest x"
    using assms by (simp_all add: related_def)
  then show ?thesis
    unfolding apply_replay_def Let_def
    by (auto intro!: sim_if sim_and_then [OF same] sim_and_then [OF apply_block_rows_sim [OF assms]]
        simp: related_def)
qed

lemma apply_replay_range_sim:
  assumes "related x y"
  shows "sim Q E related (apply_replay_range sha256 A rng rows x) (apply_replay_range sha256 C rng rows y)"
proof -
  let ?rel = "\<lambda>(it, x) (it', y). it = it' \<and> related x y"
  have row: "sim Q E ?rel (apply_replay_row sha256 A row p) (apply_replay_row sha256 C row q)"
    if "?rel p q" for row p q
    using that unfolding apply_replay_row_def
    by (cases p; cases q)
      (auto intro!: sim_and_then [OF same] sim_if sim_and_then [OF apply_replay_sim])
  have start: "?rel (into_iter rng, x) (into_iter rng, y)" using assms by simp
  have rows: "sim Q E ?rel (try_fold (apply_replay_row sha256 A) rows (into_iter rng, x))
      (try_fold (apply_replay_row sha256 C) rows (into_iter rng, y))"
    by (rule sim_try_fold [where R = ?rel, OF start]) (rule row)
  show ?thesis
    unfolding apply_replay_range_def
    by (auto intro!: sim_and_then [OF same] sim_and_then [OF rows])
qed

lemma rollback_undo_sim:
  assumes "R s t"
  shows "sim Q E R (rollback_undo A undo encoded s) (rollback_undo C undo encoded t)"
proof -
  have spent: "sim Q E R (rollback_spent A block k s) (rollback_spent C block k t)" if "R s t" for s t block k
  proof -
    have removed: "sim Q E (\<lambda>(x, s') (y, t'). x = y \<and> R s' t' \<and> unspent_valid (so_output x))
        (ro_remove_spent A k s) (ro_remove_spent C k t)"
      using remove_spent [OF that, of k] spent_valid [OF that, of k]
      by (cases "ro_remove_spent A k s"; cases "ro_remove_spent C k t") auto
    show ?thesis
      unfolding rollback_spent_def
      by (rule sim_and_then [OF removed]) (auto intro!: insert_unspent)
  qed
  show ?thesis
    unfolding rollback_undo_def
    by (intro sim_and_then [where R = R] sim_try_fold assms remove_address remove_created spent remove_undo)
qed

lemma rollback_height_sim:
  assumes "related x y"
  shows "sim Q E related (rollback_height A h x) (rollback_height C h y)"
proof -
  have y: "ts_current_tip y = ts_current_tip x" "ts_source_sequence_digest y = ts_source_sequence_digest x"
    "R (ts_rows x) (ts_rows y)" "ts_settled_tip y = ts_settled_tip x"
    using assms by (simp_all add: related_def)
  show ?thesis
    unfolding rollback_height_def
    by (rule sim_and_then [OF load_undo [OF y(3)]])
      (auto intro!: sim_and_then [OF same] sim_and_then [OF rollback_undo_sim [OF y(3)]] sim_if
        simp: y related_def)
qed

lemma rollback_loop_sim:
  assumes "related x y"
  shows "sim Q E related (rollback_loop A start h x) (rollback_loop C start h y)"
  using assms
proof (induction "unat h" arbitrary: h x y rule: less_induct)
  case less
  have "unat k < unat h" if "checked_sub h 1 = Some k" for k
    using that by (simp add: checked_sub_Some_iff)
  then show ?case
    unfolding rollback_loop.simps [of A start h x] rollback_loop.simps [of C start h y]
    by (intro sim_and_then [OF rollback_height_sim [OF less.prems]])
      (auto split: option.splits intro!: less.hyps)
qed

lemma rollback_range_sim:
  "related x y \<Longrightarrow> sim Q E related (rollback_range A rng x) (rollback_range C rng y)"
  unfolding rollback_range_def by (rule rollback_loop_sim)

lemma prune_loop_sim:
  assumes "R s t"
  shows "sim Q E R (prune_loop A last_height h s) (prune_loop C last_height h t)"
  using assms
proof (induction "2 ^ 32 - unat h" arbitrary: h s t rule: less_induct)
  case less
  have prune: "sim Q E R (prune_height A h s) (prune_height C h t)"
    unfolding prune_height_def
    by (rule sim_and_then [OF load_undo [OF less.prems]])
      (auto intro!: sim_and_then [OF same] remove_undo less.prems)
  have "2 ^ 32 - unat k < (2 ^ 32 - unat h :: nat)" if "block_height_next h = Some k" for k
    using that unsigned_less [of k, where ?'a = nat] by (simp add: block_height_next_Some_iff)
  then show ?case
    unfolding prune_loop.simps [of A last_height h s] prune_loop.simps [of C last_height h t]
    by (intro sim_and_then [OF prune]) (auto split: option.splits intro!: less.hyps)
qed

lemma advance_settled_tip_sim:
  assumes "related x y"
  shows "sim Q E related (advance_settled_tip A tip x) (advance_settled_tip C tip y)"
proof -
  have y: "ts_current_tip y = ts_current_tip x" "R (ts_rows x) (ts_rows y)" "ts_settled_tip y = ts_settled_tip x"
    using assms by (simp_all add: related_def)
  have auth: "sim Q E (\<lambda>_ _. True) (authenticate_settled_tip A tip x) (authenticate_settled_tip C tip y)"
    unfolding authenticate_settled_tip_def y
    by (auto intro!: sim_if sim_and_then [OF same] sim_and_then [OF load_undo [OF y(2)]])
  show ?thesis
    unfolding advance_settled_tip_def y
    using assms
    by (auto intro!: sim_if sim_and_then [OF same] sim_and_then [OF auth] sim_and_then [OF prune_loop_sim [OF y(2)]]
        simp: related_def)
qed

lemma require_publishable_sim:
  assumes "related x y"
  shows "sim Q E (\<lambda>_ _. True) (require_publishable_undo_suffix A depth x) (require_publishable_undo_suffix C depth y)"
proof -
  have y: "ts_current_tip y = ts_current_tip x" "R (ts_rows x) (ts_rows y)" "ts_settled_tip y = ts_settled_tip x"
    "ts_source_sequence_digest y = ts_source_sequence_digest x"
    using assms by (simp_all add: related_def)
  have step: "sim Q E (=) (publishable_undo A x n i p) (publishable_undo C y n i q)" if "p = q" for n i p q
    unfolding publishable_undo_def y that
    by (cases q) (auto intro!: sim_if sim_and_then [OF same] sim_and_then [OF load_undo [OF y(2)]])
  have fold: "sim Q E (=) (try_fold (publishable_undo A x n) xs p) (try_fold (publishable_undo C y n) xs p)" for n xs p
    by (rule sim_try_fold [where R = "(=)"]) (auto intro: step)
  show ?thesis
    unfolding require_publishable_undo_suffix_def Let_def y undo_count [OF y(2)]
    by (auto intro!: sim_if sim_and_then [OF same] sim_and_then [OF fold])
qed

end

end
