(* ===== verification/Transition_Planner.thy ===== *)
theory Transition_Planner
  imports Wallet_Transition
begin

text \<open>
  The durable transition planner of the wallet store (\<open>zinder-wallet-rocksdb/src/transition.rs\<close>): its
  logical byte accounting, its overlay over the database, the write batch it prepares, and the row
  operations it performs. The RocksDB database is an argument: the operations the planner calls on
  it are the fields of \<open>rocksdb\<close>.
\<close>

section \<open>The database\<close>

datatype batch_op =
  PutCf string "u8 list" "u8 list"
| DeleteCf string "u8 list"
| Put "u8 list" "u8 list"

text \<open>
  A database of type \<open>'d\<close>: column family handles, point reads, the entries of the default column
  family from its start, the entries of a column family from a key on, and the synchronous write of a
  batch. A failed write reports its error and
  leaves the database in whatever state the library leaves it.
\<close>

record 'd rocksdb =
  rdb_cf_handle :: "'d \<Rightarrow> string \<Rightarrow> bool"
  rdb_get_cf :: "'d \<Rightarrow> string \<Rightarrow> u8 list \<Rightarrow> rocksdb_error + u8 list option"
  rdb_iterator :: "'d \<Rightarrow> (rocksdb_error + u8 list \<times> u8 list) list"
  rdb_iterator_cf :: "'d \<Rightarrow> string \<Rightarrow> u8 list \<Rightarrow> (rocksdb_error + u8 list \<times> u8 list) list"
  rdb_write_opt :: "batch_op list \<Rightarrow> 'd \<Rightarrow> (rocksdb_error + unit) \<times> 'd"

definition TRANSPARENT_UNSPENT_OUTPUT_COLUMN_FAMILY :: string where
  "TRANSPARENT_UNSPENT_OUTPUT_COLUMN_FAMILY = ''transparent_unspent_output''"

definition TRANSPARENT_UNSPENT_OUTPUT_BY_ADDRESS_COLUMN_FAMILY :: string where
  "TRANSPARENT_UNSPENT_OUTPUT_BY_ADDRESS_COLUMN_FAMILY = ''transparent_unspent_output_by_address''"

definition TRANSPARENT_SPENT_OUTPUT_COLUMN_FAMILY :: string where
  "TRANSPARENT_SPENT_OUTPUT_COLUMN_FAMILY = ''transparent_spent_output''"

definition TRANSPARENT_ADDRESS_TRANSACTION_COLUMN_FAMILY :: string where
  "TRANSPARENT_ADDRESS_TRANSACTION_COLUMN_FAMILY = ''transparent_address_transaction''"

definition TRANSPARENT_ADDRESS_BALANCE_COLUMN_FAMILY :: string where
  "TRANSPARENT_ADDRESS_BALANCE_COLUMN_FAMILY = ''transparent_address_balance''"

definition REORG_UNDO_COLUMN_FAMILY :: string where
  "REORG_UNDO_COLUMN_FAMILY = ''reorg_undo''"

lemmas column_family_defs =
  TRANSPARENT_UNSPENT_OUTPUT_COLUMN_FAMILY_def TRANSPARENT_UNSPENT_OUTPUT_BY_ADDRESS_COLUMN_FAMILY_def
  TRANSPARENT_SPENT_OUTPUT_COLUMN_FAMILY_def TRANSPARENT_ADDRESS_TRANSACTION_COLUMN_FAMILY_def
  TRANSPARENT_ADDRESS_BALANCE_COLUMN_FAMILY_def REORG_UNDO_COLUMN_FAMILY_def

definition column_family :: "'d rocksdb \<Rightarrow> 'd \<Rightarrow> string \<Rightarrow> wallet_error + unit" where
  "column_family lib db name = (if rdb_cf_handle lib db name then Ok () else Err (ColumnFamilyUnavailable name))"

section \<open>Logical byte accounting\<close>

definition MAX_WALLET_PROJECTION_TRANSITION_LOGICAL_BYTES :: u64 where
  "MAX_WALLET_PROJECTION_TRANSITION_LOGICAL_BYTES = 1024 * 1024 * 1024"

definition validate_transition_logical_byte_limit :: "u64 \<Rightarrow> wallet_error + u64" where
  "validate_transition_logical_byte_limit requested_bytes =
     (if requested_bytes > MAX_WALLET_PROJECTION_TRANSITION_LOGICAL_BYTES
      then Err (InvalidTransitionLogicalByteLimit requested_bytes MAX_WALLET_PROJECTION_TRANSITION_LOGICAL_BYTES)
      else Ok requested_bytes)"

record logical_byte_accounting =
  lb_limit :: u64
  lb_batch :: u64
  lb_overlay :: u64

definition accounting_new :: "u64 \<Rightarrow> logical_byte_accounting" where
  "accounting_new limit = \<lparr>lb_limit = limit, lb_batch = 0, lb_overlay = 0\<rparr>"

definition checked_transition_bytes :: "u64 \<Rightarrow> u64 \<Rightarrow> wallet_error + u64" where
  "checked_transition_bytes left right = ok_or (checked_add left right) TransitionLogicalByteAccountingOverflow"

definition u64_try_from_usize :: "nat \<Rightarrow> wallet_error + u64" where
  "u64_try_from_usize n =
     (if n < 2 ^ 64 then Ok (of_nat n) else Err TransitionLogicalByteAccountingOverflow)"

definition logical_entry_bytes :: "u8 list \<Rightarrow> u8 list option \<Rightarrow> wallet_error + u64" where
  "logical_entry_bytes key encoded_value =
     and_then (u64_try_from_usize (length key)) (\<lambda>key_bytes.
     and_then (case encoded_value of None \<Rightarrow> Ok 0 | Some v \<Rightarrow> u64_try_from_usize (length v)) (\<lambda>value_bytes.
     checked_transition_bytes key_bytes value_bytes))"

definition ensure_within_limit :: "u64 \<Rightarrow> u64 \<Rightarrow> logical_byte_accounting \<Rightarrow> wallet_error + unit" where
  "ensure_within_limit batch_bytes overlay_bytes a =
     and_then (checked_transition_bytes batch_bytes overlay_bytes) (\<lambda>required_bytes.
     if required_bytes > lb_limit a then Err (TransitionLogicalByteLimit (lb_limit a) required_bytes)
     else Ok ())"

definition reserve_batch_and_replace_overlay ::
    "u8 list \<Rightarrow> u64 \<Rightarrow> u8 list option option \<Rightarrow> u8 list option \<Rightarrow> logical_byte_accounting \<Rightarrow>
       wallet_error + logical_byte_accounting" where
  "reserve_batch_and_replace_overlay key batch_entry_bytes previous_overlay next_overlay_value a =
     and_then (case previous_overlay of Some previous_value \<Rightarrow> logical_entry_bytes key previous_value | None \<Rightarrow> Ok 0)
       (\<lambda>previous_overlay_bytes.
     and_then (logical_entry_bytes key next_overlay_value) (\<lambda>next_overlay_entry_bytes.
     and_then (checked_transition_bytes (lb_batch a) batch_entry_bytes) (\<lambda>next_batch_bytes.
     and_then (ok_or (checked_sub (lb_overlay a) previous_overlay_bytes) TransitionLogicalByteAccountingOverflow)
       (\<lambda>next_overlay_bytes.
     and_then (checked_transition_bytes next_overlay_bytes next_overlay_entry_bytes) (\<lambda>next_overlay_bytes.
     and_then (ensure_within_limit next_batch_bytes next_overlay_bytes a) (\<lambda>_.
     Ok (a\<lparr>lb_batch := next_batch_bytes, lb_overlay := next_overlay_bytes\<rparr>)))))))"

definition reserve_put ::
    "u8 list \<Rightarrow> u8 list \<Rightarrow> u8 list option option \<Rightarrow> logical_byte_accounting \<Rightarrow> wallet_error + logical_byte_accounting" where
  "reserve_put key encoded_value previous_overlay a =
     and_then (logical_entry_bytes key (Some encoded_value)) (\<lambda>entry_bytes.
     reserve_batch_and_replace_overlay key entry_bytes previous_overlay (Some encoded_value) a)"

definition reserve_delete ::
    "u8 list \<Rightarrow> u8 list option option \<Rightarrow> logical_byte_accounting \<Rightarrow> wallet_error + logical_byte_accounting" where
  "reserve_delete key previous_overlay a =
     and_then (logical_entry_bytes key None) (\<lambda>bytes.
     reserve_batch_and_replace_overlay key bytes previous_overlay None a)"

definition reserve_control ::
    "u8 list \<Rightarrow> u8 list \<Rightarrow> logical_byte_accounting \<Rightarrow> wallet_error + logical_byte_accounting" where
  "reserve_control key encoded_control a =
     and_then (logical_entry_bytes key (Some encoded_control)) (\<lambda>batch_entry_bytes.
     and_then (checked_transition_bytes (lb_batch a) batch_entry_bytes) (\<lambda>next_batch_bytes.
     and_then (ensure_within_limit next_batch_bytes (lb_overlay a) a) (\<lambda>_.
     Ok (a\<lparr>lb_batch := next_batch_bytes\<rparr>))))"

section \<open>The planner's rows\<close>

text \<open>
  The fields of \<open>WalletTransitionPlanner\<close> apart from the source fields of \<open>transition_state\<close>; the
  database and the network of the store it borrows are arguments.
\<close>

record plan =
  pl_batch :: "batch_op list"
  pl_overlay :: "(string \<times> u8 list, u8 list option) fmap"
  pl_logical_bytes :: logical_byte_accounting
  pl_accumulator :: digest_builder
  pl_accumulator_row_counts :: family_row_counts
  pl_utxo_summary :: utxo_set_summary

definition raw :: "'d rocksdb \<Rightarrow> 'd \<Rightarrow> string \<Rightarrow> u8 list \<Rightarrow> plan \<Rightarrow> wallet_error + u8 list option" where
  "raw lib db column_family_name key p =
     (case fmlookup (pl_overlay p) (column_family_name, key) of
        Some overlay_value \<Rightarrow> Ok overlay_value
      | None \<Rightarrow>
          and_then (column_family lib db column_family_name) (\<lambda>_.
          map_err (RocksDbOperation ''wallet transition point read'') (rdb_get_cf lib db column_family_name key)))"

definition put_raw ::
    "'d rocksdb \<Rightarrow> 'd \<Rightarrow> string \<Rightarrow> u8 list \<Rightarrow> u8 list \<Rightarrow> plan \<Rightarrow> wallet_error + plan" where
  "put_raw lib db column_family_name key encoded_value p =
     and_then (column_family lib db column_family_name) (\<lambda>_.
     and_then (reserve_put key encoded_value (fmlookup (pl_overlay p) (column_family_name, key)) (pl_logical_bytes p))
       (\<lambda>logical_bytes.
     Ok (p\<lparr>pl_logical_bytes := logical_bytes,
           pl_batch := pl_batch p @ [PutCf column_family_name key encoded_value],
           pl_overlay := fmupd (column_family_name, key) (Some encoded_value) (pl_overlay p)\<rparr>)))"

definition delete_raw :: "'d rocksdb \<Rightarrow> 'd \<Rightarrow> string \<Rightarrow> u8 list \<Rightarrow> plan \<Rightarrow> wallet_error + plan" where
  "delete_raw lib db column_family_name key p =
     and_then (column_family lib db column_family_name) (\<lambda>_.
     and_then (reserve_delete key (fmlookup (pl_overlay p) (column_family_name, key)) (pl_logical_bytes p))
       (\<lambda>logical_bytes.
     Ok (p\<lparr>pl_logical_bytes := logical_bytes,
           pl_batch := pl_batch p @ [DeleteCf column_family_name key],
           pl_overlay := fmupd (column_family_name, key) None (pl_overlay p)\<rparr>)))"

definition insert_row_after_absence_observed ::
    "blake2b_fn \<Rightarrow> 'd rocksdb \<Rightarrow> 'd \<Rightarrow> row_family \<Rightarrow> string \<Rightarrow> u8 list \<Rightarrow> u8 list \<Rightarrow> plan \<Rightarrow> wallet_error + plan" where
  "insert_row_after_absence_observed blake2b lib db family column_family_name key encoded_value p =
     and_then (map_err Contract (append_row blake2b family key encoded_value (pl_accumulator p))) (\<lambda>accumulator.
     put_raw lib db column_family_name key encoded_value
       (p\<lparr>pl_accumulator := accumulator, pl_accumulator_row_counts := db_row_counts accumulator\<rparr>))"

definition plan_insert_row ::
    "blake2b_fn \<Rightarrow> 'd rocksdb \<Rightarrow> 'd \<Rightarrow> row_family \<Rightarrow> string \<Rightarrow> u8 list \<Rightarrow> u8 list \<Rightarrow> plan \<Rightarrow> wallet_error + plan" where
  "plan_insert_row blake2b lib db family column_family_name key encoded_value p =
     and_then (raw lib db column_family_name key p) (\<lambda>existing.
     if existing \<noteq> None
     then rejected ''wallet transition attempts to overwrite an existing logical row''
     else insert_row_after_absence_observed blake2b lib db family column_family_name key encoded_value p)"

definition remove_row_after_value_observed ::
    "blake2b_fn \<Rightarrow> 'd rocksdb \<Rightarrow> 'd \<Rightarrow> row_family \<Rightarrow> string \<Rightarrow> u8 list \<Rightarrow> u8 list \<Rightarrow> plan \<Rightarrow> wallet_error + plan" where
  "remove_row_after_value_observed blake2b lib db family column_family_name key observed_value p =
     and_then (map_err Contract (remove_row blake2b family key observed_value (pl_accumulator p))) (\<lambda>accumulator.
     delete_raw lib db column_family_name key
       (p\<lparr>pl_accumulator := accumulator, pl_accumulator_row_counts := db_row_counts accumulator\<rparr>))"

definition plan_remove_row ::
    "blake2b_fn \<Rightarrow> 'd rocksdb \<Rightarrow> 'd \<Rightarrow> row_family \<Rightarrow> string \<Rightarrow> u8 list \<Rightarrow> u8 list \<Rightarrow> plan \<Rightarrow> wallet_error + plan" where
  "plan_remove_row blake2b lib db family column_family_name key expected_value p =
     and_then (raw lib db column_family_name key p) (\<lambda>existing.
     and_then (ok_or existing (ProjectionTransitionRejected
                 ''wallet transition attempts to remove an absent logical row'')) (\<lambda>observed.
     if observed \<noteq> expected_value
     then rejected ''wallet transition logical row differs from its expected durable bytes''
     else remove_row_after_value_observed blake2b lib db family column_family_name key expected_value p))"

section \<open>Row families\<close>

text \<open>\<open>Option::map(decode).transpose()\<close>\<close>

definition decode_row :: "(u8 list \<Rightarrow> contract_error + 'a) \<Rightarrow> u8 list option \<Rightarrow> wallet_error + 'a option" where
  "decode_row decode encoded =
     (case encoded of None \<Rightarrow> Ok None | Some v \<Rightarrow> and_then (map_err Contract (decode v)) (\<lambda>x. Ok (Some x)))"

definition read_unspent ::
    "'d rocksdb \<Rightarrow> 'd \<Rightarrow> outpoint_key \<Rightarrow> plan \<Rightarrow> wallet_error + unspent_output option" where
  "read_unspent lib db key p =
     and_then (raw lib db TRANSPARENT_UNSPENT_OUTPUT_COLUMN_FAMILY (as_slice key) p)
       (decode_row (unspent_decode_value key))"

definition read_spent ::
    "'d rocksdb \<Rightarrow> 'd \<Rightarrow> outpoint_key \<Rightarrow> plan \<Rightarrow> wallet_error + spent_output option" where
  "read_spent lib db key p =
     and_then (raw lib db TRANSPARENT_SPENT_OUTPUT_COLUMN_FAMILY (as_slice key) p)
       (decode_row (spent_decode_value key))"

text \<open>\<open>read_unspent(key)?.is_some() || read_spent(key)?.is_some()\<close>\<close>

definition plan_contains :: "'d rocksdb \<Rightarrow> 'd \<Rightarrow> outpoint_key \<Rightarrow> plan \<Rightarrow> wallet_error + bool" where
  "plan_contains lib db key p =
     and_then (read_unspent lib db key p) (\<lambda>unspent.
     if unspent \<noteq> None then Ok True
     else and_then (read_spent lib db key p) (\<lambda>spent. Ok (spent \<noteq> None)))"

definition current_balance :: "'d rocksdb \<Rightarrow> 'd \<Rightarrow> script_hash \<Rightarrow> plan \<Rightarrow> wallet_error + u64" where
  "current_balance lib db address p =
     (let key = as_slice address in
      and_then (raw lib db TRANSPARENT_ADDRESS_BALANCE_COLUMN_FAMILY key p) (\<lambda>row.
      case row of
        None \<Rightarrow> Ok 0
      | Some encoded \<Rightarrow>
          and_then (map_err Contract (balance_decode key encoded)) (\<lambda>balance.
          if ab_address_script_hash balance \<noteq> address \<or> ab_balance_zat balance = 0
          then rejected ''wallet address balance row is malformed or non-canonical''
          else Ok (ab_balance_zat balance))))"

definition replace_balance ::
    "blake2b_fn \<Rightarrow> 'd rocksdb \<Rightarrow> 'd \<Rightarrow> script_hash \<Rightarrow> u64 \<Rightarrow> u64 \<Rightarrow> plan \<Rightarrow> wallet_error + plan" where
  "replace_balance blake2b lib db address current next p =
     (let key = as_slice address in
      and_then (if current > 0 then
                  plan_remove_row blake2b lib db TransparentAddressBalance
                    TRANSPARENT_ADDRESS_BALANCE_COLUMN_FAMILY key
                    (as_slice (balance_encode_value \<lparr>ab_address_script_hash = address, ab_balance_zat = current\<rparr>)) p
                else Ok p) (\<lambda>p.
      if next > 0 then
        plan_insert_row blake2b lib db TransparentAddressBalance
          TRANSPARENT_ADDRESS_BALANCE_COLUMN_FAMILY key
          (as_slice (balance_encode_value \<lparr>ab_address_script_hash = address, ab_balance_zat = next\<rparr>)) p
      else Ok p))"

definition add_balance ::
    "blake2b_fn \<Rightarrow> 'd rocksdb \<Rightarrow> 'd \<Rightarrow> script_hash \<Rightarrow> u64 \<Rightarrow> plan \<Rightarrow> wallet_error + plan" where
  "add_balance blake2b lib db address value_zat p =
     (if value_zat = 0 then Ok p
      else
        and_then (current_balance lib db address p) (\<lambda>current.
        and_then (ok_or (checked_add current value_zat) (Contract AddressBalanceOverflow)) (\<lambda>next.
        replace_balance blake2b lib db address current next p)))"

definition subtract_balance ::
    "blake2b_fn \<Rightarrow> 'd rocksdb \<Rightarrow> 'd \<Rightarrow> script_hash \<Rightarrow> u64 \<Rightarrow> plan \<Rightarrow> wallet_error + plan" where
  "subtract_balance blake2b lib db address value_zat p =
     (if value_zat = 0 then Ok p
      else
        and_then (current_balance lib db address p) (\<lambda>current.
        and_then (ok_or (checked_sub current value_zat) (Contract AddressBalanceUnderflow)) (\<lambda>next.
        replace_balance blake2b lib db address current next p)))"

definition validate_add_unspent :: "'d rocksdb \<Rightarrow> 'd \<Rightarrow> unspent_output \<Rightarrow> plan \<Rightarrow> wallet_error + unit" where
  "validate_add_unspent lib db u p =
     and_then (ok_or (checked_add (us_utxo_count (pl_utxo_summary p)) 1) (Contract UtxoCountOverflow)) (\<lambda>_.
     and_then (ok_or (checked_add (us_total_value_zat (pl_utxo_summary p)) (uo_value_zat u))
                 (Contract UtxoValueOverflow)) (\<lambda>_.
     if uo_value_zat u > 0 then
       and_then (current_balance lib db (uo_address_script_hash u) p) (\<lambda>current.
       and_then (ok_or (checked_add current (uo_value_zat u)) (Contract AddressBalanceOverflow)) (\<lambda>_. Ok ()))
     else Ok ()))"

definition validate_remove_unspent :: "'d rocksdb \<Rightarrow> 'd \<Rightarrow> unspent_output \<Rightarrow> plan \<Rightarrow> wallet_error + unit" where
  "validate_remove_unspent lib db u p =
     and_then (ok_or (checked_sub (us_utxo_count (pl_utxo_summary p)) 1) (Contract UtxoCountUnderflow)) (\<lambda>_.
     and_then (ok_or (checked_sub (us_total_value_zat (pl_utxo_summary p)) (uo_value_zat u))
                 (Contract UtxoValueUnderflow)) (\<lambda>_.
     if uo_value_zat u > 0 then
       and_then (current_balance lib db (uo_address_script_hash u) p) (\<lambda>current.
       and_then (ok_or (checked_sub current (uo_value_zat u)) (Contract AddressBalanceUnderflow)) (\<lambda>_. Ok ()))
     else Ok ()))"

text \<open>The unchecked \<open>+=\<close> and \<open>-=\<close> of the source, after the checks above.\<close>

definition commit_add_unspent :: "blake2b_fn \<Rightarrow> network \<Rightarrow> unspent_output \<Rightarrow> plan \<Rightarrow> plan" where
  "commit_add_unspent blake2b network u p =
     p\<lparr>pl_utxo_summary :=
         \<lparr>us_utxo_count = us_utxo_count (pl_utxo_summary p) + 1,
          us_total_value_zat = us_total_value_zat (pl_utxo_summary p) + uo_value_zat u,
          us_commitment =
            commitment_insert blake2b (output_commitment_element network u) (us_commitment (pl_utxo_summary p))\<rparr>\<rparr>"

definition commit_remove_unspent :: "blake2b_fn \<Rightarrow> network \<Rightarrow> unspent_output \<Rightarrow> plan \<Rightarrow> plan" where
  "commit_remove_unspent blake2b network u p =
     p\<lparr>pl_utxo_summary :=
         \<lparr>us_utxo_count = us_utxo_count (pl_utxo_summary p) - 1,
          us_total_value_zat = us_total_value_zat (pl_utxo_summary p) - uo_value_zat u,
          us_commitment =
            commitment_subtract blake2b (output_commitment_element network u) (us_commitment (pl_utxo_summary p))\<rparr>\<rparr>"

definition insert_unspent ::
    "blake2b_fn \<Rightarrow> 'd rocksdb \<Rightarrow> 'd \<Rightarrow> network \<Rightarrow> unspent_output \<Rightarrow> plan \<Rightarrow> wallet_error + plan" where
  "insert_unspent blake2b lib db network u p =
     (let key = outpoint_key_new (uo_outpoint u) in
      and_then (plan_contains lib db key p) (\<lambda>known.
      if known then Err (Contract DuplicateOutput)
      else
        and_then (validate_add_unspent lib db u p) (\<lambda>_.
        and_then (map_err Contract (unspent_encode_value u)) (\<lambda>encoded.
        and_then (insert_row_after_absence_observed blake2b lib db TransparentUnspentOutput
                    TRANSPARENT_UNSPENT_OUTPUT_COLUMN_FAMILY (as_slice key) encoded p) (\<lambda>p.
        and_then (plan_insert_row blake2b lib db TransparentUnspentOutputByAddress
                    TRANSPARENT_UNSPENT_OUTPUT_BY_ADDRESS_COLUMN_FAMILY (as_slice (address_unspent_key_new u)) [] p) (\<lambda>p.
        and_then (add_balance blake2b lib db (uo_address_script_hash u) (uo_value_zat u) p) (\<lambda>p.
        Ok (commit_add_unspent blake2b network u p))))))))"

definition remove_unspent ::
    "blake2b_fn \<Rightarrow> 'd rocksdb \<Rightarrow> 'd \<Rightarrow> network \<Rightarrow> unspent_output \<Rightarrow> plan \<Rightarrow> wallet_error + plan" where
  "remove_unspent blake2b lib db network u p =
     (let key = outpoint_key_new (uo_outpoint u); address_key = address_unspent_key_new u in
      and_then (map_err Contract (unspent_encode_value u)) (\<lambda>encoded.
      and_then (raw lib db TRANSPARENT_UNSPENT_OUTPUT_COLUMN_FAMILY (as_slice key) p) (\<lambda>row.
      and_then (ok_or row (ProjectionTransitionRejected
                  ''wallet unspent output is absent while applying a spend'')) (\<lambda>observed.
      if observed \<noteq> encoded
      then rejected ''wallet unspent output bytes differ from its decoded row''
      else
        and_then (raw lib db TRANSPARENT_UNSPENT_OUTPUT_BY_ADDRESS_COLUMN_FAMILY (as_slice address_key) p) (\<lambda>row.
        and_then (ok_or row (ProjectionTransitionRejected
                    ''wallet unspent output has no address index row'')) (\<lambda>address_index.
        if address_index \<noteq> []
        then rejected ''wallet address index row must have an empty value''
        else
          and_then (validate_remove_unspent lib db u p) (\<lambda>_.
          and_then (remove_row_after_value_observed blake2b lib db TransparentUnspentOutput
                      TRANSPARENT_UNSPENT_OUTPUT_COLUMN_FAMILY (as_slice key) observed p) (\<lambda>p.
          and_then (remove_row_after_value_observed blake2b lib db TransparentUnspentOutputByAddress
                      TRANSPARENT_UNSPENT_OUTPUT_BY_ADDRESS_COLUMN_FAMILY (as_slice address_key) address_index p) (\<lambda>p.
          and_then (subtract_balance blake2b lib db (uo_address_script_hash u) (uo_value_zat u) p) (\<lambda>p.
          Ok (commit_remove_unspent blake2b network u p)))))))))))"

definition insert_spent :: "blake2b_fn \<Rightarrow> 'd rocksdb \<Rightarrow> 'd \<Rightarrow> spent_output \<Rightarrow> plan \<Rightarrow> wallet_error + plan" where
  "insert_spent blake2b lib db s p =
     (let key = outpoint_key_new (uo_outpoint (so_output s)) in
      and_then (read_spent lib db key p) (\<lambda>spent.
      if spent \<noteq> None then Err (Contract DuplicateSpend)
      else
        and_then (map_err Contract (spent_encode_value s)) (\<lambda>encoded.
        insert_row_after_absence_observed blake2b lib db TransparentSpentOutput
          TRANSPARENT_SPENT_OUTPUT_COLUMN_FAMILY (as_slice key) encoded p)))"

definition remove_spent ::
    "blake2b_fn \<Rightarrow> 'd rocksdb \<Rightarrow> 'd \<Rightarrow> outpoint_key \<Rightarrow> plan \<Rightarrow> wallet_error + spent_output \<times> plan" where
  "remove_spent blake2b lib db key p =
     and_then (raw lib db TRANSPARENT_SPENT_OUTPUT_COLUMN_FAMILY (as_slice key) p) (\<lambda>row.
     and_then (ok_or row (ProjectionTransitionRejected
                 ''wallet spent output is absent while reversing a reorg'')) (\<lambda>encoded.
     and_then (map_err Contract (spent_decode_value key encoded)) (\<lambda>spent.
     and_then (remove_row_after_value_observed blake2b lib db TransparentSpentOutput
                 TRANSPARENT_SPENT_OUTPUT_COLUMN_FAMILY (as_slice key) encoded p) (\<lambda>p.
     Ok (spent, p)))))"

definition insert_address_transaction ::
    "blake2b_fn \<Rightarrow> 'd rocksdb \<Rightarrow> 'd \<Rightarrow> address_transaction \<Rightarrow> plan \<Rightarrow> wallet_error + plan" where
  "insert_address_transaction blake2b lib db e p =
     plan_insert_row blake2b lib db TransparentAddressTransaction
       TRANSPARENT_ADDRESS_TRANSACTION_COLUMN_FAMILY (as_slice (at_key e))
       (as_slice (address_transaction_encode_value e)) p"

definition remove_address_transaction ::
    "blake2b_fn \<Rightarrow> 'd rocksdb \<Rightarrow> 'd \<Rightarrow> address_transaction_key \<Rightarrow> block_id \<Rightarrow> plan \<Rightarrow> wallet_error + plan" where
  "remove_address_transaction blake2b lib db key block p =
     and_then (raw lib db TRANSPARENT_ADDRESS_TRANSACTION_COLUMN_FAMILY (as_slice key) p) (\<lambda>row.
     and_then (ok_or row (ProjectionTransitionRejected ''wallet undo address transaction is absent'')) (\<lambda>encoded.
     and_then (map_err Contract (address_transaction_decode_value key encoded)) (\<lambda>transaction.
     if transaction_key_block_height key \<noteq> id_height block \<or> at_block_hash transaction \<noteq> id_hash block
     then rejected ''wallet undo address transaction belongs to a different block''
     else remove_row_after_value_observed blake2b lib db TransparentAddressTransaction
            TRANSPARENT_ADDRESS_TRANSACTION_COLUMN_FAMILY (as_slice key) encoded p)))"

definition remove_created_outpoint ::
    "blake2b_fn \<Rightarrow> 'd rocksdb \<Rightarrow> 'd \<Rightarrow> network \<Rightarrow> outpoint_key \<Rightarrow> block_id \<Rightarrow> plan \<Rightarrow> wallet_error + plan" where
  "remove_created_outpoint blake2b lib db network key block p =
     and_then (read_unspent lib db key p) (\<lambda>unspent.
     and_then (read_spent lib db key p) (\<lambda>spent.
     case (unspent, spent) of
       (Some u, None) \<Rightarrow>
         if pos_block (uo_created_at u) = block then remove_unspent blake2b lib db network u p
         else rejected ''wallet undo created outpoint does not belong to its block''
     | (None, Some s) \<Rightarrow>
         if pos_block (uo_created_at (so_output s)) = block \<and> pos_block (so_spent_at s) = block
         then and_then (remove_spent blake2b lib db key p) (\<lambda>(_, p). Ok p)
         else rejected ''wallet undo created outpoint does not belong to its block''
     | (Some _, Some _) \<Rightarrow> rejected ''wallet undo finds one created outpoint in both output families''
     | (None, None) \<Rightarrow> rejected ''wallet undo created outpoint is absent from durable rows''))"

definition load_undo ::
    "'d rocksdb \<Rightarrow> 'd \<Rightarrow> block_height \<Rightarrow> plan \<Rightarrow> wallet_error + (reorg_undo \<times> u8 list) option" where
  "load_undo lib db height p =
     and_then (raw lib db REORG_UNDO_COLUMN_FAMILY (to_be_bytes height) p)
       (decode_row (\<lambda>encoded. and_then (undo_decode (to_be_bytes height) encoded) (\<lambda>undo. Ok (undo, encoded))))"

text \<open>The insertion of \<open>retain_undo\<close>.\<close>

definition insert_undo :: "blake2b_fn \<Rightarrow> 'd rocksdb \<Rightarrow> 'd \<Rightarrow> reorg_undo \<Rightarrow> plan \<Rightarrow> wallet_error + plan" where
  "insert_undo blake2b lib db undo p =
     and_then (map_err Contract (undo_encode_value undo)) (\<lambda>encoded.
     plan_insert_row blake2b lib db ReorgUndo REORG_UNDO_COLUMN_FAMILY (as_slice (undo_encode_key undo)) encoded p)"

definition remove_undo ::
    "blake2b_fn \<Rightarrow> 'd rocksdb \<Rightarrow> 'd \<Rightarrow> block_height \<Rightarrow> u8 list \<Rightarrow> plan \<Rightarrow> wallet_error + plan" where
  "remove_undo blake2b lib db height encoded p =
     plan_remove_row blake2b lib db ReorgUndo REORG_UNDO_COLUMN_FAMILY (to_be_bytes height) encoded p"

section \<open>The planner's operations on the block loop\<close>

text \<open>The lookup, removal and insertion that the loop of \<open>apply_block_rows\<close> does for one input.\<close>

definition plan_spend ::
    "blake2b_fn \<Rightarrow> 'd rocksdb \<Rightarrow> 'd \<Rightarrow> network \<Rightarrow> outpoint_key \<Rightarrow> transaction_position \<Rightarrow> u32 \<Rightarrow> plan \<Rightarrow>
       wallet_error + unspent_output \<times> plan" where
  "plan_spend blake2b lib db network key transaction_position input_index p =
     and_then (read_unspent lib db key p) (\<lambda>unspent.
     and_then (case unspent of
                 Some u \<Rightarrow> Ok u
               | None \<Rightarrow>
                   and_then (read_spent lib db key p) (\<lambda>spent.
                   Err (Contract (if spent \<noteq> None then DuplicateSpend else MissingTransparentPredecessor)))) (\<lambda>u.
     and_then (remove_unspent blake2b lib db network u p) (\<lambda>p.
     and_then (insert_spent blake2b lib db
                 \<lparr>so_output = u, so_spent_at = transaction_position, so_input_index = input_index\<rparr> p) (\<lambda>p.
     Ok (u, p)))))"

definition plan_block_ops ::
    "blake2b_fn \<Rightarrow> 'd rocksdb \<Rightarrow> 'd \<Rightarrow> network \<Rightarrow> (plan, wallet_error) block_ops" where
  "plan_block_ops blake2b lib db network =
     \<lparr>ops_contract = Contract, ops_spend = plan_spend blake2b lib db network, ops_contains = plan_contains lib db,
      ops_create = (\<lambda>_. insert_unspent blake2b lib db network),
      ops_record = insert_address_transaction blake2b lib db\<rparr>"

definition plan_ops :: "blake2b_fn \<Rightarrow> 'd rocksdb \<Rightarrow> 'd \<Rightarrow> network \<Rightarrow> plan row_ops" where
  "plan_ops blake2b lib db network =
     \<lparr>ro_block = plan_block_ops blake2b lib db network,
      ro_load_undo = load_undo lib db,
      ro_insert_undo = insert_undo blake2b lib db,
      ro_remove_undo = remove_undo blake2b lib db,
      ro_remove_address_transaction = remove_address_transaction blake2b lib db,
      ro_remove_created = remove_created_outpoint blake2b lib db network,
      ro_remove_spent = remove_spent blake2b lib db,
      ro_insert_unspent = insert_unspent blake2b lib db network,
      ro_undo_count = (\<lambda>p. reorg_undo_count (pl_accumulator_row_counts p))\<rparr>"

end
