(* ===== verification/Event_Transitions.thy ===== *)
theory Event_Transitions
  imports Transition_Planner
begin

text \<open>
  Applying canonical events to the durable wallet store (\<open>zinder-wallet-rocksdb/src/transition.rs\<close>):
  the admission checks on the persisted control record, the validation of one retained event or of a
  retained sequence of events against the wallet's source, planning, and the publication of the plan
  in one write batch together with the next control record.
\<close>

section \<open>The store and its control record\<close>

record 'd wallet_store =
  ws_db :: 'd
  ws_control :: store_control
  ws_ready_evidence :: ready_evidence

definition decode_only_control :: "blake2b_fn \<Rightarrow> 'd rocksdb \<Rightarrow> 'd \<Rightarrow> wallet_error + store_control" where
  "decode_only_control blake2b lib db =
     (case rdb_iterator lib db of
        [] \<Rightarrow> Err StoreControlMissing
      | first # rest \<Rightarrow>
          and_then (map_err (RocksDbOperation ''control scan'') first) (\<lambda>(key, encoded).
          if key \<noteq> WALLET_STORE_CONTROL_KEY \<or> rest \<noteq> [] then Err StoreControlCardinalityMismatch
          else map_err Contract (control_decode blake2b encoded)))"

definition require_current_ready_control :: "blake2b_fn \<Rightarrow> 'd rocksdb \<Rightarrow> 'd wallet_store \<Rightarrow> wallet_error + unit" where
  "require_current_ready_control blake2b lib s =
     and_then (decode_only_control blake2b lib (ws_db s)) (\<lambda>persisted.
     if persisted \<noteq> ws_control s
     then Err (AdmissionChanged ''wallet control changed since READY admission'')
     else case sc_build_state persisted of
       Building _ \<Rightarrow> Err (AdmissionChanged ''wallet transition requires an admitted READY control'')
     | Ready evidence \<Rightarrow>
         if evidence \<noteq> ws_ready_evidence s
         then Err (AdmissionChanged ''wallet READY evidence changed since admission'')
         else Ok ())"

section \<open>Validation of events\<close>

definition validate_event_fences ::
    "canonical_source_identity \<Rightarrow> retained_event \<Rightarrow> event_fence \<Rightarrow> wallet_error + unit" where
  "validate_event_fences expected_source event resulting =
     (let expected = si_source_position expected_source in
      if ev_resulting_fence event \<noteq> resulting
      then rejected ''retained event fence differs from the requested resulting canonical fence''
      else if ev_previous_epoch_id event \<noteq> Some (sp_chain_epoch_id expected)
      then rejected ''retained event does not name the wallet source epoch as its predecessor''
      else if ev_resulting_epoch_id event \<noteq> fence_chain_epoch_id resulting \<or>
              cursor_event_sequence (ev_cursor event) \<noteq> fence_chain_event_sequence resulting
      then rejected ''retained event cursor or epoch differs from the resulting canonical fence''
      else
        and_then (ok_or (checked_add (sp_event_sequence expected) 1) ProjectionTransitionGenerationOverflow)
          (\<lambda>expected_sequence.
        if fence_chain_event_sequence resulting \<noteq> expected_sequence
        then rejected ''retained event does not immediately follow the wallet source cursor''
        else Ok ()))"

definition validate_resulting_settled_tip :: "block_id \<Rightarrow> block_id \<Rightarrow> block_id \<Rightarrow> wallet_error + unit" where
  "validate_resulting_settled_tip previous_settled_tip resulting_settled_tip resulting_visible_tip =
     (if id_height resulting_settled_tip < id_height previous_settled_tip \<or>
         id_height resulting_settled_tip > id_height resulting_visible_tip \<or>
         (id_height resulting_settled_tip = id_height previous_settled_tip \<and>
          id_hash resulting_settled_tip \<noteq> id_hash previous_settled_tip) \<or>
         (id_height resulting_settled_tip = id_height resulting_visible_tip \<and>
          id_hash resulting_settled_tip \<noteq> id_hash resulting_visible_tip)
      then rejected ''resulting canonical settled tip is not a monotonic ancestor of the resulting visible tip''
      else Ok ())"

definition validate_committed_event_shape ::
    "'s transition_state \<Rightarrow> retained_event \<Rightarrow> event_fence \<Rightarrow> wallet_error + unit" where
  "validate_committed_event_shape st event resulting =
     (if ev_reverted_range event \<noteq> None
      then rejected ''committed event unexpectedly carries a reverted range''
      else
        let rng = ev_committed_range event in
        if range_start rng > range_end rng then
          if fence_visible_tip resulting \<noteq> ts_current_tip st \<or>
             fence_sequence_digest resulting \<noteq> ts_source_sequence_digest st
          then rejected ''empty committed event changes wallet block state''
          else Ok ()
        else
          and_then (ok_or (block_height_next (id_height (ts_current_tip st)))
                      (ProjectionTransitionRejected ''wallet tip cannot be extended beyond the height domain''))
            (\<lambda>expected_start.
          if range_start rng \<noteq> expected_start \<or> range_end rng \<noteq> id_height (fence_visible_tip resulting)
          then rejected ''committed range is not the exact append from the wallet tip''
          else Ok ()))"

definition validate_reorg_event_shape ::
    "u32 \<Rightarrow> 's transition_state \<Rightarrow> retained_event \<Rightarrow> event_fence \<Rightarrow> block_height_range \<Rightarrow> wallet_error + unit" where
  "validate_reorg_event_shape supported_reorg_depth st event resulting reverted =
     (if range_start reverted > range_end reverted \<or>
         range_end reverted \<noteq> id_height (ts_current_tip st) \<or>
         range_start (ev_committed_range event) \<noteq> range_start reverted \<or>
         range_start (ev_committed_range event) > range_end (ev_committed_range event) \<or>
         range_end (ev_committed_range event) \<noteq> id_height (fence_visible_tip resulting)
      then rejected ''reorg ranges do not exactly replace the wallet tip suffix''
      else
        and_then (ok_or (case checked_sub (range_end reverted) (range_start reverted) of
                           None \<Rightarrow> None | Some distance \<Rightarrow> checked_add distance 1)
                    (ProjectionTransitionRejected ''reorg range has no positive bounded depth'')) (\<lambda>depth.
        if depth > supported_reorg_depth
        then rebuild_required ''requested canonical reorg exceeds the wallet's retained undo capacity''
        else Ok ()))"

text \<open>The shape of one event of a retained sequence, against the tip and digest before it.\<close>

definition validate_reconciliation_event_shape ::
    "retained_event \<Rightarrow> block_id \<Rightarrow> sequence_digest \<Rightarrow> wallet_error + unit" where
  "validate_reconciliation_event_shape event previous_tip previous_digest =
     (let resulting = ev_resulting_fence event; committed = ev_committed_range event in
      and_then (validate_event_range committed True) (\<lambda>_.
      case ev_kind event of
        Committed \<Rightarrow>
          if ev_reverted_range event \<noteq> None
          then rejected ''committed reconciliation event unexpectedly carries a reverted range''
          else if range_is_anchored_empty committed then
            if fence_visible_tip resulting \<noteq> previous_tip \<or> fence_sequence_digest resulting \<noteq> previous_digest
            then rejected ''empty committed reconciliation event changes canonical block state''
            else Ok ()
          else
            and_then (ok_or (block_height_next (id_height previous_tip))
                        (ProjectionTransitionRejected
                           ''retained committed event extends beyond the height domain'')) (\<lambda>expected_start.
            if range_start committed \<noteq> expected_start \<or> range_end committed \<noteq> id_height (fence_visible_tip resulting)
            then rejected ''committed reconciliation event is not an exact append from its predecessor tip''
            else Ok ())
      | Reorged \<Rightarrow>
          and_then (ok_or (ev_reverted_range event)
                      (ProjectionTransitionRejected
                         ''reorg reconciliation event lacks a reverted canonical range'')) (\<lambda>reverted.
          and_then (validate_event_range reverted False) (\<lambda>_.
          if range_end reverted \<noteq> id_height previous_tip \<or>
             range_start committed \<noteq> range_start reverted \<or>
             range_end committed \<noteq> id_height (fence_visible_tip resulting)
          then rejected ''reorg reconciliation event does not exactly replace its predecessor suffix''
          else Ok ()))))"

text \<open>The variables of the loop over the retained events: epoch, sequence, tip and digest.\<close>

definition validate_reconciliation_event ::
    "retained_event \<Rightarrow> chain_epoch_id \<times> u64 \<times> block_id \<times> sequence_digest \<Rightarrow>
       wallet_error + chain_epoch_id \<times> u64 \<times> block_id \<times> sequence_digest" where
  "validate_reconciliation_event event = (\<lambda>(previous_epoch, previous_sequence, previous_tip, previous_digest).
     and_then (ok_or (checked_add previous_sequence 1) ProjectionTransitionGenerationOverflow) (\<lambda>expected_sequence.
     let resulting = ev_resulting_fence event in
     if cursor_event_sequence (ev_cursor event) \<noteq> expected_sequence \<or>
        fence_chain_event_sequence resulting \<noteq> expected_sequence \<or>
        ev_resulting_epoch_id event \<noteq> fence_chain_epoch_id resulting
     then rejected ''retained reconciliation event cursor or epoch is not contiguous''
     else if ev_previous_epoch_id event \<noteq> Some previous_epoch
     then rejected ''retained reconciliation event does not name its immediate predecessor epoch''
     else
       and_then (validate_reconciliation_event_shape event previous_tip previous_digest) (\<lambda>_.
       Ok (fence_chain_epoch_id resulting, fence_chain_event_sequence resulting,
           fence_visible_tip resulting, fence_sequence_digest resulting))))"

definition validate_reconciliation_event_sequence ::
    "canonical_source_identity \<Rightarrow> retained_event list \<Rightarrow> event_fence \<Rightarrow> wallet_error + unit" where
  "validate_reconciliation_event_sequence expected_source retained_events target_fence =
     and_then (ok_or (case retained_events of [] \<Rightarrow> None | e # _ \<Rightarrow> Some e)
                 (ProjectionTransitionRejected ''reconciliation requires at least one retained event'')) (\<lambda>first.
     let source_position = si_source_position expected_source in
     if ev_previous_epoch_id first \<noteq> Some (sp_chain_epoch_id source_position)
     then rejected ''first retained event does not name the persisted wallet epoch as its predecessor''
     else
       and_then (try_fold validate_reconciliation_event retained_events
                   (sp_chain_epoch_id source_position, sp_event_sequence source_position, sp_tip source_position,
                    si_source_sequence_digest expected_source)) (\<lambda>_.
       if ev_resulting_fence (last retained_events) \<noteq> target_fence
       then rejected ''retained reconciliation sequence does not end at the requested target fence''
       else Ok ()))"

definition validate_reconciliation_rollback_range ::
    "u32 \<Rightarrow> 's transition_state \<Rightarrow> block_height_range \<Rightarrow> wallet_error + unit" where
  "validate_reconciliation_rollback_range supported_reorg_depth st rng =
     and_then (validate_event_range rng False) (\<lambda>_.
     if range_end rng \<noteq> id_height (ts_current_tip st)
     then rejected ''reconciliation rollback is not the exact persisted wallet tip suffix''
     else
       and_then (inclusive_range_len rng) (\<lambda>rollback_count.
       if rollback_count > ucast supported_reorg_depth
       then rebuild_required ''requested reconciliation rollback exceeds the wallet's retained undo capacity''
       else Ok ()))"

definition replay_range_from_ancestor :: "block_id \<Rightarrow> event_fence \<Rightarrow> wallet_error + block_height_range" where
  "replay_range_from_ancestor ancestor target_fence =
     (let target_tip = fence_visible_tip target_fence in
      if id_height target_tip < id_height ancestor
      then rejected ''reconciliation target precedes the verified common ancestor''
      else if id_height target_tip = id_height ancestor then Ok (empty_at (id_height ancestor))
      else
        and_then (ok_or (block_height_next (id_height ancestor))
                    (ProjectionTransitionRejected ''reconciliation replay starts beyond the height domain'')) (\<lambda>start.
        Ok (inclusive start (id_height target_tip))))"

section \<open>Planning\<close>

definition planner_new :: "'d wallet_store \<Rightarrow> u64 \<Rightarrow> plan transition_state" where
  "planner_new s max_logical_bytes =
     (let evidence = ws_ready_evidence s in
      \<lparr>ts_rows =
         \<lparr>pl_batch = [], pl_overlay = fmempty, pl_logical_bytes = accounting_new max_logical_bytes,
          pl_accumulator = \<lparr>db_accumulator = re_projection_accumulator evidence, db_row_counts = re_row_counts evidence\<rparr>,
          pl_accumulator_row_counts = re_row_counts evidence,
          pl_utxo_summary = re_utxo_summary evidence\<rparr>,
       ts_current_tip = sp_tip (re_source_position evidence),
       ts_settled_tip = re_settled_tip evidence,
       ts_source_sequence_digest = re_source_sequence_digest evidence\<rparr>)"

definition into_publication ::
    "blake2b_fn \<Rightarrow> source_position \<Rightarrow> plan transition_state \<Rightarrow>
       batch_op list \<times> ready_evidence \<times> logical_byte_accounting" where
  "into_publication blake2b source_position st =
     (let p = ts_rows st; projection_accumulator = db_accumulator (pl_accumulator p) in
      (pl_batch p,
       \<lparr>re_source_position = source_position,
        re_source_sequence_digest = ts_source_sequence_digest st,
        re_settled_tip = ts_settled_tip st,
        re_projection_digest = accumulator_display_digest blake2b projection_accumulator,
        re_projection_accumulator = projection_accumulator,
        re_row_counts = pl_accumulator_row_counts p,
        re_utxo_summary = pl_utxo_summary p\<rparr>,
       pl_logical_bytes p))"

text \<open>The end of both transitions, from the replayed rows to the source position to publish.\<close>

definition finish_plan ::
    "blake2b_fn \<Rightarrow> sha256_fn \<Rightarrow> 'd rocksdb \<Rightarrow> 'd wallet_store \<Rightarrow> block_height_range \<Rightarrow>
       (canonical_store_error + validated_block_replay) list \<Rightarrow> string \<Rightarrow> string \<Rightarrow> event_fence \<Rightarrow> block_id \<Rightarrow>
       plan transition_state \<Rightarrow> wallet_error + plan transition_state" where
  "finish_plan blake2b sha256 lib s rng replay_rows tip_reason digest_reason fence settled_tip st =
     (let ops = plan_ops blake2b lib (ws_db s) (sc_network (ws_control s)) in
      and_then (apply_replay_range sha256 ops rng replay_rows st) (\<lambda>st.
      if ts_current_tip st \<noteq> fence_visible_tip fence then rejected tip_reason
      else if ts_source_sequence_digest st \<noteq> fence_sequence_digest fence then rejected digest_reason
      else
        and_then (advance_settled_tip ops settled_tip st) (\<lambda>st.
        and_then (require_publishable_undo_suffix ops (sc_supported_reorg_depth (ws_control s)) st) (\<lambda>_.
        Ok st))))"

definition publication_position :: "event_fence \<Rightarrow> retained_event \<Rightarrow> wallet_error + source_position" where
  "publication_position fence event =
     map_err Contract
       (and_then (cursor_from_bytes (ev_cursor event)) (\<lambda>event_cursor.
        with_event_cursor (fence_chain_epoch_id fence) (fence_visible_tip fence)
          (fence_chain_event_sequence fence) event_cursor))"

section \<open>Publication\<close>

definition publish_planned_transition ::
    "blake2b_fn \<Rightarrow> 'd rocksdb \<Rightarrow> batch_op list \<Rightarrow> ready_evidence \<Rightarrow> logical_byte_accounting \<Rightarrow> bool \<Rightarrow>
       'd wallet_store \<Rightarrow> (wallet_error + unit) \<times> 'd wallet_store" where
  "publish_planned_transition blake2b lib batch evidence logical_bytes cancelled_before_write s =
     (case
        and_then (ok_or (checked_add (sc_writer_generation (ws_control s)) 1) ProjectionTransitionGenerationOverflow)
          (\<lambda>writer_generation.
        let next_control =
              \<lparr>sc_network = sc_network (ws_control s),
               sc_supported_reorg_depth = sc_supported_reorg_depth (ws_control s),
               sc_writer_generation = writer_generation, sc_build_lease = None,
               sc_build_state = Ready evidence\<rparr> in
        and_then (map_err Contract (control_encode blake2b next_control)) (\<lambda>encoded_control.
        and_then (reserve_control WALLET_STORE_CONTROL_KEY encoded_control logical_bytes) (\<lambda>_.
        and_then (require_current_ready_control blake2b lib s) (\<lambda>_.
        if cancelled_before_write then Err ProjectionTransitionCancelled
        else Ok (next_control, encoded_control)))))
      of
        Inl e \<Rightarrow> (Err e, s)
      | Inr (next_control, encoded_control) \<Rightarrow>
          (case rdb_write_opt lib (batch @ [Put WALLET_STORE_CONTROL_KEY encoded_control]) (ws_db s) of
             (Inl e, db) \<Rightarrow> (Err (RocksDbOperation ''atomic wallet projection transition'' e), s\<lparr>ws_db := db\<rparr>)
           | (Inr _, db) \<Rightarrow>
               let s = s\<lparr>ws_db := db, ws_control := next_control, ws_ready_evidence := evidence\<rparr> in
               (and_then (decode_only_control blake2b lib db) (\<lambda>persisted.
                if persisted \<noteq> ws_control s
                then Err (AdmissionChanged ''READY control differs after atomic wallet transition'')
                else Ok ()), s)))"

section \<open>The two transitions\<close>

definition plan_canonical_event_range ::
    "blake2b_fn \<Rightarrow> sha256_fn \<Rightarrow> 'd rocksdb \<Rightarrow> canonical_source_identity \<Rightarrow> retained_event \<Rightarrow> event_fence \<Rightarrow>
       block_id \<Rightarrow> u64 \<Rightarrow> (canonical_store_error + validated_block_replay) list \<Rightarrow> 'd wallet_store \<Rightarrow>
       wallet_error + plan transition_state \<times> source_position" where
  "plan_canonical_event_range blake2b sha256 lib expected_source event resulting_fence resulting_settled_tip
       max_logical_bytes replay_rows s =
     and_then (require_current_ready_control blake2b lib s) (\<lambda>_.
     and_then (validate_transition_logical_byte_limit max_logical_bytes) (\<lambda>max_logical_bytes.
     let observed_source = source_identity_from_ready_evidence (ws_ready_evidence s) in
     if observed_source \<noteq> expected_source then Err (CanonicalSourceMismatch expected_source observed_source)
     else
       and_then (validate_event_fences expected_source event resulting_fence) (\<lambda>_.
       and_then (validate_resulting_settled_tip (si_settled_tip expected_source) resulting_settled_tip
                   (fence_visible_tip resulting_fence)) (\<lambda>_.
       let planner = planner_new s max_logical_bytes;
           ops = plan_ops blake2b lib (ws_db s) (sc_network (ws_control s)) in
       and_then
         (case ev_kind event of
            Committed \<Rightarrow>
              and_then (validate_committed_event_shape planner event resulting_fence) (\<lambda>_. Ok planner)
          | Reorged \<Rightarrow>
              and_then (ok_or (ev_reverted_range event)
                          (ProjectionTransitionRejected ''reorg event lacks a reverted canonical range'')) (\<lambda>reverted.
              and_then (validate_reorg_event_shape (sc_supported_reorg_depth (ws_control s)) planner event
                          resulting_fence reverted) (\<lambda>_.
              rollback_range ops reverted planner))) (\<lambda>planner.
       and_then (finish_plan blake2b sha256 lib s (ev_committed_range event) replay_rows
                   ''applied replay tip differs from the resulting canonical fence''
                   ''applied replay digest differs from the resulting canonical fence''
                   resulting_fence resulting_settled_tip planner) (\<lambda>planner.
       and_then (publication_position resulting_fence event) (\<lambda>source_position.
       Ok (planner, source_position))))))))"

definition apply_canonical_event_range_cancellable ::
    "blake2b_fn \<Rightarrow> sha256_fn \<Rightarrow> 'd rocksdb \<Rightarrow> canonical_source_identity \<Rightarrow> retained_event \<Rightarrow> event_fence \<Rightarrow>
       block_id \<Rightarrow> u64 \<Rightarrow> (canonical_store_error + validated_block_replay) list \<Rightarrow> bool \<Rightarrow> 'd wallet_store \<Rightarrow>
       (wallet_error + unit) \<times> 'd wallet_store" where
  "apply_canonical_event_range_cancellable blake2b sha256 lib expected_source event resulting_fence
       resulting_settled_tip max_logical_bytes replay_rows cancelled_before_write s =
     (case plan_canonical_event_range blake2b sha256 lib expected_source event resulting_fence resulting_settled_tip
             max_logical_bytes replay_rows s of
        Inl e \<Rightarrow> (Err e, s)
      | Inr (planner, source_position) \<Rightarrow>
          (case into_publication blake2b source_position planner of (batch, evidence, logical_bytes) \<Rightarrow>
             publish_planned_transition blake2b lib batch evidence logical_bytes cancelled_before_write s))"

definition apply_canonical_event_range ::
    "blake2b_fn \<Rightarrow> sha256_fn \<Rightarrow> 'd rocksdb \<Rightarrow> canonical_source_identity \<Rightarrow> retained_event \<Rightarrow> event_fence \<Rightarrow>
       block_id \<Rightarrow> u64 \<Rightarrow> (canonical_store_error + validated_block_replay) list \<Rightarrow> 'd wallet_store \<Rightarrow>
       (wallet_error + unit) \<times> 'd wallet_store" where
  "apply_canonical_event_range blake2b sha256 lib expected_source event resulting_fence resulting_settled_tip
       max_logical_bytes replay_rows s =
     apply_canonical_event_range_cancellable blake2b sha256 lib expected_source event resulting_fence
       resulting_settled_tip max_logical_bytes replay_rows False s"

definition plan_canonical_event_sequence ::
    "blake2b_fn \<Rightarrow> sha256_fn \<Rightarrow> 'd rocksdb \<Rightarrow> canonical_source_identity \<Rightarrow> retained_event list \<Rightarrow> event_fence \<Rightarrow>
       block_id \<Rightarrow> block_height_range option \<Rightarrow> block_height_range \<Rightarrow> u64 \<Rightarrow>
       (canonical_store_error + validated_block_replay) list \<Rightarrow> 'd wallet_store \<Rightarrow>
       wallet_error + plan transition_state \<times> source_position" where
  "plan_canonical_event_sequence blake2b sha256 lib expected_source retained_events target_fence target_settled_tip
       rollback replay_range max_logical_bytes replay_rows s =
     and_then (require_current_ready_control blake2b lib s) (\<lambda>_.
     and_then (validate_transition_logical_byte_limit max_logical_bytes) (\<lambda>max_logical_bytes.
     let observed_source = source_identity_from_ready_evidence (ws_ready_evidence s) in
     if observed_source \<noteq> expected_source then Err (CanonicalSourceMismatch expected_source observed_source)
     else
       and_then (validate_reconciliation_event_sequence expected_source retained_events target_fence) (\<lambda>_.
       and_then (validate_resulting_settled_tip (si_settled_tip expected_source) target_settled_tip
                   (fence_visible_tip target_fence)) (\<lambda>_.
       let planner = planner_new s max_logical_bytes;
           ops = plan_ops blake2b lib (ws_db s) (sc_network (ws_control s)) in
       and_then
         (case rollback of
            None \<Rightarrow> Ok planner
          | Some rng \<Rightarrow>
              and_then (validate_reconciliation_rollback_range (sc_supported_reorg_depth (ws_control s)) planner rng)
                (\<lambda>_. rollback_range ops rng planner)) (\<lambda>planner.
       and_then (replay_range_from_ancestor (ts_current_tip planner) target_fence) (\<lambda>expected_replay_range.
       if replay_range \<noteq> expected_replay_range
       then rejected ''current canonical replay range is not the exact suffix from the verified ancestor''
       else
         and_then (validate_incremental_replay_range replay_range) (\<lambda>_.
         and_then (finish_plan blake2b sha256 lib s replay_range replay_rows
                     ''reconciled replay tip differs from the target canonical fence''
                     ''reconciled replay digest differs from the target canonical fence''
                     target_fence target_settled_tip planner) (\<lambda>planner.
         and_then (ok_or (if retained_events = [] then None else Some (last retained_events))
                     (ProjectionTransitionRejected ''reconciliation requires at least one retained event''))
           (\<lambda>final_event.
         and_then (publication_position target_fence final_event) (\<lambda>source_position.
         Ok (planner, source_position))))))))))) "

definition reconcile_canonical_event_sequence_cancellable ::
    "blake2b_fn \<Rightarrow> sha256_fn \<Rightarrow> 'd rocksdb \<Rightarrow> canonical_source_identity \<Rightarrow> retained_event list \<Rightarrow> event_fence \<Rightarrow>
       block_id \<Rightarrow> block_height_range option \<Rightarrow> block_height_range \<Rightarrow> u64 \<Rightarrow>
       (canonical_store_error + validated_block_replay) list \<Rightarrow> bool \<Rightarrow> 'd wallet_store \<Rightarrow>
       (wallet_error + unit) \<times> 'd wallet_store" where
  "reconcile_canonical_event_sequence_cancellable blake2b sha256 lib expected_source retained_events target_fence
       target_settled_tip rollback replay_range max_logical_bytes replay_rows cancelled_before_write s =
     (case plan_canonical_event_sequence blake2b sha256 lib expected_source retained_events target_fence
             target_settled_tip rollback replay_range max_logical_bytes replay_rows s of
        Inl e \<Rightarrow> (Err e, s)
      | Inr (planner, source_position) \<Rightarrow>
          (case into_publication blake2b source_position planner of (batch, evidence, logical_bytes) \<Rightarrow>
             publish_planned_transition blake2b lib batch evidence logical_bytes cancelled_before_write s))"

definition reconcile_canonical_event_sequence ::
    "blake2b_fn \<Rightarrow> sha256_fn \<Rightarrow> 'd rocksdb \<Rightarrow> canonical_source_identity \<Rightarrow> retained_event list \<Rightarrow> event_fence \<Rightarrow>
       block_id \<Rightarrow> block_height_range option \<Rightarrow> block_height_range \<Rightarrow> u64 \<Rightarrow>
       (canonical_store_error + validated_block_replay) list \<Rightarrow> 'd wallet_store \<Rightarrow>
       (wallet_error + unit) \<times> 'd wallet_store" where
  "reconcile_canonical_event_sequence blake2b sha256 lib expected_source retained_events target_fence
       target_settled_tip rollback replay_range max_logical_bytes replay_rows s =
     reconcile_canonical_event_sequence_cancellable blake2b sha256 lib expected_source retained_events target_fence
       target_settled_tip rollback replay_range max_logical_bytes replay_rows False s"

end
