(* ===== verification/Planner_Rows.thy ===== *)
theory Planner_Rows
  imports Transition_Planner
begin

text \<open>
  The transition planner as a table of rows. A plan over a database stands for the table that the
  overlay shows over the stored rows; its accumulator and row counts are those of the table, and its
  write batch turns the stored rows into the table. Every row operation of the planner is the
  corresponding update of the table, or fails for lack of a resource.
\<close>

section \<open>What the planner relies on in the database\<close>

type_synonym stored_rows = "string \<Rightarrow> u8 list \<Rightarrow> u8 list option"

fun apply_op :: "batch_op \<Rightarrow> stored_rows \<Rightarrow> stored_rows" where
  "apply_op (PutCf cf k v) st = st(cf := (st cf)(k \<mapsto> v))"
| "apply_op (DeleteCf cf k) st = st(cf := (st cf)(k := None))"
| "apply_op (Put k v) st = st"

text \<open>A point read that succeeds returns the stored row.\<close>

definition reads_stored :: "'d rocksdb \<Rightarrow> 'd \<Rightarrow> stored_rows \<Rightarrow> bool" where
  "reads_stored lib db st \<longleftrightarrow> (\<forall>cf k v. rdb_get_cf lib db cf k = Inr v \<longrightarrow> v = st cf k)"

fun resource_error :: "wallet_error \<Rightarrow> bool" where
  "resource_error (ColumnFamilyUnavailable _) \<longleftrightarrow> True"
| "resource_error (RocksDbOperation _ _) \<longleftrightarrow> True"
| "resource_error (TransitionLogicalByteLimit _ _) \<longleftrightarrow> True"
| "resource_error TransitionLogicalByteAccountingOverflow \<longleftrightarrow> True"
| "resource_error (Contract e) \<longleftrightarrow> (case e of FieldTooLong _ \<Rightarrow> True | ProjectionDigestRowCountOverflow \<Rightarrow> True | _ \<Rightarrow> False)"
| "resource_error _ \<longleftrightarrow> False"

section \<open>Byte accounting\<close>

definition entry_size :: "u8 list \<Rightarrow> u8 list option \<Rightarrow> nat" where
  "entry_size k v = length k + (case v of None \<Rightarrow> 0 | Some bs \<Rightarrow> length bs)"

fun op_size :: "batch_op \<Rightarrow> nat" where
  "op_size (PutCf cf k v) = entry_size k (Some v)"
| "op_size (DeleteCf cf k) = entry_size k None"
| "op_size (Put k v) = entry_size k (Some v)"

definition overlay_size :: "(string \<times> u8 list, u8 list option) fmap \<Rightarrow> nat" where
  "overlay_size overlay = fm_sum (\<lambda>(cf, k) v. entry_size k v) overlay"

text \<open>The two counters are the sizes of the batch and of the overlay, and their sum is within the limit.\<close>

definition accounted :: "plan \<Rightarrow> bool" where
  "accounted p \<longleftrightarrow>
     unat (lb_batch (pl_logical_bytes p)) = sum_list (map op_size (pl_batch p)) \<and>
     unat (lb_overlay (pl_logical_bytes p)) = overlay_size (pl_overlay p) \<and>
     unat (lb_batch (pl_logical_bytes p)) + unat (lb_overlay (pl_logical_bytes p)) \<le> unat (lb_limit (pl_logical_bytes p))"

lemma logical_entry_bytes_Ok_iff: "logical_entry_bytes k v = Inr n \<longleftrightarrow> unat n = entry_size k v"
proof -
  have of_nat: "of_nat m = (n :: u64) \<longleftrightarrow> unat n = m" if "m < 2 ^ 64" for m
    using that by (auto simp: unat_of_nat take_bit_nat_eq_self)
  have "unat n < 2 ^ 64" using unsigned_less [of n, where ?'a = nat] by simp
  then show ?thesis
    by (auto simp: logical_entry_bytes_def u64_try_from_usize_def checked_transition_bytes_def and_then_Ok_iff
        checked_add_Some_iff entry_size_def unat_of_nat take_bit_nat_eq_self split: option.splits if_splits)
qed

lemma logical_entry_bytes_Err: "logical_entry_bytes k v = Inl e \<Longrightarrow> e = TransitionLogicalByteAccountingOverflow"
  by (auto simp: logical_entry_bytes_def u64_try_from_usize_def checked_transition_bytes_def and_then_Err_iff
      ok_or_def split: option.splits if_splits)

lemma checked_transition_bytes_Err:
  "checked_transition_bytes a b = Inl e \<Longrightarrow> e = TransitionLogicalByteAccountingOverflow"
  by (simp add: checked_transition_bytes_def ok_or_def split: option.splits)

lemma ensure_within_limit_Err: "ensure_within_limit b l a = Inl e \<Longrightarrow> resource_error e"
  by (auto simp: ensure_within_limit_def and_then_Err_iff dest: checked_transition_bytes_Err split: if_splits)

lemma reserve_Err:
  "reserve_batch_and_replace_overlay k n prev next a = Inl e \<Longrightarrow> resource_error e"
  unfolding reserve_batch_and_replace_overlay_def and_then_Err_iff
  by (auto dest!: logical_entry_bytes_Err checked_transition_bytes_Err ensure_within_limit_Err
      split: option.splits simp: ok_or_def)

lemma reserve_Ok:
  assumes "reserve_batch_and_replace_overlay k n prev next a = Inr a'"
  shows "lb_limit a' = lb_limit a" "unat (lb_batch a') = unat (lb_batch a) + unat n"
    "unat (lb_overlay a') + (case prev of None \<Rightarrow> 0 | Some v \<Rightarrow> entry_size k v) = unat (lb_overlay a) + entry_size k next"
    "unat (lb_batch a') + unat (lb_overlay a') \<le> unat (lb_limit a)"
  using assms
  by (auto simp: reserve_batch_and_replace_overlay_def ensure_within_limit_def checked_transition_bytes_def
      and_then_Ok_iff checked_add_Some_iff checked_sub_Some_iff logical_entry_bytes_Ok_iff word_less_nat_alt
      split: option.splits if_splits)

section \<open>Plans as tables\<close>

type_synonym table = "(row_family \<times> u8 list, u8 list) fmap"

fun family_column :: "row_family \<Rightarrow> string" where
  "family_column TransparentUnspentOutput = TRANSPARENT_UNSPENT_OUTPUT_COLUMN_FAMILY"
| "family_column TransparentUnspentOutputByAddress = TRANSPARENT_UNSPENT_OUTPUT_BY_ADDRESS_COLUMN_FAMILY"
| "family_column TransparentSpentOutput = TRANSPARENT_SPENT_OUTPUT_COLUMN_FAMILY"
| "family_column TransparentAddressTransaction = TRANSPARENT_ADDRESS_TRANSACTION_COLUMN_FAMILY"
| "family_column TransparentAddressBalance = TRANSPARENT_ADDRESS_BALANCE_COLUMN_FAMILY"
| "family_column ReorgUndo = REORG_UNDO_COLUMN_FAMILY"

lemma family_column_inject [simp]: "family_column f = family_column g \<longleftrightarrow> f = g"
  by (cases f; cases g) (simp_all add: column_family_defs)

definition plan_view :: "stored_rows \<Rightarrow> plan \<Rightarrow> stored_rows" where
  "plan_view st p cf k = (case fmlookup (pl_overlay p) (cf, k) of Some v \<Rightarrow> v | None \<Rightarrow> st cf k)"

definition table_lanes :: "blake2b_fn \<Rightarrow> table \<Rightarrow> lane_vec" where
  "table_lanes blake2b rows = fm_sum (\<lambda>(f, k) v. row_lanes blake2b (f, k, v)) rows"

definition family_size :: "row_family \<Rightarrow> table \<Rightarrow> nat" where
  "family_size g rows = fm_sum (\<lambda>(f, k) v. if g = f then 1 else 0) rows"

definition digests :: "blake2b_fn \<Rightarrow> table \<Rightarrow> projection_accumulator \<Rightarrow> family_row_counts \<Rightarrow> bool" where
  "digests blake2b rows acc counts \<longleftrightarrow>
     lanes_of acc = table_lanes blake2b rows \<and> (\<forall>f. unat (row_count f counts) = family_size f rows)"

definition shows_table :: "stored_rows \<Rightarrow> table \<Rightarrow> bool" where
  "shows_table st rows \<longleftrightarrow> (\<forall>f k. st (family_column f) k = fmlookup rows (f, k))"

definition plans ::
    "blake2b_fn \<Rightarrow> u64 \<Rightarrow> stored_rows \<Rightarrow> utxo_set_summary \<Rightarrow> table \<Rightarrow> plan \<Rightarrow> bool" where
  "plans blake2b lim st summary rows p \<longleftrightarrow>
     shows_table (plan_view st p) rows \<and> fold apply_op (pl_batch p) st = plan_view st p \<and>
     digests blake2b rows (db_accumulator (pl_accumulator p)) (db_row_counts (pl_accumulator p)) \<and>
     pl_accumulator_row_counts p = db_row_counts (pl_accumulator p) \<and>
     pl_utxo_summary p = summary \<and> accounted p \<and> lb_limit (pl_logical_bytes p) = lim"

lemma raw_sim:
  assumes "reads_stored lib db st" and "plans blake2b lim st summary rows p"
  shows "sim resource_error E (=) (Ok (fmlookup rows (f, k))) (raw lib db (family_column f) k p)"
proof -
  have view: "plan_view st p (family_column f) k = fmlookup rows (f, k)"
    using assms(2) by (simp add: plans_def shows_table_def)
  show ?thesis
    using view assms(1)
    by (cases "fmlookup (pl_overlay p) (family_column f, k)"; cases "rdb_get_cf lib db (family_column f) k")
      (auto simp: raw_def column_family_def reads_stored_def plan_view_def)
qed

lemma append_row_Err: "append_row blake2b f k v b = Inl e \<Longrightarrow> resource_error (Contract e)"
  by (auto simp: append_row_def row_preimage_def encoded_len_def and_then_Err_iff ok_or_def
      split: option.splits if_splits)

lemma table_upd_fresh:
  assumes "fmlookup rows (f, k) = None"
  shows "table_lanes blake2b (fmupd (f, k) v rows) = row_lanes blake2b (f, k, v) + table_lanes blake2b rows"
    and "family_size g (fmupd (f, k) v rows) = (if g = f then 1 else 0) + family_size g rows"
  by (simp_all add: table_lanes_def family_size_def fm_sum_upd_fresh [OF assms])

lemma table_drop:
  assumes "fmlookup rows (f, k) = Some v"
  shows "table_lanes blake2b rows = row_lanes blake2b (f, k, v) + table_lanes blake2b (fmdrop (f, k) rows)"
    and "family_size g rows = (if g = f then 1 else 0) + family_size g (fmdrop (f, k) rows)"
  unfolding table_lanes_def family_size_def by (subst fm_sum_drop [OF assms], simp)+

lemma overlay_size_upd:
  "overlay_size (fmupd (cf, k) v overlay) + (case fmlookup overlay (cf, k) of None \<Rightarrow> 0 | Some w \<Rightarrow> entry_size k w) =
   overlay_size overlay + entry_size k v"
proof (cases "fmlookup overlay (cf, k)")
  case None
  then show ?thesis by (simp add: overlay_size_def fm_sum_upd_fresh)
next
  case (Some w)
  have "fmupd (cf, k) v overlay = fmupd (cf, k) v (fmdrop (cf, k) overlay)" by (intro fmap_ext) auto
  then show ?thesis
    using Some fm_sum_drop [OF Some, of "\<lambda>(cf, k) v. entry_size k v"]
    by (simp add: overlay_size_def fm_sum_upd_fresh)
qed

text \<open>Writing one entry of the overlay.\<close>

lemma put_raw_Ok:
  assumes "put_raw lib db cf k v p = Inr p'" and "accounted p" and "fold apply_op (pl_batch p) st = plan_view st p"
  shows "plan_view st p' = (plan_view st p)(cf := (plan_view st p cf)(k \<mapsto> v))"
    "fold apply_op (pl_batch p') st = plan_view st p'" "accounted p'"
    "pl_accumulator p' = pl_accumulator p" "pl_accumulator_row_counts p' = pl_accumulator_row_counts p"
    "pl_utxo_summary p' = pl_utxo_summary p" "lb_limit (pl_logical_bytes p') = lb_limit (pl_logical_bytes p)"
proof -
  obtain n a where a: "reserve_batch_and_replace_overlay k n (fmlookup (pl_overlay p) (cf, k)) (Some v) (pl_logical_bytes p) = Inr a"
    "unat n = entry_size k (Some v)"
    and p': "p' = p\<lparr>pl_logical_bytes := a, pl_batch := pl_batch p @ [PutCf cf k v],
                pl_overlay := fmupd (cf, k) (Some v) (pl_overlay p)\<rparr>"
    using assms(1) by (auto simp: put_raw_def reserve_put_def and_then_Ok_iff logical_entry_bytes_Ok_iff)
  show view: "plan_view st p' = (plan_view st p)(cf := (plan_view st p cf)(k \<mapsto> v))"
    by (auto simp: p' plan_view_def fun_eq_iff)
  show "fold apply_op (pl_batch p') st = plan_view st p'"
    using assms(3) view by (simp add: p')
  show "lb_limit (pl_logical_bytes p') = lb_limit (pl_logical_bytes p)"
    using reserve_Ok(1) [OF a(1)] by (simp add: p')
  show "accounted p'"
    using reserve_Ok [OF a(1)] a(2) assms(2) overlay_size_upd [of cf k "Some v" "pl_overlay p"]
    by (simp add: p' accounted_def)
qed (use assms(1) in \<open>auto simp: put_raw_def and_then_Ok_iff\<close>)

lemma delete_raw_Ok:
  assumes "delete_raw lib db cf k p = Inr p'" and "accounted p" and "fold apply_op (pl_batch p) st = plan_view st p"
  shows "plan_view st p' = (plan_view st p)(cf := (plan_view st p cf)(k := None))"
    "fold apply_op (pl_batch p') st = plan_view st p'" "accounted p'"
    "pl_accumulator p' = pl_accumulator p" "pl_accumulator_row_counts p' = pl_accumulator_row_counts p"
    "pl_utxo_summary p' = pl_utxo_summary p" "lb_limit (pl_logical_bytes p') = lb_limit (pl_logical_bytes p)"
proof -
  obtain n a where a: "reserve_batch_and_replace_overlay k n (fmlookup (pl_overlay p) (cf, k)) None (pl_logical_bytes p) = Inr a"
    "unat n = entry_size k None"
    and p': "p' = p\<lparr>pl_logical_bytes := a, pl_batch := pl_batch p @ [DeleteCf cf k],
                pl_overlay := fmupd (cf, k) None (pl_overlay p)\<rparr>"
    using assms(1) by (auto simp: delete_raw_def reserve_delete_def and_then_Ok_iff logical_entry_bytes_Ok_iff)
  show view: "plan_view st p' = (plan_view st p)(cf := (plan_view st p cf)(k := None))"
    by (auto simp: p' plan_view_def fun_eq_iff)
  show "fold apply_op (pl_batch p') st = plan_view st p'"
    using assms(3) view by (simp add: p')
  show "lb_limit (pl_logical_bytes p') = lb_limit (pl_logical_bytes p)"
    using reserve_Ok(1) [OF a(1)] by (simp add: p')
  show "accounted p'"
    using reserve_Ok [OF a(1)] a(2) assms(2) overlay_size_upd [of cf k None "pl_overlay p"]
    by (simp add: p' accounted_def)
qed (use assms(1) in \<open>auto simp: delete_raw_def and_then_Ok_iff\<close>)

lemma raw_write_Err:
  "put_raw lib db cf k v p = Inl e \<Longrightarrow> resource_error e"
  "delete_raw lib db cf k p = Inl e \<Longrightarrow> resource_error e"
  by (auto simp: put_raw_def delete_raw_def reserve_put_def reserve_delete_def column_family_def and_then_Err_iff
      dest!: logical_entry_bytes_Err dest: reserve_Err split: if_splits)

text \<open>Inserting and removing one row of the table.\<close>

lemma insert_absent_sim:
  assumes "plans blake2b lim st summary rows p" and fresh: "fmlookup rows (f, k) = None" and cf: "cf = family_column f"
  shows "sim resource_error E (plans blake2b lim st summary) (Ok (fmupd (f, k) v rows))
           (insert_row_after_absence_observed blake2b lib db f cf k v p)"
proof (cases "insert_row_after_absence_observed blake2b lib db f cf k v p")
  case (Inl e)
  then show ?thesis
    by (auto simp: insert_row_after_absence_observed_def and_then_Err_iff map_err_def
        dest: raw_write_Err append_row_Err split: sum.splits)
next
  case (Inr p')
  then obtain acc where acc: "append_row blake2b f k v (pl_accumulator p) = Inr acc"
    and put: "put_raw lib db cf k v (p\<lparr>pl_accumulator := acc, pl_accumulator_row_counts := db_row_counts acc\<rparr>) = Inr p'"
    (is "put_raw _ _ _ _ _ ?p = _")
    by (auto simp: insert_row_after_absence_observed_def and_then_Ok_iff)
  have p: "accounted ?p" "fold apply_op (pl_batch ?p) st = plan_view st ?p" "plan_view st ?p = plan_view st p"
    "shows_table (plan_view st p) rows"
    using assms(1) by (auto simp: plans_def accounted_def plan_view_def fun_eq_iff)
  have "shows_table (plan_view st p') (fmupd (f, k) v rows)"
    using p(4) unfolding put_raw_Ok(1) [OF put p(1,2)] p(3) cf by (auto simp: shows_table_def)
  moreover have "digests blake2b (fmupd (f, k) v rows) (db_accumulator acc) (db_row_counts acc)"
    using acc assms(1) by (simp add: append_row_Ok_iff plans_def digests_def table_upd_fresh [OF fresh])
  ultimately show ?thesis
    using put_raw_Ok [OF put p(1,2)] assms(1) Inr by (simp add: plans_def)
qed

lemma remove_observed_sim:
  assumes "plans blake2b lim st summary rows p" and row: "fmlookup rows (f, k) = Some v" and cf: "cf = family_column f"
  shows "sim resource_error E (plans blake2b lim st summary) (Ok (fmdrop (f, k) rows))
           (remove_row_after_value_observed blake2b lib db f cf k v p)"
proof (cases "remove_row_after_value_observed blake2b lib db f cf k v p")
  case (Inl e)
  have "0 < unat (row_count f (db_row_counts (pl_accumulator p)))"
    using assms(1) table_drop(2) [OF row, of f] by (simp add: plans_def digests_def)
  then have "checked_sub (row_count f (db_row_counts (pl_accumulator p))) 1 \<noteq> None"
    by (simp add: checked_sub_None_iff word_less_nat_alt)
  then have "resource_error (Contract e')" if "remove_row blake2b f k v (pl_accumulator p) = Inl e'" for e'
    using that by (auto simp: remove_row_def row_preimage_def encoded_len_def and_then_Err_iff ok_or_def
        split: option.splits if_splits)
  then show ?thesis
    using Inl by (auto simp: remove_row_after_value_observed_def and_then_Err_iff map_err_def
        dest: raw_write_Err split: sum.splits)
next
  case (Inr p')
  then obtain acc where acc: "remove_row blake2b f k v (pl_accumulator p) = Inr acc"
    and delete: "delete_raw lib db cf k (p\<lparr>pl_accumulator := acc, pl_accumulator_row_counts := db_row_counts acc\<rparr>) = Inr p'"
    (is "delete_raw _ _ _ _ ?p = _")
    by (auto simp: remove_row_after_value_observed_def and_then_Ok_iff)
  have p: "accounted ?p" "fold apply_op (pl_batch ?p) st = plan_view st ?p" "plan_view st ?p = plan_view st p"
    "shows_table (plan_view st p) rows"
    using assms(1) by (auto simp: plans_def accounted_def plan_view_def fun_eq_iff)
  have "shows_table (plan_view st p') (fmdrop (f, k) rows)"
    using p(4) unfolding delete_raw_Ok(1) [OF delete p(1,2)] p(3) cf by (auto simp: shows_table_def)
  moreover have "digests blake2b (fmdrop (f, k) rows) (db_accumulator acc) (db_row_counts acc)"
    using acc assms(1) table_drop [OF row]
    by (auto simp: remove_row_iff_append_row append_row_Ok_iff plans_def digests_def algebra_simps)
  ultimately show ?thesis
    using delete_raw_Ok [OF delete p(1,2)] assms(1) Inr by (simp add: plans_def)
qed

lemma insert_row_sim:
  assumes "reads_stored lib db st" and "plans blake2b lim st summary rows p" and "cf = family_column f"
    and "\<And>e. E e e"
  shows "sim resource_error E (plans blake2b lim st summary)
           (if fmlookup rows (f, k) \<noteq> None
            then rejected ''wallet transition attempts to overwrite an existing logical row''
            else Ok (fmupd (f, k) v rows))
           (plan_insert_row blake2b lib db f cf k v p)"
  using raw_sim [OF assms(1,2), of E f k] insert_absent_sim [OF assms(2) _ assms(3), of k E v lib db] assms(3,4)
  by (cases "raw lib db cf k p") (auto simp: plan_insert_row_def)

lemma remove_row_sim:
  assumes "reads_stored lib db st" and "plans blake2b lim st summary rows p" and "cf = family_column f"
    and "\<And>e. E e e"
  shows "sim resource_error E (plans blake2b lim st summary)
           (case fmlookup rows (f, k) of
              None \<Rightarrow> rejected ''wallet transition attempts to remove an absent logical row''
            | Some observed \<Rightarrow>
                if observed \<noteq> v
                then rejected ''wallet transition logical row differs from its expected durable bytes''
                else Ok (fmdrop (f, k) rows))
           (plan_remove_row blake2b lib db f cf k v p)"
  using raw_sim [OF assms(1,2), of E f k] remove_observed_sim [OF assms(2) _ assms(3), of k _ E lib db] assms(3,4)
  by (cases "raw lib db cf k p"; cases "fmlookup rows (f, k)") (auto simp: plan_remove_row_def)

end
