(* ===== verification/Serial_Oracle.thy ===== *)
theory Serial_Oracle
  imports Block_Scan
begin

text \<open>
  The serial correctness oracle of the wallet projection (\<open>serial_oracle.rs\<close>): one block at a time,
  it checks that the block extends the projected chain, runs the block loop over its ledger, and
  produces the undo record of the block. The invariant \<open>ledger_inv\<close> is kept by every block, and
  \<open>block_effect\<close> says what a block does to each row of the ledger.
\<close>

section \<open>The ledger operations of the block loop\<close>

definition ledger_spend ::
    "blake2b_fn \<Rightarrow> network \<Rightarrow> outpoint_key \<Rightarrow> transaction_position \<Rightarrow> u32 \<Rightarrow> ledger \<Rightarrow>
       contract_error + unspent_output \<times> ledger" where
  "ledger_spend blake2b network key transaction_position input_index l =
     (if fmlookup (lg_spent_outputs l) key \<noteq> None then Err DuplicateSpend
      else
        and_then (ok_or (fmlookup (lg_unspent_outputs l) key) MissingTransparentPredecessor) (\<lambda>output.
        and_then (subtract_unspent_output blake2b network output
                    (l\<lparr>lg_unspent_outputs := fmdrop key (lg_unspent_outputs l)\<rparr>)) (\<lambda>l.
        Ok (output, l\<lparr>lg_spent_outputs :=
              fmupd key \<lparr>so_output = output, so_spent_at = transaction_position, so_input_index = input_index\<rparr>
                (lg_spent_outputs l)\<rparr>))))"

definition ledger_contains :: "outpoint_key \<Rightarrow> ledger \<Rightarrow> contract_error + bool" where
  "ledger_contains key l =
     Ok (fmlookup (lg_unspent_outputs l) key \<noteq> None \<or> fmlookup (lg_spent_outputs l) key \<noteq> None)"

definition ledger_create ::
    "blake2b_fn \<Rightarrow> network \<Rightarrow> outpoint_key \<Rightarrow> unspent_output \<Rightarrow> ledger \<Rightarrow> contract_error + ledger" where
  "ledger_create blake2b network key unspent_output l =
     and_then (add_unspent_output blake2b network unspent_output l) (\<lambda>l.
     Ok (l\<lparr>lg_unspent_outputs := fmupd key unspent_output (lg_unspent_outputs l)\<rparr>))"

definition ledger_record :: "address_transaction \<Rightarrow> ledger \<Rightarrow> contract_error + ledger" where
  "ledger_record e l =
     Ok (l\<lparr>lg_address_transactions := fmupd (at_key e) e (lg_address_transactions l)\<rparr>)"

definition ledger_ops :: "blake2b_fn \<Rightarrow> network \<Rightarrow> (ledger, contract_error) block_ops" where
  "ledger_ops blake2b network =
     \<lparr>ops_contract = (\<lambda>e. e), ops_spend = ledger_spend blake2b network, ops_contains = ledger_contains,
      ops_create = ledger_create blake2b network, ops_record = ledger_record\<rparr>"

section \<open>The oracle\<close>

record serial_oracle =
  or_network :: network
  or_last_projected_block :: "block_id option"
  or_source_sequence_digest :: sequence_digest
  or_ledger :: ledger
  or_supported_reorg_depth :: u32
  or_reorg_undo :: "(block_height, reorg_undo) fmap"

definition with_supported_reorg_depth :: "sha256_fn \<Rightarrow> network \<Rightarrow> u32 \<Rightarrow> serial_oracle" where
  "with_supported_reorg_depth sha256 network supported_reorg_depth =
     \<lparr>or_network = network, or_last_projected_block = None,
      or_source_sequence_digest = builder_finish (builder_new sha256 SequenceDigestV1),
      or_ledger = ledger_empty, or_supported_reorg_depth = supported_reorg_depth,
      or_reorg_undo = fmempty\<rparr>"

definition validate_next_block :: "block_id \<Rightarrow> block_hash \<Rightarrow> serial_oracle \<Rightarrow> contract_error + unit" where
  "validate_next_block block parent_hash orc =
     (case or_last_projected_block orc of
        None \<Rightarrow> if id_height block = 1 then Ok () else Err NonContiguousBlock
      | Some previous \<Rightarrow>
          if block_height_next (id_height previous) = Some (id_height block) \<and> id_hash previous = parent_hash
          then Ok () else Err NonContiguousBlock)"

text \<open>\<open>BlockId::new(facts.block_header.height, facts.block_header.block_hash)\<close>\<close>

definition facts_block :: "canonical_block_facts \<Rightarrow> block_id" where
  "facts_block facts =
     \<lparr>id_height = header_height (block_header facts), id_hash = header_block_hash (block_header facts)\<rparr>"

definition retain_reorg_undo ::
    "u32 \<Rightarrow> reorg_undo \<Rightarrow> (block_height, reorg_undo) fmap \<Rightarrow> (block_height, reorg_undo) fmap" where
  "retain_reorg_undo supported_reorg_depth undo undos =
     (if supported_reorg_depth > 0 then
        let height = id_height (ru_block undo);
            first_retained_height = saturating_sub height (saturating_sub supported_reorg_depth 1)
        in fmfilter (\<lambda>h. h \<ge> first_retained_height) (fmupd height undo undos)
      else undos)"

definition apply_block_in_place ::
    "blake2b_fn \<Rightarrow> sha256_fn \<Rightarrow> canonical_block_facts \<Rightarrow> serial_oracle \<Rightarrow>
       contract_error + reorg_undo \<times> serial_oracle" where
  "apply_block_in_place blake2b sha256 facts orc =
     (let block = facts_block facts;
          parent_hash = header_parent_hash (block_header facts);
          source_sequence_digest_before = or_source_sequence_digest orc in
      and_then (validate_next_block block parent_hash orc) (\<lambda>_.
      and_then (map_err SourceSequenceLength
                  (try_append sha256 (facts_digest sha256 facts FactsDigestV1)
                    (resume_from_prefix source_sequence_digest_before))) (\<lambda>builder.
      let source_sequence_digest_after = builder_finish builder in
      and_then (scan_block (ledger_ops blake2b (or_network orc)) block facts (or_ledger orc)) (\<lambda>(loc, l).
      let undo = block_undo block parent_hash source_sequence_digest_before source_sequence_digest_after loc
      in Ok (undo,
             orc\<lparr>or_last_projected_block := Some block,
                 or_source_sequence_digest := source_sequence_digest_after,
                 or_ledger := l,
                 or_reorg_undo :=
                   retain_reorg_undo (or_supported_reorg_depth orc) undo (or_reorg_undo orc)\<rparr>)))))"

text \<open>
  \<open>apply_block\<close> works on a clone and assigns it only on success, so a rejected block leaves the
  oracle as it was.
\<close>

definition apply_block ::
    "blake2b_fn \<Rightarrow> sha256_fn \<Rightarrow> canonical_block_facts \<Rightarrow> serial_oracle \<Rightarrow>
       (contract_error + reorg_undo) \<times> serial_oracle" where
  "apply_block blake2b sha256 facts orc =
     (case apply_block_in_place blake2b sha256 facts orc of
        Inl e \<Rightarrow> (Err e, orc)
      | Inr (undo, candidate) \<Rightarrow> (Ok undo, candidate))"

section \<open>The ledger invariant\<close>

text \<open>
  Every row is stored under the key of its output, created outputs belong to the transaction their
  outpoint names, no output is both unspent and spent, and the accounts follow the unspent outputs.
\<close>

definition ledger_inv :: "blake2b_fn \<Rightarrow> network \<Rightarrow> ledger \<Rightarrow> bool" where
  "ledger_inv blake2b network l \<longleftrightarrow>
     (\<forall>k u. fmlookup (lg_unspent_outputs l) k = Some u \<longrightarrow>
        k = outpoint_key_new (uo_outpoint u) \<and> unspent_valid u \<and> fmlookup (lg_spent_outputs l) k = None) \<and>
     (\<forall>k s. fmlookup (lg_spent_outputs l) k = Some s \<longrightarrow>
        k = outpoint_key_new (uo_outpoint (so_output s)) \<and> unspent_valid (so_output s)) \<and>
     (\<forall>k e. fmlookup (lg_address_transactions l) k = Some e \<longrightarrow> at_key e = k) \<and>
     accounts blake2b network (lg_unspent_outputs l) l"

lemma accounts_update [simp]:
  "accounts blake2b network m (l\<lparr>lg_unspent_outputs := x\<rparr>) = accounts blake2b network m l"
  "accounts blake2b network m (l\<lparr>lg_spent_outputs := y\<rparr>) = accounts blake2b network m l"
  "accounts blake2b network m (l\<lparr>lg_address_transactions := z\<rparr>) = accounts blake2b network m l"
  by (simp_all add: accounts_def)

lemma ledger_inv_empty: "ledger_inv blake2b network ledger_empty"
  using accounts_empty [of blake2b network] by (simp add: ledger_inv_def ledger_empty_def)

lemma add_unspent_output_frame:
  assumes "add_unspent_output blake2b network u l = Inr l'"
  shows "lg_unspent_outputs l' = lg_unspent_outputs l" "lg_spent_outputs l' = lg_spent_outputs l"
    "lg_address_transactions l' = lg_address_transactions l"
  using assms by (auto simp: add_unspent_output_def Let_def and_then_Ok_iff)

text \<open>
  Spending a known output of a consistent ledger always succeeds: of the errors of the source only
  \<open>DuplicateSpend\<close> and \<open>MissingTransparentPredecessor\<close> are reachable.
\<close>

lemma ledger_spend_cases:
  assumes "ledger_inv blake2b network l"
  shows "case fmlookup (lg_unspent_outputs l) key of
           None \<Rightarrow> ledger_spend blake2b network key pos i l =
             Inl (if fmlookup (lg_spent_outputs l) key = None then MissingTransparentPredecessor
                  else DuplicateSpend)
         | Some u \<Rightarrow> \<exists>l'. ledger_spend blake2b network key pos i l = Inr (u, l') \<and>
             lg_unspent_outputs l' = fmdrop key (lg_unspent_outputs l) \<and>
             lg_spent_outputs l' =
               fmupd key \<lparr>so_output = u, so_spent_at = pos, so_input_index = i\<rparr> (lg_spent_outputs l) \<and>
             lg_address_transactions l' = lg_address_transactions l \<and> ledger_inv blake2b network l'"
proof (cases "fmlookup (lg_unspent_outputs l) key")
  case None
  then show ?thesis by (simp add: ledger_spend_def)
next
  case (Some u)
  let ?m = "lg_unspent_outputs l"
  have "accounts blake2b network ?m (l\<lparr>lg_unspent_outputs := fmdrop key ?m\<rparr>)"
    using assms by (simp add: ledger_inv_def)
  from subtract_unspent_output_accounts [OF this Some] obtain l' where
    l': "subtract_unspent_output blake2b network u (l\<lparr>lg_unspent_outputs := fmdrop key ?m\<rparr>) = Inr l'"
      "accounts blake2b network (fmdrop key ?m) l'" "lg_unspent_outputs l' = fmdrop key ?m"
      "lg_spent_outputs l' = lg_spent_outputs l"
      "lg_address_transactions l' = lg_address_transactions l"
    by auto
  moreover have "fmlookup (lg_spent_outputs l) key = None"
    using assms Some by (simp add: ledger_inv_def)
  ultimately show ?thesis
    using Some assms by (auto simp: ledger_spend_def ledger_inv_def)
qed

lemma ledger_spend_Ok:
  assumes "ledger_inv blake2b network l" and "ledger_spend blake2b network key pos i l = Inr (u, l')"
  shows "fmlookup (lg_unspent_outputs l) key = Some u" "fmlookup (lg_spent_outputs l) key = None"
    "lg_unspent_outputs l' = fmdrop key (lg_unspent_outputs l)"
    "lg_spent_outputs l' =
       fmupd key \<lparr>so_output = u, so_spent_at = pos, so_input_index = i\<rparr> (lg_spent_outputs l)"
    "lg_address_transactions l' = lg_address_transactions l" "ledger_inv blake2b network l'"
  using ledger_spend_cases [OF assms(1), of key pos i] assms
  by (auto simp: ledger_inv_def split: option.splits)

lemma ledger_create_Ok:
  assumes "ledger_inv blake2b network l" and "ledger_create blake2b network key u l = Inr l'"
    and "ledger_contains key l = Inr False" and "key = outpoint_key_new (uo_outpoint u)" and "unspent_valid u"
  shows "lg_unspent_outputs l' = fmupd key u (lg_unspent_outputs l)"
    "lg_spent_outputs l' = lg_spent_outputs l" "lg_address_transactions l' = lg_address_transactions l"
    "ledger_inv blake2b network l'"
proof -
  obtain l1 where l1: "add_unspent_output blake2b network u l = Inr l1"
    "l' = l1\<lparr>lg_unspent_outputs := fmupd key u (lg_unspent_outputs l1)\<rparr>"
    using assms(2) by (auto simp: ledger_create_def and_then_Ok_iff)
  note frame = add_unspent_output_frame [OF l1(1)]
  have "accounts blake2b network (fmupd key u (lg_unspent_outputs l)) l1"
    using assms(1,3) l1(1)
    by (intro add_unspent_output_accounts [of _ _ "lg_unspent_outputs l" l])
      (auto simp: ledger_inv_def ledger_contains_def)
  then show "ledger_inv blake2b network l'"
    using assms frame l1(2) by (auto simp: ledger_inv_def ledger_contains_def)
  show "lg_unspent_outputs l' = fmupd key u (lg_unspent_outputs l)"
    "lg_spent_outputs l' = lg_spent_outputs l" "lg_address_transactions l' = lg_address_transactions l"
    using frame l1(2) by simp_all
qed

lemma ledger_record_inv:
  assumes "ledger_inv blake2b network l" and "ledger_record e l = Inr l'"
  shows "ledger_inv blake2b network l'"
  using assms by (auto simp: ledger_record_def ledger_inv_def split: if_splits)

section \<open>The effect of a block\<close>

text \<open>
  \<open>block_effect block l0 loc l\<close>: after (part of) a block that started at the ledger \<open>l0\<close>, the local
  variables \<open>loc\<close> list exactly the rows that differ in \<open>l\<close>. A created outpoint was unknown and is
  now unspent, or spent by the block itself; a spent outpoint was unspent and is now spent by the
  block; a recorded address transaction was unknown; every other row is unchanged.
\<close>

definition created_in :: "block_id \<Rightarrow> unspent_output \<Rightarrow> bool" where
  "created_in block u \<longleftrightarrow> pos_block (uo_created_at u) = block"

definition spent_in :: "block_id \<Rightarrow> spent_output \<Rightarrow> bool" where
  "spent_in block s \<longleftrightarrow> pos_block (so_spent_at s) = block"

definition output_effect :: "block_id \<Rightarrow> ledger \<Rightarrow> block_locals \<Rightarrow> ledger \<Rightarrow> outpoint_key \<Rightarrow> bool" where
  "output_effect block l0 loc l k \<longleftrightarrow>
     (if k \<in> set (created_outpoints loc) then
        fmlookup (lg_unspent_outputs l0) k = None \<and> fmlookup (lg_spent_outputs l0) k = None \<and>
        ((\<exists>u. fmlookup (lg_unspent_outputs l) k = Some u \<and> fmlookup (lg_spent_outputs l) k = None \<and>
              created_in block u) \<or>
         (\<exists>s. fmlookup (lg_unspent_outputs l) k = None \<and> fmlookup (lg_spent_outputs l) k = Some s \<and>
              created_in block (so_output s) \<and> spent_in block s))
      else if k \<in> set (spent_outpoints loc) then
        \<exists>s. fmlookup (lg_unspent_outputs l0) k = Some (so_output s) \<and> fmlookup (lg_spent_outputs l0) k = None \<and>
            fmlookup (lg_unspent_outputs l) k = None \<and> fmlookup (lg_spent_outputs l) k = Some s \<and>
            spent_in block s
      else fmlookup (lg_unspent_outputs l) k = fmlookup (lg_unspent_outputs l0) k \<and>
           fmlookup (lg_spent_outputs l) k = fmlookup (lg_spent_outputs l0) k)"

definition address_effect ::
    "block_id \<Rightarrow> ledger \<Rightarrow> block_locals \<Rightarrow> ledger \<Rightarrow> address_transaction_key \<Rightarrow> bool" where
  "address_effect block l0 loc l k \<longleftrightarrow>
     (if k \<in> set (address_transaction_keys loc) then
        fmlookup (lg_address_transactions l0) k = None \<and> transaction_key_block_height k = id_height block \<and>
        (\<exists>e. fmlookup (lg_address_transactions l) k = Some e \<and> at_block_hash e = id_hash block)
      else fmlookup (lg_address_transactions l) k = fmlookup (lg_address_transactions l0) k)"

definition locals_wf :: "block_locals \<Rightarrow> bool" where
  "locals_wf loc \<longleftrightarrow>
     set (created_outpoint_keys loc) = set (created_outpoints loc) \<and> distinct (created_outpoints loc) \<and>
     distinct (spent_outpoints loc) \<and> distinct (address_transaction_keys loc) \<and>
     set (created_outpoints loc) \<inter> set (spent_outpoints loc) = {}"

definition block_effect :: "block_id \<Rightarrow> ledger \<Rightarrow> block_locals \<Rightarrow> ledger \<Rightarrow> bool" where
  "block_effect block l0 loc l \<longleftrightarrow>
     locals_wf loc \<and> (\<forall>k. output_effect block l0 loc l k) \<and> (\<forall>k. address_effect block l0 loc l k)"

text \<open>Every address transaction of the ledger lies below a height.\<close>

definition ledger_below :: "block_height \<Rightarrow> ledger \<Rightarrow> bool" where
  "ledger_below h l \<longleftrightarrow>
     (\<forall>k e. fmlookup (lg_address_transactions l) k = Some e \<longrightarrow> transaction_key_block_height k < h)"

lemmas note_defs = note_spent_def note_created_def note_recorded_def

lemma block_effect_start: "block_effect block l no_locals l"
  by (simp add: block_effect_def locals_wf_def no_locals_def output_effect_def address_effect_def)

lemma block_effect_spend:
  assumes "ledger_inv blake2b network l" and "block_effect block l0 loc l"
    and "ledger_spend blake2b network key pos i l = Inr (u, l')" and "pos_block pos = block"
  shows "block_effect block l0 (note_spent key loc) l'"
proof -
  note eff = ledger_spend_Ok [OF assms(1,3)]
  have wf: "locals_wf loc" and out: "output_effect block l0 loc l key"
    using assms(2) by (simp_all add: block_effect_def)
  have fresh: "key \<notin> set (spent_outpoints loc)"
    using out eff(1,2) wf by (auto simp: output_effect_def locals_wf_def split: if_splits)
  have "locals_wf (note_spent key loc)"
    using wf fresh by (auto simp: locals_wf_def note_spent_def)
  moreover have "output_effect block l0 (note_spent key loc) l' k" for k
    using assms(2,4) eff wf fresh
    by (cases "k = key")
      (auto simp: block_effect_def output_effect_def note_spent_def locals_wf_def spent_in_def
        split: if_splits)
  moreover have "address_effect block l0 (note_spent key loc) l' k" for k
    using assms(2) eff by (simp add: block_effect_def address_effect_def note_spent_def)
  ultimately show ?thesis by (simp add: block_effect_def)
qed

lemma block_effect_create:
  assumes "ledger_inv blake2b network l" and "block_effect block l0 loc l"
    and "ledger_create blake2b network key u l = Inr l'" and "ledger_contains key l = Inr False"
    and "key = outpoint_key_new (uo_outpoint u)" and "unspent_valid u" and "pos_block (uo_created_at u) = block"
  shows "block_effect block l0 (note_created key loc) l'"
proof -
  note eff = ledger_create_Ok [OF assms(1,3-6)]
  have absent: "fmlookup (lg_unspent_outputs l) key = None" "fmlookup (lg_spent_outputs l) key = None"
    using assms(4) by (simp_all add: ledger_contains_def)
  have wf: "locals_wf loc" and out: "output_effect block l0 loc l key"
    using assms(2) by (simp_all add: block_effect_def)
  have fresh: "key \<notin> set (spent_outpoints loc)" "key \<notin> set (created_outpoints loc)"
    using out absent wf by (auto simp: output_effect_def locals_wf_def split: if_splits)
  have "locals_wf (note_created key loc)"
    using wf fresh by (auto simp: locals_wf_def note_created_def set_insort_insert)
  moreover have "output_effect block l0 (note_created key loc) l' k" for k
    using assms(2,7) eff wf fresh absent
    by (cases "k = key")
      (auto simp: block_effect_def output_effect_def note_created_def created_in_def split: if_splits)
  moreover have "address_effect block l0 (note_created key loc) l' k" for k
    using assms(2) eff by (simp add: block_effect_def address_effect_def note_created_def)
  ultimately show ?thesis by (simp add: block_effect_def)
qed

lemma block_effect_record:
  assumes "ledger_below (id_height block) l0" and "block_effect block l0 loc l"
    and "at_key e \<notin> set (address_transaction_keys loc)"
    and "transaction_key_block_height (at_key e) = id_height block" and "at_block_hash e = id_hash block"
    and "ledger_record e l = Inr l'"
  shows "block_effect block l0 (note_recorded (at_key e) loc) l'"
proof -
  have fresh: "fmlookup (lg_address_transactions l0) (at_key e) = None"
    using assms(1,4) by (force simp: ledger_below_def)
  have "locals_wf (note_recorded (at_key e) loc)"
    using assms(2,3) by (simp add: block_effect_def locals_wf_def note_recorded_def)
  moreover have "output_effect block l0 (note_recorded (at_key e) loc) l' k = output_effect block l0 loc l k" for k
    using assms(6) by (auto simp: output_effect_def note_recorded_def ledger_record_def)
  moreover have "address_effect block l0 (note_recorded (at_key e) loc) l' k" for k
    using assms fresh by (auto simp: block_effect_def address_effect_def note_recorded_def ledger_record_def
        split: if_splits)
  ultimately show ?thesis using assms(2) by (simp add: block_effect_def)
qed

text \<open>
  The errors a block can be rejected with while the ledger is consistent: those of the loop, the two
  of a spend, and the overflows of an addition; never one of the underflows.
\<close>

definition ledger_errors :: "contract_error set" where
  "ledger_errors = loop_errors \<union> {MissingTransparentPredecessor, DuplicateSpend} \<union>
     {AddressBalanceOverflow, UtxoCountOverflow, UtxoValueOverflow}"

lemma ledger_spend_Err:
  assumes "ledger_inv blake2b network l" and "ledger_spend blake2b network key pos i l = Inl e"
  shows "e \<in> ledger_errors"
  using ledger_spend_cases [OF assms(1), of key pos i] assms(2)
  by (auto simp: ledger_errors_def split: option.splits if_splits)

lemma ledger_create_Err:
  assumes "ledger_create blake2b network key u l = Inl e"
  shows "e \<in> ledger_errors"
  using assms
  by (auto simp: ledger_create_def add_unspent_output_def Let_def and_then_def ok_or_def ledger_errors_def
      split: sum.splits option.splits if_splits)

interpretation ledger_scan: scan_simulation "ledger_ops blake2b network" "ledger_ops blake2b network"
    block "\<lambda>_. False" "\<lambda>e f. f \<in> ledger_errors" "\<lambda>loc s t. s = t \<and> (ledger_inv blake2b network s \<and>
      (ledger_below (id_height block) l0 \<longrightarrow> block_effect block l0 loc s))"
  for blake2b network block l0
proof (unfold_locales, goal_cases)
  case (1 err)
  then show ?case by (simp add: ledger_ops_def ledger_errors_def)
next
  case (2 loc s t pos key i)
  then show ?case
    using block_effect_spend [of blake2b network s block l0 loc key pos i] ledger_spend_Err [of blake2b network s]
      ledger_spend_Ok(6) [of blake2b network s key pos i]
    by (cases "ledger_spend blake2b network key pos i s") (auto simp: ledger_ops_def)
next
  case (3 loc s t key)
  then show ?case by (simp add: ledger_ops_def ledger_contains_def)
next
  case (4 loc s t u)
  then show ?case
    using block_effect_create [of blake2b network s block l0 loc _ u] ledger_create_Ok(4) [of blake2b network s _ u]
      ledger_create_Err [of blake2b network _ u s]
    by (cases "ledger_create blake2b network (outpoint_key_new (uo_outpoint u)) u s")
      (auto simp: ledger_ops_def)
next
  case (5 loc s t e)
  then show ?case
    using block_effect_record [of block l0 loc s e] ledger_record_inv [of blake2b network s e]
    by (cases "ledger_record e s") (auto simp: ledger_ops_def, simp_all add: ledger_record_def)
qed

lemma scan_block_ledger:
  assumes "scan_block (ledger_ops blake2b network) block facts l0 = Inr (loc, l)"
    and "ledger_inv blake2b network l0"
  shows "ledger_inv blake2b network l" and
    "ledger_below (id_height block) l0 \<Longrightarrow> block_effect block l0 loc l"
proof -
  note sim = ledger_scan.scan_block_sim [of l0 l0 blake2b network block _ facts]
  show "ledger_inv blake2b network l"
    using sim [of l0] assms block_effect_start by simp
  show "block_effect block l0 loc l" if "ledger_below (id_height block) l0"
    using sim [of l0] assms block_effect_start that by simp
qed

lemma scan_block_ledger_Err:
  assumes "scan_block (ledger_ops blake2b network) block facts l = Inl e" and "ledger_inv blake2b network l"
  shows "e \<in> ledger_errors"
  using ledger_scan.scan_block_sim [of l l blake2b network block l facts] assms block_effect_start by simp

end
