(* ===== verification/Oracle_History.thy ===== *)
theory Oracle_History
  imports Serial_Oracle
begin

text \<open>
  What the serial oracle has computed after any sequence of calls. \<open>oracle_reaches\<close> is the step
  relation of \<open>apply_block\<close>; the properties relate the oracle's rows, digest and undo window to the
  list of blocks it has accepted, given declaratively: the outputs the chain created and the
  outpoints it spent.
\<close>

section \<open>Queries and reachable oracles\<close>

definition find_unspent_output :: "transparent_outpoint \<Rightarrow> serial_oracle \<Rightarrow> unspent_output option" where
  "find_unspent_output outpoint orc = fmlookup (lg_unspent_outputs (or_ledger orc)) (outpoint_key_new outpoint)"

definition find_spent_output :: "transparent_outpoint \<Rightarrow> serial_oracle \<Rightarrow> spent_output option" where
  "find_spent_output outpoint orc = fmlookup (lg_spent_outputs (or_ledger orc)) (outpoint_key_new outpoint)"

definition oracle_address_balance :: "script_hash \<Rightarrow> serial_oracle \<Rightarrow> u64" where
  "oracle_address_balance address_script_hash orc =
     (case fmlookup (lg_balance_by_address (or_ledger orc)) address_script_hash of
        None \<Rightarrow> 0 | Some balance \<Rightarrow> balance)"

definition oracle_utxo_summary :: "serial_oracle \<Rightarrow> utxo_set_summary" where
  "oracle_utxo_summary orc =
     \<lparr>us_utxo_count = lg_utxo_count (or_ledger orc),
      us_total_value_zat = lg_total_utxo_value_zat (or_ledger orc),
      us_commitment = lg_utxo_commitment (or_ledger orc)\<rparr>"

text \<open>Accepted blocks are appended to the history; rejected ones leave it unchanged.\<close>

inductive oracle_reaches ::
    "blake2b_fn \<Rightarrow> sha256_fn \<Rightarrow> network \<Rightarrow> u32 \<Rightarrow> canonical_block_facts list \<Rightarrow> serial_oracle \<Rightarrow> bool"
  for blake2b sha256 network depth where
  start: "oracle_reaches blake2b sha256 network depth [] (with_supported_reorg_depth sha256 network depth)"
| accept: "oracle_reaches blake2b sha256 network depth blocks orc \<Longrightarrow>
    apply_block blake2b sha256 facts orc = (Ok undo, orc') \<Longrightarrow>
    oracle_reaches blake2b sha256 network depth (blocks @ [facts]) orc'"
| reject: "oracle_reaches blake2b sha256 network depth blocks orc \<Longrightarrow>
    apply_block blake2b sha256 facts orc = (Err e, orc') \<Longrightarrow>
    oracle_reaches blake2b sha256 network depth blocks orc'"

section \<open>The history of a chain\<close>

definition transaction_position_of :: "canonical_block_facts \<Rightarrow> nat \<times> canonical_transaction_facts \<Rightarrow> transaction_position" where
  "transaction_position_of facts numbered =
     \<lparr>pos_transaction_id = facts_transaction_id (public_facts (snd numbered)),
      pos_tx_index_in_block = of_nat (fst numbered), pos_block = facts_block facts\<rparr>"

definition output_row :: "transaction_position \<Rightarrow> transparent_output_fact \<Rightarrow> unspent_output" where
  "output_row pos out =
     \<lparr>uo_outpoint = \<lparr>op_transaction_id = pos_transaction_id pos, op_output_index = out_output_index out\<rparr>,
      uo_address_script_hash = out_address_script_hash out, uo_value_zat = out_value_zat out,
      uo_script_pub_key = out_script_pub_key out, uo_created_at = pos\<rparr>"

definition chain_created :: "canonical_block_facts list \<Rightarrow> unspent_output set" where
  "chain_created blocks =
     (\<Union>facts \<in> set blocks. \<Union>numbered \<in> set (enumerate 0 (transactions facts)).
        output_row (transaction_position_of facts numbered) ` set (transparent_outputs (snd numbered)))"

text \<open>Which input of which transaction spends an outpoint.\<close>

definition chain_spent ::
    "canonical_block_facts list \<Rightarrow> (transparent_outpoint \<times> transaction_position \<times> u32) set" where
  "chain_spent blocks =
     (\<Union>facts \<in> set blocks. \<Union>numbered \<in> set (enumerate 0 (transactions facts)).
        {(in_spent_outpoint input, transaction_position_of facts numbered, in_input_index input) |input.
           input \<in> set (transparent_inputs (snd numbered)) \<and>
           \<not> is_coinbase_sentinel (in_spent_outpoint input)})"

text \<open>The same two sets, read off a ledger.\<close>

definition ledger_created :: "ledger \<Rightarrow> unspent_output set" where
  "ledger_created l = fmran' (lg_unspent_outputs l) \<union> so_output ` fmran' (lg_spent_outputs l)"

definition ledger_spent :: "ledger \<Rightarrow> (transparent_outpoint \<times> transaction_position \<times> u32) set" where
  "ledger_spent l =
     (\<lambda>s. (uo_outpoint (so_output s), so_spent_at s, so_input_index s)) ` fmran' (lg_spent_outputs l)"

definition ledger_history ::
    "ledger \<Rightarrow> (unspent_output + transparent_outpoint \<times> transaction_position \<times> u32) set" where
  "ledger_history l = Inl ` ledger_created l \<union> Inr ` ledger_spent l"

lemma fmran'_empty: "fmran' fmempty = {}"
  by (auto simp: fmlookup_ran'_iff)

lemma fmran'_upd_fresh:
  assumes "fmlookup m k = None"
  shows "fmran' (fmupd k v m) = insert v (fmran' m)"
proof (rule set_eqI)
  fix x
  have "(\<exists>j. fmlookup (fmupd k v m) j = Some x) \<longleftrightarrow> x = v \<or> (\<exists>j. fmlookup m j = Some x)"
    using assms by (metis fmupd_lookup option.distinct(1) option.inject)
  then show "x \<in> fmran' (fmupd k v m) \<longleftrightarrow> x \<in> insert v (fmran' m)"
    by (simp only: fmlookup_ran'_iff insert_iff)
qed

lemma fmran'_drop:
  assumes "fmlookup m k = Some v"
  shows "fmran' m = insert v (fmran' (fmdrop k m))"
  using fmran'_upd_fresh [of "fmdrop k m" k v] fmupd_fmdrop_restore [OF assms] by simp

lemma ledger_spend_history:
  assumes "ledger_inv blake2b network l" and "ledger_spend blake2b network (outpoint_key_new p) pos i l = Inr (u, l')"
  shows "ledger_history l' = ledger_history l \<union> {Inr (p, pos, i)}"
proof -
  note eff = ledger_spend_Ok [OF assms]
  have "uo_outpoint u = p"
    using eff(1) assms(1) unfolding ledger_inv_def by (metis outpoint_key_new_inject)
  then show ?thesis
    using fmran'_drop [OF eff(1)] fmran'_upd_fresh [OF eff(2)] eff(3,4)
    by (auto simp: ledger_history_def ledger_created_def ledger_spent_def)
qed

lemma ledger_create_history:
  assumes "ledger_inv blake2b network l" and "ledger_create blake2b network (outpoint_key_new (uo_outpoint u)) u l = Inr l'"
    and "ledger_contains (outpoint_key_new (uo_outpoint u)) l = Inr False" and "unspent_valid u"
  shows "ledger_history l' = ledger_history l \<union> {Inl u}"
proof -
  note eff = ledger_create_Ok [OF assms(1,2,3) refl assms(4)]
  have "fmlookup (lg_unspent_outputs l) (outpoint_key_new (uo_outpoint u)) = None"
    using assms(3) by (simp add: ledger_contains_def)
  then show ?thesis
    using fmran'_upd_fresh [of "lg_unspent_outputs l" "outpoint_key_new (uo_outpoint u)" u] eff(1,2)
    by (auto simp: ledger_history_def ledger_created_def ledger_spent_def)
qed

lemma ledger_record_history: "ledger_record e l = Inr l' \<Longrightarrow> ledger_history l' = ledger_history l"
  by (auto simp: ledger_record_def ledger_history_def ledger_created_def ledger_spent_def)

definition spent_by_input ::
    "transaction_position \<Rightarrow> transparent_input_fact \<Rightarrow> (transparent_outpoint \<times> transaction_position \<times> u32) set" where
  "spent_by_input pos input =
     (if is_coinbase_sentinel (in_spent_outpoint input) then {}
      else {(in_spent_outpoint input, pos, in_input_index input)})"

lemma scan_input_history:
  assumes "ledger_inv blake2b network (snd (snd p))"
    and "scan_input (ledger_ops blake2b network) pos x p = Inr q"
  shows "ledger_inv blake2b network (snd (snd q)) \<and>
         ledger_history (snd (snd q)) = ledger_history (snd (snd p)) \<union> Inr ` spent_by_input pos (snd x)"
  using assms ledger_spend_history ledger_spend_Ok(6)
  by (cases p) (fastforce simp: scan_input_def ledger_ops_def Let_def and_then_Ok_iff spent_by_input_def
      split: if_splits)

lemma scan_output_history:
  assumes "ledger_inv blake2b network (snd (snd p))"
    and "scan_output (ledger_ops blake2b network) pos x p = Inr q"
  shows "ledger_inv blake2b network (snd (snd q)) \<and>
         ledger_history (snd (snd q)) = ledger_history (snd (snd p)) \<union> {Inl (output_row pos (snd x))}"
proof -
  obtain touched loc l where p: "p = (touched, loc, l)" by (cases p)
  let ?u = "output_row pos (snd x)"
  have valid: "unspent_valid ?u" by (simp add: output_row_def unspent_valid_def)
  have "ledger_contains (outpoint_key_new (uo_outpoint ?u)) l = Inr False"
      and "ledger_create blake2b network (outpoint_key_new (uo_outpoint ?u)) ?u l = Inr (snd (snd q))"
    using assms(2) by (auto simp: p scan_output_def ledger_ops_def Let_def and_then_Ok_iff output_row_def
        unspent_output_new_Ok_iff split: if_splits)
  then show ?thesis
    using assms(1) ledger_create_history [of blake2b network l ?u] ledger_create_Ok(4) valid p by auto
qed

lemma scan_address_history:
  assumes "ledger_inv blake2b network (snd p)"
    and "scan_address (ledger_ops blake2b network) pos a p = Inr q"
  shows "ledger_inv blake2b network (snd q) \<and> ledger_history (snd q) = ledger_history (snd p) \<union> {}"
  using assms ledger_record_history ledger_record_inv
  by (cases p) (fastforce simp: scan_address_def ledger_ops_def Let_def and_then_Ok_iff)

definition transaction_history ::
    "canonical_block_facts \<Rightarrow> nat \<times> canonical_transaction_facts \<Rightarrow>
       (unspent_output + transparent_outpoint \<times> transaction_position \<times> u32) set" where
  "transaction_history facts numbered =
     (let pos = transaction_position_of facts numbered in
      (\<Union>input \<in> set (transparent_inputs (snd numbered)). Inr ` spent_by_input pos input) \<union>
      Inl ` output_row pos ` set (transparent_outputs (snd numbered)))"

lemma set_enumerate_snd: "(\<Union>x \<in> set (enumerate n xs). f (snd x)) = (\<Union>x \<in> set xs. f x)"
proof -
  have "(\<Union>x \<in> set (enumerate n xs). f (snd x)) = (\<Union>y \<in> set (map snd (enumerate n xs)). f y)"
    by (simp del: map_snd_enumerate)
  then show ?thesis by simp
qed

lemma scan_transaction_history:
  assumes inv: "ledger_inv blake2b network (snd p)"
    and scan: "scan_transaction (ledger_ops blake2b network) (facts_block facts) numbered p = Inr q"
  shows "ledger_inv blake2b network (snd q) \<and>
         ledger_history (snd q) = ledger_history (snd p) \<union> transaction_history facts numbered"
proof -
  let ?ops = "ledger_ops blake2b network" and ?pos = "transaction_position_of facts numbered"
  obtain loc l where p: "p = (loc, l)" by (cases p)
  have index: "u32_try_from (fst numbered) = Inr (of_nat (fst numbered))"
    using scan by (auto simp: p scan_transaction_def Let_def and_then_Ok_iff u32_try_from_def split: if_splits)
  from scan obtain p1 p2 where
    p1: "try_fold (scan_input ?ops ?pos) (enumerate 0 (transparent_inputs (snd numbered))) ([], loc, l) = Inr p1"
    and p2: "try_fold (scan_output ?ops ?pos) (enumerate 0 (transparent_outputs (snd numbered))) p1 = Inr p2"
    and q: "try_fold (scan_address ?ops ?pos) (fst p2) (snd p2) = Inr q"
    unfolding p scan_transaction_def Let_def prod.case index transaction_position_of_def
    by (auto simp: and_then_Ok_iff)
  have 1: "ledger_inv blake2b network (snd (snd p1)) \<and> ledger_history (snd (snd p1)) =
      ledger_history l \<union> (\<Union>x \<in> set (enumerate 0 (transparent_inputs (snd numbered))). Inr ` spent_by_input ?pos (snd x))"
    using try_fold_collect [OF p1, where P = "\<lambda>q. ledger_inv blake2b network (snd (snd q))"
        and g = "\<lambda>q. ledger_history (snd (snd q))"] inv scan_input_history p by simp
  then have 2: "ledger_inv blake2b network (snd (snd p2)) \<and> ledger_history (snd (snd p2)) =
      ledger_history (snd (snd p1)) \<union>
        (\<Union>x \<in> set (enumerate 0 (transparent_outputs (snd numbered))). {Inl (output_row ?pos (snd x))})"
    by (intro try_fold_collect [OF p2, where P = "\<lambda>q. ledger_inv blake2b network (snd (snd q))"
        and g = "\<lambda>q. ledger_history (snd (snd q))"] scan_output_history) simp
  then have "ledger_inv blake2b network (snd q) \<and> ledger_history (snd q) =
      ledger_history (snd (snd p2)) \<union> (\<Union>x \<in> set (fst p2). {})"
    by (intro try_fold_collect [OF q, where P = "\<lambda>q. ledger_inv blake2b network (snd q)"
        and g = "\<lambda>q. ledger_history (snd q)"] scan_address_history) simp
  then show ?thesis
    using 1 2 by (auto simp: p transaction_history_def Let_def
        set_enumerate_snd [of "\<lambda>x. Inr ` spent_by_input ?pos x"]
        set_enumerate_snd [of "\<lambda>x. {Inl (output_row ?pos x)}"])
qed

lemma scan_block_history:
  assumes "ledger_inv blake2b network l"
    and "scan_block (ledger_ops blake2b network) (facts_block facts) facts l = Inr (loc, l')"
  shows "ledger_history l' = ledger_history l \<union> (\<Union>x \<in> set (enumerate 0 (transactions facts)). transaction_history facts x)"
  using try_fold_collect [OF assms(2) [unfolded scan_block_def], where P = "\<lambda>q. ledger_inv blake2b network (snd q)"
        and g = "\<lambda>q. ledger_history (snd q)"] scan_transaction_history assms(1)
  by simp

lemma chain_history:
  "(\<Union>facts \<in> set blocks. \<Union>x \<in> set (enumerate 0 (transactions facts)). transaction_history facts x) =
     Inl ` chain_created blocks \<union> Inr ` chain_spent blocks"
  by (fastforce simp: chain_created_def chain_spent_def transaction_history_def Let_def spent_by_input_def
      split: if_splits)

section \<open>The invariant of reachable oracles\<close>

definition contiguous :: "canonical_block_facts list \<Rightarrow> bool" where
  "contiguous blocks \<longleftrightarrow>
     (\<forall>i < length blocks. unat (header_height (block_header (blocks ! i))) = Suc i) \<and>
     (\<forall>i. Suc i < length blocks \<longrightarrow>
        header_parent_hash (block_header (blocks ! Suc i)) = header_block_hash (block_header (blocks ! i)))"

text \<open>The digest of a chain of blocks, computed from the start.\<close>

definition chain_digest :: "sha256_fn \<Rightarrow> canonical_block_facts list \<Rightarrow> sequence_length_overflow + sequence_digest" where
  "chain_digest sha256 blocks =
     and_then (append_block_digests sha256 blocks (builder_new sha256 SequenceDigestV1))
       (\<lambda>builder. Ok (builder_finish builder))"

definition undo_matches :: "sha256_fn \<Rightarrow> canonical_block_facts list \<Rightarrow> nat \<Rightarrow> reorg_undo \<Rightarrow> bool" where
  "undo_matches sha256 blocks i undo \<longleftrightarrow>
     ru_block undo = facts_block (blocks ! i) \<and>
     ru_parent_hash undo = header_parent_hash (block_header (blocks ! i)) \<and>
     chain_digest sha256 (take i blocks) = Inr (ru_source_sequence_digest_before undo) \<and>
     chain_digest sha256 (take (Suc i) blocks) = Inr (ru_source_sequence_digest_after undo)"

definition in_window :: "nat \<Rightarrow> u32 \<Rightarrow> block_height \<Rightarrow> bool" where
  "in_window n depth h \<longleftrightarrow> 0 < unat h \<and> unat h \<le> n \<and> n < unat h + unat depth"

definition undo_window :: "sha256_fn \<Rightarrow> canonical_block_facts list \<Rightarrow> serial_oracle \<Rightarrow> bool" where
  "undo_window sha256 blocks orc \<longleftrightarrow>
     (\<forall>h. (fmlookup (or_reorg_undo orc) h \<noteq> None \<longleftrightarrow> in_window (length blocks) (or_supported_reorg_depth orc) h) \<and>
          (\<forall>undo. fmlookup (or_reorg_undo orc) h = Some undo \<longrightarrow> undo_matches sha256 blocks (unat h - 1) undo))"

definition oracle_inv ::
    "blake2b_fn \<Rightarrow> sha256_fn \<Rightarrow> network \<Rightarrow> u32 \<Rightarrow> canonical_block_facts list \<Rightarrow> serial_oracle \<Rightarrow> bool" where
  "oracle_inv blake2b sha256 network depth blocks orc \<longleftrightarrow>
     or_network orc = network \<and> or_supported_reorg_depth orc = depth \<and>
     ledger_inv blake2b network (or_ledger orc) \<and>
     ledger_history (or_ledger orc) = Inl ` chain_created blocks \<union> Inr ` chain_spent blocks \<and>
     chain_digest sha256 blocks = Inr (or_source_sequence_digest orc) \<and>
     contiguous blocks \<and>
     or_last_projected_block orc = (if blocks = [] then None else Some (facts_block (last blocks))) \<and>
     (\<forall>k e. fmlookup (lg_address_transactions (or_ledger orc)) k = Some e \<longrightarrow>
        unat (transaction_key_block_height k) \<le> length blocks)"

lemma chain_digest_snoc:
  assumes "chain_digest sha256 blocks = Inr d"
  shows "chain_digest sha256 (blocks @ [facts]) =
    and_then (try_append sha256 (facts_digest sha256 facts FactsDigestV1) (resume_from_prefix d))
      (\<lambda>builder. Ok (builder_finish builder))"
proof -
  have "append_block_digests sha256 blocks (builder_new sha256 SequenceDigestV1) = Inr (resume_from_prefix d)"
    using assms by (auto simp: chain_digest_def and_then_Ok_iff)
  then show ?thesis
    by (simp add: chain_digest_def append_block_digests_def try_fold_append and_then_assoc)
qed

lemma apply_block_in_place_Ok:
  assumes "apply_block_in_place blake2b sha256 facts orc = Inr (undo, orc')"
  obtains builder loc l where
    "validate_next_block (facts_block facts) (header_parent_hash (block_header facts)) orc = Inr ()"
    "try_append sha256 (facts_digest sha256 facts FactsDigestV1)
       (resume_from_prefix (or_source_sequence_digest orc)) = Inr builder"
    "scan_block (ledger_ops blake2b (or_network orc)) (facts_block facts) facts (or_ledger orc) = Inr (loc, l)"
    "undo = block_undo (facts_block facts) (header_parent_hash (block_header facts))
       (or_source_sequence_digest orc) (builder_finish builder) loc"
    "orc' = orc\<lparr>or_last_projected_block := Some (facts_block facts),
       or_source_sequence_digest := builder_finish builder, or_ledger := l,
       or_reorg_undo := retain_reorg_undo (or_supported_reorg_depth orc) undo (or_reorg_undo orc)\<rparr>"
  using assms by (auto simp: apply_block_in_place_def Let_def and_then_Ok_iff)

lemma apply_block_Ok_iff:
  "apply_block blake2b sha256 facts orc = (Inr undo, orc') \<longleftrightarrow>
     apply_block_in_place blake2b sha256 facts orc = Inr (undo, orc')"
  by (auto simp: apply_block_def split: sum.splits prod.splits)

lemma apply_block_Err_iff:
  "apply_block blake2b sha256 facts orc = (Inl e, orc') \<longleftrightarrow>
     apply_block_in_place blake2b sha256 facts orc = Inl e \<and> orc' = orc"
  by (auto simp: apply_block_def split: sum.splits prod.splits)

lemma next_block_height:
  assumes "oracle_inv blake2b sha256 network depth blocks orc"
    and "validate_next_block (facts_block facts) (header_parent_hash (block_header facts)) orc = Inr ()"
  shows "unat (id_height (facts_block facts)) = Suc (length blocks)"
    and "contiguous (blocks @ [facts])"
proof -
  have last: "header_parent_hash (block_header facts) = header_block_hash (block_header (last blocks)) \<and>
      unat (header_height (block_header facts)) = Suc (unat (header_height (block_header (last blocks))))"
    if "blocks \<noteq> []"
    using assms that by (auto simp: oracle_inv_def validate_next_block_def facts_block_def
        block_height_next_Some_iff split: if_splits)
  show height: "unat (id_height (facts_block facts)) = Suc (length blocks)"
  proof (cases "blocks = []")
    case True
    then show ?thesis using assms by (simp add: oracle_inv_def validate_next_block_def split: if_splits)
  next
    case False
    then show ?thesis
      using last assms(1) by (simp add: oracle_inv_def contiguous_def last_conv_nth facts_block_def)
  qed
  have nth_last: "blocks ! i = last blocks \<and> blocks \<noteq> []" if "Suc i = length blocks" for i
    using that by (cases blocks rule: rev_cases) auto
  show "contiguous (blocks @ [facts])"
    using assms(1) last height nth_last
    by (auto simp: oracle_inv_def contiguous_def nth_append less_Suc_eq facts_block_def)
qed

lemma oracle_inv_start:
  "oracle_inv blake2b sha256 network depth [] (with_supported_reorg_depth sha256 network depth)"
  using ledger_inv_empty [of blake2b network]
  by (simp add: oracle_inv_def with_supported_reorg_depth_def chain_digest_def append_block_digests_def
      contiguous_def ledger_history_def ledger_created_def ledger_spent_def chain_created_def chain_spent_def)
    (simp add: ledger_empty_def fmran'_empty)

lemma oracle_inv_accept:
  assumes inv: "oracle_inv blake2b sha256 network depth blocks orc"
    and "apply_block_in_place blake2b sha256 facts orc = Inr (undo, orc')"
  shows "oracle_inv blake2b sha256 network depth (blocks @ [facts]) orc'"
  using assms(2)
proof (rule apply_block_in_place_Ok)
  fix builder loc l
  assume valid: "validate_next_block (facts_block facts) (header_parent_hash (block_header facts)) orc = Inr ()"
    and builder: "try_append sha256 (facts_digest sha256 facts FactsDigestV1)
       (resume_from_prefix (or_source_sequence_digest orc)) = Inr builder"
    and scan: "scan_block (ledger_ops blake2b (or_network orc)) (facts_block facts) facts (or_ledger orc) = Inr (loc, l)"
    and orc': "orc' = orc\<lparr>or_last_projected_block := Some (facts_block facts),
       or_source_sequence_digest := builder_finish builder, or_ledger := l,
       or_reorg_undo := retain_reorg_undo (or_supported_reorg_depth orc) undo (or_reorg_undo orc)\<rparr>"
  have net: "or_network orc = network" and ledger: "ledger_inv blake2b network (or_ledger orc)"
    using inv by (simp_all add: oracle_inv_def)
  note next_block = next_block_height [OF inv valid] and scan' = scan [unfolded net]
  have below: "ledger_below (id_height (facts_block facts)) (or_ledger orc)"
    using inv next_block(1) by (force simp: ledger_below_def oracle_inv_def word_less_nat_alt)
  have effect: "address_effect (facts_block facts) (or_ledger orc) loc l k" for k
    using scan_block_ledger(2) [OF scan' ledger below] by (simp add: block_effect_def)
  have "unat (transaction_key_block_height k) \<le> Suc (length blocks)"
    if "fmlookup (lg_address_transactions l) k = Some e" for k e
    using effect [of k] that inv next_block(1)
    by (force simp: address_effect_def oracle_inv_def split: if_splits)
  moreover have "ledger_history l = Inl ` chain_created (blocks @ [facts]) \<union> Inr ` chain_spent (blocks @ [facts])"
    using scan_block_history [OF ledger scan'] inv chain_history [of blocks] chain_history [of "blocks @ [facts]"]
    by (simp add: oracle_inv_def Un_commute)
  moreover have "chain_digest sha256 (blocks @ [facts]) = Inr (builder_finish builder)"
    using inv builder by (simp add: oracle_inv_def chain_digest_snoc)
  ultimately show ?thesis
    using inv scan_block_ledger(1) [OF scan' ledger] next_block(2) by (simp add: oracle_inv_def orc')
qed

lemma undo_matches_append:
  "i < length blocks \<Longrightarrow> undo_matches sha256 (blocks @ [facts]) i undo = undo_matches sha256 blocks i undo"
  by (simp add: undo_matches_def nth_append)

lemma fmlookup_retain_reorg_undo:
  assumes "0 < depth"
  shows "fmlookup (retain_reorg_undo depth undo undos) h =
    (if unat (id_height (ru_block undo)) < unat h + unat depth
     then (if h = id_height (ru_block undo) then Some undo else fmlookup undos h) else None)"
proof -
  have "h \<ge> saturating_sub (id_height (ru_block undo)) (saturating_sub depth 1) \<longleftrightarrow>
      unat (id_height (ru_block undo)) < unat h + unat depth"
    using assms by (simp add: word_le_nat_alt unat_saturating_sub word_less_nat_alt) linarith
  moreover have "0 < unat depth" using assms by (simp add: word_less_nat_alt)
  ultimately show ?thesis using assms by (auto simp: retain_reorg_undo_def Let_def)
qed

lemma undo_window_accept:
  assumes inv: "oracle_inv blake2b sha256 network depth blocks orc"
    and window: "undo_window sha256 blocks orc"
    and "apply_block_in_place blake2b sha256 facts orc = Inr (undo, orc')"
  shows "undo_window sha256 (blocks @ [facts]) orc'"
  using assms(3)
proof (rule apply_block_in_place_Ok)
  fix builder loc l
  let ?d = "or_supported_reorg_depth orc"
  assume valid: "validate_next_block (facts_block facts) (header_parent_hash (block_header facts)) orc = Inr ()"
    and builder: "try_append sha256 (facts_digest sha256 facts FactsDigestV1)
       (resume_from_prefix (or_source_sequence_digest orc)) = Inr builder"
    and undo: "undo = block_undo (facts_block facts) (header_parent_hash (block_header facts))
       (or_source_sequence_digest orc) (builder_finish builder) loc"
    and orc': "orc' = orc\<lparr>or_last_projected_block := Some (facts_block facts),
       or_source_sequence_digest := builder_finish builder, or_ledger := l,
       or_reorg_undo := retain_reorg_undo ?d undo (or_reorg_undo orc)\<rparr>"
  have height: "unat (id_height (ru_block undo)) = Suc (length blocks)"
    using next_block_height(1) [OF inv valid] by (simp add: undo block_undo_def)
  have matches: "undo_matches sha256 (blocks @ [facts]) (length blocks) undo"
    using inv builder
    by (simp add: undo_matches_def undo block_undo_def oracle_inv_def chain_digest_snoc)
  have other: "unat h \<noteq> Suc (length blocks)" if "h \<noteq> id_height (ru_block undo)" for h
    using that height by (metis word_unat_eq_iff)
  show ?thesis
    unfolding undo_window_def
  proof (intro allI)
    fix h
    note old = window [unfolded undo_window_def, rule_format, of h]
    show "(fmlookup (or_reorg_undo orc') h \<noteq> None \<longleftrightarrow>
          in_window (length (blocks @ [facts])) (or_supported_reorg_depth orc') h) \<and>
        (\<forall>undo. fmlookup (or_reorg_undo orc') h = Some undo \<longrightarrow>
          undo_matches sha256 (blocks @ [facts]) (unat h - 1) undo)"
    proof (cases "0 < ?d")
      case True
      then show ?thesis
        using old height matches other [of h]
        by (auto simp: orc' fmlookup_retain_reorg_undo undo_matches_append in_window_def word_less_nat_alt
            split: if_splits)
    next
      case False
      then show ?thesis
        using old by (auto simp: orc' retain_reorg_undo_def in_window_def word_less_nat_alt)
    qed
  qed
qed

lemma oracle_reaches_inv:
  assumes "oracle_reaches blake2b sha256 network depth blocks orc"
  shows "oracle_inv blake2b sha256 network depth blocks orc \<and> undo_window sha256 blocks orc"
  using assms
proof induction
  case start
  then show ?case
    using oracle_inv_start by (auto simp: undo_window_def in_window_def with_supported_reorg_depth_def)
next
  case (accept blocks orc facts undo orc')
  then show ?case
    using oracle_inv_accept undo_window_accept unfolding apply_block_Ok_iff by blast
next
  case (reject blocks orc facts e orc')
  then show ?case by (simp add: apply_block_Err_iff)
qed

section \<open>Rows and history\<close>

lemma Inl_Inr_inject: "Inl ` A \<union> Inr ` B = Inl ` C \<union> Inr ` D \<longleftrightarrow> A = C \<and> B = D"
proof
  assume eq: "Inl ` A \<union> Inr ` B = Inl ` C \<union> Inr ` D"
  have "Inl -` (Inl ` A \<union> Inr ` B) = A" "Inr -` (Inl ` A \<union> Inr ` B) = B"
    "Inl -` (Inl ` C \<union> Inr ` D) = C" "Inr -` (Inl ` C \<union> Inr ` D) = D"
    by auto
  then show "A = C \<and> B = D" using eq by simp
qed simp

lemma ledger_lookup_history:
  assumes "ledger_inv blake2b network l"
  shows "fmlookup (lg_unspent_outputs l) (outpoint_key_new p) = Some u \<longleftrightarrow>
           u \<in> ledger_created l \<and> uo_outpoint u = p \<and> (\<forall>pos i. (p, pos, i) \<notin> ledger_spent l)"
    and "fmlookup (lg_spent_outputs l) (outpoint_key_new p) = Some s \<longleftrightarrow>
           so_output s \<in> ledger_created l \<and> uo_outpoint (so_output s) = p \<and>
           (p, so_spent_at s, so_input_index s) \<in> ledger_spent l"
proof -
  have unspent: "k = outpoint_key_new (uo_outpoint v) \<and> fmlookup (lg_spent_outputs l) k = None"
    if "fmlookup (lg_unspent_outputs l) k = Some v" for k v
    using assms that by (simp add: ledger_inv_def)
  have spent: "k = outpoint_key_new (uo_outpoint (so_output t))"
    if "fmlookup (lg_spent_outputs l) k = Some t" for k t
    using assms that by (simp add: ledger_inv_def)
  have unspent_at: "uo_outpoint v = p" if "fmlookup (lg_unspent_outputs l) (outpoint_key_new p) = Some v" for v
    using unspent [OF that] by simp
  have spent_at: "uo_outpoint (so_output t) = p" if "fmlookup (lg_spent_outputs l) (outpoint_key_new p) = Some t" for t
    using spent [OF that] by simp
  have unspent_ran: "v \<in> fmran' (lg_unspent_outputs l) \<longleftrightarrow>
      fmlookup (lg_unspent_outputs l) (outpoint_key_new (uo_outpoint v)) = Some v" for v
    unfolding fmlookup_ran'_iff using unspent by blast
  have spent_ran: "t \<in> fmran' (lg_spent_outputs l) \<longleftrightarrow>
      fmlookup (lg_spent_outputs l) (outpoint_key_new (uo_outpoint (so_output t))) = Some t" for t
    unfolding fmlookup_ran'_iff using spent by blast
  have created_iff: "v \<in> ledger_created l \<longleftrightarrow>
      fmlookup (lg_unspent_outputs l) (outpoint_key_new (uo_outpoint v)) = Some v \<or>
      (\<exists>t. fmlookup (lg_spent_outputs l) (outpoint_key_new (uo_outpoint v)) = Some t \<and> so_output t = v)" for v
    unfolding ledger_created_def Un_iff image_iff Bex_def unspent_ran spent_ran by auto
  have spent_iff: "(p, pos, i) \<in> ledger_spent l \<longleftrightarrow>
      (\<exists>t. fmlookup (lg_spent_outputs l) (outpoint_key_new p) = Some t \<and> so_spent_at t = pos \<and> so_input_index t = i)"
    for pos i
    unfolding ledger_spent_def image_iff Bex_def spent_ran using spent_at by auto
  have excl: "fmlookup (lg_spent_outputs l) (outpoint_key_new p) = None"
    if "fmlookup (lg_unspent_outputs l) (outpoint_key_new p) = Some v" for v
    using unspent [OF that] by blast
  show "fmlookup (lg_unspent_outputs l) (outpoint_key_new p) = Some u \<longleftrightarrow>
      u \<in> ledger_created l \<and> uo_outpoint u = p \<and> (\<forall>pos i. (p, pos, i) \<notin> ledger_spent l)"
    (is "?l \<longleftrightarrow> ?r")
  proof
    assume ?l
    then show ?r unfolding created_iff spent_iff using excl [of u] unspent_at [of u] by simp
  next
    assume ?r
    then show ?l unfolding created_iff spent_iff by auto
  qed
  show "fmlookup (lg_spent_outputs l) (outpoint_key_new p) = Some s \<longleftrightarrow>
      so_output s \<in> ledger_created l \<and> uo_outpoint (so_output s) = p \<and>
      (p, so_spent_at s, so_input_index s) \<in> ledger_spent l"
    (is "?l \<longleftrightarrow> ?r")
  proof
    assume ?l
    then show ?r unfolding created_iff spent_iff using spent_at [of s] by simp
  next
    assume ?r
    then obtain t where "fmlookup (lg_spent_outputs l) (outpoint_key_new p) = Some t"
      and "so_spent_at t = so_spent_at s" "so_input_index t = so_input_index s"
      unfolding spent_iff by blast
    moreover from this(1) have "so_output t = so_output s"
      using \<open>?r\<close> excl unfolding created_iff by force
    ultimately show ?l by (cases s; cases t) simp
  qed
qed

section \<open>Evaluation on a two-block chain\<close>

text \<open>Block 1 creates two outputs; block 2 spends the first of them.\<close>

definition sample_block_1 :: canonical_block_facts where
  "sample_block_1 = sample_block 1 1 0 [sample_transaction 7 [] [sample_output 0 5 9, sample_output 1 3 9]]"

definition sample_block_2 :: canonical_block_facts where
  "sample_block_2 = sample_block 2 2 1 [sample_transaction 8 [sample_input 0 7 0] [sample_output 0 4 9]]"

definition sample_oracle_1 :: serial_oracle where
  "sample_oracle_1 = snd (apply_block (\<lambda>_ _. []) (\<lambda>_. filled 0) sample_block_1
     (with_supported_reorg_depth (\<lambda>_. filled 0) ZcashMainnet 1))"

definition sample_oracle_2 :: serial_oracle where
  "sample_oracle_2 = snd (apply_block (\<lambda>_ _. []) (\<lambda>_. filled 0) sample_block_2 sample_oracle_1)"

lemmas oracle_evaluation =
  apply_block_def apply_block_in_place_def Let_def sample_defs facts_block_def validate_next_block_def
  with_supported_reorg_depth_def try_append_def resume_from_prefix_def builder_finish_def checked_add_def
  scan_block_def scan_transaction_def u32_try_from_def scan_output_def scan_input_def ledger_ops_def
  ledger_contains_def ledger_create_def ledger_spend_def unspent_output_new_def ledger_empty_def
  add_unspent_output_def subtract_unspent_output_def checked_sub_def balance_of_def scan_address_def ledger_record_def insort_insert_key_def
  block_height_next_def is_coinbase_sentinel_def coinbase_sentinel_def sample_block_1_def sample_block_2_def

lemma sample_oracle_1_reaches:
  "oracle_reaches (\<lambda>_ _. []) (\<lambda>_. filled 0) ZcashMainnet 1 [sample_block_1] sample_oracle_1"
proof -
  let ?start = "with_supported_reorg_depth (\<lambda>_. filled 0) ZcashMainnet 1"
  have "\<exists>undo. apply_block (\<lambda>_ _. []) (\<lambda>_. filled 0) sample_block_1 ?start = (Ok undo, sample_oracle_1)"
    unfolding sample_oracle_1_def by (simp add: oracle_evaluation)
  then show ?thesis
    using oracle_reaches.accept [OF oracle_reaches.start] by fastforce
qed

lemma sample_oracle_2_reaches:
  "oracle_reaches (\<lambda>_ _. []) (\<lambda>_. filled 0) ZcashMainnet 1 [sample_block_1, sample_block_2] sample_oracle_2"
proof -
  have "\<exists>undo. apply_block (\<lambda>_ _. []) (\<lambda>_. filled 0) sample_block_2 sample_oracle_1 = (Ok undo, sample_oracle_2)"
    unfolding sample_oracle_2_def sample_oracle_1_def by (simp add: oracle_evaluation)
  then show ?thesis
    using oracle_reaches.accept [OF sample_oracle_1_reaches] by fastforce
qed
section \<open>The functional properties\<close>

text \<open>
  C5: after any sequence of \<open>apply_block\<close> calls, an outpoint is found unspent exactly when the
  accepted blocks create it and no non-coinbase input of them spends it, and it is found spent by
  an input exactly when the blocks create it and that input spends it. The rows found carry the
  value, script, address and position the block facts give.
\<close>

theorem oracle_outputs_match_history:
  assumes "oracle_reaches blake2b sha256 network depth blocks orc"
  shows "(find_unspent_output p orc = Some u \<longleftrightarrow>
            u \<in> chain_created blocks \<and> uo_outpoint u = p \<and> (\<forall>pos i. (p, pos, i) \<notin> chain_spent blocks)) \<and>
         (find_spent_output p orc = Some s \<longleftrightarrow>
            so_output s \<in> chain_created blocks \<and> uo_outpoint (so_output s) = p \<and>
            (p, so_spent_at s, so_input_index s) \<in> chain_spent blocks)"
proof -
  have inv: "ledger_inv blake2b network (or_ledger orc)"
      "ledger_history (or_ledger orc) = Inl ` chain_created blocks \<union> Inr ` chain_spent blocks"
    using oracle_reaches_inv [OF assms] by (simp_all add: oracle_inv_def)
  have "ledger_created (or_ledger orc) = chain_created blocks" "ledger_spent (or_ledger orc) = chain_spent blocks"
    using inv(2) unfolding ledger_history_def by (simp_all add: Inl_Inr_inject)
  then show ?thesis
    using ledger_lookup_history [OF inv(1)] by (simp add: find_unspent_output_def find_spent_output_def)
qed

theorem oracle_outputs_match_history_witness:
  "find_unspent_output \<lparr>op_transaction_id = filled 7, op_output_index = 1\<rparr> sample_oracle_2 =
     Some (output_row (transaction_position_of sample_block_1 (0, hd (transactions sample_block_1))) (sample_output 1 3 9))"
  using oracle_outputs_match_history [OF sample_oracle_2_reaches, THEN conjunct1]
  by (simp add: chain_created_def chain_spent_def output_row_def transaction_position_of_def oracle_evaluation)

text \<open>
  C10: after any sequence of \<open>apply_block\<close> calls, the balance of every address is the total value of
  its unspent outputs, the UTXO summary counts and sums the unspent outputs without wrap-around, and
  the commitment is the one the set of unspent outputs has.
\<close>

theorem oracle_accounts_follow_outputs:
  assumes "oracle_reaches blake2b sha256 network depth blocks orc"
  shows "unat (oracle_address_balance a orc) = address_value a (lg_unspent_outputs (or_ledger orc)) \<and>
         unat (us_utxo_count (oracle_utxo_summary orc)) = fcard (fmdom (lg_unspent_outputs (or_ledger orc))) \<and>
         unat (us_total_value_zat (oracle_utxo_summary orc)) = total_value (lg_unspent_outputs (or_ledger orc)) \<and>
         commitment_lanes (us_commitment (oracle_utxo_summary orc)) =
           set_lanes blake2b network (lg_unspent_outputs (or_ledger orc))"
proof -
  have "accounts blake2b network (lg_unspent_outputs (or_ledger orc)) (or_ledger orc)"
    using oracle_reaches_inv [OF assms] by (simp add: oracle_inv_def ledger_inv_def)
  moreover have "fm_sum (\<lambda>_ _. 1 :: nat) m = fcard (fmdom m)" for m :: "(outpoint_key, unspent_output) fmap"
    by (simp add: fm_sum_def fcard.rep_eq fmdom'_alt_def)
  ultimately show ?thesis
    by (simp add: accounts_def oracle_address_balance_def balance_of_def oracle_utxo_summary_def)
qed

theorem oracle_accounts_follow_outputs_witness:
  "unat (oracle_address_balance (filled 9) sample_oracle_2) =
     address_value (filled 9) (lg_unspent_outputs (or_ledger sample_oracle_2))"
  using oracle_accounts_follow_outputs [OF sample_oracle_2_reaches] by blast

text \<open>
  C22: the oracle accepts only blocks that extend the chain it has projected, from height one; its
  source digest is the sequence digest of exactly the accepted blocks; and with a supported reorg
  depth \<open>d\<close> it retains the undo records of exactly the last \<open>d\<close> accepted blocks, each with the block,
  the parent and the digests before and after it.
\<close>

theorem oracle_digest_and_undo_window:
  assumes "oracle_reaches blake2b sha256 network depth blocks orc"
  shows "contiguous blocks \<and> chain_digest sha256 blocks = Inr (or_source_sequence_digest orc) \<and>
         (fmlookup (or_reorg_undo orc) h \<noteq> None \<longleftrightarrow>
            0 < unat h \<and> unat h \<le> length blocks \<and> length blocks < unat h + unat depth) \<and>
         (fmlookup (or_reorg_undo orc) h = Some undo \<longrightarrow> undo_matches sha256 blocks (unat h - 1) undo)"
proof -
  have "oracle_inv blake2b sha256 network depth blocks orc"
    and window: "undo_window sha256 blocks orc"
    using oracle_reaches_inv [OF assms] by simp_all
  then have "contiguous blocks" "chain_digest sha256 blocks = Inr (or_source_sequence_digest orc)"
    "or_supported_reorg_depth orc = depth"
    by (simp_all add: oracle_inv_def)
  then show ?thesis
    using window [unfolded undo_window_def in_window_def, rule_format, of h] by simp
qed

theorem oracle_digest_and_undo_window_witness:
  "fmlookup (or_reorg_undo sample_oracle_2) 1 = None \<and> fmlookup (or_reorg_undo sample_oracle_2) 2 \<noteq> None"
  using oracle_digest_and_undo_window [OF sample_oracle_2_reaches, of 1]
    oracle_digest_and_undo_window [OF sample_oracle_2_reaches, of 2] by simp

text \<open>
  C23: a block rejected by an oracle that any sequence of calls has reached leaves it unchanged, and
  the reason is a detached block, an exhausted sequence counter, ill-numbered or duplicate facts, an
  unknown or already spent predecessor, or an overflow. The underflow errors of the source do not
  occur.
\<close>

theorem oracle_rejections:
  assumes "oracle_reaches blake2b sha256 network depth blocks orc"
    and "apply_block blake2b sha256 facts orc = (Err e, orc')"
  shows "orc' = orc \<and>
         e \<in> {NonContiguousBlock, SourceSequenceLength SequenceLengthOverflow,
              FactIndexOverflow, FactIndexMismatch, DuplicateOutput, OutputCreatorMismatch,
              MissingTransparentPredecessor, DuplicateSpend,
              AddressBalanceOverflow, UtxoCountOverflow, UtxoValueOverflow}"
proof -
  have inv: "ledger_inv blake2b (or_network orc) (or_ledger orc)"
    using oracle_reaches_inv [OF assms(1)] by (simp add: oracle_inv_def)
  have err: "apply_block_in_place blake2b sha256 facts orc = Inl e" and "orc' = orc"
    using assms(2) by (simp_all add: apply_block_Err_iff)
  have length_err: "e = SourceSequenceLength SequenceLengthOverflow"
    if "map_err SourceSequenceLength r = Inl e" for r :: "sequence_length_overflow + sequence_digest_builder"
    using that by (cases r) (auto, metis sequence_length_overflow.exhaust)
  have next_err: "e = NonContiguousBlock" if "validate_next_block b h orc = Inl e" for b h
    using that by (auto simp: validate_next_block_def split: option.splits if_splits)
  have "e = NonContiguousBlock \<or> e = SourceSequenceLength SequenceLengthOverflow \<or> e \<in> ledger_errors"
    using err scan_block_ledger_Err [OF _ inv, of "facts_block facts" facts e] length_err next_err
    unfolding apply_block_in_place_def Let_def and_then_Err_iff
    by (elim disjE exE conjE) (simp_all split: prod.splits)
  then show ?thesis
    using \<open>orc' = orc\<close> unfolding ledger_errors_def loop_errors_def by blast
qed

theorem oracle_rejections_witness:
  "NonContiguousBlock \<in> {NonContiguousBlock, SourceSequenceLength SequenceLengthOverflow,
     FactIndexOverflow, FactIndexMismatch, DuplicateOutput, OutputCreatorMismatch,
     MissingTransparentPredecessor, DuplicateSpend,
     AddressBalanceOverflow, UtxoCountOverflow, UtxoValueOverflow} \<and>
   apply_block (\<lambda>_ _. []) (\<lambda>_. filled 0) sample_block_1 sample_oracle_1 = (Err NonContiguousBlock, sample_oracle_1)"
proof -
  have rejected: "apply_block (\<lambda>_ _. []) (\<lambda>_. filled 0) sample_block_1 sample_oracle_1 =
      (Err NonContiguousBlock, sample_oracle_1)"
    unfolding sample_oracle_1_def by (simp add: oracle_evaluation)
  from oracle_rejections [OF sample_oracle_1_reaches this] rejected show ?thesis by blast
qed

end
