(* ===== verification/Wallet_Machine.thy ===== *)
theory Wallet_Machine
  imports Wallet_Transition Oracle_History
begin

text \<open>
  The abstract wallet machine: the row operations of the transition planner on a ledger and a map of
  undo records instead of encoded rows. It is the specification the durable planner is refined
  against. The central fact of this theory is that rolling a block back restores exactly the rows
  from before the block.
\<close>

section \<open>The machine\<close>

record machine =
  mr_ledger :: ledger
  mr_undo :: "(block_height, reorg_undo) fmap"

definition machine_contains :: "outpoint_key \<Rightarrow> machine \<Rightarrow> wallet_error + bool" where
  "machine_contains key m = map_err Contract (ledger_contains key (mr_ledger m))"

definition machine_spend ::
    "blake2b_fn \<Rightarrow> network \<Rightarrow> outpoint_key \<Rightarrow> transaction_position \<Rightarrow> u32 \<Rightarrow> machine \<Rightarrow>
       wallet_error + unspent_output \<times> machine" where
  "machine_spend blake2b network key pos i m =
     and_then (map_err Contract (ledger_spend blake2b network key pos i (mr_ledger m))) (\<lambda>(u, l).
     Ok (u, m\<lparr>mr_ledger := l\<rparr>))"

definition machine_insert_unspent ::
    "blake2b_fn \<Rightarrow> network \<Rightarrow> unspent_output \<Rightarrow> machine \<Rightarrow> wallet_error + machine" where
  "machine_insert_unspent blake2b network u m =
     (let key = outpoint_key_new (uo_outpoint u) in
      and_then (machine_contains key m) (\<lambda>known.
      if known then Err (Contract DuplicateOutput)
      else and_then (map_err Contract (ledger_create blake2b network key u (mr_ledger m))) (\<lambda>l.
           Ok (m\<lparr>mr_ledger := l\<rparr>))))"

definition machine_record :: "address_transaction \<Rightarrow> machine \<Rightarrow> wallet_error + machine" where
  "machine_record e m =
     (if fmlookup (lg_address_transactions (mr_ledger m)) (at_key e) \<noteq> None
      then rejected ''wallet transition attempts to overwrite an existing logical row''
      else and_then (map_err Contract (ledger_record e (mr_ledger m))) (\<lambda>l. Ok (m\<lparr>mr_ledger := l\<rparr>)))"

definition machine_block_ops :: "blake2b_fn \<Rightarrow> network \<Rightarrow> (machine, wallet_error) block_ops" where
  "machine_block_ops blake2b network =
     \<lparr>ops_contract = Contract, ops_spend = machine_spend blake2b network, ops_contains = machine_contains,
      ops_create = (\<lambda>_. machine_insert_unspent blake2b network), ops_record = machine_record\<rparr>"

definition machine_load_undo :: "block_height \<Rightarrow> machine \<Rightarrow> wallet_error + (reorg_undo \<times> u8 list) option" where
  "machine_load_undo h m = Ok (map_option (\<lambda>undo. (undo, undo_bytes undo)) (fmlookup (mr_undo m) h))"

definition machine_insert_undo :: "reorg_undo \<Rightarrow> machine \<Rightarrow> wallet_error + machine" where
  "machine_insert_undo undo m =
     and_then (map_err Contract (undo_encode_value undo)) (\<lambda>_.
     if fmlookup (mr_undo m) (id_height (ru_block undo)) \<noteq> None
     then rejected ''wallet transition attempts to overwrite an existing logical row''
     else Ok (m\<lparr>mr_undo := fmupd (id_height (ru_block undo)) undo (mr_undo m)\<rparr>))"

definition machine_remove_undo :: "block_height \<Rightarrow> u8 list \<Rightarrow> machine \<Rightarrow> wallet_error + machine" where
  "machine_remove_undo h encoded m =
     and_then (ok_or (fmlookup (mr_undo m) h) (ProjectionTransitionRejected
                ''wallet transition attempts to remove an absent logical row'')) (\<lambda>undo.
     if undo_bytes undo \<noteq> encoded
     then rejected ''wallet transition logical row differs from its expected durable bytes''
     else Ok (m\<lparr>mr_undo := fmdrop h (mr_undo m)\<rparr>))"

definition machine_remove_address_transaction ::
    "address_transaction_key \<Rightarrow> block_id \<Rightarrow> machine \<Rightarrow> wallet_error + machine" where
  "machine_remove_address_transaction key block m =
     (let l = mr_ledger m in
      and_then (ok_or (fmlookup (lg_address_transactions l) key)
                  (ProjectionTransitionRejected ''wallet undo address transaction is absent'')) (\<lambda>e.
      if transaction_key_block_height key \<noteq> id_height block \<or> at_block_hash e \<noteq> id_hash block
      then rejected ''wallet undo address transaction belongs to a different block''
      else Ok (m\<lparr>mr_ledger := l\<lparr>lg_address_transactions := fmdrop key (lg_address_transactions l)\<rparr>\<rparr>)))"

definition machine_remove_unspent ::
    "blake2b_fn \<Rightarrow> network \<Rightarrow> unspent_output \<Rightarrow> machine \<Rightarrow> wallet_error + machine" where
  "machine_remove_unspent blake2b network u m =
     (let l = mr_ledger m in
      and_then (map_err Contract (subtract_unspent_output blake2b network u
        (l\<lparr>lg_unspent_outputs := fmdrop (outpoint_key_new (uo_outpoint u)) (lg_unspent_outputs l)\<rparr>))) (\<lambda>l.
      Ok (m\<lparr>mr_ledger := l\<rparr>)))"

definition machine_remove_spent :: "outpoint_key \<Rightarrow> machine \<Rightarrow> wallet_error + spent_output \<times> machine" where
  "machine_remove_spent key m =
     (let l = mr_ledger m in
      and_then (ok_or (fmlookup (lg_spent_outputs l) key)
                  (ProjectionTransitionRejected ''wallet spent output is absent while reversing a reorg'')) (\<lambda>spent.
      Ok (spent, m\<lparr>mr_ledger := l\<lparr>lg_spent_outputs := fmdrop key (lg_spent_outputs l)\<rparr>\<rparr>)))"

definition machine_remove_created ::
    "blake2b_fn \<Rightarrow> network \<Rightarrow> outpoint_key \<Rightarrow> block_id \<Rightarrow> machine \<Rightarrow> wallet_error + machine" where
  "machine_remove_created blake2b network key block m =
     (case (fmlookup (lg_unspent_outputs (mr_ledger m)) key, fmlookup (lg_spent_outputs (mr_ledger m)) key) of
        (Some u, None) \<Rightarrow>
          if created_in block u then machine_remove_unspent blake2b network u m
          else rejected ''wallet undo created outpoint does not belong to its block''
      | (None, Some s) \<Rightarrow>
          if created_in block (so_output s) \<and> spent_in block s
          then and_then (machine_remove_spent key m) (\<lambda>(_, m). Ok m)
          else rejected ''wallet undo created outpoint does not belong to its block''
      | (Some _, Some _) \<Rightarrow> rejected ''wallet undo finds one created outpoint in both output families''
      | (None, None) \<Rightarrow> rejected ''wallet undo created outpoint is absent from durable rows'')"

definition machine_ops :: "blake2b_fn \<Rightarrow> network \<Rightarrow> machine row_ops" where
  "machine_ops blake2b network =
     \<lparr>ro_block = machine_block_ops blake2b network,
      ro_load_undo = machine_load_undo,
      ro_insert_undo = machine_insert_undo,
      ro_remove_undo = machine_remove_undo,
      ro_remove_address_transaction = machine_remove_address_transaction,
      ro_remove_created = machine_remove_created blake2b network,
      ro_remove_spent = machine_remove_spent,
      ro_insert_unspent = machine_insert_unspent blake2b network,
      ro_undo_count = (\<lambda>m. of_nat (fcard (fmdom (mr_undo m))))\<rparr>"

section \<open>The machine runs the oracle's block loop\<close>

text \<open>
  On a ledger that lies below the block, the machine's loop does what the oracle's does; the
  machine's refusal to overwrite an address transaction never fires.
\<close>

interpretation machine_scan: scan_simulation "ledger_ops blake2b network" "machine_block_ops blake2b network"
    block "\<lambda>_. False" "\<lambda>e f. f = Contract e"
    "\<lambda>loc s t. t = m\<lparr>mr_ledger := s\<rparr> \<and> ledger_inv blake2b network s \<and> ledger_below (id_height block) base \<and>
       block_effect block base loc s"
  for blake2b network block base m
proof (unfold_locales, goal_cases)
  case (1 err)
  then show ?case by (simp add: ledger_ops_def machine_block_ops_def)
next
  case (2 loc s t pos key i)
  then show ?case
    using block_effect_spend [of blake2b network s block base loc key pos i]
      ledger_spend_Ok(6) [of blake2b network s key pos i]
    by (cases "ledger_spend blake2b network key pos i s")
      (auto simp: ledger_ops_def machine_block_ops_def machine_spend_def)
next
  case (3 loc s t key)
  then show ?case
    by (simp add: ledger_ops_def machine_block_ops_def machine_contains_def ledger_contains_def)
next
  case (4 loc s t u)
  then show ?case
    using block_effect_create [of blake2b network s block base loc _ u] ledger_create_Ok(4) [of blake2b network s _ u]
    by (cases "ledger_create blake2b network (outpoint_key_new (uo_outpoint u)) u s")
      (auto simp: ledger_ops_def machine_block_ops_def machine_insert_unspent_def machine_contains_def Let_def)
next
  case (5 loc s t e)
  then have "fmlookup (lg_address_transactions s) (at_key e) = None"
    unfolding block_effect_def address_effect_def ledger_below_def by (metis not_Some_eq order_less_irrefl)
  with 5 show ?case
    using block_effect_record [of block base loc s e] ledger_record_inv [of blake2b network s e]
    by (auto simp: ledger_ops_def machine_block_ops_def machine_record_def ledger_record_def)
qed

lemma machine_scan_block:
  assumes "ledger_inv blake2b network (mr_ledger m)" and "ledger_below (id_height block) (mr_ledger m)"
  shows "scan_block (machine_block_ops blake2b network) block facts m =
    map_err Contract (and_then (scan_block (ledger_ops blake2b network) block facts (mr_ledger m))
      (\<lambda>(loc, l). Ok (loc, m\<lparr>mr_ledger := l\<rparr>)))"
  using machine_scan.scan_block_sim [where t = m and s = "mr_ledger m" and m = m and block = block and facts = facts and blake2b = blake2b and network = network and base = "mr_ledger m"]
    assms block_effect_start
  by (cases "scan_block (ledger_ops blake2b network) block facts (mr_ledger m)";
      cases "scan_block (machine_block_ops blake2b network) block facts m") auto

section \<open>Rolling a block back\<close>

text \<open>
  While a block is rolled back, the ledger still carries the effect of a part of the block: the
  address transactions, created and spent outpoints that are left to undo.
\<close>

definition left_to_undo ::
    "address_transaction_key list \<Rightarrow> outpoint_key list \<Rightarrow> outpoint_key list \<Rightarrow> block_locals" where
  "left_to_undo as cs ss =
     \<lparr>created_outpoints = cs, created_outpoint_keys = cs, spent_outpoints = ss, address_transaction_keys = as\<rparr>"

definition partly_undone ::
    "blake2b_fn \<Rightarrow> network \<Rightarrow> block_id \<Rightarrow> ledger \<Rightarrow> address_transaction_key list \<Rightarrow>
       outpoint_key list \<Rightarrow> outpoint_key list \<Rightarrow> ledger \<Rightarrow> bool" where
  "partly_undone blake2b network block l0 as cs ss l \<longleftrightarrow>
     ledger_inv blake2b network l \<and> block_effect block l0 (left_to_undo as cs ss) l"

lemma output_effect_cong:
  assumes "k \<in> set (created_outpoints loc) \<longleftrightarrow> k \<in> set (created_outpoints loc')"
    and "k \<in> set (spent_outpoints loc) \<longleftrightarrow> k \<in> set (spent_outpoints loc')"
    and "fmlookup (lg_unspent_outputs l) k = fmlookup (lg_unspent_outputs l') k"
    and "fmlookup (lg_spent_outputs l) k = fmlookup (lg_spent_outputs l') k"
  shows "output_effect block l0 loc l k = output_effect block l0 loc' l' k"
  unfolding output_effect_def assms ..

lemma address_effect_cong:
  assumes "k \<in> set (address_transaction_keys loc) \<longleftrightarrow> k \<in> set (address_transaction_keys loc')"
    and "fmlookup (lg_address_transactions l) k = fmlookup (lg_address_transactions l') k"
  shows "address_effect block l0 loc l k = address_effect block l0 loc' l' k"
  unfolding address_effect_def assms ..

lemmas effect_cong = output_effect_cong address_effect_cong

lemma left_to_undo_sel [simp]:
  "created_outpoints (left_to_undo as cs ss) = cs" "created_outpoint_keys (left_to_undo as cs ss) = cs"
  "spent_outpoints (left_to_undo as cs ss) = ss" "address_transaction_keys (left_to_undo as cs ss) = as"
  by (simp_all add: left_to_undo_def)

lemma block_effect_sort:
  assumes "block_effect block l0 loc l"
  shows "block_effect block l0 (left_to_undo (sort (address_transaction_keys loc))
           (sort (created_outpoints loc)) (sort (spent_outpoints loc))) l"
proof -
  let ?loc = "left_to_undo (sort (address_transaction_keys loc)) (sort (created_outpoints loc)) (sort (spent_outpoints loc))"
  have "output_effect block l0 ?loc l k = output_effect block l0 loc l k"
    and "address_effect block l0 ?loc l k' = address_effect block l0 loc l k'" for k k'
    by (rule effect_cong; simp)+
  then show ?thesis
    using assms by (simp add: block_effect_def locals_wf_def)
qed

lemma fully_undone:
  assumes "partly_undone blake2b network block l0 [] [] [] l" and "ledger_inv blake2b network l0"
  shows "l = l0"
proof -
  have "lg_unspent_outputs l = lg_unspent_outputs l0" "lg_spent_outputs l = lg_spent_outputs l0"
    "lg_address_transactions l = lg_address_transactions l0"
    using assms(1)
    by (auto intro!: fmap_ext simp: partly_undone_def block_effect_def output_effect_def address_effect_def
        left_to_undo_def)
  moreover have "accounts blake2b network (lg_unspent_outputs l) l" "accounts blake2b network (lg_unspent_outputs l0) l0"
    using assms by (simp_all add: partly_undone_def ledger_inv_def)
  ultimately show ?thesis
    using accounts_unique [of blake2b network "lg_unspent_outputs l" l l0]
    by (intro ledger.equality) auto
qed

lemma undo_address_transaction:
  assumes "partly_undone blake2b network block l0 (a # as) cs ss (mr_ledger m)"
  shows "\<exists>m'. machine_remove_address_transaction a block m = Inr m' \<and> mr_undo m' = mr_undo m \<and>
              partly_undone blake2b network block l0 as cs ss (mr_ledger m')"
proof -
  let ?l = "mr_ledger m"
  let ?l' = "?l\<lparr>lg_address_transactions := fmdrop a (lg_address_transactions ?l)\<rparr>"
  have inv: "ledger_inv blake2b network ?l" and eff: "block_effect block l0 (left_to_undo (a # as) cs ss) ?l"
    using assms by (simp_all add: partly_undone_def)
  have wf: "a \<notin> set as" and addr: "address_effect block l0 (left_to_undo (a # as) cs ss) ?l k" for k
    using eff by (simp_all add: block_effect_def locals_wf_def)
  obtain e where e: "fmlookup (lg_address_transactions ?l) a = Some e" "at_block_hash e = id_hash block"
    "transaction_key_block_height a = id_height block" and fresh: "fmlookup (lg_address_transactions l0) a = None"
    using addr [of a] by (auto simp: address_effect_def)
  have "address_effect block l0 (left_to_undo as cs ss) ?l' k" for k
  proof (cases "k = a")
    case True
    then show ?thesis using fresh wf by (simp add: address_effect_def)
  next
    case False
    have "address_effect block l0 (left_to_undo as cs ss) ?l' k =
        address_effect block l0 (left_to_undo (a # as) cs ss) ?l k"
      by (rule effect_cong) (use False in simp_all)
    then show ?thesis using addr by simp
  qed
  moreover have "output_effect block l0 (left_to_undo as cs ss) ?l' k =
      output_effect block l0 (left_to_undo (a # as) cs ss) ?l k" for k
    by (rule effect_cong) simp_all
  moreover have "locals_wf (left_to_undo as cs ss)"
    using eff by (simp add: block_effect_def locals_wf_def left_to_undo_def)
  moreover have "ledger_inv blake2b network ?l'"
    using inv by (auto simp: ledger_inv_def)
  ultimately have "partly_undone blake2b network block l0 as cs ss ?l'"
    using eff by (simp add: partly_undone_def block_effect_def)
  then show ?thesis
    using e by (simp add: machine_remove_address_transaction_def Let_def)
qed

lemma undo_created:
  assumes "partly_undone blake2b network block l0 as (c # cs) ss (mr_ledger m)"
  shows "\<exists>m'. machine_remove_created blake2b network c block m = Inr m' \<and> mr_undo m' = mr_undo m \<and>
              partly_undone blake2b network block l0 as cs ss (mr_ledger m')"
proof -
  let ?l = "mr_ledger m"
  have inv: "ledger_inv blake2b network ?l" and eff: "block_effect block l0 (left_to_undo as (c # cs) ss) ?l"
    using assms by (simp_all add: partly_undone_def)
  have wf: "locals_wf (left_to_undo as cs ss)" "c \<notin> set cs" "c \<notin> set ss"
    using eff by (auto simp: block_effect_def locals_wf_def left_to_undo_def)
  have out: "output_effect block l0 (left_to_undo as (c # cs) ss) ?l k"
    and addr: "address_effect block l0 (left_to_undo as (c # cs) ss) ?l k'" for k k'
    using eff by (simp_all add: block_effect_def)
  have result: "partly_undone blake2b network block l0 as cs ss l'"
    if l': "lg_unspent_outputs l' = fmdrop c (lg_unspent_outputs ?l)" "lg_spent_outputs l' = fmdrop c (lg_spent_outputs ?l)"
      "lg_address_transactions l' = lg_address_transactions ?l" "ledger_inv blake2b network l'" for l'
  proof -
    have "output_effect block l0 (left_to_undo as cs ss) l' k" for k
    proof (cases "k = c")
      case True
      then show ?thesis using out [of c] wf l' by (simp add: output_effect_def)
    next
      case False
      have "output_effect block l0 (left_to_undo as cs ss) l' k =
          output_effect block l0 (left_to_undo as (c # cs) ss) ?l k"
        by (rule effect_cong) (use False l' in simp_all)
      then show ?thesis using out by simp
    qed
    moreover have "address_effect block l0 (left_to_undo as cs ss) l' k =
        address_effect block l0 (left_to_undo as (c # cs) ss) ?l k" for k
      by (rule effect_cong) (use l' in simp_all)
    ultimately show ?thesis using wf l' addr by (simp add: partly_undone_def block_effect_def)
  qed
  from out [of c] consider
      (unspent) u where "fmlookup (lg_unspent_outputs ?l) c = Some u" "fmlookup (lg_spent_outputs ?l) c = None"
        "created_in block u"
    | (spent) s where "fmlookup (lg_unspent_outputs ?l) c = None" "fmlookup (lg_spent_outputs ?l) c = Some s"
        "created_in block (so_output s)" "spent_in block s"
    by (auto simp: output_effect_def left_to_undo_def)
  then show ?thesis
  proof cases
    case unspent
    have c: "outpoint_key_new (uo_outpoint u) = c" using inv unspent(1) by (simp add: ledger_inv_def)
    have "accounts blake2b network (lg_unspent_outputs ?l) (?l\<lparr>lg_unspent_outputs := fmdrop c (lg_unspent_outputs ?l)\<rparr>)"
      using inv by (simp add: ledger_inv_def)
    from subtract_unspent_output_accounts [OF this unspent(1)] obtain l' where
      l': "subtract_unspent_output blake2b network u (?l\<lparr>lg_unspent_outputs := fmdrop c (lg_unspent_outputs ?l)\<rparr>) = Inr l'"
        "accounts blake2b network (fmdrop c (lg_unspent_outputs ?l)) l'" "lg_unspent_outputs l' = fmdrop c (lg_unspent_outputs ?l)"
        "lg_spent_outputs l' = lg_spent_outputs ?l" "lg_address_transactions l' = lg_address_transactions ?l"
      by auto
    have "fmdrop c (lg_spent_outputs ?l) = lg_spent_outputs ?l"
      using unspent(2) by (intro fmap_ext) auto
    moreover have "ledger_inv blake2b network l'" using inv l' by (auto simp: ledger_inv_def)
    ultimately show ?thesis
      using result [of l'] l' unspent by (auto simp: machine_remove_created_def machine_remove_unspent_def Let_def c)
  next
    case spent
    let ?l' = "?l\<lparr>lg_spent_outputs := fmdrop c (lg_spent_outputs ?l)\<rparr>"
    have "fmdrop c (lg_unspent_outputs ?l) = lg_unspent_outputs ?l"
      using spent(1) by (intro fmap_ext) auto
    moreover have "ledger_inv blake2b network ?l'" using inv by (auto simp: ledger_inv_def)
    ultimately show ?thesis
      using result [of ?l'] spent by (simp add: machine_remove_created_def machine_remove_spent_def Let_def)
  qed
qed

text \<open>
  Adding an output back cannot overflow while the unspent outputs stay within a set that is already
  accounted for.
\<close>

lemma add_unspent_output_succeeds:
  assumes "accounts blake2b network m l" and "accounts blake2b network n l0" and "fmlookup m k = None"
    and within: "\<And>k' v. fmlookup (fmupd k u m) k' = Some v \<Longrightarrow> fmlookup n k' = Some v"
  shows "\<exists>l'. add_unspent_output blake2b network u l = Inr l'"
proof -
  have mono: "fm_sum f (fmupd k u m) \<le> fm_sum f n" for f :: "outpoint_key \<Rightarrow> unspent_output \<Rightarrow> nat"
    using within by (rule fm_sum_mono)
  have bound: "unat (x :: u64) < 18446744073709551616" for x
    using unsigned_less [of x, where ?'a = nat] by simp
  have "unat (lg_total_utxo_value_zat l) + unat (uo_value_zat u) < 2 ^ 64"
    using mono [of "\<lambda>_ u. unat (uo_value_zat u)"] assms(1-3) bound [of "lg_total_utxo_value_zat l0"]
    by (simp add: accounts_def total_value_def fm_sum_upd_fresh)
  moreover have "unat (lg_utxo_count l) + 1 < 2 ^ 64"
    using mono [of "\<lambda>_ _. 1"] assms(1-3) bound [of "lg_utxo_count l0"]
    by (simp add: accounts_def fm_sum_upd_fresh)
  moreover have "unat (balance_of (uo_address_script_hash u) (lg_balance_by_address l)) + unat (uo_value_zat u) < 2 ^ 64"
    using mono [of "\<lambda>_ v. if uo_address_script_hash v = uo_address_script_hash u then unat (uo_value_zat v) else 0"]
      assms(1-3) bound [of "balance_of (uo_address_script_hash u) (lg_balance_by_address l0)"]
    by (simp add: accounts_def address_value_def fm_sum_upd_fresh)
  ultimately show ?thesis
    by (simp add: add_unspent_output_def Let_def checked_add_def)
qed

lemma undo_spent:
  assumes undone: "partly_undone blake2b network block l0 [] [] (c # ss) (mr_ledger m)"
    and inv0: "ledger_inv blake2b network l0"
  shows "\<exists>m'. rollback_spent (machine_ops blake2b network) block c m = Inr m' \<and> mr_undo m' = mr_undo m \<and>
              partly_undone blake2b network block l0 [] [] ss (mr_ledger m')"
proof -
  let ?l = "mr_ledger m"
  have inv: "ledger_inv blake2b network ?l" and eff: "block_effect block l0 (left_to_undo [] [] (c # ss)) ?l"
    using undone by (simp_all add: partly_undone_def)
  have wf: "locals_wf (left_to_undo [] [] ss)" "c \<notin> set ss"
    using eff by (auto simp: block_effect_def locals_wf_def)
  have out: "output_effect block l0 (left_to_undo [] [] (c # ss)) ?l k"
    and addr: "address_effect block l0 (left_to_undo [] [] (c # ss)) ?l k'" for k k'
    using eff by (simp_all add: block_effect_def)
  obtain s where s: "fmlookup (lg_unspent_outputs l0) c = Some (so_output s)" "fmlookup (lg_spent_outputs l0) c = None"
    "fmlookup (lg_unspent_outputs ?l) c = None" "fmlookup (lg_spent_outputs ?l) c = Some s" "spent_in block s"
    using out [of c] by (auto simp: output_effect_def)
  have c: "outpoint_key_new (uo_outpoint (so_output s)) = c" and valid: "unspent_valid (so_output s)"
    using inv s(4) by (simp_all add: ledger_inv_def)
  let ?l1 = "?l\<lparr>lg_spent_outputs := fmdrop c (lg_spent_outputs ?l)\<rparr>"
  have inv1: "ledger_inv blake2b network ?l1" using inv by (auto simp: ledger_inv_def)
  have within: "fmlookup (lg_unspent_outputs l0) k = Some v"
    if "fmlookup (fmupd c (so_output s) (lg_unspent_outputs ?l)) k = Some v" for k v
    using that s(1) out [of k] by (auto simp: output_effect_def split: if_splits)
  have "accounts blake2b network (lg_unspent_outputs ?l) ?l1" "accounts blake2b network (lg_unspent_outputs l0) l0"
    using inv inv0 by (simp_all add: ledger_inv_def)
  from add_unspent_output_succeeds [OF this s(3) within]
  obtain l2 where l2: "add_unspent_output blake2b network (so_output s) ?l1 = Inr l2" by blast
  have known: "ledger_contains c ?l1 = Inr False"
    using s(3) by (simp add: ledger_contains_def)
  define l3 where "l3 = l2\<lparr>lg_unspent_outputs := fmupd c (so_output s) (lg_unspent_outputs l2)\<rparr>"
  have create: "ledger_create blake2b network c (so_output s) ?l1 = Inr l3"
    using l2 by (simp add: ledger_create_def l3_def)
  note l3 = ledger_create_Ok [OF inv1 create known c [symmetric] valid]
  have "output_effect block l0 (left_to_undo [] [] ss) l3 k" for k
  proof (cases "k = c")
    case True
    then show ?thesis using s wf l3 by (simp add: output_effect_def)
  next
    case False
    have "output_effect block l0 (left_to_undo [] [] ss) l3 k =
        output_effect block l0 (left_to_undo [] [] (c # ss)) ?l k"
      by (rule effect_cong) (use False l3 in simp_all)
    then show ?thesis using out by simp
  qed
  moreover have "address_effect block l0 (left_to_undo [] [] ss) l3 k =
      address_effect block l0 (left_to_undo [] [] (c # ss)) ?l k" for k
    by (rule effect_cong) (use l3 in simp_all)
  ultimately have "partly_undone blake2b network block l0 [] [] ss l3"
    using wf l3 addr by (simp add: partly_undone_def block_effect_def)
  then show ?thesis
    using s(4,5) create known
    by (simp add: rollback_spent_def machine_ops_def machine_remove_spent_def machine_insert_unspent_def
        machine_contains_def Let_def c spent_in_def)
qed

text \<open>
  Rolling back the undo record of a block that was applied to the ledger \<open>l0\<close> gives \<open>l0\<close> back, with
  every balance, the count, the total value and the commitment.
\<close>

lemma rollback_restores_ledger:
  assumes "scan_block (ledger_ops blake2b network) block facts l0 = Inr (loc, l)"
    and inv0: "ledger_inv blake2b network l0" and "ledger_below (id_height block) l0"
    and undo: "undo = block_undo block parent before after loc"
    and m: "mr_ledger m = l" "fmlookup (mr_undo m) (id_height block) = Some undo"
  shows "rollback_undo (machine_ops blake2b network) undo (undo_bytes undo) m =
         Inr \<lparr>mr_ledger = l0, mr_undo = fmdrop (id_height block) (mr_undo m)\<rparr>"
proof -
  let ?ops = "machine_ops blake2b network"
  let ?as = "ru_address_transaction_keys undo" and ?cs = "ru_created_outpoints undo" and ?ss = "ru_spent_outpoints undo"
  define P where "P = (\<lambda>as cs ss (n :: machine). partly_undone blake2b network block l0 as cs ss (mr_ledger n) \<and> mr_undo n = mr_undo m)"
  have start: "P ?as ?cs ?ss m"
    using scan_block_ledger [OF assms(1,2)] assms(3) m(1)
    by (simp add: P_def partly_undone_def undo block_undo_def block_effect_sort)
  have step1: "\<exists>n'. machine_remove_address_transaction a block n = Inr n' \<and> P as ?cs ?ss n'"
    if "P (a # as) ?cs ?ss n" for a as n
    using undo_address_transaction [of blake2b network block l0 a as ?cs ?ss n] that by (auto simp: P_def)
  have step2: "\<exists>n'. machine_remove_created blake2b network c block n = Inr n' \<and> P [] cs ?ss n'"
    if "P [] (c # cs) ?ss n" for c cs n
    using undo_created [of blake2b network block l0 "[]" c cs ?ss n] that by (auto simp: P_def)
  have step3: "\<exists>n'. rollback_spent ?ops block c n = Inr n' \<and> P [] [] ss n'"
    if "P [] [] (c # ss) n" for c ss n
    using undo_spent [of blake2b network block l0 c ss n, OF _ inv0] that by (auto simp: P_def)
  obtain m1 where m1: "try_fold (\<lambda>key. machine_remove_address_transaction key block) ?as m = Inr m1" "P [] ?cs ?ss m1"
    using try_fold_consume [where P = "\<lambda>as. P as ?cs ?ss" and f = "\<lambda>key. machine_remove_address_transaction key block", OF start] step1 by blast
  obtain m2 where m2: "try_fold (\<lambda>key. machine_remove_created blake2b network key block) ?cs m1 = Inr m2" "P [] [] ?ss m2"
    using try_fold_consume [where P = "\<lambda>cs. P [] cs ?ss" and f = "\<lambda>key. machine_remove_created blake2b network key block", OF m1(2)] step2 by blast
  obtain m3 where m3: "try_fold (rollback_spent ?ops block) ?ss m2 = Inr m3" "P [] [] [] m3"
    using try_fold_consume [where P = "\<lambda>ss. P [] [] ss" and f = "rollback_spent ?ops block", OF m2(2)] step3 by blast
  have "mr_ledger m3 = l0" "mr_undo m3 = mr_undo m"
    using fully_undone [OF _ inv0] m3(2) unfolding P_def by blast+
  then have "machine_remove_undo (id_height block) (undo_bytes undo) m3 =
      Inr \<lparr>mr_ledger = l0, mr_undo = fmdrop (id_height block) (mr_undo m)\<rparr>"
    using m(2) by (simp add: machine_remove_undo_def)
  moreover have "ru_block undo = block" by (simp add: undo block_undo_def)
  ultimately show ?thesis
    using m1(1) m2(1) m3(1) by (simp add: rollback_undo_def) (simp add: machine_ops_def)
qed

end
