(* ===== verification/Wallet_Chain.thy ===== *)
theory Wallet_Chain
  imports Wallet_Machine
begin

text \<open>
  The wallet machine follows a chain. \<open>chain_state\<close> is the ledger, tip and digest that a list of
  blocks gives, block by block, over a base (the empty ledger at genesis, or a checkpoint);
  \<open>follows\<close> adds the undo records of the blocks that are not settled. Applying a block, rolling a
  block back and advancing the settled tip keep \<open>follows\<close>, so that after any of them the machine
  holds exactly what the oracle's block loop computes for the current chain.
\<close>

section \<open>The state of a chain\<close>

record chain_base =
  cb_ledger :: ledger
  cb_tip :: block_id
  cb_digest :: sequence_digest

definition base_wf :: "blake2b_fn \<Rightarrow> network \<Rightarrow> chain_base \<Rightarrow> bool" where
  "base_wf blake2b network base \<longleftrightarrow>
     ledger_inv blake2b network (cb_ledger base) \<and>
     (\<forall>k e. fmlookup (lg_address_transactions (cb_ledger base)) k = Some e \<longrightarrow>
        transaction_key_block_height k \<le> id_height (cb_tip base))"

definition extends :: "canonical_block_facts \<Rightarrow> block_id \<Rightarrow> bool" where
  "extends facts tip \<longleftrightarrow>
     unat (id_height (facts_block facts)) = Suc (unat (id_height tip)) \<and>
     header_parent_hash (block_header facts) = id_hash tip"

inductive chain_state ::
    "blake2b_fn \<Rightarrow> sha256_fn \<Rightarrow> network \<Rightarrow> chain_base \<Rightarrow> canonical_block_facts list \<Rightarrow>
       ledger \<Rightarrow> block_id \<Rightarrow> sequence_digest \<Rightarrow> bool"
  for blake2b sha256 network base where
  base: "chain_state blake2b sha256 network base [] (cb_ledger base) (cb_tip base) (cb_digest base)"
| block: "chain_state blake2b sha256 network base blocks l tip d \<Longrightarrow> extends facts tip \<Longrightarrow>
    try_append sha256 (facts_digest sha256 facts FactsDigestV1) (resume_from_prefix d) = Inr builder \<Longrightarrow>
    scan_block (ledger_ops blake2b network) (facts_block facts) facts l = Inr (loc, l') \<Longrightarrow>
    chain_state blake2b sha256 network base (blocks @ [facts]) l' (facts_block facts) (builder_finish builder)"

inductive_cases chain_state_NilE: "chain_state blake2b sha256 network base [] l tip d"
inductive_cases chain_state_snocE: "chain_state blake2b sha256 network base (blocks @ [facts]) l tip d"

text \<open>A chain has one state.\<close>

lemma chain_state_unique:
  assumes "chain_state blake2b sha256 network base blocks l tip d"
    and "chain_state blake2b sha256 network base blocks l' tip' d'"
  shows "l = l' \<and> tip = tip' \<and> d = d'"
  using assms
proof (induction arbitrary: l' tip' d' rule: chain_state.induct)
  case base
  then show ?case by (auto elim: chain_state_NilE)
next
  case (block blocks l tip d facts builder loc l1)
  from block.prems obtain l2 tip2 d2 builder2 loc2 where
    "chain_state blake2b sha256 network base blocks l2 tip2 d2"
    "try_append sha256 (facts_digest sha256 facts FactsDigestV1) (resume_from_prefix d2) = Inr builder2"
    "scan_block (ledger_ops blake2b network) (facts_block facts) facts l2 = Inr (loc2, l')"
    "tip' = facts_block facts" "d' = builder_finish builder2"
    by (auto elim!: chain_state_snocE)
  with block.IH [of l2 tip2 d2] block.hyps show ?case by auto
qed

lemma ledger_below_extends:
  assumes "\<And>k e. fmlookup (lg_address_transactions l) k = Some e \<Longrightarrow> transaction_key_block_height k \<le> id_height tip"
    and "extends facts tip"
  shows "ledger_below (id_height (facts_block facts)) l"
  using assms by (fastforce simp: ledger_below_def extends_def word_le_nat_alt word_less_nat_alt)

lemma chain_state_inv:
  assumes "base_wf blake2b network base" and "chain_state blake2b sha256 network base blocks l tip d"
  shows "ledger_inv blake2b network l \<and>
         (\<forall>k e. fmlookup (lg_address_transactions l) k = Some e \<longrightarrow>
            transaction_key_block_height k \<le> id_height tip)"
  using assms(2)
proof induction
  case base
  then show ?case using assms(1) by (simp add: base_wf_def)
next
  case (block blocks l tip d facts builder loc l')
  have below: "ledger_below (id_height (facts_block facts)) l"
    using ledger_below_extends block by blast
  note scan = scan_block_ledger [OF block.hyps(4)]
  have "transaction_key_block_height k \<le> id_height (facts_block facts)"
    if "fmlookup (lg_address_transactions l') k = Some e" for k e
    using scan(2) [OF _ below] block.IH that below
    by (auto simp: block_effect_def address_effect_def ledger_below_def dest!: spec [of _ k] split: if_splits)
  then show ?case using scan(1) block.IH by blast
qed

section \<open>Following a chain with undo records\<close>

type_synonym wallet_state = "machine transition_state"

definition undo_of ::
    "canonical_block_facts \<Rightarrow> sequence_digest \<Rightarrow> sequence_digest \<Rightarrow> block_locals \<Rightarrow> reorg_undo" where
  "undo_of facts before after loc =
     block_undo (facts_block facts) (header_parent_hash (block_header facts)) before after loc"

definition after_block ::
    "canonical_block_facts \<Rightarrow> sequence_digest \<Rightarrow> block_locals \<Rightarrow> ledger \<Rightarrow> wallet_state \<Rightarrow> wallet_state" where
  "after_block facts after loc l st =
     st\<lparr>ts_rows := (ts_rows st)\<lparr>mr_ledger := l,
                    mr_undo := fmupd (id_height (facts_block facts))
                      (undo_of facts (ts_source_sequence_digest st) after loc) (mr_undo (ts_rows st))\<rparr>,
        ts_current_tip := facts_block facts, ts_source_sequence_digest := after\<rparr>"

lemma after_block_sel [simp]:
  "mr_ledger (ts_rows (after_block facts after loc l st)) = l"
  "mr_undo (ts_rows (after_block facts after loc l st)) =
     fmupd (id_height (facts_block facts)) (undo_of facts (ts_source_sequence_digest st) after loc) (mr_undo (ts_rows st))"
  "ts_current_tip (after_block facts after loc l st) = facts_block facts"
  "ts_settled_tip (after_block facts after loc l st) = ts_settled_tip st"
  "ts_source_sequence_digest (after_block facts after loc l st) = after"
  by (simp_all add: after_block_def)

lemma wallet_state_eqI:
  fixes x y :: wallet_state
  assumes "mr_ledger (ts_rows x) = mr_ledger (ts_rows y)" and "mr_undo (ts_rows x) = mr_undo (ts_rows y)"
    and "ts_current_tip x = ts_current_tip y" and "ts_settled_tip x = ts_settled_tip y"
    and "ts_source_sequence_digest x = ts_source_sequence_digest y"
  shows "x = y"
  using assms by (intro transition_state.equality machine.equality) auto

inductive follows ::
    "blake2b_fn \<Rightarrow> sha256_fn \<Rightarrow> network \<Rightarrow> chain_base \<Rightarrow> canonical_block_facts list \<Rightarrow>
       canonical_block_facts list \<Rightarrow> wallet_state \<Rightarrow> bool"
  for blake2b sha256 network base where
  settled: "chain_state blake2b sha256 network base blocks l tip d \<Longrightarrow>
    follows blake2b sha256 network base blocks []
      \<lparr>ts_rows = \<lparr>mr_ledger = l, mr_undo = fmempty\<rparr>, ts_current_tip = tip, ts_settled_tip = tip,
       ts_source_sequence_digest = d\<rparr>"
| unsettled: "follows blake2b sha256 network base blocks suffix st \<Longrightarrow> extends facts (ts_current_tip st) \<Longrightarrow>
    try_append sha256 (facts_digest sha256 facts FactsDigestV1)
      (resume_from_prefix (ts_source_sequence_digest st)) = Inr builder \<Longrightarrow>
    scan_block (ledger_ops blake2b network) (facts_block facts) facts (mr_ledger (ts_rows st)) = Inr (loc, l) \<Longrightarrow>
    undo_valid (undo_of facts (ts_source_sequence_digest st) (builder_finish builder) loc) \<Longrightarrow>
    follows blake2b sha256 network base blocks (suffix @ [facts])
      (after_block facts (builder_finish builder) loc l st)"

inductive_cases follows_NilE: "follows blake2b sha256 network base blocks [] st"
inductive_cases follows_snocE: "follows blake2b sha256 network base blocks (suffix @ [facts]) st"

lemma follows_chain_state:
  "follows blake2b sha256 network base blocks suffix st \<Longrightarrow>
   chain_state blake2b sha256 network base (blocks @ suffix) (mr_ledger (ts_rows st)) (ts_current_tip st)
     (ts_source_sequence_digest st)"
  by (induction rule: follows.induct)
    (auto simp: after_block_def append_assoc [symmetric] simp del: append_assoc intro: chain_state.block)

text \<open>The undo records lie exactly at the heights above the settled tip.\<close>

definition undo_rows_wf :: "wallet_state \<Rightarrow> bool" where
  "undo_rows_wf st \<longleftrightarrow>
     (\<forall>h. fmlookup (mr_undo (ts_rows st)) h \<noteq> None \<longleftrightarrow>
        unat (id_height (ts_settled_tip st)) < unat h \<and> unat h \<le> unat (id_height (ts_current_tip st))) \<and>
     (\<forall>h undo. fmlookup (mr_undo (ts_rows st)) h = Some undo \<longrightarrow>
        id_height (ru_block undo) = h \<and> undo_valid undo)"

lemma follows_heights:
  assumes "follows blake2b sha256 network base blocks suffix st"
  shows "unat (id_height (ts_current_tip st)) = unat (id_height (ts_settled_tip st)) + length suffix"
    and "fcard (fmdom (mr_undo (ts_rows st))) = length suffix"
    and "undo_rows_wf st"
  using assms
proof (induction rule: follows.induct)
  case (settled blocks l tip d)
  {
    case 1 show ?case by simp
  next
    case 2 show ?case by simp
  next
    case 3 show ?case by (auto simp: undo_rows_wf_def)
  }
next
  case (unsettled blocks suffix st facts builder loc l)
  have fresh: "fmlookup (mr_undo (ts_rows st)) (id_height (facts_block facts)) = None"
    using unsettled(8) [unfolded undo_rows_wf_def, THEN conjunct1, rule_format, of "id_height (facts_block facts)"]
      unsettled(2) by (simp add: extends_def)
  have other: "unat h \<noteq> unat (id_height (facts_block facts))" if "h \<noteq> id_height (facts_block facts)" for h
    using that by (metis word_unat_eq_iff)
  {
    case 1 show ?case using unsettled(2,6) by (simp add: after_block_def extends_def)
  next
    case 2 show ?case
      using unsettled(7) fmdom_notI [OF fresh] by (simp add: after_block_def fcard_finsert_disjoint)
  next
    case 3
    have le: "unat h \<le> Suc n \<longleftrightarrow> unat h \<le> n \<or> unat h = Suc n" for h :: block_height and n by auto
    show ?case
      using unsettled(2,5,6,8) other
      by (auto simp: undo_rows_wf_def after_block_def extends_def undo_of_def block_undo_def le split: if_splits)
  }
qed

lemma follows_nth_height:
  assumes "follows blake2b sha256 network base blocks suffix st" and "i < length suffix"
  shows "unat (id_height (facts_block (suffix ! i))) = unat (id_height (ts_settled_tip st)) + i + 1"
  using assms
proof (induction rule: follows.induct)
  case (unsettled blocks suffix st facts builder loc l)
  then show ?case
    using follows_heights(1) [OF unsettled.hyps(1)]
    by (cases "i < length suffix") (auto simp: nth_append after_block_def extends_def less_Suc_eq)
qed simp

lemma follows_ledger:
  assumes "base_wf blake2b network base" and "follows blake2b sha256 network base blocks suffix st"
  shows "ledger_inv blake2b network (mr_ledger (ts_rows st))"
    and "extends facts (ts_current_tip st) \<Longrightarrow> ledger_below (id_height (facts_block facts)) (mr_ledger (ts_rows st))"
  using chain_state_inv [OF assms(1) follows_chain_state [OF assms(2)]] ledger_below_extends by blast+

section \<open>Transitions of a machine that follows a chain\<close>

lemma extend_digest_Ok:
  assumes "extend_source_sequence_digest sha256 before digest = Inr after"
  obtains builder where "try_append sha256 digest (resume_from_prefix before) = Inr builder"
    "after = builder_finish builder"
  using assms
  by (auto simp: extend_source_sequence_digest_def and_then_Ok_iff Let_def split: if_splits)

lemma apply_replay_follows:
  assumes wf: "base_wf blake2b network base" and follows: "follows blake2b sha256 network base blocks suffix st"
    and ok: "apply_replay sha256 (machine_ops blake2b network) replay st = Inr st'"
  shows "follows blake2b sha256 network base blocks (suffix @ [rp_facts replay]) st'"
proof -
  let ?facts = "rp_facts replay" and ?d = "ts_source_sequence_digest st"
  let ?block = "facts_block ?facts"
  have ext: "extends ?facts (ts_current_tip st)"
    and digest: "rp_reference_digest replay = facts_digest sha256 ?facts FactsDigestV1"
    using ok by (auto simp: apply_replay_def Let_def and_then_Ok_iff extends_def facts_block_def
        block_height_next_Some_iff split: if_splits)
  obtain after st1 where after: "extend_source_sequence_digest sha256 ?d (rp_reference_digest replay) = Inr after"
    and st1: "apply_block_rows (machine_ops blake2b network) ?facts ?block ?d after st = Inr st1"
    and st': "st' = st1\<lparr>ts_current_tip := ?block, ts_source_sequence_digest := after\<rparr>"
    using ok by (auto simp: apply_replay_def Let_def and_then_Ok_iff facts_block_def split: if_splits)
  obtain builder where builder: "try_append sha256 (facts_digest sha256 ?facts FactsDigestV1) (resume_from_prefix ?d) = Inr builder"
    "after = builder_finish builder"
    using extend_digest_Ok [OF after] digest by metis
  have above: "\<not> id_height ?block \<le> id_height (ts_settled_tip st)"
    using follows_heights(1) [OF follows] ext by (simp add: extends_def word_le_nat_alt)
  obtain loc l where scan: "scan_block (ledger_ops blake2b network) ?block ?facts (mr_ledger (ts_rows st)) = Inr (loc, l)"
    and rows: "machine_insert_undo (undo_of ?facts ?d after loc) ((ts_rows st)\<lparr>mr_ledger := l\<rparr>) = Inr (ts_rows st1)"
    and st1_eq: "st1 = st\<lparr>ts_rows := ts_rows st1\<rparr>"
    using st1 above machine_scan_block [OF follows_ledger(1) [OF wf follows] follows_ledger(2) [OF wf follows ext]]
    by (auto simp: apply_block_rows_def machine_ops_def and_then_Ok_iff retain_undo_def undo_of_def block_undo_def)
  have "undo_valid (undo_of ?facts ?d after loc)"
    and "ts_rows st1 = (ts_rows st)\<lparr>mr_ledger := l, mr_undo := fmupd (id_height ?block) (undo_of ?facts ?d after loc) (mr_undo (ts_rows st))\<rparr>"
    using rows by (auto simp: machine_insert_undo_def and_then_Ok_iff undo_encode_Ok_iff undo_of_def block_undo_def
        split: if_splits)
  then have "st' = after_block ?facts (builder_finish builder) loc l st"
    using st1_eq by (simp add: st' after_block_def builder(2))
  then show ?thesis
    using follows.unsettled [OF follows ext builder(1) scan] \<open>undo_valid _\<close> builder(2) by simp
qed

lemma apply_replay_settled:
  "apply_replay sha256 ops replay st = Inr st' \<Longrightarrow> ts_settled_tip st' = ts_settled_tip st"
  by (auto simp: apply_replay_def apply_block_rows_def Let_def and_then_Ok_iff split: if_splits)

lemma apply_replay_row_Ok:
  assumes "apply_replay_row sha256 ops row (it, st) = Inr p"
  obtains replay it' st' where "row = Inr replay" "p = (it', st')" "apply_replay sha256 ops replay st = Inr st'"
  using assms by (auto simp: apply_replay_row_def and_then_Ok_iff split: if_splits)

lemma apply_replay_range_follows:
  assumes wf: "base_wf blake2b network base" and follows: "follows blake2b sha256 network base blocks suffix st"
    and ok: "apply_replay_range sha256 (machine_ops blake2b network) rng rows st = Inr st'"
  shows "\<exists>replays. rows = map Inr replays \<and> ts_settled_tip st' = ts_settled_tip st \<and>
           follows blake2b sha256 network base blocks (suffix @ map rp_facts replays) st'"
proof -
  have fold: "\<exists>replays. rows = map Inr replays \<and> ts_settled_tip st' = ts_settled_tip st \<and>
      follows blake2b sha256 network base blocks (suffix @ map rp_facts replays) st'"
    if "follows blake2b sha256 network base blocks suffix st"
      "try_fold (apply_replay_row sha256 (machine_ops blake2b network)) rows (it, st) = Inr (it', st')"
    for rows it it' st suffix
    using that
  proof (induction rows arbitrary: it st suffix)
    case Nil
    then show ?case by simp
  next
    case (Cons row rows)
    then obtain replay it1 st1 where row: "row = Inr replay"
      and st1: "apply_replay sha256 (machine_ops blake2b network) replay st = Inr st1"
      and rest: "try_fold (apply_replay_row sha256 (machine_ops blake2b network)) rows (it1, st1) = Inr (it', st')"
      by (auto simp: and_then_Ok_iff elim!: apply_replay_row_Ok)
    obtain replays where "rows = map Inr replays" "ts_settled_tip st' = ts_settled_tip st1"
      "follows blake2b sha256 network base blocks ((suffix @ [rp_facts replay]) @ map rp_facts replays) st'"
      using Cons.IH [OF apply_replay_follows [OF wf Cons.prems(1) st1] rest] by blast
    then show ?case
      using row apply_replay_settled [OF st1] by (intro exI [of _ "replay # replays"]) simp
  qed
  show ?thesis
    using ok fold [OF follows] unfolding apply_replay_range_def
    by (auto simp: and_then_Ok_iff split: if_splits)
qed

text \<open>Rolling back the tip gives exactly the state from before its block.\<close>

lemma rollback_height_after_block:
  assumes wf: "base_wf blake2b network base" and follows: "follows blake2b sha256 network base blocks suffix st"
    and ext: "extends facts (ts_current_tip st)"
    and scan: "scan_block (ledger_ops blake2b network) (facts_block facts) facts (mr_ledger (ts_rows st)) = Inr (loc, l)"
  shows "rollback_height (machine_ops blake2b network) (id_height (facts_block facts)) (after_block facts after loc l st) = Inr st"
proof -
  let ?h = "id_height (facts_block facts)" and ?undo = "undo_of facts (ts_source_sequence_digest st) after loc"
  have fresh: "fmlookup (mr_undo (ts_rows st)) ?h = None"
    using follows_heights(3) [OF follows, unfolded undo_rows_wf_def, THEN conjunct1, rule_format, of ?h] ext
    by (simp add: extends_def)
  have rows: "rollback_undo (machine_ops blake2b network) ?undo (undo_bytes ?undo) (ts_rows (after_block facts after loc l st)) =
      Inr (ts_rows st)"
    using rollback_restores_ledger [OF scan follows_ledger(1) [OF wf follows] follows_ledger(2) [OF wf follows ext], of ?undo _ _ _ "ts_rows (after_block facts after loc l st)"]
      fresh by (simp add: undo_of_def after_block_def fmdrop_fmupd_fresh)
  have parent: "checked_sub ?h 1 = Some (id_height (ts_current_tip st))"
    using ext by (simp add: extends_def checked_sub_Some_iff)
  show ?thesis
    using rows parent ext
    by (simp add: rollback_height_def machine_load_undo_def machine_ops_def [of blake2b network] after_block_def
        undo_of_def block_undo_def extends_def)
qed

lemma follows_snoc_cases:
  assumes wf: "base_wf blake2b network base"
    and "follows blake2b sha256 network base blocks (suffix @ [facts]) st"
  obtains st0 where "follows blake2b sha256 network base blocks suffix st0" "extends facts (ts_current_tip st0)"
    "ts_current_tip st = facts_block facts" "ts_settled_tip st = ts_settled_tip st0"
    "rollback_height (machine_ops blake2b network) (id_height (facts_block facts)) st = Inr st0"
  using assms(2)
proof (rule follows_snocE)
  fix st0 builder loc l
  assume prior: "follows blake2b sha256 network base blocks suffix st0" "extends facts (ts_current_tip st0)"
    and scan: "scan_block (ledger_ops blake2b network) (facts_block facts) facts (mr_ledger (ts_rows st0)) = Inr (loc, l)"
    and st: "st = after_block facts (builder_finish builder) loc l st0"
  then show ?thesis
    using that [of st0] rollback_height_after_block [OF wf prior scan, of "builder_finish builder"]
    by (simp add: after_block_def)
qed

lemma rollback_height_follows:
  assumes wf: "base_wf blake2b network base" and follows: "follows blake2b sha256 network base blocks suffix st"
    and ok: "rollback_height (machine_ops blake2b network) h st = Inr st'"
  shows "\<exists>suffix' facts. suffix = suffix' @ [facts] \<and> h = id_height (ts_current_tip st) \<and>
           follows blake2b sha256 network base blocks suffix' st' \<and> ts_settled_tip st' = ts_settled_tip st"
proof -
  obtain undo where undo: "fmlookup (mr_undo (ts_rows st)) h = Some undo" "ru_block undo = ts_current_tip st"
    using ok by (auto simp: rollback_height_def machine_ops_def machine_load_undo_def and_then_Ok_iff split: if_splits)
  have h: "h = id_height (ts_current_tip st)"
    using undo follows_heights(3) [OF follows] unfolding undo_rows_wf_def by metis
  obtain suffix' facts where suffix: "suffix = suffix' @ [facts]"
    using undo follows_heights [OF follows] by (cases suffix rule: rev_cases) (auto simp: undo_rows_wf_def)
  obtain st0 where "follows blake2b sha256 network base blocks suffix' st0" "ts_current_tip st = facts_block facts"
    "ts_settled_tip st = ts_settled_tip st0"
    "rollback_height (machine_ops blake2b network) (id_height (facts_block facts)) st = Inr st0"
    using follows_snoc_cases [OF wf] follows suffix by metis
  then show ?thesis using ok h suffix by auto
qed

lemma rollback_range_follows:
  assumes wf: "base_wf blake2b network base" and "follows blake2b sha256 network base blocks suffix st"
    and "rollback_range (machine_ops blake2b network) rng st = Inr st'"
  shows "\<exists>kept reverted. suffix = kept @ reverted \<and> follows blake2b sha256 network base blocks kept st' \<and>
           ts_settled_tip st' = ts_settled_tip st"
proof -
  have "\<exists>kept reverted. suffix = kept @ reverted \<and> follows blake2b sha256 network base blocks kept st' \<and>
      ts_settled_tip st' = ts_settled_tip st"
    if "follows blake2b sha256 network base blocks suffix st"
      "rollback_loop (machine_ops blake2b network) start h st = Inr st'" for start h suffix st
    using that
  proof (induction "unat h" arbitrary: h suffix st rule: less_induct)
    case less
    let ?ops = "machine_ops blake2b network"
    from less.prems(2) obtain st1 where st1: "rollback_height ?ops h st = Inr st1"
      and rest: "if h = start then st1 = st' else
        \<exists>h'. checked_sub h 1 = Some h' \<and> rollback_loop ?ops start h' st1 = Inr st'"
      by (auto simp: rollback_loop.simps [of ?ops start h st] and_then_Ok_iff split: if_splits option.splits)
    obtain suffix' facts where suffix: "suffix = suffix' @ [facts]"
      and follows1: "follows blake2b sha256 network base blocks suffix' st1" "ts_settled_tip st1 = ts_settled_tip st"
      using rollback_height_follows [OF wf less.prems(1) st1] by blast
    show ?case
    proof (cases "h = start")
      case True
      then show ?thesis using suffix follows1 rest by auto
    next
      case False
      then obtain h' where h': "checked_sub h 1 = Some h'" "rollback_loop ?ops start h' st1 = Inr st'"
        using rest by auto
      then have "unat h' < unat h" by (simp add: checked_sub_Some_iff)
      from less.hyps [OF this follows1(1) h'(2)] show ?thesis
        using suffix follows1(2) by (metis append.assoc)
    qed
  qed
  from this [OF assms(2,3) [unfolded rollback_range_def]] show ?thesis .
qed

text \<open>Conversely, every suffix that is not settled can be rolled back.\<close>

lemma rollback_loop_succeeds:
  assumes wf: "base_wf blake2b network base"
    and "follows blake2b sha256 network base blocks (kept @ facts # reverted) st"
  shows "\<exists>st'. rollback_loop (machine_ops blake2b network) (id_height (facts_block facts))
                 (id_height (ts_current_tip st)) st = Inr st' \<and>
               follows blake2b sha256 network base blocks kept st'"
  using assms(2)
proof (induction reverted arbitrary: st rule: rev_induct)
  case Nil
  then show ?case
    by (elim follows_snoc_cases [OF wf])
      (simp add: rollback_loop.simps [of _ "id_height (facts_block facts)" "id_height (facts_block facts)" st])
next
  case (snoc f reverted)
  let ?ops = "machine_ops blake2b network" and ?start = "id_height (facts_block facts)" and ?h = "id_height (facts_block f)"
  have "follows blake2b sha256 network base blocks ((kept @ facts # reverted) @ [f]) st"
    using snoc.prems by simp
  from follows_snoc_cases [OF wf this] obtain st0 where
    st0: "follows blake2b sha256 network base blocks (kept @ facts # reverted) st0"
      "extends f (ts_current_tip st0)" "ts_current_tip st = facts_block f"
      "rollback_height ?ops ?h st = Inr st0"
    by blast
  have "checked_sub ?h 1 = Some (id_height (ts_current_tip st0))"
    using st0(2) by (simp add: extends_def checked_sub_Some_iff)
  moreover have "?h \<noteq> ?start"
    using follows_nth_height [OF snoc.prems, of "length kept"] follows_heights(1) [OF snoc.prems] st0(3) by auto
  ultimately show ?case
    using snoc.IH [OF st0(1)] st0 by (simp add: rollback_loop.simps [of _ ?start ?h st])
qed

section \<open>Settling\<close>

definition settled_to :: "block_id \<Rightarrow> wallet_state \<Rightarrow> wallet_state" where
  "settled_to tip st =
     st\<lparr>ts_rows := (ts_rows st)\<lparr>mr_undo := fmfilter (\<lambda>h. id_height tip < h) (mr_undo (ts_rows st))\<rparr>,
        ts_settled_tip := tip\<rparr>"

lemma settled_to_sel [simp]:
  "ts_current_tip (settled_to tip st) = ts_current_tip st"
  "ts_settled_tip (settled_to tip st) = tip"
  "ts_source_sequence_digest (settled_to tip st) = ts_source_sequence_digest st"
  "mr_ledger (ts_rows (settled_to tip st)) = mr_ledger (ts_rows st)"
  "mr_undo (ts_rows (settled_to tip st)) = fmfilter (\<lambda>h. id_height tip < h) (mr_undo (ts_rows st))"
  by (simp_all add: settled_to_def)

lemma follows_settle:
  assumes "follows blake2b sha256 network base blocks (settled @ facts # kept) st"
  shows "follows blake2b sha256 network base (blocks @ settled @ [facts]) kept (settled_to (facts_block facts) st)"
  using assms
proof (induction kept arbitrary: st rule: rev_induct)
  case Nil
  have tip: "ts_current_tip st = facts_block facts"
    using Nil by (auto elim: follows_snocE simp: after_block_def)
  have "fmlookup (mr_undo (ts_rows st)) h = None" if "id_height (facts_block facts) < h" for h
    using follows_heights(3) [OF Nil, unfolded undo_rows_wf_def, THEN conjunct1, rule_format, of h] that tip
    by (auto simp: word_less_nat_alt)
  then have "fmfilter (\<lambda>h. id_height (facts_block facts) < h) (mr_undo (ts_rows st)) = fmempty"
    by (intro fmap_ext) auto
  then have "settled_to (facts_block facts) st =
      \<lparr>ts_rows = \<lparr>mr_ledger = mr_ledger (ts_rows st), mr_undo = fmempty\<rparr>, ts_current_tip = ts_current_tip st,
       ts_settled_tip = ts_current_tip st, ts_source_sequence_digest = ts_source_sequence_digest st\<rparr>"
    by (simp add: settled_to_def tip)
  then show ?case using follows.settled [OF follows_chain_state [OF Nil]] by simp
next
  case (snoc f kept)
  have "follows blake2b sha256 network base blocks ((settled @ facts # kept) @ [f]) st" using snoc.prems by simp
  then obtain st0 builder loc l where st0: "follows blake2b sha256 network base blocks (settled @ facts # kept) st0"
      "extends f (ts_current_tip st0)"
      "try_append sha256 (facts_digest sha256 f FactsDigestV1) (resume_from_prefix (ts_source_sequence_digest st0)) = Inr builder"
      "scan_block (ledger_ops blake2b network) (facts_block f) f (mr_ledger (ts_rows st0)) = Inr (loc, l)"
      "undo_valid (undo_of f (ts_source_sequence_digest st0) (builder_finish builder) loc)"
      "st = after_block f (builder_finish builder) loc l st0"
    by (rule follows_snocE) blast
  have "id_height (facts_block facts) < id_height (facts_block f)"
    using follows_nth_height [OF st0(1), of "length settled"] follows_heights(1) [OF st0(1)] st0(2)
    by (simp add: word_less_nat_alt extends_def)
  then have "settled_to (facts_block facts) st =
      after_block f (builder_finish builder) loc l (settled_to (facts_block facts) st0)"
    by (intro wallet_state_eqI fmap_ext) (auto simp: st0(6))
  then show ?case
    using follows.unsettled [OF snoc.IH [OF st0(1)], of f builder loc l] st0 by simp
qed

text \<open>The undo record of each block that is not settled, and how the records are linked.\<close>

lemma follows_undo:
  assumes "follows blake2b sha256 network base blocks suffix st"
  shows "\<exists>D. D (length suffix) = ts_source_sequence_digest st \<and>
           (\<forall>i < length suffix. \<exists>undo.
              fmlookup (mr_undo (ts_rows st)) (id_height (facts_block (suffix ! i))) = Some undo \<and>
              ru_block undo = facts_block (suffix ! i) \<and>
              ru_parent_hash undo = id_hash (case i of 0 \<Rightarrow> ts_settled_tip st | Suc j \<Rightarrow> facts_block (suffix ! j)) \<and>
              ru_source_sequence_digest_before undo = D i \<and> ru_source_sequence_digest_after undo = D (Suc i))"
    (is "\<exists>D. ?P suffix st D")
  using assms
proof (induction rule: follows.induct)
  case (settled blocks l tip d)
  show ?case by (simp add: exI [of _ "\<lambda>_. d"])
next
  case (unsettled blocks suffix st facts builder loc l)
  then obtain D where D: "?P suffix st D" by blast
  let ?n = "length suffix" and ?st = "after_block facts (builder_finish builder) loc l st"
  let ?D = "D(Suc ?n := builder_finish builder)"
  have tip: "id_hash (ts_current_tip st) =
      id_hash (case ?n of 0 \<Rightarrow> ts_settled_tip st | Suc j \<Rightarrow> facts_block (suffix ! j))"
    using unsettled.hyps(1)
    by (cases rule: follows.cases) (auto simp: after_block_def nth_append)
  have other: "id_height (facts_block (suffix ! i)) \<noteq> id_height (facts_block facts)" if "i < ?n" for i
    using follows_nth_height [OF unsettled.hyps(1) that] follows_heights(1) [OF unsettled.hyps(1)] unsettled.hyps(2) that
    by (auto simp: extends_def)
  have "\<exists>undo.
      fmlookup (mr_undo (ts_rows ?st)) (id_height (facts_block ((suffix @ [facts]) ! i))) = Some undo \<and>
      ru_block undo = facts_block ((suffix @ [facts]) ! i) \<and>
      ru_parent_hash undo =
        id_hash (case i of 0 \<Rightarrow> ts_settled_tip ?st | Suc j \<Rightarrow> facts_block ((suffix @ [facts]) ! j)) \<and>
      ru_source_sequence_digest_before undo = ?D i \<and> ru_source_sequence_digest_after undo = ?D (Suc i)"
    if "i < Suc ?n" for i
  proof (cases "i = ?n")
    case True
    then show ?thesis
      using tip D unsettled.hyps(2)
      by (auto simp: undo_of_def block_undo_def extends_def nth_append split: nat.splits)
  next
    case False
    then have i: "i < ?n" using that by simp
    then obtain undo where "fmlookup (mr_undo (ts_rows st)) (id_height (facts_block (suffix ! i))) = Some undo"
        "ru_block undo = facts_block (suffix ! i)"
        "ru_parent_hash undo = id_hash (case i of 0 \<Rightarrow> ts_settled_tip st | Suc j \<Rightarrow> facts_block (suffix ! j))"
        "ru_source_sequence_digest_before undo = D i" "ru_source_sequence_digest_after undo = D (Suc i)"
      using D by blast
    then show ?thesis using other [OF i] i by (cases i) (simp_all add: nth_append)
  qed
  then have "?P (suffix @ [facts]) ?st ?D" by simp
  then show ?case by blast
qed

lemma block_height_next_below:
  fixes h k :: block_height
  assumes "unat h < unat k"
  shows "\<exists>n. block_height_next h = Some n"
proof (cases "block_height_next h")
  case None
  then have "2 ^ 32 \<le> Suc (unat h)" by (simp add: block_height_next_def checked_add_None_iff)
  moreover have "unat k < 2 ^ 32" by (rule order_less_le_trans [OF unsigned_less]) simp
  ultimately show ?thesis using assms by linarith
qed simp

lemma prune_loop_machine:
  assumes "height \<le> last_height"
    and "\<And>h. height \<le> h \<Longrightarrow> h \<le> last_height \<Longrightarrow>
           \<exists>undo. fmlookup (mr_undo m) h = Some undo \<and> id_height (ru_block undo) = h"
  shows "prune_loop (machine_ops blake2b network) last_height height m =
           Inr (m\<lparr>mr_undo := fmfilter (\<lambda>h. \<not> (height \<le> h \<and> h \<le> last_height)) (mr_undo m)\<rparr>)"
  using assms
proof (induction "unat last_height - unat height" arbitrary: height m)
  case 0
  then have eq: "height = last_height" by (simp add: word_le_nat_alt word_unat_eq_iff)
  then obtain undo where "fmlookup (mr_undo m) last_height = Some undo" "id_height (ru_block undo) = last_height"
    using "0.prems" by auto
  moreover have "fmfilter (\<lambda>h. \<not> (last_height \<le> h \<and> h \<le> last_height)) (mr_undo m) = fmdrop last_height (mr_undo m)"
    by (intro fmap_ext) auto
  ultimately show ?case
    by (simp add: eq prune_loop.simps [of _ last_height last_height m] prune_height_def machine_ops_def
        machine_load_undo_def machine_remove_undo_def)
next
  case (Suc n)
  obtain undo where undo: "fmlookup (mr_undo m) height = Some undo" "id_height (ru_block undo) = height"
    using Suc.prems by auto
  obtain next_height where succ: "block_height_next height = Some next_height"
    using block_height_next_below [of height last_height] zero_less_diff Suc.hyps(2) by (metis zero_less_Suc)
  then have unat_next: "unat next_height = Suc (unat height)" by (simp add: block_height_next_Some_iff)
  let ?m = "m\<lparr>mr_undo := fmdrop height (mr_undo m)\<rparr>"
  have "prune_loop (machine_ops blake2b network) last_height next_height ?m =
      Inr (?m\<lparr>mr_undo := fmfilter (\<lambda>h. \<not> (next_height \<le> h \<and> h \<le> last_height)) (mr_undo ?m)\<rparr>)"
    using Suc.hyps Suc.prems unat_next
    by (intro Suc.hyps(1)) (auto simp: word_le_nat_alt word_unat_eq_iff)
  moreover have "fmfilter (\<lambda>h. \<not> (next_height \<le> h \<and> h \<le> last_height)) (mr_undo ?m) =
      fmfilter (\<lambda>h. \<not> (height \<le> h \<and> h \<le> last_height)) (mr_undo m)"
    using unat_next Suc.hyps(2) by (intro fmap_ext) (auto simp: word_le_nat_alt word_unat_eq_iff)
  moreover have "height \<noteq> last_height" using Suc.hyps(2) by auto
  ultimately show ?case
    using undo succ
    by (simp add: prune_loop.simps [of _ last_height height m] prune_height_def machine_ops_def
        machine_load_undo_def machine_remove_undo_def)
qed

lemma follows_tip_cases:
  assumes "follows blake2b sha256 network base blocks suffix st"
  shows "ts_current_tip st = (case length suffix of 0 \<Rightarrow> ts_settled_tip st | Suc j \<Rightarrow> facts_block (suffix ! j))"
  using assms by (cases rule: follows.cases) (auto simp: nth_append)

lemma follows_prune:
  assumes follows: "follows blake2b sha256 network base blocks suffix st" and i: "i < length suffix"
    and height: "id_height tip = id_height (facts_block (suffix ! i))"
    and first: "block_height_next (id_height (ts_settled_tip st)) = Some first"
  shows "prune_loop (machine_ops blake2b network) (id_height tip) first (ts_rows st) = Inr (ts_rows (settled_to tip st))"
proof -
  have unat_tip: "unat (id_height tip) = unat (id_height (ts_settled_tip st)) + i + 1"
    using follows_nth_height [OF follows i] height by simp
  have unat_first: "unat first = Suc (unat (id_height (ts_settled_tip st)))"
    using first by (simp add: block_height_next_Some_iff)
  have rows: "fmlookup (mr_undo (ts_rows st)) h \<noteq> None \<longleftrightarrow>
      unat (id_height (ts_settled_tip st)) < unat h \<and> unat h \<le> unat (id_height (ts_current_tip st))"
    "fmlookup (mr_undo (ts_rows st)) h = Some undo \<Longrightarrow> id_height (ru_block undo) = h" for h undo
    using follows_heights(3) [OF follows] unfolding undo_rows_wf_def by blast+
  have "\<exists>undo. fmlookup (mr_undo (ts_rows st)) h = Some undo \<and> id_height (ru_block undo) = h"
    if "first \<le> h" "h \<le> id_height tip" for h
    using rows(1) [of h] rows(2) [of h] that unat_tip unat_first follows_heights(1) [OF follows] i
    by (fastforce simp: word_le_nat_alt)
  moreover have "fmfilter (\<lambda>h. \<not> (first \<le> h \<and> h \<le> id_height tip)) (mr_undo (ts_rows st)) =
      fmfilter (\<lambda>h. id_height tip < h) (mr_undo (ts_rows st))"
  proof (intro fmfilter_cong)
    fix h undo
    assume "fmlookup (mr_undo (ts_rows st)) h = Some undo"
    then show "(\<not> (first \<le> h \<and> h \<le> id_height tip)) = (id_height tip < h)"
      using rows(1) [of h] unat_first by (auto simp: word_le_nat_alt word_less_nat_alt)
  qed
  ultimately show ?thesis
    using prune_loop_machine [of first "id_height tip" "ts_rows st"] unat_first unat_tip
    by (simp add: word_le_nat_alt settled_to_def)
qed

lemma authenticate_follows:
  assumes follows: "follows blake2b sha256 network base blocks suffix st" and i: "i < length suffix"
    and height: "id_height tip = id_height (facts_block (suffix ! i))"
  shows "authenticate_settled_tip (machine_ops blake2b network) tip st = Inr () \<longleftrightarrow> tip = facts_block (suffix ! i)"
proof (cases "Suc i = length suffix")
  case True
  have current: "ts_current_tip st = facts_block (suffix ! i)"
    using follows_tip_cases [OF follows, folded True] by simp
  have "fmlookup (mr_undo (ts_rows st)) h = None" if "block_height_next (id_height tip) = Some h" for h
    using follows_heights(3) [OF follows, unfolded undo_rows_wf_def, THEN conjunct1, rule_format, of h] that current height
    by (auto simp: block_height_next_Some_iff)
  then show ?thesis
    by (auto simp: authenticate_settled_tip_def current machine_ops_def machine_load_undo_def and_then_Ok_iff)
next
  case False
  then have j: "Suc i < length suffix" using i by simp
  obtain undo where undo: "fmlookup (mr_undo (ts_rows st)) (id_height (facts_block (suffix ! Suc i))) = Some undo"
      "ru_block undo = facts_block (suffix ! Suc i)" "ru_parent_hash undo = id_hash (facts_block (suffix ! i))"
    using follows_undo [OF follows] j by (metis nat.case(2))
  have "block_height_next (id_height tip) = Some (id_height (facts_block (suffix ! Suc i)))"
    using follows_nth_height [OF follows j] follows_nth_height [OF follows i] height
    by (simp add: block_height_next_Some_iff)
  moreover have "tip \<noteq> ts_current_tip st"
    using follows_heights(1) [OF follows] follows_nth_height [OF follows i] height j by auto
  ultimately show ?thesis
    using undo height
    by (auto simp: authenticate_settled_tip_def machine_ops_def machine_load_undo_def and_then_Ok_iff)
qed

lemma advance_settled_tip_follows:
  assumes follows: "follows blake2b sha256 network base blocks suffix st"
  shows "advance_settled_tip (machine_ops blake2b network) tip st = Inr st' \<longleftrightarrow>
           tip = ts_settled_tip st \<and> st' = st \<or>
           (\<exists>settled facts kept. suffix = settled @ facts # kept \<and> tip = facts_block facts \<and> st' = settled_to tip st)"
proof -
  let ?ops = "machine_ops blake2b network"
  have nth: "(\<exists>settled facts kept. suffix = settled @ facts # kept \<and> tip = facts_block facts \<and> P) \<longleftrightarrow>
      (\<exists>i < length suffix. tip = facts_block (suffix ! i) \<and> P)" for P
    by (metis add_Suc_right id_take_nth_drop length_append length_Cons less_add_Suc1 nth_append_length)
  have "\<exists>i < length suffix. unat (id_height tip) = unat (id_height (ts_settled_tip st)) + i + 1"
    if "\<not> unat (id_height tip) \<le> unat (id_height (ts_settled_tip st))"
      "\<not> unat (id_height tip) > unat (id_height (ts_current_tip st))"
    using that follows_heights(1) [OF follows]
    by (intro exI [of _ "unat (id_height tip) - unat (id_height (ts_settled_tip st)) - 1"]) auto
  then consider "tip = ts_settled_tip st"
    | "tip \<noteq> ts_settled_tip st"
      "unat (id_height tip) \<le> unat (id_height (ts_settled_tip st)) \<or> unat (id_height tip) > unat (id_height (ts_current_tip st))"
    | i where "i < length suffix" "unat (id_height tip) = unat (id_height (ts_settled_tip st)) + i + 1"
    by blast
  then show ?thesis
  proof cases
    case 1
    then show ?thesis
      using follows_nth_height [OF follows] unfolding nth
      by (fastforce simp: advance_settled_tip_def)
  next
    case 2
    then show ?thesis
      using follows_nth_height [OF follows] follows_heights(1) [OF follows] unfolding nth
      by (auto simp: advance_settled_tip_def word_le_nat_alt word_less_nat_alt)
  next
    case (3 i)
    have height: "id_height tip = id_height (facts_block (suffix ! i))"
      using 3 follows_nth_height [OF follows 3(1)] by (simp add: word_unat_eq_iff)
    obtain first where first: "block_height_next (id_height (ts_settled_tip st)) = Some first"
      using block_height_next_below [of "id_height (ts_settled_tip st)" "id_height tip"] 3(2) by auto
    have only: "(\<exists>j < length suffix. tip = facts_block (suffix ! j) \<and> P) \<longleftrightarrow> tip = facts_block (suffix ! i) \<and> P" for P
      using 3 follows_nth_height [OF follows] by auto
    have "advance_settled_tip ?ops tip st =
        and_then (authenticate_settled_tip ?ops tip st) (\<lambda>_. Ok (settled_to tip st))"
      using 3 follows_heights(1) [OF follows] follows_prune [OF follows 3(1) height first]
      by (auto simp: advance_settled_tip_def word_le_nat_alt word_less_nat_alt first settled_to_def cong: and_then_cong)
    moreover have "tip \<noteq> ts_settled_tip st" using 3(2) by auto
    ultimately show ?thesis
      unfolding nth only using authenticate_follows [OF follows 3(1) height] by (auto simp: and_then_Ok_iff)
  qed
qed

section \<open>Publication\<close>

lemma publishable_undo_nth:
  assumes follows: "follows blake2b sha256 network base blocks suffix st" and i: "i < length suffix"
    and count: "unat n_undo = length suffix"
    and D: "D (length suffix) = ts_source_sequence_digest st"
      "fmlookup (mr_undo (ts_rows st)) (id_height (facts_block (suffix ! i))) = Some undo"
      "ru_block undo = facts_block (suffix ! i)"
      "ru_source_sequence_digest_before undo = D i" "ru_source_sequence_digest_after undo = D (Suc i)"
    and prev: "prev = None \<or> prev = Some (D i)"
  shows "publishable_undo (machine_ops blake2b network) st n_undo i (prev, id_height (facts_block (suffix ! i))) =
           Inr (Some (D (Suc i)), id_height (facts_block (suffix ! (if Suc i < length suffix then Suc i else i))))"
proof (cases "Suc i = length suffix")
  case True
  have "ts_current_tip st = facts_block (suffix ! i)"
    using follows_tip_cases [OF follows, folded True] by simp
  then show ?thesis
    using D prev count
    by (auto simp: publishable_undo_def machine_ops_def machine_load_undo_def True)
next
  case False
  then have j: "Suc i < length suffix" using i by simp
  have "block_height_next (id_height (facts_block (suffix ! i))) = Some (id_height (facts_block (suffix ! Suc i)))"
    using follows_nth_height [OF follows j] follows_nth_height [OF follows i]
    by (simp add: block_height_next_Some_iff)
  then show ?thesis
    using D prev count j
    by (auto simp: publishable_undo_def machine_ops_def machine_load_undo_def)
qed

lemma publishable_fold:
  assumes follows: "follows blake2b sha256 network base blocks suffix st" and "suffix \<noteq> []"
    and count: "unat n_undo = length suffix"
  shows "\<exists>r. try_fold (publishable_undo (machine_ops blake2b network) st n_undo) [0..<length suffix]
           (None, id_height (facts_block (suffix ! 0))) = Inr r"
proof -
  obtain D where D: "D (length suffix) = ts_source_sequence_digest st"
    "\<And>i. i < length suffix \<Longrightarrow> \<exists>undo.
       fmlookup (mr_undo (ts_rows st)) (id_height (facts_block (suffix ! i))) = Some undo \<and>
       ru_block undo = facts_block (suffix ! i) \<and>
       ru_source_sequence_digest_before undo = D i \<and> ru_source_sequence_digest_after undo = D (Suc i)"
    using follows_undo [OF follows] by blast
  have "\<exists>prev. try_fold (publishable_undo (machine_ops blake2b network) st n_undo) [0..<k]
          (None, id_height (facts_block (suffix ! 0))) =
          Inr (prev, id_height (facts_block (suffix ! (if k < length suffix then k else k - 1)))) \<and>
          (prev = None \<or> prev = Some (D k))" if "k \<le> length suffix" for k
    using that
  proof (induction k)
    case 0
    then show ?case using assms(2) by simp
  next
    case (Suc k)
    then obtain prev where "try_fold (publishable_undo (machine_ops blake2b network) st n_undo) [0..<k]
        (None, id_height (facts_block (suffix ! 0))) = Inr (prev, id_height (facts_block (suffix ! k)))"
      "prev = None \<or> prev = Some (D k)"
      by auto
    moreover obtain undo where "fmlookup (mr_undo (ts_rows st)) (id_height (facts_block (suffix ! k))) = Some undo"
      "ru_block undo = facts_block (suffix ! k)"
      "ru_source_sequence_digest_before undo = D k" "ru_source_sequence_digest_after undo = D (Suc k)"
      using D(2) [of k] Suc.prems by auto
    moreover have "length suffix - Suc 0 = k" if "Suc k = length suffix" using that by simp
    ultimately show ?case
      using publishable_undo_nth [OF follows, of k n_undo D undo prev] count D(1) Suc.prems
      by (simp add: try_fold_append)
  qed
  from this [OF le_refl] show ?thesis by blast
qed

lemma require_publishable_follows:
  assumes follows: "follows blake2b sha256 network base blocks suffix st"
  shows "require_publishable_undo_suffix (machine_ops blake2b network) depth st =
           (if length suffix \<le> unat depth then Inr ()
            else rebuild_required ''canonical unsettled suffix exceeds the wallet's configured undo capacity'')"
proof -
  let ?cur = "ucast (id_height (ts_current_tip st)) :: u64" and ?set = "ucast (id_height (ts_settled_tip st)) :: u64"
  let ?count = "of_nat (length suffix) :: u64"
  have "length suffix \<le> unat (id_height (ts_current_tip st))" using follows_heights(1) [OF follows] by simp
  then have "length suffix < 2 ^ 32"
    by (rule order_le_less_trans) (rule order_less_le_trans [OF unsigned_less], simp)
  then have count: "unat ?count = length suffix" by (simp add: unat_of_nat)
  have sub: "checked_sub ?cur ?set = Some ?count"
    using follows_heights(1) [OF follows] count by (simp add: checked_sub_Some_iff)
  have undo_count: "ro_undo_count (machine_ops blake2b network) (ts_rows st) = ?count"
    using follows_heights(2) [OF follows] by (simp add: machine_ops_def)
  have exceeds: "?count > ucast depth \<longleftrightarrow> \<not> length suffix \<le> unat depth"
    using count by (auto simp: word_less_nat_alt)
  show ?thesis
  proof (cases suffix)
    case Nil
    then show ?thesis using sub undo_count exceeds by (simp add: require_publishable_undo_suffix_def)
  next
    case (Cons f fs)
    have first: "block_height_next (id_height (ts_settled_tip st)) = Some (id_height (facts_block (suffix ! 0)))"
      using follows_nth_height [OF follows, of 0] Cons by (simp add: block_height_next_Some_iff)
    have "?count \<noteq> 0" using count Cons by (auto simp: unat_eq_zero)
    then show ?thesis
      using publishable_fold [OF follows _ count] sub undo_count exceeds first Cons count
      by (auto simp: require_publishable_undo_suffix_def Let_def and_then_Ok_iff)
  qed
qed

end
