(* ===== verification/Planner_Refinement.thy ===== *)
theory Planner_Refinement
  imports Planner_Rows Wallet_Chain
begin

text \<open>
  The durable planner refines the wallet machine. \<open>realizes\<close> says that the table of a plan is the
  encoding of a machine state: each family of rows encodes one map of the machine, the address index
  follows the unspent outputs, and the UTXO summary is that of the ledger. Every row operation of the
  planner keeps this relation and fails when the machine's operation fails, or for lack of a resource.
\<close>

declare as_slice_address_unspent_key_new [simp del] as_slice_outpoint_key_new [simp del]

section \<open>Tables that encode a machine state\<close>

definition family_encodes ::
    "('k \<Rightarrow> u8 list) \<Rightarrow> ('v \<Rightarrow> contract_error + u8 list) \<Rightarrow> row_family \<Rightarrow> ('k, 'v) fmap \<Rightarrow> table \<Rightarrow> bool" where
  "family_encodes kb enc f m rows \<longleftrightarrow>
     (\<forall>x. rel_option (\<lambda>a v. enc a = Inr v) (fmlookup m x) (fmlookup rows (f, kb x))) \<and>
     (\<forall>k. k \<notin> range kb \<longrightarrow> fmlookup rows (f, k) = None)"

definition index_encodes :: "(outpoint_key, unspent_output) fmap \<Rightarrow> table \<Rightarrow> bool" where
  "index_encodes m rows \<longleftrightarrow>
     (\<forall>k. fmlookup rows (TransparentUnspentOutputByAddress, k) =
        (if \<exists>x u. fmlookup m x = Some u \<and> k = as_slice (address_unspent_key_new u) then Some [] else None))"

definition encodes :: "machine \<Rightarrow> table \<Rightarrow> bool" where
  "encodes m rows \<longleftrightarrow>
     family_encodes as_slice unspent_encode_value TransparentUnspentOutput (lg_unspent_outputs (mr_ledger m)) rows \<and>
     family_encodes as_slice spent_encode_value TransparentSpentOutput (lg_spent_outputs (mr_ledger m)) rows \<and>
     family_encodes as_slice (\<lambda>e. Inr (as_slice (address_transaction_encode_value e)))
       TransparentAddressTransaction (lg_address_transactions (mr_ledger m)) rows \<and>
     family_encodes as_slice (\<lambda>b. Inr (to_be_bytes b)) TransparentAddressBalance
       (lg_balance_by_address (mr_ledger m)) rows \<and>
     family_encodes to_be_bytes undo_encode_value ReorgUndo (mr_undo m) rows \<and>
     index_encodes (lg_unspent_outputs (mr_ledger m)) rows"

definition machine_wf :: "blake2b_fn \<Rightarrow> network \<Rightarrow> machine \<Rightarrow> bool" where
  "machine_wf blake2b network m \<longleftrightarrow>
     ledger_inv blake2b network (mr_ledger m) \<and>
     (\<forall>h undo. fmlookup (mr_undo m) h = Some undo \<longrightarrow> id_height (ru_block undo) = h)"

definition ledger_summary :: "ledger \<Rightarrow> utxo_set_summary" where
  "ledger_summary l =
     \<lparr>us_utxo_count = lg_utxo_count l, us_total_value_zat = lg_total_utxo_value_zat l,
      us_commitment = lg_utxo_commitment l\<rparr>"

definition realizes :: "blake2b_fn \<Rightarrow> network \<Rightarrow> u64 \<Rightarrow> stored_rows \<Rightarrow> machine \<Rightarrow> plan \<Rightarrow> bool" where
  "realizes blake2b network lim st m p \<longleftrightarrow>
     machine_wf blake2b network m \<and>
     (\<exists>rows. plans blake2b lim st (ledger_summary (mr_ledger m)) rows p \<and> encodes m rows)"

text \<open>
  The planner checks the overflow of the count, the total and the balance in another order than the
  oracle: when several overflow, the two report different ones of the three errors.
\<close>

definition overflow_errors :: "wallet_error set" where
  "overflow_errors = Contract ` {UtxoCountOverflow, UtxoValueOverflow, AddressBalanceOverflow}"

definition same_failure :: "wallet_error \<Rightarrow> wallet_error \<Rightarrow> bool" where
  "same_failure e f \<longleftrightarrow> e = f \<or> e \<in> overflow_errors \<and> f \<in> overflow_errors"

lemma same_failure_refl [simp]: "same_failure e e"
  by (simp add: same_failure_def)

section \<open>Updates of a family\<close>

lemma family_encodes_upd:
  assumes "family_encodes kb enc f m rows" and "enc a = Inr v" and "inj kb"
  shows "family_encodes kb enc f (fmupd x a m) (fmupd (f, kb x) v rows)"
  using assms by (auto simp: family_encodes_def inj_eq)

lemma family_encodes_drop:
  assumes "family_encodes kb enc f m rows" and "inj kb"
  shows "family_encodes kb enc f (fmdrop x m) (fmdrop (f, kb x) rows)"
  using assms by (auto simp: family_encodes_def inj_eq)

lemma family_encodes_other [simp]:
  "f \<noteq> g \<Longrightarrow> family_encodes kb enc f m (fmupd (g, k) v rows) = family_encodes kb enc f m rows"
  "f \<noteq> g \<Longrightarrow> family_encodes kb enc f m (fmdrop (g, k) rows) = family_encodes kb enc f m rows"
  by (simp_all add: family_encodes_def)

lemma index_encodes_other [simp]:
  "g \<noteq> TransparentUnspentOutputByAddress \<Longrightarrow> index_encodes m (fmupd (g, k) v rows) = index_encodes m rows"
  "g \<noteq> TransparentUnspentOutputByAddress \<Longrightarrow> index_encodes m (fmdrop (g, k) rows) = index_encodes m rows"
  by (auto simp: index_encodes_def)

lemma family_encodes_lookup:
  "family_encodes kb enc f m rows \<Longrightarrow> rel_option (\<lambda>a v. enc a = Inr v) (fmlookup m x) (fmlookup rows (f, kb x))"
  by (simp add: family_encodes_def)

lemma inj_as_slice [simp]: "inj (as_slice :: 'n::len bytes \<Rightarrow> u8 list)"
  by (auto intro: injI)

lemma inj_to_be_bytes_height [simp]: "inj (to_be_bytes :: block_height \<Rightarrow> u8 list)"
  by (auto intro: injI)

text \<open>The address key of an output determines its outpoint.\<close>

lemma address_unspent_key_new_eqD: "address_unspent_key_new u = address_unspent_key_new v \<Longrightarrow> uo_outpoint u = uo_outpoint v"
  by (metis address_unspent_key_accessors(3))

lemma index_encodes_upd:
  assumes "index_encodes m rows" and "fmlookup m x = None"
  shows "index_encodes (fmupd x u m)
           (fmupd (TransparentUnspentOutputByAddress, as_slice (address_unspent_key_new u)) [] rows)"
  unfolding index_encodes_def
proof (intro allI)
  fix k
  have "(\<exists>y v. fmlookup (fmupd x u m) y = Some v \<and> k = as_slice (address_unspent_key_new v)) \<longleftrightarrow>
      k = as_slice (address_unspent_key_new u) \<or>
      (\<exists>y v. fmlookup m y = Some v \<and> k = as_slice (address_unspent_key_new v))"
  proof -
    have "y \<noteq> x" if "fmlookup m y = Some v" for y v using that assms(2) by auto
    then show ?thesis by (fastforce  split: if_splits)
  qed
  then show "fmlookup (fmupd (TransparentUnspentOutputByAddress, as_slice (address_unspent_key_new u)) [] rows)
        (TransparentUnspentOutputByAddress, k) =
      (if \<exists>y v. fmlookup (fmupd x u m) y = Some v \<and> k = as_slice (address_unspent_key_new v) then Some [] else None)"
    using assms(1) unfolding index_encodes_def by simp
qed

lemma index_encodes_drop:
  assumes "index_encodes m rows" and x: "fmlookup m x = Some u"
    and keyed: "\<And>y v. fmlookup m y = Some v \<Longrightarrow> y = outpoint_key_new (uo_outpoint v)"
  shows "index_encodes (fmdrop x m)
           (fmdrop (TransparentUnspentOutputByAddress, as_slice (address_unspent_key_new u)) rows)"
  unfolding index_encodes_def
proof (intro allI)
  fix k
  have "(\<exists>y v. fmlookup (fmdrop x m) y = Some v \<and> k = as_slice (address_unspent_key_new v)) \<longleftrightarrow>
      k \<noteq> as_slice (address_unspent_key_new u) \<and>
      (\<exists>y v. fmlookup m y = Some v \<and> k = as_slice (address_unspent_key_new v))"
  proof
    assume "\<exists>y v. fmlookup (fmdrop x m) y = Some v \<and> k = as_slice (address_unspent_key_new v)"
    then obtain y v where y: "fmlookup m y = Some v" "y \<noteq> x" "k = as_slice (address_unspent_key_new v)"
      by (auto split: if_splits)
    then have "uo_outpoint u \<noteq> uo_outpoint v" using keyed [OF x] keyed [OF y(1)] by auto
    then show "k \<noteq> as_slice (address_unspent_key_new u) \<and>
        (\<exists>y v. fmlookup m y = Some v \<and> k = as_slice (address_unspent_key_new v))"
      using y address_unspent_key_new_eqD as_slice_eq_iff by metis
  next
    assume "k \<noteq> as_slice (address_unspent_key_new u) \<and>
        (\<exists>y v. fmlookup m y = Some v \<and> k = as_slice (address_unspent_key_new v))"
    then show "\<exists>y v. fmlookup (fmdrop x m) y = Some v \<and> k = as_slice (address_unspent_key_new v)"
      using x by auto
  qed
  then show "fmlookup (fmdrop (TransparentUnspentOutputByAddress, as_slice (address_unspent_key_new u)) rows)
        (TransparentUnspentOutputByAddress, k) =
      (if \<exists>y v. fmlookup (fmdrop x m) y = Some v \<and> k = as_slice (address_unspent_key_new v) then Some [] else None)"
    using assms(1) unfolding index_encodes_def by simp
qed

section \<open>Reads\<close>

lemma decode_row_sim:
  assumes "rel_option (\<lambda>a v. enc a = Inr v) x y" and "\<And>a v. x = Some a \<Longrightarrow> enc a = Inr v \<Longrightarrow> dec v = Inr a"
  shows "decode_row dec y = Ok x"
  using assms by (cases x; cases y) (auto simp: decode_row_def)

lemma read_unspent_sim:
  assumes "reads_stored lib db st" and "plans blake2b lim st summary rows p" and "encodes m rows"
    and "ledger_inv blake2b network (mr_ledger m)"
  shows "sim resource_error E (=) (Ok (fmlookup (lg_unspent_outputs (mr_ledger m)) key)) (read_unspent lib db key p)"
proof -
  have "decode_row (unspent_decode_value key) (fmlookup rows (TransparentUnspentOutput, as_slice key)) =
      Ok (fmlookup (lg_unspent_outputs (mr_ledger m)) key)"
  proof (rule decode_row_sim)
    show "rel_option (\<lambda>a v. unspent_encode_value a = Inr v) (fmlookup (lg_unspent_outputs (mr_ledger m)) key)
        (fmlookup rows (TransparentUnspentOutput, as_slice key))"
      using assms(3) by (auto simp: encodes_def intro: family_encodes_lookup)
  qed (use assms(4) in \<open>auto simp: ledger_inv_def unspent.decode_Ok_iff\<close>)
  then show ?thesis
    using raw_sim [OF assms(1,2), of E TransparentUnspentOutput "as_slice key"]
    by (cases "raw lib db (family_column TransparentUnspentOutput) (as_slice key) p") (auto simp: read_unspent_def)
qed

lemma read_spent_sim:
  assumes "reads_stored lib db st" and "plans blake2b lim st summary rows p" and "encodes m rows"
    and "ledger_inv blake2b network (mr_ledger m)"
  shows "sim resource_error E (=) (Ok (fmlookup (lg_spent_outputs (mr_ledger m)) key)) (read_spent lib db key p)"
proof -
  have "decode_row (spent_decode_value key) (fmlookup rows (TransparentSpentOutput, as_slice key)) =
      Ok (fmlookup (lg_spent_outputs (mr_ledger m)) key)"
  proof (rule decode_row_sim)
    show "rel_option (\<lambda>a v. spent_encode_value a = Inr v) (fmlookup (lg_spent_outputs (mr_ledger m)) key)
        (fmlookup rows (TransparentSpentOutput, as_slice key))"
      using assms(3) by (auto simp: encodes_def intro: family_encodes_lookup)
  qed (use assms(4) in \<open>auto simp: ledger_inv_def spent.decode_Ok_iff\<close>)
  then show ?thesis
    using raw_sim [OF assms(1,2), of E TransparentSpentOutput "as_slice key"]
    by (cases "raw lib db (family_column TransparentSpentOutput) (as_slice key) p") (auto simp: read_spent_def)
qed

lemma contains_sim:
  assumes "reads_stored lib db st" and "plans blake2b lim st summary rows p" and "encodes m rows"
    and "ledger_inv blake2b network (mr_ledger m)"
  shows "sim resource_error E (=) (machine_contains key m) (plan_contains lib db key p)"
proof -
  let ?u = "fmlookup (lg_unspent_outputs (mr_ledger m)) key" and ?s = "fmlookup (lg_spent_outputs (mr_ledger m)) key"
  show ?thesis
    using read_unspent_sim [OF assms, of E key] read_spent_sim [OF assms, of E key]
    by (cases "read_unspent lib db key p"; cases "read_spent lib db key p"; cases ?u)
      (auto simp: plan_contains_def machine_contains_def ledger_contains_def)
qed

lemma current_balance_sim:
  assumes "reads_stored lib db st" and "plans blake2b lim st summary rows p"
    and "family_encodes as_slice (\<lambda>b. Inr (to_be_bytes b)) TransparentAddressBalance balances rows"
    and "fmlookup balances address \<noteq> Some 0"
  shows "sim resource_error E (=) (Ok (balance_of address balances)) (current_balance lib db address p)"
proof -
  have row: "fmlookup rows (TransparentAddressBalance, as_slice address) = map_option to_be_bytes (fmlookup balances address)"
    using family_encodes_lookup [OF assms(3), of address] by (auto elim: option.rel_cases)
  show ?thesis
    using raw_sim [OF assms(1,2), of E TransparentAddressBalance "as_slice address"] row assms(4)
    by (cases "raw lib db (family_column TransparentAddressBalance) (as_slice address) p";
        cases "fmlookup balances address")
      (auto simp: current_balance_def balance_of_def balance_decode_def)
qed

section \<open>Balances\<close>

lemma sim_Ok_and_then:
  assumes "sim Q E R (Ok x) c" and "\<And>y. R x y \<Longrightarrow> sim Q E S a (g y)"
  shows "sim Q E S a (and_then c g)"
  using assms by (cases c) auto

lemma sim_Ok_mono:
  assumes "sim Q E R (Ok x) c" and "\<And>y. R x y \<Longrightarrow> S x' y"
  shows "sim Q E S (Ok x') c"
  using assms by (cases c) auto

lemma sim_Err_mono: "sim Q E R (Err e) c \<Longrightarrow> sim Q E S (Err e) c"
  by (cases c) auto

lemma sim_known: "sim Q E R a c \<Longrightarrow> sim Q E (\<lambda>x y. R x y \<and> a = Inr x) a c"
  by (cases a; cases c) auto

definition set_balance :: "script_hash \<Rightarrow> u64 \<Rightarrow> table \<Rightarrow> table" where
  "set_balance a n rows =
     (if n = 0 then fmdrop (TransparentAddressBalance, as_slice a) rows
      else fmupd (TransparentAddressBalance, as_slice a) (to_be_bytes n) rows)"

lemma balance_encode_slice [simp]:
  "as_slice (balance_encode_value \<lparr>ab_address_script_hash = a, ab_balance_zat = b\<rparr>) = to_be_bytes b"
  by (simp add: balance_encode_value_def)

lemma set_balance_other [simp]:
  "f \<noteq> TransparentAddressBalance \<Longrightarrow> family_encodes kb enc f m (set_balance a n rows) = family_encodes kb enc f m rows"
  "index_encodes u (set_balance a n rows) = index_encodes u rows"
  by (simp_all add: set_balance_def)

definition put_balance :: "script_hash \<Rightarrow> u64 \<Rightarrow> (script_hash, u64) fmap \<Rightarrow> (script_hash, u64) fmap" where
  "put_balance a n balances = (if n = 0 then fmdrop a balances else fmupd a n balances)"

lemma family_encodes_set_balance:
  assumes "family_encodes as_slice (\<lambda>b. Inr (to_be_bytes b)) TransparentAddressBalance balances rows"
  shows "family_encodes as_slice (\<lambda>b. Inr (to_be_bytes b)) TransparentAddressBalance
           (put_balance a n balances) (set_balance a n rows)"
  using assms by (simp add: set_balance_def put_balance_def family_encodes_upd family_encodes_drop)

lemma replace_balance_sim:
  assumes "reads_stored lib db st" and "plans blake2b lim st summary rows p" and E: "\<And>e. E e e"
    and row: "fmlookup rows (TransparentAddressBalance, as_slice a) = (if current = 0 then None else Some (to_be_bytes current))"
  shows "sim resource_error E (plans blake2b lim st summary) (Ok (set_balance a n rows))
           (replace_balance blake2b lib db a current n p)"
proof -
  let ?k = "(TransparentAddressBalance, as_slice a)"
  let ?rows = "if current > 0 then fmdrop ?k rows else rows"
  have removed: "sim resource_error E (plans blake2b lim st summary) (Ok ?rows)
      (if current > 0 then
         plan_remove_row blake2b lib db TransparentAddressBalance TRANSPARENT_ADDRESS_BALANCE_COLUMN_FAMILY
           (as_slice a) (to_be_bytes current) p
       else Ok p)"
    using remove_row_sim [OF assms(1,2), where f = TransparentAddressBalance and E = E and k = "as_slice a"
        and v = "to_be_bytes current"] assms(2) E row
    by (auto simp: word_neq_0_conv [symmetric])
  have absent: "fmlookup ?rows ?k = None" using row by (auto simp: word_neq_0_conv)
  have after: "fmupd ?k v ?rows = fmupd ?k v rows" for v by (intro fmap_ext) auto
  have none: "?rows = fmdrop ?k rows" using row by (intro fmap_ext) (auto simp: word_neq_0_conv)
  show ?thesis
    unfolding replace_balance_def Let_def balance_encode_slice
  proof (rule sim_Ok_and_then [OF removed])
    fix q
    assume q: "plans blake2b lim st summary ?rows q"
    show "sim resource_error E (plans blake2b lim st summary) (Ok (set_balance a n rows))
        (if n > 0 then plan_insert_row blake2b lib db TransparentAddressBalance
           TRANSPARENT_ADDRESS_BALANCE_COLUMN_FAMILY (as_slice a) (to_be_bytes n) q else Ok q)"
      using insert_row_sim [OF assms(1) q, where f = TransparentAddressBalance and E = E and k = "as_slice a"
          and v = "to_be_bytes n"] E absent after [of "to_be_bytes n"] none q
      by (auto simp: set_balance_def word_neq_0_conv [symmetric])
  qed
qed

lemma balance_row:
  assumes "family_encodes as_slice (\<lambda>b. Inr (to_be_bytes b)) TransparentAddressBalance balances rows"
    and "fmlookup balances a \<noteq> Some 0"
  shows "fmlookup rows (TransparentAddressBalance, as_slice a) =
           (if balance_of a balances = 0 then None else Some (to_be_bytes (balance_of a balances)))"
  using family_encodes_lookup [OF assms(1), of a] assms(2)
  by (auto simp: balance_of_def elim: option.rel_cases split: option.splits)

lemma add_balance_sim:
  assumes "reads_stored lib db st" and "plans blake2b lim st summary rows p" and "\<And>e. E e e"
    and "family_encodes as_slice (\<lambda>b. Inr (to_be_bytes b)) TransparentAddressBalance balances rows"
    and "fmlookup balances a \<noteq> Some 0" and "v > 0" and "checked_add (balance_of a balances) v = Some n"
  shows "sim resource_error E (plans blake2b lim st summary) (Ok (set_balance a n rows)) (add_balance blake2b lib db a v p)"
proof -
  have "v \<noteq> 0" using assms(6) by auto
  then show ?thesis
    unfolding add_balance_def
    using assms(7) replace_balance_sim [OF assms(1,2), where E = E and a = a and n = n, OF assms(3) balance_row [OF assms(4,5)]]
    by (auto intro!: sim_Ok_and_then [OF current_balance_sim [OF assms(1,2,4,5)]])
qed

lemma subtract_balance_sim:
  assumes "reads_stored lib db st" and "plans blake2b lim st summary rows p" and "\<And>e. E e e"
    and "family_encodes as_slice (\<lambda>b. Inr (to_be_bytes b)) TransparentAddressBalance balances rows"
    and "fmlookup balances a \<noteq> Some 0" and "v > 0" and "checked_sub (balance_of a balances) v = Some n"
  shows "sim resource_error E (plans blake2b lim st summary) (Ok (set_balance a n rows)) (subtract_balance blake2b lib db a v p)"
proof -
  have "v \<noteq> 0" using assms(6) by auto
  then show ?thesis
    unfolding subtract_balance_def
    using assms(7) replace_balance_sim [OF assms(1,2), where E = E and a = a and n = n, OF assms(3) balance_row [OF assms(4,5)]]
    by (auto intro!: sim_Ok_and_then [OF current_balance_sim [OF assms(1,2,4,5)]])
qed

section \<open>Creating an output\<close>

lemma add_unspent_output_Ok:
  assumes "add_unspent_output blake2b network u l = Inr l'"
  shows "ledger_summary l' =
      \<lparr>us_utxo_count = lg_utxo_count l + 1, us_total_value_zat = lg_total_utxo_value_zat l + uo_value_zat u,
       us_commitment = commitment_insert blake2b (output_commitment_element network u) (lg_utxo_commitment l)\<rparr>"
    and "uo_value_zat u = 0 \<Longrightarrow> lg_balance_by_address l' = lg_balance_by_address l"
    and "uo_value_zat u > 0 \<Longrightarrow> \<exists>n. n \<noteq> 0 \<and>
      checked_add (balance_of (uo_address_script_hash u) (lg_balance_by_address l)) (uo_value_zat u) = Some n \<and>
      lg_balance_by_address l' = fmupd (uo_address_script_hash u) n (lg_balance_by_address l)"
proof -
  show "ledger_summary l' =
      \<lparr>us_utxo_count = lg_utxo_count l + 1, us_total_value_zat = lg_total_utxo_value_zat l + uo_value_zat u,
       us_commitment = commitment_insert blake2b (output_commitment_element network u) (lg_utxo_commitment l)\<rparr>"
    using assms by (auto simp: ledger_summary_def add_unspent_output_def Let_def and_then_Ok_iff checked_add_def split: if_splits)
  show "uo_value_zat u = 0 \<Longrightarrow> lg_balance_by_address l' = lg_balance_by_address l"
    using assms by (auto simp: add_unspent_output_def Let_def and_then_Ok_iff)
  have "n \<noteq> 0" if "uo_value_zat u > 0" "checked_add b (uo_value_zat u) = Some n" for b n
    using that by (auto simp: checked_add_Some_iff word_less_nat_alt)
  then show "uo_value_zat u > 0 \<Longrightarrow> \<exists>n. n \<noteq> 0 \<and>
      checked_add (balance_of (uo_address_script_hash u) (lg_balance_by_address l)) (uo_value_zat u) = Some n \<and>
      lg_balance_by_address l' = fmupd (uo_address_script_hash u) n (lg_balance_by_address l)"
    using assms by (auto simp: add_unspent_output_def Let_def and_then_Ok_iff)
qed

lemma validate_add_sim:
  assumes "reads_stored lib db st" and "plans blake2b lim st (ledger_summary l) rows p"
    and "family_encodes as_slice (\<lambda>b. Inr (to_be_bytes b)) TransparentAddressBalance (lg_balance_by_address l) rows"
    and "fmlookup (lg_balance_by_address l) (uo_address_script_hash u) \<noteq> Some 0"
  shows "sim resource_error same_failure (\<lambda>l' _. add_unspent_output blake2b network u l = Inr l')
           (map_err Contract (add_unspent_output blake2b network u l)) (validate_add_unspent lib db u p)"
proof -
  let ?b = "balance_of (uo_address_script_hash u) (lg_balance_by_address l)"
  have p: "us_utxo_count (pl_utxo_summary p) = lg_utxo_count l" "us_total_value_zat (pl_utxo_summary p) = lg_total_utxo_value_zat l"
    using assms(2) by (simp_all add: plans_def ledger_summary_def)
  show ?thesis
    using current_balance_sim [OF assms, of same_failure]
    by (cases "current_balance lib db (uo_address_script_hash u) p"; cases "checked_add (lg_utxo_count l) 1";
        cases "checked_add (lg_total_utxo_value_zat l) (uo_value_zat u)"; cases "checked_add ?b (uo_value_zat u)")
      (auto simp: validate_add_unspent_def p add_unspent_output_def Let_def same_failure_def overflow_errors_def)
qed

lemma map_err_and_then: "map_err g (and_then r f) = and_then (map_err g r) (\<lambda>x. map_err g (f x))"
  by (cases r) auto

lemma plans_summary:
  "plans blake2b lim st summary rows p \<Longrightarrow> plans blake2b lim st summary' rows (p\<lparr>pl_utxo_summary := summary'\<rparr>)"
proof -
  have "plan_view st (p\<lparr>pl_utxo_summary := summary'\<rparr>) = plan_view st p" by (simp add: plan_view_def fun_eq_iff)
  then show "plans blake2b lim st summary rows p \<Longrightarrow> plans blake2b lim st summary' rows (p\<lparr>pl_utxo_summary := summary'\<rparr>)"
    by (auto simp: plans_def accounted_def)
qed

lemma encode_sim:
  assumes "\<And>e. enc a = Inl e \<Longrightarrow> resource_error (Contract e)"
  shows "sim resource_error E (\<lambda>_ v. enc a = Inr v) (Ok ()) (map_err Contract (enc a))"
  using assms by (cases "enc a") auto

lemma unspent_encode_Err: "unspent_encode_value u = Inl e \<Longrightarrow> resource_error (Contract e)"
  by (auto simp: unspent_encode_value_def encoded_len_def and_then_Err_iff split: if_splits)

lemma spent_encode_Err: "spent_encode_value s = Inl e \<Longrightarrow> resource_error (Contract e)"
  by (auto simp: spent_encode_value_def and_then_Err_iff dest: unspent_encode_Err split: if_splits)

lemma index_fresh:
  assumes "ledger_inv blake2b network l" and "fmlookup (lg_unspent_outputs l) (outpoint_key_new (uo_outpoint u)) = None"
    and "index_encodes (lg_unspent_outputs l) rows"
  shows "fmlookup rows (TransparentUnspentOutputByAddress, as_slice (address_unspent_key_new u)) = None"
proof -
  have "\<not> (\<exists>x v. fmlookup (lg_unspent_outputs l) x = Some v \<and> as_slice (address_unspent_key_new u) = as_slice (address_unspent_key_new v))"
    using assms(1,2) address_unspent_key_new_eqD unfolding as_slice_eq_iff ledger_inv_def
    by (metis option.distinct(1))
  then show ?thesis using assms(3) unfolding index_encodes_def by auto
qed

text \<open>The table after the creation of an output, with the new balance of its address.\<close>

definition created_rows :: "unspent_output \<Rightarrow> u8 list \<Rightarrow> u64 \<Rightarrow> table \<Rightarrow> table" where
  "created_rows u encoded n rows =
     (let rows = fmupd (TransparentUnspentOutputByAddress, as_slice (address_unspent_key_new u)) []
            (fmupd (TransparentUnspentOutput, as_slice (outpoint_key_new (uo_outpoint u))) encoded rows)
      in if uo_value_zat u = 0 then rows else set_balance (uo_address_script_hash u) n rows)"

lemmas created_rows_eq = created_rows_def [unfolded Let_def]

lemma created_rows_encodes:
  assumes m: "encodes m rows" and encoded: "unspent_encode_value u = Inr encoded"
    and absent: "fmlookup (lg_unspent_outputs (mr_ledger m)) (outpoint_key_new (uo_outpoint u)) = None"
    and add: "add_unspent_output blake2b network u (mr_ledger m) = Inr l"
  shows "encodes (m\<lparr>mr_ledger := l\<lparr>lg_unspent_outputs :=
             fmupd (outpoint_key_new (uo_outpoint u)) u (lg_unspent_outputs l)\<rparr>\<rparr>)
           (created_rows u encoded (balance_of (uo_address_script_hash u) (lg_balance_by_address l)) rows)"
    (is "encodes ?m' ?rows'")
proof -
  let ?l = "mr_ledger m" and ?a = "uo_address_script_hash u" and ?key = "outpoint_key_new (uo_outpoint u)"
  let ?rows1 = "fmupd (TransparentUnspentOutput, as_slice ?key) encoded rows"
  let ?rows2 = "fmupd (TransparentUnspentOutputByAddress, as_slice (address_unspent_key_new u)) [] ?rows1"
  have frame: "lg_unspent_outputs l = lg_unspent_outputs ?l" "lg_spent_outputs l = lg_spent_outputs ?l"
    "lg_address_transactions l = lg_address_transactions ?l"
    using add_unspent_output_frame [OF add] by auto
  have balances: "family_encodes as_slice (\<lambda>b. Inr (to_be_bytes b)) TransparentAddressBalance (lg_balance_by_address ?l) ?rows2"
    using m by (simp add: encodes_def)
  have "family_encodes as_slice (\<lambda>b. Inr (to_be_bytes b)) TransparentAddressBalance (lg_balance_by_address l) ?rows'"
  proof (cases "uo_value_zat u = 0")
    case True
    then show ?thesis using balances add_unspent_output_Ok(2) [OF add] by (simp add: created_rows_eq)
  next
    case False
    then obtain n where "n \<noteq> 0" "lg_balance_by_address l = fmupd ?a n (lg_balance_by_address ?l)"
      using add_unspent_output_Ok(3) [OF add] by (auto simp: word_neq_0_conv)
    then show ?thesis
      using family_encodes_set_balance [OF balances, of ?a n] False by (simp add: created_rows_eq put_balance_def)
  qed
  moreover have "index_encodes (fmupd ?key u (lg_unspent_outputs ?l)) ?rows'"
    using index_encodes_upd [of "lg_unspent_outputs ?l" ?rows1 ?key u] m absent
    by (simp add: created_rows_eq encodes_def)
  moreover have "family_encodes as_slice unspent_encode_value TransparentUnspentOutput
      (fmupd ?key u (lg_unspent_outputs ?l)) ?rows'"
    using m encoded by (simp add: created_rows_eq encodes_def family_encodes_upd)
  ultimately show ?thesis
    using m frame by (simp add: encodes_def created_rows_eq)
qed

lemma create_rows_sim:
  assumes reads: "reads_stored lib db st" and inv: "ledger_inv blake2b network (mr_ledger m)" and m: "encodes m rows"
    and p: "plans blake2b lim st (ledger_summary (mr_ledger m)) rows p"
    and absent: "fmlookup (lg_unspent_outputs (mr_ledger m)) (outpoint_key_new (uo_outpoint u)) = None"
    and add: "add_unspent_output blake2b network u (mr_ledger m) = Inr l"
    and rest: "\<And>q. plans blake2b lim st (ledger_summary (mr_ledger m))
        (created_rows u encoded (balance_of (uo_address_script_hash u) (lg_balance_by_address l)) rows) q \<Longrightarrow>
      sim resource_error same_failure S a (g q)"
  shows "sim resource_error same_failure S a
           (and_then (insert_row_after_absence_observed blake2b lib db TransparentUnspentOutput
                        TRANSPARENT_UNSPENT_OUTPUT_COLUMN_FAMILY (as_slice (outpoint_key_new (uo_outpoint u))) encoded p) (\<lambda>p.
            and_then (plan_insert_row blake2b lib db TransparentUnspentOutputByAddress
                        TRANSPARENT_UNSPENT_OUTPUT_BY_ADDRESS_COLUMN_FAMILY (as_slice (address_unspent_key_new u)) [] p) (\<lambda>p.
            and_then (add_balance blake2b lib db (uo_address_script_hash u) (uo_value_zat u) p) g)))"
proof -
  let ?l = "mr_ledger m" and ?a = "uo_address_script_hash u" and ?v = "uo_value_zat u"
  let ?key = "outpoint_key_new (uo_outpoint u)" and ?index = "address_unspent_key_new u"
  let ?rows1 = "fmupd (TransparentUnspentOutput, as_slice ?key) encoded rows"
  let ?rows2 = "fmupd (TransparentUnspentOutputByAddress, as_slice ?index) [] ?rows1"
  have row: "fmlookup rows (TransparentUnspentOutput, as_slice ?key) = None"
    using m absent family_encodes_lookup unfolding encodes_def by (metis option.rel_sel option.collapse)
  have index: "fmlookup ?rows1 (TransparentUnspentOutputByAddress, as_slice ?index) = None"
    using index_fresh [OF inv absent, of rows] m by (simp add: encodes_def)
  have nonzero: "fmlookup (lg_balance_by_address ?l) ?a \<noteq> Some 0"
    using inv by (simp add: ledger_inv_def accounts_def)
  have balances: "family_encodes as_slice (\<lambda>b. Inr (to_be_bytes b)) TransparentAddressBalance (lg_balance_by_address ?l) ?rows2"
    using m by (simp add: encodes_def)
  have first: "sim resource_error same_failure (plans blake2b lim st (ledger_summary ?l)) (Ok ?rows1)
      (insert_row_after_absence_observed blake2b lib db TransparentUnspentOutput
         TRANSPARENT_UNSPENT_OUTPUT_COLUMN_FAMILY (as_slice ?key) encoded p)"
    by (rule insert_absent_sim [OF p row]) simp
  have second: "sim resource_error same_failure (plans blake2b lim st (ledger_summary ?l)) (Ok ?rows2)
      (plan_insert_row blake2b lib db TransparentUnspentOutputByAddress
         TRANSPARENT_UNSPENT_OUTPUT_BY_ADDRESS_COLUMN_FAMILY (as_slice ?index) [] q)"
    if "plans blake2b lim st (ledger_summary ?l) ?rows1 q" for q
    using insert_row_sim [OF reads that, where f = TransparentUnspentOutputByAddress and E = same_failure
        and k = "as_slice ?index" and v = "[]"] index by simp
  have third: "sim resource_error same_failure (plans blake2b lim st (ledger_summary ?l))
      (Ok (created_rows u encoded (balance_of ?a (lg_balance_by_address l)) rows)) (add_balance blake2b lib db ?a ?v q)"
    if "plans blake2b lim st (ledger_summary ?l) ?rows2 q" for q
    using add_unspent_output_Ok(3) [OF add] add_balance_sim [OF reads that _ balances nonzero, of same_failure ?v] that
    by (cases "?v = 0") (auto simp: created_rows_eq add_balance_def word_neq_0_conv)
  show ?thesis by (intro sim_Ok_and_then [OF first] sim_Ok_and_then [OF second] sim_Ok_and_then [OF third] rest)
qed

lemma commit_add_realizes:
  assumes wf: "machine_wf blake2b network m" and m: "encodes m rows" and valid: "unspent_valid u"
    and fresh: "ledger_contains (outpoint_key_new (uo_outpoint u)) (mr_ledger m) = Inr False"
    and add: "add_unspent_output blake2b network u (mr_ledger m) = Inr l" and encoded: "unspent_encode_value u = Inr encoded"
    and q: "plans blake2b lim st (ledger_summary (mr_ledger m))
      (created_rows u encoded (balance_of (uo_address_script_hash u) (lg_balance_by_address l)) rows) q"
  shows "realizes blake2b network lim st
      (m\<lparr>mr_ledger := l\<lparr>lg_unspent_outputs := fmupd (outpoint_key_new (uo_outpoint u)) u (lg_unspent_outputs l)\<rparr>\<rparr>)
      (commit_add_unspent blake2b network u q)"
    (is "realizes _ _ _ _ (m\<lparr>mr_ledger := ?l'\<rparr>) _")
proof -
  have inv: "ledger_inv blake2b network (mr_ledger m)" using wf by (simp add: machine_wf_def)
  have "fmlookup (lg_unspent_outputs (mr_ledger m)) (outpoint_key_new (uo_outpoint u)) = None"
    using fresh by (simp add: ledger_contains_def)
  note encodes = created_rows_encodes [OF m encoded this add]
  have "machine_wf blake2b network (m\<lparr>mr_ledger := ?l'\<rparr>)"
    using ledger_create_Ok(4) [OF inv _ fresh refl valid, of ?l'] add wf by (simp add: machine_wf_def ledger_create_def)
  moreover have "ledger_summary ?l' = ledger_summary l" by (simp add: ledger_summary_def)
  moreover have "commit_add_unspent blake2b network u q = q\<lparr>pl_utxo_summary := ledger_summary l\<rparr>"
    using q by (simp add: commit_add_unspent_def add_unspent_output_Ok(1) [OF add] plans_def) (simp add: ledger_summary_def)
  ultimately show ?thesis
    using encodes plans_summary [OF q, of "ledger_summary l"] by (auto simp: realizes_def)
qed

lemma insert_unspent_sim:
  assumes reads: "reads_stored lib db st" and R: "realizes blake2b network lim st m p" and valid: "unspent_valid u"
  shows "sim resource_error same_failure (realizes blake2b network lim st)
           (machine_insert_unspent blake2b network u m) (insert_unspent blake2b lib db network u p)"
proof -
  let ?l = "mr_ledger m" and ?key = "outpoint_key_new (uo_outpoint u)"
  obtain rows where wf: "machine_wf blake2b network m" and p: "plans blake2b lim st (ledger_summary ?l) rows p" and m: "encodes m rows"
    using R by (auto simp: realizes_def)
  have inv: "ledger_inv blake2b network ?l" using wf by (simp add: machine_wf_def)
  have nonzero: "fmlookup (lg_balance_by_address ?l) (uo_address_script_hash u) \<noteq> Some 0"
    using inv by (simp add: ledger_inv_def accounts_def)
  have balances: "family_encodes as_slice (\<lambda>b. Inr (to_be_bytes b)) TransparentAddressBalance (lg_balance_by_address ?l) rows"
    using m by (simp add: encodes_def)
  have fresh: "ledger_contains ?key ?l = Inr False" "fmlookup (lg_unspent_outputs ?l) ?key = None"
    if "machine_contains ?key m = Inr False"
    using that by (auto simp: machine_contains_def ledger_contains_def)
  show ?thesis
    unfolding machine_insert_unspent_def insert_unspent_def Let_def ledger_create_def map_err_and_then and_then_assoc
    by (rule sim_and_then [OF sim_known [OF contains_sim [OF reads p m inv]]])
      (auto intro!: sim_if sim_and_then [OF validate_add_sim [OF reads p balances nonzero]]
          sim_Ok_and_then [OF encode_sim [OF unspent_encode_Err]]
          create_rows_sim [OF reads inv m p fresh(2)] commit_add_realizes [OF wf m valid fresh(1)])
qed

section \<open>Removing an unspent output\<close>

lemma subtract_unspent_output_Ok:
  assumes "subtract_unspent_output blake2b network u l = Inr l'"
  shows "ledger_summary l' =
      \<lparr>us_utxo_count = lg_utxo_count l - 1, us_total_value_zat = lg_total_utxo_value_zat l - uo_value_zat u,
       us_commitment = commitment_subtract blake2b (output_commitment_element network u) (lg_utxo_commitment l)\<rparr>"
    and "checked_sub (lg_utxo_count l) 1 \<noteq> None" and "checked_sub (lg_total_utxo_value_zat l) (uo_value_zat u) \<noteq> None"
    and "uo_value_zat u = 0 \<Longrightarrow> lg_balance_by_address l' = lg_balance_by_address l"
    and "uo_value_zat u > 0 \<Longrightarrow> \<exists>n.
      checked_sub (balance_of (uo_address_script_hash u) (lg_balance_by_address l)) (uo_value_zat u) = Some n \<and>
      lg_balance_by_address l' = put_balance (uo_address_script_hash u) n (lg_balance_by_address l)"
    and "lg_unspent_outputs l' = lg_unspent_outputs l" and "lg_spent_outputs l' = lg_spent_outputs l"
    and "lg_address_transactions l' = lg_address_transactions l"
  using assms
  by (auto simp: ledger_summary_def subtract_unspent_output_def Let_def and_then_Ok_iff checked_sub_def balance_of_def put_balance_def
      split: if_splits)

definition removed_rows :: "unspent_output \<Rightarrow> u64 \<Rightarrow> table \<Rightarrow> table" where
  "removed_rows u n rows =
     (let rows = fmdrop (TransparentUnspentOutputByAddress, as_slice (address_unspent_key_new u))
            (fmdrop (TransparentUnspentOutput, as_slice (outpoint_key_new (uo_outpoint u))) rows)
      in if uo_value_zat u = 0 then rows else set_balance (uo_address_script_hash u) n rows)"

lemmas removed_rows_eq = removed_rows_def [unfolded Let_def]

lemma removed_rows_encodes:
  assumes m: "encodes m rows" and inv: "ledger_inv blake2b network (mr_ledger m)"
    and known: "fmlookup (lg_unspent_outputs (mr_ledger m)) (outpoint_key_new (uo_outpoint u)) = Some u"
    and sub: "subtract_unspent_output blake2b network u
      ((mr_ledger m)\<lparr>lg_unspent_outputs := fmdrop (outpoint_key_new (uo_outpoint u)) (lg_unspent_outputs (mr_ledger m))\<rparr>) = Inr l"
  shows "encodes (m\<lparr>mr_ledger := l\<rparr>)
           (removed_rows u (balance_of (uo_address_script_hash u) (lg_balance_by_address l)) rows)"
    (is "encodes _ ?rows'")
proof -
  let ?l = "mr_ledger m" and ?a = "uo_address_script_hash u" and ?key = "outpoint_key_new (uo_outpoint u)"
  let ?rows1 = "fmdrop (TransparentUnspentOutput, as_slice ?key) rows"
  let ?rows2 = "fmdrop (TransparentUnspentOutputByAddress, as_slice (address_unspent_key_new u)) ?rows1"
  note fields = subtract_unspent_output_Ok [OF sub, simplified]
  have balances: "family_encodes as_slice (\<lambda>b. Inr (to_be_bytes b)) TransparentAddressBalance (lg_balance_by_address ?l) ?rows2"
    using m by (simp add: encodes_def)
  have "family_encodes as_slice (\<lambda>b. Inr (to_be_bytes b)) TransparentAddressBalance (lg_balance_by_address l) ?rows'"
  proof (cases "uo_value_zat u = 0")
    case True
    then show ?thesis using balances fields(4) by (simp add: removed_rows_eq)
  next
    case False
    then obtain n where n: "lg_balance_by_address l = put_balance ?a n (lg_balance_by_address ?l)"
      using fields(5) by (auto simp: word_neq_0_conv)
    then have "balance_of ?a (lg_balance_by_address l) = n" by (simp add: put_balance_def)
    then show ?thesis
      using family_encodes_set_balance [OF balances, of ?a n] False n by (simp add: removed_rows_eq)
  qed
  moreover have "index_encodes (fmdrop ?key (lg_unspent_outputs ?l)) ?rows'"
  proof -
    have "index_encodes (lg_unspent_outputs ?l) ?rows1" using m by (simp add: encodes_def)
    moreover have "y = outpoint_key_new (uo_outpoint v)" if "fmlookup (lg_unspent_outputs ?l) y = Some v" for y v
      using inv that unfolding ledger_inv_def by blast
    ultimately have "index_encodes (fmdrop ?key (lg_unspent_outputs ?l)) ?rows2"
      using index_encodes_drop known by blast
    then show ?thesis by (simp add: removed_rows_eq)
  qed
  moreover have "family_encodes as_slice unspent_encode_value TransparentUnspentOutput
      (fmdrop ?key (lg_unspent_outputs ?l)) ?rows'"
    using m by (simp add: removed_rows_eq encodes_def family_encodes_drop)
  ultimately show ?thesis
    using m fields(6-8) by (simp add: encodes_def removed_rows_eq)
qed

lemma validate_remove_sim:
  assumes reads: "reads_stored lib db st" and p: "plans blake2b lim st (ledger_summary l) rows p"
    and balances: "family_encodes as_slice (\<lambda>b. Inr (to_be_bytes b)) TransparentAddressBalance (lg_balance_by_address l) rows"
    and nonzero: "fmlookup (lg_balance_by_address l) (uo_address_script_hash u) \<noteq> Some 0"
    and sub: "subtract_unspent_output blake2b network u (l\<lparr>lg_unspent_outputs := x\<rparr>) = Inr l'"
  shows "sim resource_error same_failure (\<lambda>_ _. True) (Ok ()) (validate_remove_unspent lib db u p)"
proof -
  have p': "us_utxo_count (pl_utxo_summary p) = lg_utxo_count l" "us_total_value_zat (pl_utxo_summary p) = lg_total_utxo_value_zat l"
    using p by (simp_all add: plans_def ledger_summary_def)
  show ?thesis
    using current_balance_sim [OF reads p balances nonzero, of same_failure] subtract_unspent_output_Ok(2,3,5) [OF sub]
    by (cases "current_balance lib db (uo_address_script_hash u) p") (auto simp: validate_remove_unspent_def p')
qed

lemma remove_rows_sim:
  assumes reads: "reads_stored lib db st" and inv: "ledger_inv blake2b network (mr_ledger m)" and m: "encodes m rows"
    and p: "plans blake2b lim st (ledger_summary (mr_ledger m)) rows p"
    and known: "fmlookup (lg_unspent_outputs (mr_ledger m)) (outpoint_key_new (uo_outpoint u)) = Some u"
    and encoded: "unspent_encode_value u = Inr encoded"
    and sub: "subtract_unspent_output blake2b network u
      ((mr_ledger m)\<lparr>lg_unspent_outputs := fmdrop (outpoint_key_new (uo_outpoint u)) (lg_unspent_outputs (mr_ledger m))\<rparr>) = Inr l"
    and rest: "\<And>q. plans blake2b lim st (ledger_summary (mr_ledger m))
        (removed_rows u (balance_of (uo_address_script_hash u) (lg_balance_by_address l)) rows) q \<Longrightarrow>
      sim resource_error same_failure S a (g q)"
  shows "sim resource_error same_failure S a
           (and_then (remove_row_after_value_observed blake2b lib db TransparentUnspentOutput
                        TRANSPARENT_UNSPENT_OUTPUT_COLUMN_FAMILY (as_slice (outpoint_key_new (uo_outpoint u))) encoded p) (\<lambda>p.
            and_then (remove_row_after_value_observed blake2b lib db TransparentUnspentOutputByAddress
                        TRANSPARENT_UNSPENT_OUTPUT_BY_ADDRESS_COLUMN_FAMILY (as_slice (address_unspent_key_new u)) [] p) (\<lambda>p.
            and_then (subtract_balance blake2b lib db (uo_address_script_hash u) (uo_value_zat u) p) g)))"
proof -
  let ?l = "mr_ledger m" and ?a = "uo_address_script_hash u" and ?v = "uo_value_zat u"
  let ?key = "outpoint_key_new (uo_outpoint u)" and ?index = "address_unspent_key_new u"
  let ?rows1 = "fmdrop (TransparentUnspentOutput, as_slice ?key) rows"
  let ?rows2 = "fmdrop (TransparentUnspentOutputByAddress, as_slice ?index) ?rows1"
  note fields = subtract_unspent_output_Ok [OF sub, simplified]
  have row: "fmlookup rows (TransparentUnspentOutput, as_slice ?key) = Some encoded"
    using m encoded known family_encodes_lookup [of as_slice unspent_encode_value TransparentUnspentOutput
        "lg_unspent_outputs ?l" rows ?key] by (auto simp: encodes_def elim: option.rel_cases)
  have index: "fmlookup ?rows1 (TransparentUnspentOutputByAddress, as_slice ?index) = Some []"
    using m known by (auto simp: encodes_def index_encodes_def)
  have nonzero: "fmlookup (lg_balance_by_address ?l) ?a \<noteq> Some 0"
    using inv by (simp add: ledger_inv_def accounts_def)
  have balances: "family_encodes as_slice (\<lambda>b. Inr (to_be_bytes b)) TransparentAddressBalance (lg_balance_by_address ?l) ?rows2"
    using m by (simp add: encodes_def)
  have first: "sim resource_error same_failure (plans blake2b lim st (ledger_summary ?l)) (Ok ?rows1)
      (remove_row_after_value_observed blake2b lib db TransparentUnspentOutput
         TRANSPARENT_UNSPENT_OUTPUT_COLUMN_FAMILY (as_slice ?key) encoded p)"
    by (rule remove_observed_sim [OF p row]) simp
  have second: "sim resource_error same_failure (plans blake2b lim st (ledger_summary ?l)) (Ok ?rows2)
      (remove_row_after_value_observed blake2b lib db TransparentUnspentOutputByAddress
         TRANSPARENT_UNSPENT_OUTPUT_BY_ADDRESS_COLUMN_FAMILY (as_slice ?index) [] q)"
    if "plans blake2b lim st (ledger_summary ?l) ?rows1 q" for q
    by (rule remove_observed_sim [OF that index]) simp
  have third: "sim resource_error same_failure (plans blake2b lim st (ledger_summary ?l))
      (Ok (removed_rows u (balance_of ?a (lg_balance_by_address l)) rows)) (subtract_balance blake2b lib db ?a ?v q)"
    if "plans blake2b lim st (ledger_summary ?l) ?rows2 q" for q
  proof (cases "?v = 0")
    case True
    then show ?thesis using that by (simp add: removed_rows_eq subtract_balance_def)
  next
    case False
    then obtain n where n: "checked_sub (balance_of ?a (lg_balance_by_address ?l)) ?v = Some n"
        "lg_balance_by_address l = put_balance ?a n (lg_balance_by_address ?l)"
      using fields(5) by (auto simp: word_neq_0_conv)
    then have "balance_of ?a (lg_balance_by_address l) = n" by (simp add: put_balance_def)
    then show ?thesis
      using subtract_balance_sim [OF reads that _ balances nonzero, of same_failure ?v n] n False word_neq_0_conv [of ?v]
      by (simp add: removed_rows_eq)
  qed
  show ?thesis by (intro sim_Ok_and_then [OF first] sim_Ok_and_then [OF second] sim_Ok_and_then [OF third] rest)
qed

lemma remove_unspent_sim:
  assumes reads: "reads_stored lib db st" and R: "realizes blake2b network lim st m p"
    and known: "fmlookup (lg_unspent_outputs (mr_ledger m)) (outpoint_key_new (uo_outpoint u)) = Some u"
  shows "sim resource_error same_failure (realizes blake2b network lim st)
           (machine_remove_unspent blake2b network u m) (remove_unspent blake2b lib db network u p)"
proof -
  let ?l = "mr_ledger m" and ?key = "outpoint_key_new (uo_outpoint u)"
  let ?dropped = "?l\<lparr>lg_unspent_outputs := fmdrop ?key (lg_unspent_outputs ?l)\<rparr>"
  obtain rows where wf: "machine_wf blake2b network m" and p: "plans blake2b lim st (ledger_summary ?l) rows p" and m: "encodes m rows"
    using R by (auto simp: realizes_def)
  have inv: "ledger_inv blake2b network ?l" using wf by (simp add: machine_wf_def)
  have nonzero: "fmlookup (lg_balance_by_address ?l) (uo_address_script_hash u) \<noteq> Some 0"
    using inv by (simp add: ledger_inv_def accounts_def)
  have balances: "family_encodes as_slice (\<lambda>b. Inr (to_be_bytes b)) TransparentAddressBalance (lg_balance_by_address ?l) rows"
    using m by (simp add: encodes_def)
  have "accounts blake2b network (lg_unspent_outputs ?l) ?dropped" using inv by (simp add: ledger_inv_def)
  from subtract_unspent_output_accounts [OF this known] obtain l where
    sub: "subtract_unspent_output blake2b network u ?dropped = Inr l"
    and accounts: "accounts blake2b network (fmdrop ?key (lg_unspent_outputs ?l)) l"
    by blast
  note fields = subtract_unspent_output_Ok [OF sub, simplified]
  obtain encoded where encoded: "unspent_encode_value u = Inr encoded"
    "fmlookup rows (TransparentUnspentOutput, as_slice ?key) = Some encoded"
    using m known family_encodes_lookup [of as_slice unspent_encode_value TransparentUnspentOutput
        "lg_unspent_outputs ?l" rows ?key] by (auto simp: encodes_def elim: option.rel_cases)
  have index: "fmlookup rows (TransparentUnspentOutputByAddress, as_slice (address_unspent_key_new u)) = Some []"
    using m known by (auto simp: encodes_def index_encodes_def)
  have removed: "realizes blake2b network lim st (m\<lparr>mr_ledger := l\<rparr>) (commit_remove_unspent blake2b network u q)"
    if q: "plans blake2b lim st (ledger_summary ?l)
      (removed_rows u (balance_of (uo_address_script_hash u) (lg_balance_by_address l)) rows) q" for q
  proof -
    have "machine_wf blake2b network (m\<lparr>mr_ledger := l\<rparr>)"
      using wf accounts fields(6-8) by (auto simp: machine_wf_def ledger_inv_def)
    moreover have "commit_remove_unspent blake2b network u q = q\<lparr>pl_utxo_summary := ledger_summary l\<rparr>"
      using q by (simp add: commit_remove_unspent_def fields(1) plans_def) (simp add: ledger_summary_def)
    ultimately show ?thesis
      using removed_rows_encodes [OF m inv known sub] plans_summary [OF q, of "ledger_summary l"] by (auto simp: realizes_def)
  qed
  have machine: "machine_remove_unspent blake2b network u m = Ok (m\<lparr>mr_ledger := l\<rparr>)"
    by (simp add: machine_remove_unspent_def sub)
  show ?thesis
    unfolding machine remove_unspent_def Let_def encoded(1) map_err_simps and_then_simps
    using raw_sim [OF reads p, of same_failure TransparentUnspentOutput "as_slice ?key"]
      raw_sim [OF reads p, of same_failure TransparentUnspentOutputByAddress "as_slice (address_unspent_key_new u)"]
      encoded(2) index
    by (cases "raw lib db TRANSPARENT_UNSPENT_OUTPUT_COLUMN_FAMILY (as_slice ?key) p";
        cases "raw lib db TRANSPARENT_UNSPENT_OUTPUT_BY_ADDRESS_COLUMN_FAMILY (as_slice (address_unspent_key_new u)) p")
      (auto intro!: sim_Ok_and_then [OF validate_remove_sim [OF reads p balances nonzero sub]]
          remove_rows_sim [OF reads inv m p known encoded(1) sub] removed)
qed

section \<open>Spent outputs\<close>

lemma row_of:
  assumes "family_encodes kb enc f m rows"
  shows "fmlookup m x = None \<Longrightarrow> fmlookup rows (f, kb x) = None"
    and "fmlookup m x = Some a \<Longrightarrow> \<exists>v. fmlookup rows (f, kb x) = Some v \<and> enc a = Inr v"
  using family_encodes_lookup [OF assms, of x] by (auto elim: option.rel_cases)

lemma insert_spent_sim:
  assumes reads: "reads_stored lib db st" and R: "realizes blake2b network lim st m p"
    and fresh: "fmlookup (lg_spent_outputs (mr_ledger m)) (outpoint_key_new (uo_outpoint (so_output s))) = None"
      "fmlookup (lg_unspent_outputs (mr_ledger m)) (outpoint_key_new (uo_outpoint (so_output s))) = None"
    and valid: "unspent_valid (so_output s)"
  shows "sim resource_error same_failure (realizes blake2b network lim st)
           (Ok (m\<lparr>mr_ledger := (mr_ledger m)\<lparr>lg_spent_outputs :=
              fmupd (outpoint_key_new (uo_outpoint (so_output s))) s (lg_spent_outputs (mr_ledger m))\<rparr>\<rparr>))
           (insert_spent blake2b lib db s p)"
    (is "sim _ _ _ (Ok ?m') _")
proof -
  let ?l = "mr_ledger m" and ?key = "outpoint_key_new (uo_outpoint (so_output s))"
  obtain rows where wf: "machine_wf blake2b network m" and p: "plans blake2b lim st (ledger_summary ?l) rows p" and m: "encodes m rows"
    using R by (auto simp: realizes_def)
  have inv: "ledger_inv blake2b network ?l" using wf by (simp add: machine_wf_def)
  have row: "fmlookup rows (TransparentSpentOutput, as_slice ?key) = None"
    using m fresh(1) row_of(1) by (auto simp: encodes_def)
  have "ledger_inv blake2b network (mr_ledger ?m')"
    using inv fresh(2) valid unfolding ledger_inv_def by simp blast
  then have wf': "machine_wf blake2b network ?m'" using wf by (simp add: machine_wf_def)
  have result: "realizes blake2b network lim st ?m' q"
    if "spent_encode_value s = Inr encoded"
      "plans blake2b lim st (ledger_summary ?l) (fmupd (TransparentSpentOutput, as_slice ?key) encoded rows) q" for encoded q
  proof -
    have "encodes ?m' (fmupd (TransparentSpentOutput, as_slice ?key) encoded rows)"
      using m that(1) by (simp add: encodes_def family_encodes_upd)
    moreover have "ledger_summary (mr_ledger ?m') = ledger_summary ?l" by (simp add: ledger_summary_def)
    ultimately show ?thesis using wf' that(2) by (auto simp: realizes_def)
  qed
  show ?thesis
    unfolding insert_spent_def Let_def
    using fresh(1)
    by (auto intro!: sim_Ok_and_then [OF read_spent_sim [OF reads p m inv]] sim_Ok_and_then [OF encode_sim [OF spent_encode_Err]]
        sim_Ok_mono [OF insert_absent_sim [OF p row]] result)
qed

lemma spend_sim:
  assumes reads: "reads_stored lib db st" and R: "realizes blake2b network lim st m p"
  shows "sim resource_error same_failure (\<lambda>(x, m') (y, q). x = y \<and> realizes blake2b network lim st m' q)
           (machine_spend blake2b network key pos i m) (plan_spend blake2b lib db network key pos i p)"
proof -
  let ?l = "mr_ledger m"
  obtain rows where wf: "machine_wf blake2b network m" and p: "plans blake2b lim st (ledger_summary ?l) rows p" and m: "encodes m rows"
    using R by (auto simp: realizes_def)
  have inv: "ledger_inv blake2b network ?l" using wf by (simp add: machine_wf_def)
  show ?thesis
  proof (cases "fmlookup (lg_unspent_outputs ?l) key")
    case None
    then show ?thesis
      using read_unspent_sim [OF reads p m inv, of same_failure key] read_spent_sim [OF reads p m inv, of same_failure key]
        ledger_spend_cases [OF inv, of key pos i]
      by (cases "read_unspent lib db key p"; cases "read_spent lib db key p")
        (auto simp: machine_spend_def plan_spend_def)
  next
    case (Some u)
    have key: "key = outpoint_key_new (uo_outpoint u)" "unspent_valid u" "fmlookup (lg_spent_outputs ?l) key = None"
      using inv Some unfolding ledger_inv_def by blast+
    obtain l1 where sub: "machine_remove_unspent blake2b network u m = Inr (m\<lparr>mr_ledger := l1\<rparr>)"
      "lg_unspent_outputs l1 = fmdrop key (lg_unspent_outputs ?l)" "lg_spent_outputs l1 = lg_spent_outputs ?l"
      and spend: "machine_spend blake2b network key pos i m = Inr (u, m\<lparr>mr_ledger := l1\<lparr>lg_spent_outputs :=
          fmupd key \<lparr>so_output = u, so_spent_at = pos, so_input_index = i\<rparr> (lg_spent_outputs l1)\<rparr>\<rparr>)"
    proof -
      have "accounts blake2b network (lg_unspent_outputs ?l) (?l\<lparr>lg_unspent_outputs := fmdrop key (lg_unspent_outputs ?l)\<rparr>)"
        using inv by (simp add: ledger_inv_def)
      from subtract_unspent_output_accounts [OF this Some] obtain l1 where
        "subtract_unspent_output blake2b network u (?l\<lparr>lg_unspent_outputs := fmdrop key (lg_unspent_outputs ?l)\<rparr>) = Inr l1"
        "lg_unspent_outputs l1 = fmdrop key (lg_unspent_outputs ?l)" "lg_spent_outputs l1 = lg_spent_outputs ?l"
        by auto
      then show thesis
        using that [of l1] Some key by (simp add: machine_remove_unspent_def machine_spend_def ledger_spend_def)
    qed
    have removed: "sim resource_error same_failure (realizes blake2b network lim st) (Ok (m\<lparr>mr_ledger := l1\<rparr>))
        (remove_unspent blake2b lib db network u p)"
      using remove_unspent_sim [OF reads R, of u] Some key sub(1) by simp
    show ?thesis
      unfolding plan_spend_def spend
      using Some key sub(2,3)
      by (auto intro!: sim_Ok_and_then [OF read_unspent_sim [OF reads p m inv]] sim_Ok_and_then [OF removed]
          sim_Ok_and_then [OF insert_spent_sim [OF reads]])
  qed
qed

lemma remove_spent_sim:
  assumes reads: "reads_stored lib db st" and R: "realizes blake2b network lim st m p"
  shows "sim resource_error same_failure (\<lambda>(x, m') (y, q). x = y \<and> realizes blake2b network lim st m' q)
           (machine_remove_spent key m) (remove_spent blake2b lib db key p)"
proof -
  let ?l = "mr_ledger m"
  obtain rows where wf: "machine_wf blake2b network m" and p: "plans blake2b lim st (ledger_summary ?l) rows p" and m: "encodes m rows"
    using R by (auto simp: realizes_def)
  have inv: "ledger_inv blake2b network ?l" using wf by (simp add: machine_wf_def)
  have family: "family_encodes as_slice spent_encode_value TransparentSpentOutput (lg_spent_outputs ?l) rows"
    using m by (simp add: encodes_def)
  have raw: "sim resource_error same_failure (=) (Ok (fmlookup rows (TransparentSpentOutput, as_slice key)))
      (raw lib db TRANSPARENT_SPENT_OUTPUT_COLUMN_FAMILY (as_slice key) p)"
    using raw_sim [OF reads p, of same_failure TransparentSpentOutput "as_slice key"] by simp
  show ?thesis
  proof (cases "fmlookup (lg_spent_outputs ?l) key")
    case None
    then show ?thesis
      using row_of(1) [OF family None] raw
      by (cases "raw lib db TRANSPARENT_SPENT_OUTPUT_COLUMN_FAMILY (as_slice key) p")
        (auto simp: machine_remove_spent_def remove_spent_def)
  next
    case (Some s)
    obtain v where v: "fmlookup rows (TransparentSpentOutput, as_slice key) = Some v" "spent_encode_value s = Inr v"
      using row_of(2) [OF family Some] by blast
    have "key = outpoint_key_new (uo_outpoint (so_output s))" "unspent_valid (so_output s)"
      using inv Some unfolding ledger_inv_def by blast+
    then have decode: "spent_decode_value key v = Inr s" using v(2) by (simp add: spent.decode_Ok_iff)
    let ?m' = "m\<lparr>mr_ledger := ?l\<lparr>lg_spent_outputs := fmdrop key (lg_spent_outputs ?l)\<rparr>\<rparr>"
    have "ledger_inv blake2b network (mr_ledger ?m')"
      using inv unfolding ledger_inv_def by simp blast
    then have wf': "machine_wf blake2b network ?m'" using wf by (simp add: machine_wf_def)
    have "encodes ?m' (fmdrop (TransparentSpentOutput, as_slice key) rows)"
      using m by (simp add: encodes_def family_encodes_drop)
    then have result: "realizes blake2b network lim st ?m' q"
      if "plans blake2b lim st (ledger_summary ?l) (fmdrop (TransparentSpentOutput, as_slice key) rows) q" for q
      using wf' that by (auto simp: realizes_def ledger_summary_def)
    show ?thesis
      unfolding machine_remove_spent_def remove_spent_def Let_def
      using raw v decode Some result
      by (auto intro!: sim_Ok_and_then [OF raw] sim_Ok_and_then [OF remove_observed_sim [OF p v(1)]])
  qed
qed

section \<open>Address transactions, created outpoints and undo records\<close>

lemma realizesE:
  assumes "realizes blake2b network lim st m p"
  obtains rows where "machine_wf blake2b network m" "ledger_inv blake2b network (mr_ledger m)"
    "plans blake2b lim st (ledger_summary (mr_ledger m)) rows p" "encodes m rows"
  using assms by (auto simp: realizes_def machine_wf_def)

lemma insert_address_transaction_sim:
  assumes reads: "reads_stored lib db st" and R: "realizes blake2b network lim st m p"
  shows "sim resource_error same_failure (realizes blake2b network lim st) (machine_record e m)
           (insert_address_transaction blake2b lib db e p)"
proof -
  let ?l = "mr_ledger m" and ?k = "(TransparentAddressTransaction, as_slice (at_key e))"
  let ?v = "as_slice (address_transaction_encode_value e)"
  obtain rows where wf: "machine_wf blake2b network m" and inv: "ledger_inv blake2b network ?l"
    and p: "plans blake2b lim st (ledger_summary ?l) rows p" and m: "encodes m rows"
    using R by (rule realizesE)
  have row: "fmlookup rows ?k \<noteq> None \<longleftrightarrow> fmlookup (lg_address_transactions ?l) (at_key e) \<noteq> None"
    using m family_encodes_lookup [of as_slice "\<lambda>e. Inr (as_slice (address_transaction_encode_value e))"
        TransparentAddressTransaction "lg_address_transactions ?l" rows "at_key e"]
    by (auto simp: encodes_def elim: option.rel_cases)
  let ?m' = "m\<lparr>mr_ledger := ?l\<lparr>lg_address_transactions := fmupd (at_key e) e (lg_address_transactions ?l)\<rparr>\<rparr>"
  have "machine_wf blake2b network ?m'"
    using wf ledger_record_inv [OF inv, of e] by (simp add: machine_wf_def ledger_record_def)
  moreover have "encodes ?m' (fmupd ?k ?v rows)"
    using m by (simp add: encodes_def family_encodes_upd)
  ultimately have result: "realizes blake2b network lim st ?m' q"
    if "plans blake2b lim st (ledger_summary ?l) (fmupd ?k ?v rows) q" for q
    using that by (auto simp: realizes_def ledger_summary_def)
  have insert: "sim resource_error same_failure (plans blake2b lim st (ledger_summary ?l))
      (if fmlookup rows ?k \<noteq> None
       then rejected ''wallet transition attempts to overwrite an existing logical row''
       else Ok (fmupd ?k ?v rows)) (insert_address_transaction blake2b lib db e p)"
    unfolding insert_address_transaction_def by (rule insert_row_sim [OF reads p]) simp_all
  show ?thesis
    using insert unfolding machine_record_def ledger_record_def row
    by (cases "fmlookup (lg_address_transactions ?l) (at_key e) \<noteq> None") (auto intro: sim_Ok_mono sim_Err_mono result)
qed

lemma remove_address_transaction_sim:
  assumes reads: "reads_stored lib db st" and R: "realizes blake2b network lim st m p"
  shows "sim resource_error same_failure (realizes blake2b network lim st) (machine_remove_address_transaction key block m)
           (remove_address_transaction blake2b lib db key block p)"
proof -
  let ?l = "mr_ledger m" and ?k = "(TransparentAddressTransaction, as_slice key)"
  obtain rows where wf: "machine_wf blake2b network m" and inv: "ledger_inv blake2b network ?l"
    and p: "plans blake2b lim st (ledger_summary ?l) rows p" and m: "encodes m rows"
    using R by (rule realizesE)
  have family: "family_encodes as_slice (\<lambda>e. Inr (as_slice (address_transaction_encode_value e)))
      TransparentAddressTransaction (lg_address_transactions ?l) rows"
    using m by (simp add: encodes_def)
  have raw: "sim resource_error same_failure (=) (Ok (fmlookup rows ?k))
      (raw lib db TRANSPARENT_ADDRESS_TRANSACTION_COLUMN_FAMILY (as_slice key) p)"
    using raw_sim [OF reads p, of same_failure TransparentAddressTransaction "as_slice key"] by simp
  let ?m' = "m\<lparr>mr_ledger := ?l\<lparr>lg_address_transactions := fmdrop key (lg_address_transactions ?l)\<rparr>\<rparr>"
  have "ledger_inv blake2b network (mr_ledger ?m')"
    using inv unfolding ledger_inv_def by simp
  then have "machine_wf blake2b network ?m'" using wf by (simp add: machine_wf_def)
  moreover have "encodes ?m' (fmdrop ?k rows)"
    using m by (simp add: encodes_def family_encodes_drop)
  ultimately have result: "realizes blake2b network lim st ?m' q"
    if "plans blake2b lim st (ledger_summary ?l) (fmdrop ?k rows) q" for q
    using that by (auto simp: realizes_def ledger_summary_def)
  show ?thesis
  proof (cases "fmlookup (lg_address_transactions ?l) key")
    case None
    then show ?thesis
      unfolding machine_remove_address_transaction_def remove_address_transaction_def Let_def
      using row_of(1) [OF family None] raw
      by (cases "raw lib db TRANSPARENT_ADDRESS_TRANSACTION_COLUMN_FAMILY (as_slice key) p") auto
  next
    case (Some e)
    obtain v where v: "fmlookup rows ?k = Some v" "v = as_slice (address_transaction_encode_value e)"
      using row_of(2) [OF family Some] by auto
    have "at_key e = key" using inv Some unfolding ledger_inv_def by blast
    then have decode: "address_transaction_decode_value key v = Inr e"
      using v(2) by (simp add: address_tx.decode_Ok_iff)
    show ?thesis
      unfolding machine_remove_address_transaction_def remove_address_transaction_def Let_def
      using raw Some decode v(1) remove_observed_sim [OF p v(1), where E = same_failure and lib = lib and db = db]
      by (cases "raw lib db TRANSPARENT_ADDRESS_TRANSACTION_COLUMN_FAMILY (as_slice key) p")
        (auto elim!: sim_Ok_mono intro: result)
  qed
qed

lemma remove_created_sim:
  assumes reads: "reads_stored lib db st" and R: "realizes blake2b network lim st m p"
  shows "sim resource_error same_failure (realizes blake2b network lim st) (machine_remove_created blake2b network key block m)
           (remove_created_outpoint blake2b lib db network key block p)"
proof -
  let ?l = "mr_ledger m"
  obtain rows where inv: "ledger_inv blake2b network ?l"
    and p: "plans blake2b lim st (ledger_summary ?l) rows p" and m: "encodes m rows"
    using R by (rule realizesE)
  have unspent: "sim resource_error same_failure (realizes blake2b network lim st) (machine_remove_unspent blake2b network u m)
      (remove_unspent blake2b lib db network u p)" if "fmlookup (lg_unspent_outputs ?l) key = Some u" for u
  proof -
    have "key = outpoint_key_new (uo_outpoint u)" using inv that unfolding ledger_inv_def by blast
    then show ?thesis using remove_unspent_sim [OF reads R] that by simp
  qed
  have spent: "sim resource_error same_failure (realizes blake2b network lim st)
      (and_then (machine_remove_spent key m) (\<lambda>(_, m). Ok m)) (and_then (remove_spent blake2b lib db key p) (\<lambda>(_, p). Ok p))"
    by (rule sim_and_then [OF remove_spent_sim [OF reads R]]) auto
  show ?thesis
    using read_unspent_sim [OF reads p m inv, of same_failure key] read_spent_sim [OF reads p m inv, of same_failure key]
      unspent spent
    by (cases "read_unspent lib db key p"; cases "read_spent lib db key p";
        cases "fmlookup (lg_unspent_outputs ?l) key"; cases "fmlookup (lg_spent_outputs ?l) key")
      (auto simp: machine_remove_created_def remove_created_outpoint_def created_in_def spent_in_def)
qed

lemma load_undo_sim:
  assumes reads: "reads_stored lib db st" and R: "realizes blake2b network lim st m p"
  shows "sim resource_error same_failure (=) (machine_load_undo h m) (load_undo lib db h p)"
proof -
  obtain rows where wf: "machine_wf blake2b network m"
    and p: "plans blake2b lim st (ledger_summary (mr_ledger m)) rows p" and m: "encodes m rows"
    using R by (rule realizesE)
  have "rel_option (\<lambda>undo v. undo_encode_value undo = Inr v) (fmlookup (mr_undo m) h) (fmlookup rows (ReorgUndo, to_be_bytes h))"
    using m by (auto simp: encodes_def intro: family_encodes_lookup)
  moreover have "undo_decode (to_be_bytes h) v = Inr undo"
    if "fmlookup (mr_undo m) h = Some undo" "undo_encode_value undo = Inr v" for undo v
    using that wf by (simp add: undo.decode_Ok_iff machine_wf_def undo_encode_key_def)
  ultimately have decoded: "decode_row (\<lambda>encoded. and_then (undo_decode (to_be_bytes h) encoded) (\<lambda>undo. Ok (undo, encoded)))
      (fmlookup rows (ReorgUndo, to_be_bytes h)) = machine_load_undo h m"
    by (cases "fmlookup (mr_undo m) h"; cases "fmlookup rows (ReorgUndo, to_be_bytes h)")
      (auto simp: decode_row_def machine_load_undo_def undo_encode_Ok_iff)
  show ?thesis
    using raw_sim [OF reads p, of same_failure ReorgUndo "to_be_bytes h"] decoded
    by (cases "raw lib db REORG_UNDO_COLUMN_FAMILY (to_be_bytes h) p")
      (auto simp: load_undo_def machine_load_undo_def)
qed

lemma undo_rows_realize:
  assumes wf: "machine_wf blake2b network m" and m: "encodes m rows"
  shows "undo_encode_value undo = Inr v \<Longrightarrow> id_height (ru_block undo) = h \<Longrightarrow>
      plans blake2b lim st (ledger_summary (mr_ledger m)) (fmupd (ReorgUndo, to_be_bytes h) v rows) q \<Longrightarrow>
      realizes blake2b network lim st (m\<lparr>mr_undo := fmupd h undo (mr_undo m)\<rparr>) q"
    and "plans blake2b lim st (ledger_summary (mr_ledger m)) (fmdrop (ReorgUndo, to_be_bytes h) rows) q \<Longrightarrow>
      realizes blake2b network lim st (m\<lparr>mr_undo := fmdrop h (mr_undo m)\<rparr>) q"
proof -
  assume "undo_encode_value undo = Inr v" "id_height (ru_block undo) = h"
    and q: "plans blake2b lim st (ledger_summary (mr_ledger m)) (fmupd (ReorgUndo, to_be_bytes h) v rows) q"
  then have "encodes (m\<lparr>mr_undo := fmupd h undo (mr_undo m)\<rparr>) (fmupd (ReorgUndo, to_be_bytes h) v rows)"
    "machine_wf blake2b network (m\<lparr>mr_undo := fmupd h undo (mr_undo m)\<rparr>)"
    using m wf by (simp_all add: encodes_def family_encodes_upd machine_wf_def)
  then show "realizes blake2b network lim st (m\<lparr>mr_undo := fmupd h undo (mr_undo m)\<rparr>) q"
    using q by (auto simp: realizes_def)
next
  assume q: "plans blake2b lim st (ledger_summary (mr_ledger m)) (fmdrop (ReorgUndo, to_be_bytes h) rows) q"
  have "encodes (m\<lparr>mr_undo := fmdrop h (mr_undo m)\<rparr>) (fmdrop (ReorgUndo, to_be_bytes h) rows)"
    "machine_wf blake2b network (m\<lparr>mr_undo := fmdrop h (mr_undo m)\<rparr>)"
    using m wf by (auto simp: encodes_def family_encodes_drop machine_wf_def)
  then show "realizes blake2b network lim st (m\<lparr>mr_undo := fmdrop h (mr_undo m)\<rparr>) q"
    using q by (auto simp: realizes_def)
qed

lemma insert_undo_sim:
  assumes reads: "reads_stored lib db st" and R: "realizes blake2b network lim st m p"
  shows "sim resource_error same_failure (realizes blake2b network lim st) (machine_insert_undo undo m)
           (insert_undo blake2b lib db undo p)"
proof -
  let ?h = "id_height (ru_block undo)"
  let ?k = "(ReorgUndo, to_be_bytes ?h)"
  obtain rows where wf: "machine_wf blake2b network m"
    and p: "plans blake2b lim st (ledger_summary (mr_ledger m)) rows p" and m: "encodes m rows"
    using R by (rule realizesE)
  have row: "fmlookup (mr_undo m) ?h \<noteq> None \<longleftrightarrow> fmlookup rows ?k \<noteq> None"
    using m family_encodes_lookup [of to_be_bytes undo_encode_value ReorgUndo "mr_undo m" rows ?h]
    by (auto simp: encodes_def elim: option.rel_cases)
  show ?thesis
  proof (cases "undo_encode_value undo")
    case (Inl e)
    then show ?thesis by (simp add: machine_insert_undo_def insert_undo_def)
  next
    case (Inr v)
    have "sim resource_error same_failure (plans blake2b lim st (ledger_summary (mr_ledger m)))
        (if fmlookup rows ?k \<noteq> None
         then rejected ''wallet transition attempts to overwrite an existing logical row''
         else Ok (fmupd ?k v rows))
        (plan_insert_row blake2b lib db ReorgUndo REORG_UNDO_COLUMN_FAMILY (to_be_bytes ?h) v p)"
      by (rule insert_row_sim [OF reads p]) simp_all
    then show ?thesis
      unfolding machine_insert_undo_def insert_undo_def Inr map_err_simps and_then_simps row
      by (cases "fmlookup rows ?k \<noteq> None")
        (auto simp: undo_encode_key_def intro: sim_Ok_mono sim_Err_mono undo_rows_realize(1) [OF wf m Inr refl])
  qed
qed

lemma remove_undo_sim:
  assumes reads: "reads_stored lib db st" and R: "realizes blake2b network lim st m p"
  shows "sim resource_error same_failure (realizes blake2b network lim st) (machine_remove_undo h encoded m)
           (remove_undo blake2b lib db h encoded p)"
proof -
  let ?k = "(ReorgUndo, to_be_bytes h)"
  obtain rows where wf: "machine_wf blake2b network m"
    and p: "plans blake2b lim st (ledger_summary (mr_ledger m)) rows p" and m: "encodes m rows"
    using R by (rule realizesE)
  have row: "fmlookup rows ?k = map_option undo_bytes (fmlookup (mr_undo m) h)"
    using m family_encodes_lookup [of to_be_bytes undo_encode_value ReorgUndo "mr_undo m" rows h]
    by (auto simp: encodes_def undo_encode_Ok_iff elim: option.rel_cases)
  have "sim resource_error same_failure (plans blake2b lim st (ledger_summary (mr_ledger m)))
      (case fmlookup rows ?k of
         None \<Rightarrow> rejected ''wallet transition attempts to remove an absent logical row''
       | Some observed \<Rightarrow>
           if observed \<noteq> encoded
           then rejected ''wallet transition logical row differs from its expected durable bytes''
           else Ok (fmdrop ?k rows))
      (plan_remove_row blake2b lib db ReorgUndo REORG_UNDO_COLUMN_FAMILY (to_be_bytes h) encoded p)"
    by (rule remove_row_sim [OF reads p]) simp_all
  then show ?thesis
    unfolding machine_remove_undo_def remove_undo_def row
    by (cases "fmlookup (mr_undo m) h") (auto intro: sim_Ok_mono sim_Err_mono undo_rows_realize(2) [OF wf m])
qed

section \<open>The planner refines the machine\<close>

interpretation plan_scan: scan_simulation "machine_block_ops blake2b network" "plan_block_ops blake2b lib db network"
    block resource_error same_failure "\<lambda>_ m p. reads_stored lib db st \<and> realizes blake2b network lim st m p"
  for blake2b network lim lib db st block
proof (unfold_locales, goal_cases)
  case (1 err)
  then show ?case by (simp add: machine_block_ops_def plan_block_ops_def)
next
  case (2 loc s t pos key i)
  then show ?case
    using spend_sim [of lib db st blake2b network lim s t key pos i]
    by (auto simp: machine_block_ops_def plan_block_ops_def elim!: sim_mono)
next
  case (3 loc s t key)
  then show ?case
    by (auto simp: machine_block_ops_def plan_block_ops_def elim!: realizesE intro: contains_sim)
next
  case (4 loc s t u)
  then show ?case
    using insert_unspent_sim [of lib db st blake2b network lim s t u]
    by (auto simp: machine_block_ops_def plan_block_ops_def elim!: sim_mono)
next
  case (5 loc s t e)
  then show ?case
    using insert_address_transaction_sim [of lib db st blake2b network lim s t e]
    by (auto simp: machine_block_ops_def plan_block_ops_def elim!: sim_mono)
qed

lemma family_size_encodes:
  assumes "family_encodes kb enc f m rows" and "inj kb"
  shows "family_size f rows = fcard (fmdom m)"
proof -
  have dom: "(f, k) \<in> fmdom' rows \<longleftrightarrow> (\<exists>x \<in> fmdom' m. k = kb x)" for k
  proof (cases "k \<in> range kb")
    case True
    then obtain x where "k = kb x" by auto
    then show ?thesis
      using family_encodes_lookup [OF assms(1), of x] assms(2)
      by (auto simp: fmlookup_dom'_iff inj_eq elim: option.rel_cases)
  next
    case False
    then show ?thesis using assms(1) by (auto simp: family_encodes_def fmlookup_dom'_iff)
  qed
  have "family_size f rows = card {x \<in> fmdom' rows. fst x = f}"
    unfolding family_size_def fm_sum_def
    by (simp add: sum.If_cases case_prod_unfold Int_def eq_commute)
  also have "{x \<in> fmdom' rows. fst x = f} = (\<lambda>x. (f, kb x)) ` fmdom' m"
    using dom by force
  also have "card \<dots> = card (fmdom' m)"
    by (intro card_image inj_onI) (use assms(2) in \<open>simp add: inj_eq\<close>)
  finally show ?thesis by (simp add: fcard.rep_eq fmdom'_alt_def)
qed

lemma undo_count_realizes:
  assumes "realizes blake2b network lim st m p"
  shows "of_nat (fcard (fmdom (mr_undo m))) = reorg_undo_count (pl_accumulator_row_counts p)"
proof -
  obtain rows where p: "plans blake2b lim st (ledger_summary (mr_ledger m)) rows p" and m: "encodes m rows"
    using assms by (rule realizesE)
  have "family_size ReorgUndo rows = fcard (fmdom (mr_undo m))"
    using m by (auto simp: encodes_def intro: family_size_encodes)
  moreover have "unat (row_count ReorgUndo (db_row_counts (pl_accumulator p))) = family_size ReorgUndo rows"
    using p unfolding plans_def digests_def by blast
  moreover have "pl_accumulator_row_counts p = db_row_counts (pl_accumulator p)" using p by (simp add: plans_def)
  ultimately show ?thesis by (metis row_count.simps(6) of_nat_unat ucast_id)
qed

interpretation planner: transition_simulation "machine_ops blake2b network" "plan_ops blake2b lib db network"
    resource_error same_failure "\<lambda>m p. reads_stored lib db st \<and> realizes blake2b network lim st m p"
  for blake2b network lim lib db st
proof (unfold_locales, goal_cases)
  case (1 e)
  show ?case by simp
next
  case (2 s t block facts)
  then show ?case
    using plan_scan.scan_block_sim [of lib db st blake2b network lim s t block facts]
    by (simp add: machine_ops_def plan_ops_def)
next
  case (3 s t h)
  then show ?case using load_undo_sim [of lib db st blake2b network lim s t h] by (simp add: machine_ops_def plan_ops_def)
next
  case (4 s t undo)
  then show ?case
    using insert_undo_sim [of lib db st blake2b network lim s t undo]
    by (auto simp: machine_ops_def plan_ops_def elim!: sim_mono)
next
  case (5 s t h v)
  then show ?case
    using remove_undo_sim [of lib db st blake2b network lim s t h v]
    by (auto simp: machine_ops_def plan_ops_def elim!: sim_mono)
next
  case (6 s t a block)
  then show ?case
    using remove_address_transaction_sim [of lib db st blake2b network lim s t a block]
    by (auto simp: machine_ops_def plan_ops_def elim!: sim_mono)
next
  case (7 s t k' block)
  then show ?case
    using remove_created_sim [of lib db st blake2b network lim s t k' block]
    by (auto simp: machine_ops_def plan_ops_def elim!: sim_mono)
next
  case (8 s t k')
  then show ?case
    using remove_spent_sim [of lib db st blake2b network lim s t k']
    by (auto simp: machine_ops_def plan_ops_def elim!: sim_mono)
next
  case (9 s t u)
  then show ?case
    using insert_unspent_sim [of lib db st blake2b network lim s t u]
    by (auto simp: machine_ops_def plan_ops_def elim!: sim_mono)
next
  case (10 s t k' x s')
  then have "ledger_inv blake2b network (mr_ledger s)" "fmlookup (lg_spent_outputs (mr_ledger s)) k' = Some x"
    by (auto simp: machine_ops_def machine_remove_spent_def Let_def and_then_Ok_iff realizes_def machine_wf_def)
  then show ?case unfolding ledger_inv_def by blast
next
  case (11 s t)
  then show ?case using undo_count_realizes [of blake2b network lim st s t] by (simp add: machine_ops_def plan_ops_def)
qed

end
