(* ===== verification/Wallet_Store.thy ===== *)
theory Wallet_Store
  imports Event_Transitions Planner_Refinement
begin

text \<open>
  The durable wallet store follows the canonical chain. \<open>store_follows\<close> says that the rows of the
  database are exactly the encoding of the wallet state of a chain of blocks, that the READY evidence
  describes these rows, and that the undo rows cover exactly the blocks that are not settled. A
  canonical event, or a reconciliation over several events, takes a store that follows one chain to a
  store that follows the resulting chain.
\<close>

section \<open>What the store relies on in RocksDB\<close>

text \<open>
  Point reads return what is stored, a batch that is written is applied in order, and a batch that
  fails to be written is applied as a whole or not at all.
\<close>

definition rocksdb_lawful :: "'d rocksdb \<Rightarrow> ('d \<Rightarrow> stored_rows) \<Rightarrow> bool" where
  "rocksdb_lawful lib stored \<longleftrightarrow>
     (\<forall>db. reads_stored lib db (stored db)) \<and>
     (\<forall>batch db u db'. rdb_write_opt lib batch db = (Inr u, db') \<longrightarrow> stored db' = fold apply_op batch (stored db)) \<and>
     (\<forall>batch db e db'. rdb_write_opt lib batch db = (Inl e, db') \<longrightarrow>
        stored db' = stored db \<or> stored db' = fold apply_op batch (stored db))"

section \<open>Stores that hold a wallet state\<close>

definition store_holds ::
    "blake2b_fn \<Rightarrow> ('d \<Rightarrow> stored_rows) \<Rightarrow> 'd wallet_store \<Rightarrow> wallet_state \<Rightarrow> bool" where
  "store_holds blake2b stored s w \<longleftrightarrow>
     (let e = ws_ready_evidence s in
      machine_wf blake2b (sc_network (ws_control s)) (ts_rows w) \<and>
      (\<exists>rows. shows_table (stored (ws_db s)) rows \<and> encodes (ts_rows w) rows \<and>
              digests blake2b rows (re_projection_accumulator e) (re_row_counts e)) \<and>
      re_projection_digest e = accumulator_display_digest blake2b (re_projection_accumulator e) \<and>
      re_utxo_summary e = ledger_summary (mr_ledger (ts_rows w)) \<and>
      sp_tip (re_source_position e) = ts_current_tip w \<and>
      re_settled_tip e = ts_settled_tip w \<and>
      re_source_sequence_digest e = ts_source_sequence_digest w)"

definition store_follows ::
    "blake2b_fn \<Rightarrow> sha256_fn \<Rightarrow> ('d \<Rightarrow> stored_rows) \<Rightarrow> chain_base \<Rightarrow> canonical_block_facts list \<Rightarrow>
       canonical_block_facts list \<Rightarrow> 'd wallet_store \<Rightarrow> bool" where
  "store_follows blake2b sha256 stored base settled unsettled s \<longleftrightarrow>
     (\<exists>w. follows blake2b sha256 (sc_network (ws_control s)) base settled unsettled w \<and> store_holds blake2b stored s w)"

section \<open>Plans that track a wallet state\<close>

definition tracks ::
    "blake2b_fn \<Rightarrow> network \<Rightarrow> u64 \<Rightarrow> stored_rows \<Rightarrow> wallet_state \<Rightarrow> plan transition_state \<Rightarrow> bool" where
  "tracks blake2b network lim st w p \<longleftrightarrow>
     realizes blake2b network lim st (ts_rows w) (ts_rows p) \<and> ts_current_tip w = ts_current_tip p \<and>
     ts_settled_tip w = ts_settled_tip p \<and> ts_source_sequence_digest w = ts_source_sequence_digest p"

lemma tracks_sims:
  fixes lib :: "'d rocksdb"
  assumes "reads_stored lib db st" and "tracks blake2b network lim st w p"
  defines "ops \<equiv> machine_ops blake2b network" and "plan \<equiv> plan_ops blake2b lib db network"
  shows "sim resource_error same_failure (tracks blake2b network lim st)
           (apply_replay_range sha256 ops rng rows w) (apply_replay_range sha256 plan rng rows p)"
    and "sim resource_error same_failure (tracks blake2b network lim st) (rollback_range ops rng w) (rollback_range plan rng p)"
    and "sim resource_error same_failure (tracks blake2b network lim st)
           (advance_settled_tip ops tip w) (advance_settled_tip plan tip p)"
    and "sim resource_error same_failure (\<lambda>_ _. True)
           (require_publishable_undo_suffix ops depth w) (require_publishable_undo_suffix plan depth p)"
proof -
  have related: "planner.related TYPE('d) lib db st blake2b network lim w p"
    using assms(1,2) unfolding planner.related_def tracks_def by simp
  have tracks: "planner.related TYPE('d) lib db st blake2b network lim x y \<Longrightarrow> tracks blake2b network lim st x y" for x y
    unfolding planner.related_def tracks_def by simp
  show "sim resource_error same_failure (tracks blake2b network lim st)
      (apply_replay_range sha256 ops rng rows w) (apply_replay_range sha256 plan rng rows p)"
    unfolding ops_def plan_def by (rule sim_mono [OF planner.apply_replay_range_sim [OF related] tracks])
  show "sim resource_error same_failure (tracks blake2b network lim st) (rollback_range ops rng w) (rollback_range plan rng p)"
    unfolding ops_def plan_def by (rule sim_mono [OF planner.rollback_range_sim [OF related] tracks])
  show "sim resource_error same_failure (tracks blake2b network lim st)
      (advance_settled_tip ops tip w) (advance_settled_tip plan tip p)"
    unfolding ops_def plan_def by (rule sim_mono [OF planner.advance_settled_tip_sim [OF related] tracks])
  show "sim resource_error same_failure (\<lambda>_ _. True)
      (require_publishable_undo_suffix ops depth w) (require_publishable_undo_suffix plan depth p)"
    unfolding ops_def plan_def by (rule planner.require_publishable_sim [OF related])
qed

lemma planner_new_tracks:
  assumes "store_holds blake2b stored s w"
  shows "tracks blake2b (sc_network (ws_control s)) limit (stored (ws_db s)) w (planner_new s limit)"
proof -
  obtain rows where "shows_table (stored (ws_db s)) rows" "encodes (ts_rows w) rows"
    "digests blake2b rows (re_projection_accumulator (ws_ready_evidence s)) (re_row_counts (ws_ready_evidence s))"
    using assms unfolding store_holds_def Let_def by blast
  moreover have "plan_view (stored (ws_db s)) (ts_rows (planner_new s limit)) = stored (ws_db s)"
    by (simp add: plan_view_def planner_new_def Let_def fun_eq_iff)
  ultimately have "plans blake2b limit (stored (ws_db s)) (ledger_summary (mr_ledger (ts_rows w))) rows (ts_rows (planner_new s limit))"
    using assms by (simp add: plans_def planner_new_def Let_def accounted_def accounting_new_def overlay_size_def store_holds_def)
  then show ?thesis
    using assms \<open>encodes (ts_rows w) rows\<close>
    by (auto simp: tracks_def realizes_def store_holds_def planner_new_def Let_def)
qed

text \<open>
  Publishing a plan that tracks a wallet state makes the store hold that state.
\<close>

lemma publish_holds:
  assumes lawful: "rocksdb_lawful lib stored"
    and tracks: "tracks blake2b (sc_network (ws_control s)) lim (stored (ws_db s)) w st"
    and publication: "into_publication blake2b pos st = (batch, evidence, logical_bytes)" "sp_tip pos = ts_current_tip st"
    and ok: "publish_planned_transition blake2b lib batch evidence logical_bytes cancelled s = (Inr (), s')"
  shows "store_holds blake2b stored s' w" and "sc_network (ws_control s') = sc_network (ws_control s)"
    and "sc_supported_reorg_depth (ws_control s') = sc_supported_reorg_depth (ws_control s)"
    and "ws_ready_evidence s' = evidence"
proof -
  obtain next_control encoded db where written: "rdb_write_opt lib (batch @ [Put WALLET_STORE_CONTROL_KEY encoded]) (ws_db s) = (Inr (), db)"
    and s': "s' = s\<lparr>ws_db := db, ws_control := next_control, ws_ready_evidence := evidence\<rparr>"
    and control: "sc_network next_control = sc_network (ws_control s)"
      "sc_supported_reorg_depth next_control = sc_supported_reorg_depth (ws_control s)"
    using ok by (auto simp: publish_planned_transition_def Let_def and_then_Ok_iff split: sum.splits prod.splits if_splits)
  obtain rows where wf: "machine_wf blake2b (sc_network (ws_control s)) (ts_rows w)" and m: "encodes (ts_rows w) rows"
    and p: "plans blake2b lim (stored (ws_db s)) (ledger_summary (mr_ledger (ts_rows w))) rows (ts_rows st)"
    using tracks by (auto simp: tracks_def realizes_def)
  have "stored db = fold apply_op (batch @ [Put WALLET_STORE_CONTROL_KEY encoded]) (stored (ws_db s))"
    using lawful written unfolding rocksdb_lawful_def by blast
  then have "shows_table (stored db) rows"
    using p publication(1) by (auto simp: plans_def into_publication_def Let_def)
  then show "store_holds blake2b stored s' w"
    using wf m p publication tracks control
    by (auto simp: store_holds_def s' into_publication_def Let_def plans_def tracks_def)
  show "sc_network (ws_control s') = sc_network (ws_control s)"
    "sc_supported_reorg_depth (ws_control s') = sc_supported_reorg_depth (ws_control s)" "ws_ready_evidence s' = evidence"
    by (simp_all add: s' control)
qed

section \<open>Transitions keep the store on the chain\<close>

lemma rollback_loop_tip:
  "rollback_loop ops start h st = Inr st' \<Longrightarrow> Suc (unat (id_height (ts_current_tip st'))) = unat start"
proof (induction "unat h" arbitrary: h st rule: less_induct)
  case less
  obtain st1 where st1: "rollback_height ops h st = Inr st1"
    and rest: "if h = start then st1 = st' else
      \<exists>h'. checked_sub h 1 = Some h' \<and> rollback_loop ops start h' st1 = Inr st'"
    using less.prems by (auto simp: rollback_loop.simps [of ops start h st] and_then_Ok_iff split: if_splits option.splits)
  show ?case
  proof (cases "h = start")
    case True
    then show ?thesis
      using st1 rest by (auto simp: rollback_height_def and_then_Ok_iff checked_sub_Some_iff split: if_splits)
  next
    case False
    then obtain h' where h': "checked_sub h 1 = Some h'" "rollback_loop ops start h' st1 = Inr st'"
      using rest by auto
    then show ?thesis using less.hyps [of h' st1] by (simp add: checked_sub_Some_iff)
  qed
qed

lemma rollback_range_exact:
  assumes wf: "base_wf blake2b network base" and follows: "follows blake2b sha256 network base blocks suffix w"
    and ok: "rollback_range (machine_ops blake2b network) rng w = Inr w'"
    and tip: "range_end rng = id_height (ts_current_tip w)"
  shows "follows blake2b sha256 network base blocks
           (take (length suffix - (Suc (unat (range_end rng)) - unat (range_start rng))) suffix) w'"
proof -
  obtain kept reverted where split: "suffix = kept @ reverted"
    and follows': "follows blake2b sha256 network base blocks kept w'" "ts_settled_tip w' = ts_settled_tip w"
    using rollback_range_follows [OF wf follows ok] by blast
  have "Suc (unat (id_height (ts_current_tip w'))) = unat (range_start rng)"
    using rollback_loop_tip ok unfolding rollback_range_def by blast
  then have "Suc (unat (range_end rng)) - unat (range_start rng) = length reverted"
    using follows_heights(1) [OF follows] follows_heights(1) [OF follows'(1)] follows'(2) tip split by simp
  then show ?thesis using follows'(1) split by simp
qed

lemma finish_plan_follows:
  fixes s :: "'d wallet_store" and stored :: "'d \<Rightarrow> stored_rows"
  defines "network \<equiv> sc_network (ws_control s)" and "st \<equiv> stored (ws_db s)"
  assumes lawful: "rocksdb_lawful lib stored" and wf: "base_wf blake2b network base"
    and follows: "follows blake2b sha256 network base blocks suffix w" and tracks: "tracks blake2b network lim st w p"
    and ok: "finish_plan blake2b sha256 lib s rng rows tip_reason digest_reason fence settled_tip p = Inr p'"
  shows "\<exists>replays settled rest w'. rows = map Inr replays \<and> suffix @ map rp_facts replays = settled @ rest \<and>
           follows blake2b sha256 network base (blocks @ settled) rest w' \<and> tracks blake2b network lim st w' p' \<and>
           ts_current_tip w' = fence_visible_tip fence \<and> ts_source_sequence_digest w' = fence_sequence_digest fence \<and>
           ts_settled_tip w' = settled_tip \<and> length rest \<le> unat (sc_supported_reorg_depth (ws_control s))"
proof -
  let ?m = "machine_ops blake2b network" and ?p = "plan_ops blake2b lib (ws_db s) network"
  let ?depth = "sc_supported_reorg_depth (ws_control s)"
  have reads: "reads_stored lib (ws_db s) st" using lawful by (simp add: rocksdb_lawful_def st_def)
  obtain p1 where p1: "apply_replay_range sha256 ?p rng rows p = Inr p1" "ts_current_tip p1 = fence_visible_tip fence"
      "ts_source_sequence_digest p1 = fence_sequence_digest fence"
    and adv: "advance_settled_tip ?p settled_tip p1 = Inr p'" and pub: "require_publishable_undo_suffix ?p ?depth p' = Inr ()"
    using ok by (auto simp: finish_plan_def Let_def and_then_Ok_iff network_def split: if_splits)
  obtain w1 where w1: "apply_replay_range sha256 ?m rng rows w = Inr w1" "tracks blake2b network lim st w1 p1"
    using sim_OkD [OF tracks_sims(1) [OF reads tracks, of sha256 rng rows, unfolded p1(1)]] by blast
  obtain w' where w': "advance_settled_tip ?m settled_tip w1 = Inr w'" "tracks blake2b network lim st w' p'"
    using sim_OkD [OF tracks_sims(3) [OF reads w1(2), of settled_tip, unfolded adv]] by blast
  have publishable: "require_publishable_undo_suffix ?m ?depth w' = Inr ()"
    using sim_OkD [OF tracks_sims(4) [OF reads w'(2), of ?depth, unfolded pub]] by auto
  obtain replays where replays: "rows = map Inr replays"
    and follows1: "follows blake2b sha256 network base blocks (suffix @ map rp_facts replays) w1"
    using apply_replay_range_follows [OF wf follows w1(1)] by blast
  have "\<exists>settled rest. suffix @ map rp_facts replays = settled @ rest \<and>
      follows blake2b sha256 network base (blocks @ settled) rest w' \<and> ts_settled_tip w' = settled_tip \<and>
      ts_current_tip w' = ts_current_tip w1 \<and> ts_source_sequence_digest w' = ts_source_sequence_digest w1"
    using advance_settled_tip_follows [OF follows1, of settled_tip w'] w'(1)
  proof (elim iffD1 [THEN disjE] conjE exE)
    assume "settled_tip = ts_settled_tip w1" "w' = w1"
    then show ?thesis using follows1 by (metis append_Nil append_Nil2)
  next
    fix settled facts kept
    assume split: "suffix @ map rp_facts replays = settled @ facts # kept" and "settled_tip = facts_block facts"
      "w' = settled_to settled_tip w1"
    moreover have "follows blake2b sha256 network base (blocks @ settled @ [facts]) kept (settled_to (facts_block facts) w1)"
      using follows_settle follows1 unfolding split by blast
    ultimately show ?thesis by (intro exI [of _ "settled @ [facts]"] exI [of _ kept]) simp
  qed
  then obtain settled rest where rest: "suffix @ map rp_facts replays = settled @ rest"
      "follows blake2b sha256 network base (blocks @ settled) rest w'" "ts_settled_tip w' = settled_tip"
      "ts_current_tip w' = ts_current_tip w1" "ts_source_sequence_digest w' = ts_source_sequence_digest w1"
    by blast
  moreover have "length rest \<le> unat ?depth"
    using publishable require_publishable_follows [OF rest(2), of ?depth] by (simp split: if_splits)
  ultimately show ?thesis
    using replays w'(2) w1(2) p1(2,3) by (auto simp: tracks_def)
qed

section \<open>Events\<close>

text \<open>How many blocks an event takes off the chain.\<close>

definition reverted_blocks :: "retained_event \<Rightarrow> nat" where
  "reverted_blocks event =
     (case ev_kind event of
        Committed \<Rightarrow> 0
      | Reorged \<Rightarrow> (case ev_reverted_range event of
                      None \<Rightarrow> 0 | Some rng \<Rightarrow> Suc (unat (range_end rng)) - unat (range_start rng)))"

definition rolled_back :: "block_height_range option \<Rightarrow> nat" where
  "rolled_back rollback =
     (case rollback of None \<Rightarrow> 0 | Some rng \<Rightarrow> Suc (unat (range_end rng)) - unat (range_start rng))"

lemma rollback_tracks:
  assumes reads: "reads_stored lib db st" and wf: "base_wf blake2b network base"
    and follows: "follows blake2b sha256 network base settled unsettled w" and tracks: "tracks blake2b network lim st w p"
    and ok: "rollback_range (plan_ops blake2b lib db network) rng p = Inr p'" and tip: "range_end rng = id_height (ts_current_tip p)"
  shows "\<exists>w'. tracks blake2b network lim st w' p' \<and>
           follows blake2b sha256 network base settled
             (take (length unsettled - (Suc (unat (range_end rng)) - unat (range_start rng))) unsettled) w'"
proof -
  obtain w' where w': "rollback_range (machine_ops blake2b network) rng w = Inr w'" "tracks blake2b network lim st w' p'"
    using sim_OkD [OF tracks_sims(2) [OF reads tracks, of rng, unfolded ok]] by blast
  have "range_end rng = id_height (ts_current_tip w)" using tip tracks by (simp add: tracks_def)
  from rollback_range_exact [OF wf follows w'(1) this] show ?thesis using w'(2) by blast
qed

lemma publication_position_tip: "publication_position fence event = Inr pos \<Longrightarrow> sp_tip pos = fence_visible_tip fence"
  by (auto simp: publication_position_def with_event_cursor_def Let_def and_then_Ok_iff)

text \<open>A published plan whose wallet state follows a chain.\<close>

lemma publish_follows:
  assumes lawful: "rocksdb_lawful lib stored"
    and tracks: "tracks blake2b (sc_network (ws_control s)) lim (stored (ws_db s)) w p"
    and follows: "follows blake2b sha256 (sc_network (ws_control s)) base settled rest w"
    and pos: "sp_tip pos = ts_current_tip w"
    and published: "(case into_publication blake2b pos p of (batch, evidence, logical_bytes) \<Rightarrow>
        publish_planned_transition blake2b lib batch evidence logical_bytes cancelled s) = (Inr (), s')"
  shows "store_follows blake2b sha256 stored base settled rest s' \<and>
         sc_supported_reorg_depth (ws_control s') = sc_supported_reorg_depth (ws_control s) \<and>
         sc_network (ws_control s') = sc_network (ws_control s) \<and>
         re_source_position (ws_ready_evidence s') = pos \<and>
         re_source_sequence_digest (ws_ready_evidence s') = ts_source_sequence_digest w \<and>
         re_settled_tip (ws_ready_evidence s') = ts_settled_tip w"
proof -
  obtain batch evidence bytes where publication: "into_publication blake2b pos p = (batch, evidence, bytes)"
    by (metis prod_cases3)
  have "sp_tip pos = ts_current_tip p" using pos tracks by (simp add: tracks_def)
  note published = publish_holds [OF lawful tracks publication this]
  have ok: "publish_planned_transition blake2b lib batch evidence bytes cancelled s = (Inr (), s')"
    using assms(5) publication by simp
  have "re_source_position evidence = pos" "re_source_sequence_digest evidence = ts_source_sequence_digest w"
    "re_settled_tip evidence = ts_settled_tip w"
    using publication tracks by (auto simp: into_publication_def Let_def tracks_def)
  then show ?thesis
    using published [OF ok] follows by (auto simp: store_follows_def)
qed

lemma plan_event_follows:
  fixes s :: "'d wallet_store"
  defines "network \<equiv> sc_network (ws_control s)"
  assumes lawful: "rocksdb_lawful lib stored" and wf: "base_wf blake2b network base"
    and follows: "follows blake2b sha256 network base settled unsettled w" and holds: "store_holds blake2b stored s w"
    and planned: "plan_canonical_event_range blake2b sha256 lib source event fence settled_tip limit rows s = Inr (p', pos)"
  shows "\<exists>replays newly rest w'. rows = map Ok replays \<and>
           take (length unsettled - reverted_blocks event) unsettled @ map rp_facts replays = newly @ rest \<and>
           follows blake2b sha256 network base (settled @ newly) rest w' \<and>
           tracks blake2b network limit (stored (ws_db s)) w' p' \<and>
           ts_current_tip w' = fence_visible_tip fence \<and> ts_source_sequence_digest w' = fence_sequence_digest fence \<and>
           ts_settled_tip w' = settled_tip \<and> length rest \<le> unat (sc_supported_reorg_depth (ws_control s)) \<and>
           sp_tip pos = ts_current_tip w'"
proof -
  let ?st = "stored (ws_db s)" and ?p = "plan_ops blake2b lib (ws_db s) network" and ?new = "planner_new s limit"
  have reads: "reads_stored lib (ws_db s) ?st" using lawful by (simp add: rocksdb_lawful_def)
  obtain p1 where start: "(case ev_kind event of
        Committed \<Rightarrow> and_then (validate_committed_event_shape ?new event fence) (\<lambda>_. Ok ?new)
      | Reorged \<Rightarrow> and_then (ok_or (ev_reverted_range event)
                       (ProjectionTransitionRejected ''reorg event lacks a reverted canonical range'')) (\<lambda>reverted.
                   and_then (validate_reorg_event_shape (sc_supported_reorg_depth (ws_control s)) ?new event fence reverted) (\<lambda>_.
                   rollback_range ?p reverted ?new))) = Inr p1"
    and finish: "finish_plan blake2b sha256 lib s (ev_committed_range event) rows
        ''applied replay tip differs from the resulting canonical fence''
        ''applied replay digest differs from the resulting canonical fence'' fence settled_tip p1 = Inr p'"
    and pos: "publication_position fence event = Inr pos"
    unfolding network_def using planned by (auto simp: plan_canonical_event_range_def Let_def and_then_Ok_iff
        validate_transition_logical_byte_limit_def split: if_splits)
  have new: "tracks blake2b network limit ?st w ?new" unfolding network_def by (rule planner_new_tracks [OF holds])
  obtain w1 where w1: "tracks blake2b network limit ?st w1 p1"
    "follows blake2b sha256 network base settled (take (length unsettled - reverted_blocks event) unsettled) w1"
  proof (cases "ev_kind event")
    case Committed
    then show thesis using that [of w] start new follows by (auto simp: reverted_blocks_def and_then_Ok_iff)
  next
    case Reorged
    then obtain rng where rng: "ev_reverted_range event = Some rng" "range_end rng = id_height (ts_current_tip ?new)"
      and rollback: "rollback_range ?p rng ?new = Inr p1"
      using start by (auto simp: and_then_Ok_iff validate_reorg_event_shape_def split: if_splits)
    from rollback_tracks [OF reads wf follows new rollback rng(2)] show thesis
      using that Reorged rng(1) by (auto simp: reverted_blocks_def)
  qed
  from finish_plan_follows [OF lawful wf [unfolded network_def] w1(2,1) [unfolded network_def] finish] show ?thesis
    unfolding network_def using publication_position_tip [OF pos]
    by (elim exE conjE, intro exI conjI) (assumption | simp)+
qed

lemma plan_sequence_follows:
  fixes s :: "'d wallet_store"
  defines "network \<equiv> sc_network (ws_control s)"
  assumes lawful: "rocksdb_lawful lib stored" and wf: "base_wf blake2b network base"
    and follows: "follows blake2b sha256 network base settled unsettled w" and holds: "store_holds blake2b stored s w"
    and planned: "plan_canonical_event_sequence blake2b sha256 lib source events fence settled_tip
      rollback replay_range limit rows s = Inr (p', pos)"
  shows "\<exists>replays newly rest w'. rows = map Ok replays \<and>
           take (length unsettled - rolled_back rollback) unsettled @ map rp_facts replays = newly @ rest \<and>
           follows blake2b sha256 network base (settled @ newly) rest w' \<and>
           tracks blake2b network limit (stored (ws_db s)) w' p' \<and>
           ts_current_tip w' = fence_visible_tip fence \<and> ts_source_sequence_digest w' = fence_sequence_digest fence \<and>
           ts_settled_tip w' = settled_tip \<and> length rest \<le> unat (sc_supported_reorg_depth (ws_control s)) \<and>
           sp_tip pos = ts_current_tip w'"
proof -
  let ?st = "stored (ws_db s)" and ?p = "plan_ops blake2b lib (ws_db s) network" and ?new = "planner_new s limit"
  have reads: "reads_stored lib (ws_db s) ?st" using lawful by (simp add: rocksdb_lawful_def)
  obtain p1 where start: "(case rollback of None \<Rightarrow> Ok ?new
      | Some rng \<Rightarrow> and_then (validate_reconciliation_rollback_range (sc_supported_reorg_depth (ws_control s)) ?new rng)
          (\<lambda>_. rollback_range ?p rng ?new)) = Inr p1"
    and finish: "finish_plan blake2b sha256 lib s replay_range rows
        ''reconciled replay tip differs from the target canonical fence''
        ''reconciled replay digest differs from the target canonical fence'' fence settled_tip p1 = Inr p'"
    and pos: "publication_position fence (last events) = Inr pos"
    unfolding network_def using planned by (auto simp: plan_canonical_event_sequence_def Let_def and_then_Ok_iff
        validate_transition_logical_byte_limit_def split: if_splits)
  have new: "tracks blake2b network limit ?st w ?new" unfolding network_def by (rule planner_new_tracks [OF holds])
  obtain w1 where w1: "tracks blake2b network limit ?st w1 p1"
    "follows blake2b sha256 network base settled (take (length unsettled - rolled_back rollback) unsettled) w1"
  proof (cases rollback)
    case None
    then show thesis using that [of w] start new follows by (simp add: rolled_back_def)
  next
    case (Some rng)
    then have rng: "range_end rng = id_height (ts_current_tip ?new)" and rolled: "rollback_range ?p rng ?new = Inr p1"
      using start by (auto simp: and_then_Ok_iff validate_reconciliation_rollback_range_def split: if_splits)
    from rollback_tracks [OF reads wf follows new rolled rng] show thesis
      using that Some by (auto simp: rolled_back_def)
  qed
  from finish_plan_follows [OF lawful wf [unfolded network_def] w1(2,1) [unfolded network_def] finish] show ?thesis
    unfolding network_def using publication_position_tip [OF pos]
    by (elim exE conjE, intro exI conjI) (assumption | simp)+
qed

lemma apply_event_follows:
  assumes lawful: "rocksdb_lawful lib stored" and wf: "base_wf blake2b (sc_network (ws_control s)) base"
    and follows: "store_follows blake2b sha256 stored base settled unsettled s"
    and ok: "apply_canonical_event_range_cancellable blake2b sha256 lib source event fence settled_tip limit rows cancelled s
             = (Ok (), s')"
  shows "\<exists>replays newly rest. rows = map Ok replays \<and>
           take (length unsettled - reverted_blocks event) unsettled @ map rp_facts replays = newly @ rest \<and>
           store_follows blake2b sha256 stored base (settled @ newly) rest s' \<and>
           sp_tip (re_source_position (ws_ready_evidence s')) = fence_visible_tip fence \<and>
           re_source_sequence_digest (ws_ready_evidence s') = fence_sequence_digest fence \<and>
           re_settled_tip (ws_ready_evidence s') = settled_tip \<and>
           length rest \<le> unat (sc_supported_reorg_depth (ws_control s'))"
proof -
  obtain w where w: "follows blake2b sha256 (sc_network (ws_control s)) base settled unsettled w" "store_holds blake2b stored s w"
    using follows by (auto simp: store_follows_def)
  obtain p pos where planned: "plan_canonical_event_range blake2b sha256 lib source event fence settled_tip limit rows s = Inr (p, pos)"
    and published: "(case into_publication blake2b pos p of (batch, evidence, logical_bytes) \<Rightarrow>
        publish_planned_transition blake2b lib batch evidence logical_bytes cancelled s) = (Inr (), s')"
    using ok by (auto simp: apply_canonical_event_range_cancellable_def split: sum.splits)
  from plan_event_follows [OF lawful wf w planned] show ?thesis
  proof (elim exE conjE)
    fix replays newly rest w'
    assume rows: "rows = map Ok replays" "take (length unsettled - reverted_blocks event) unsettled @ map rp_facts replays = newly @ rest"
      "length rest \<le> unat (sc_supported_reorg_depth (ws_control s))"
      and pos: "sp_tip pos = ts_current_tip w'" and reached: "ts_current_tip w' = fence_visible_tip fence"
        "ts_source_sequence_digest w' = fence_sequence_digest fence" "ts_settled_tip w' = settled_tip"
      and "tracks blake2b (sc_network (ws_control s)) limit (stored (ws_db s)) w' p"
      and "follows blake2b sha256 (sc_network (ws_control s)) base (settled @ newly) rest w'"
    from publish_follows [OF lawful this(8,9) pos published] show ?thesis
      using rows pos reached by (intro exI [of _ replays] exI [of _ newly] exI [of _ rest]) simp
  qed
qed

lemma reconcile_follows:
  assumes lawful: "rocksdb_lawful lib stored" and wf: "base_wf blake2b (sc_network (ws_control s)) base"
    and follows: "store_follows blake2b sha256 stored base settled unsettled s"
    and ok: "reconcile_canonical_event_sequence_cancellable blake2b sha256 lib source events fence settled_tip
               rollback replay_range limit rows cancelled s = (Ok (), s')"
  shows "\<exists>replays newly rest. rows = map Ok replays \<and>
           take (length unsettled - rolled_back rollback) unsettled @ map rp_facts replays = newly @ rest \<and>
           store_follows blake2b sha256 stored base (settled @ newly) rest s' \<and>
           sp_tip (re_source_position (ws_ready_evidence s')) = fence_visible_tip fence \<and>
           re_source_sequence_digest (ws_ready_evidence s') = fence_sequence_digest fence \<and>
           re_settled_tip (ws_ready_evidence s') = settled_tip \<and>
           length rest \<le> unat (sc_supported_reorg_depth (ws_control s'))"
proof -
  obtain w where w: "follows blake2b sha256 (sc_network (ws_control s)) base settled unsettled w" "store_holds blake2b stored s w"
    using follows by (auto simp: store_follows_def)
  obtain p pos where planned: "plan_canonical_event_sequence blake2b sha256 lib source events fence settled_tip
      rollback replay_range limit rows s = Inr (p, pos)"
    and published: "(case into_publication blake2b pos p of (batch, evidence, logical_bytes) \<Rightarrow>
        publish_planned_transition blake2b lib batch evidence logical_bytes cancelled s) = (Inr (), s')"
    using ok by (auto simp: reconcile_canonical_event_sequence_cancellable_def split: sum.splits)
  from plan_sequence_follows [OF lawful wf w planned] show ?thesis
  proof (elim exE conjE)
    fix replays newly rest w'
    assume rows: "rows = map Ok replays" "take (length unsettled - rolled_back rollback) unsettled @ map rp_facts replays = newly @ rest"
      "length rest \<le> unat (sc_supported_reorg_depth (ws_control s))"
      and pos: "sp_tip pos = ts_current_tip w'" and reached: "ts_current_tip w' = fence_visible_tip fence"
        "ts_source_sequence_digest w' = fence_sequence_digest fence" "ts_settled_tip w' = settled_tip"
      and "tracks blake2b (sc_network (ws_control s)) limit (stored (ws_db s)) w' p"
      and "follows blake2b sha256 (sc_network (ws_control s)) base (settled @ newly) rest w'"
    from publish_follows [OF lawful this(8,9) pos published] show ?thesis
      using rows pos reached by (intro exI [of _ replays] exI [of _ newly] exI [of _ rest]) simp
  qed
qed

text \<open>Whatever a publication reports, the stored rows are those from before it or those of its plan.\<close>

lemma publish_atomic:
  assumes "rocksdb_lawful lib stored"
    and "publish_planned_transition blake2b lib batch evidence logical_bytes cancelled s = (r, s')"
  shows "stored (ws_db s') = stored (ws_db s) \<or> stored (ws_db s') = fold apply_op batch (stored (ws_db s))"
    and "cancelled \<Longrightarrow> s' = s \<and> r \<noteq> Ok ()"
proof -
  show "cancelled \<Longrightarrow> s' = s \<and> r \<noteq> Ok ()"
    using assms(2) by (auto simp: publish_planned_transition_def Let_def and_then_Ok_iff split: sum.splits)
  show "stored (ws_db s') = stored (ws_db s) \<or> stored (ws_db s') = fold apply_op batch (stored (ws_db s))"
  proof (cases "s' = s")
    case False
    then obtain encoded r' where write': "rdb_write_opt lib (batch @ [Put WALLET_STORE_CONTROL_KEY encoded]) (ws_db s) = (r', ws_db s')"
      using assms(2) by (auto simp: publish_planned_transition_def Let_def split: sum.splits prod.splits)
    show ?thesis
    proof (cases r')
      case (Inl e)
      then have "stored (ws_db s') = stored (ws_db s) \<or>
          stored (ws_db s') = fold apply_op (batch @ [Put WALLET_STORE_CONTROL_KEY encoded]) (stored (ws_db s))"
        using assms(1) write' unfolding rocksdb_lawful_def by blast
      then show ?thesis by simp
    next
      case (Inr u)
      then have "stored (ws_db s') = fold apply_op (batch @ [Put WALLET_STORE_CONTROL_KEY encoded]) (stored (ws_db s))"
        using assms(1) write' unfolding rocksdb_lawful_def by blast
      then show ?thesis by simp
    qed
  qed simp
qed

end
