(* ===== verification/Store_Facts.thy ===== *)
theory Store_Facts
  imports Wallet_Store Oracle_History
begin

text \<open>
  What a store that follows a chain contains. The rows, the projection accumulator and the summary
  are functions of the chain, whatever sequence of appends, reorganisations and settlements led to
  it; and over the genesis state they are those of the serial oracle fed the same blocks.
\<close>

section \<open>A chain has one wallet state\<close>

lemma follows_unique:
  assumes "follows blake2b sha256 network base blocks suffix st"
    and "follows blake2b sha256 network base blocks suffix st'"
  shows "st = st'"
  using assms
proof (induction arbitrary: st' rule: follows.induct)
  case (settled blocks l tip d)
  then show ?case by (elim follows_NilE) (auto dest: chain_state_unique)
next
  case (unsettled blocks suffix st facts builder loc l)
  from unsettled.prems obtain st1 builder1 loc1 l1 where
    st1: "follows blake2b sha256 network base blocks suffix st1"
      "try_append sha256 (facts_digest sha256 facts FactsDigestV1)
         (resume_from_prefix (ts_source_sequence_digest st1)) = Inr builder1"
      "scan_block (ledger_ops blake2b network) (facts_block facts) facts (mr_ledger (ts_rows st1)) = Inr (loc1, l1)"
      "st' = after_block facts (builder_finish builder1) loc1 l1 st1"
    by (auto elim!: follows_snocE)
  with unsettled.IH [of st1] unsettled.hyps show ?case by auto
qed

section \<open>A machine state has one table\<close>

lemma family_encodes_unique:
  assumes "family_encodes kb enc f m rows" and "family_encodes kb enc f m rows'"
  shows "fmlookup rows (f, k) = fmlookup rows' (f, k)"
proof (cases "k \<in> range kb")
  case True
  then obtain x where k: "k = kb x" by blast
  have "rel_option (\<lambda>a v. enc a = Inr v) (fmlookup m x) (fmlookup rows (f, k))"
    "rel_option (\<lambda>a v. enc a = Inr v) (fmlookup m x) (fmlookup rows' (f, k))"
    using assms unfolding family_encodes_def k by blast+
  then show ?thesis
    by (cases "fmlookup m x"; cases "fmlookup rows (f, k)"; cases "fmlookup rows' (f, k)") auto
next
  case False
  then show ?thesis using assms by (simp add: family_encodes_def)
qed

text \<open>Every family but the undo records depends on the ledger only.\<close>

lemma encodes_ledger_unique:
  assumes "encodes m rows" and "encodes m' rows'" and "mr_ledger m = mr_ledger m'" and "f \<noteq> ReorgUndo"
  shows "fmlookup rows (f, k) = fmlookup rows' (f, k)"
proof (cases "f = TransparentUnspentOutputByAddress")
  case True
  then show ?thesis using assms unfolding encodes_def index_encodes_def by simp
next
  case False
  then show ?thesis
    using assms unfolding encodes_def by (cases f) (auto elim: family_encodes_unique)
qed

lemma encodes_unique:
  assumes "encodes m rows" and "encodes m rows'"
  shows "rows = rows'"
proof (rule fmap_ext)
  fix x :: "row_family \<times> u8 list"
  obtain f k where x: "x = (f, k)" by (cases x)
  show "fmlookup rows x = fmlookup rows' x"
    using encodes_ledger_unique [OF assms refl, of f k] assms
    unfolding x encodes_def by (cases "f = ReorgUndo") (auto elim: family_encodes_unique)
qed

lemma digests_unique:
  assumes "digests blake2b rows acc counts" and "digests blake2b rows acc' counts'"
  shows "acc = acc' \<and> counts = counts'"
proof -
  have "counts = counts'"
    using assms by (intro row_counts_eqI) (simp add: digests_def word_unat_eq_iff)
  moreover have "acc = acc'"
    using assms by (intro lanes_of_inject [THEN iffD1]) (simp add: digests_def)
  ultimately show ?thesis by blast
qed

section \<open>The serial oracle over the same blocks\<close>

definition genesis_base :: "sha256_fn \<Rightarrow> block_hash \<Rightarrow> chain_base" where
  "genesis_base sha256 root_hash =
     \<lparr>cb_ledger = ledger_empty, cb_tip = \<lparr>id_height = 0, id_hash = root_hash\<rparr>,
      cb_digest = builder_finish (builder_new sha256 SequenceDigestV1)\<rparr>"

lemma genesis_base_wf: "base_wf blake2b network (genesis_base sha256 root_hash)"
  using ledger_inv_empty by (simp add: base_wf_def genesis_base_def ledger_empty_def)

lemma apply_block_Err_unchanged: "apply_block blake2b sha256 facts orc = (Inl e, orc') \<Longrightarrow> orc' = orc"
  by (auto simp: apply_block_def split: sum.splits)

lemma oracle_reaches_Nil:
  assumes "oracle_reaches blake2b sha256 network depth blocks orc"
  shows "blocks = [] \<Longrightarrow> orc = with_supported_reorg_depth sha256 network depth"
  using assms by induction (auto dest: apply_block_Err_unchanged)

lemma oracle_reaches_snoc:
  assumes "oracle_reaches blake2b sha256 network depth blocks orc"
  shows "blocks = prefix @ [facts] \<Longrightarrow>
    \<exists>before undo. oracle_reaches blake2b sha256 network depth prefix before \<and>
                  apply_block blake2b sha256 facts before = (Inr undo, orc)"
  using assms by induction (auto dest: apply_block_Err_unchanged)

lemma oracle_reaches_unique:
  assumes "oracle_reaches blake2b sha256 network depth blocks orc"
    and "oracle_reaches blake2b sha256 network depth blocks orc'"
  shows "orc = orc'"
  using assms
proof (induction blocks arbitrary: orc orc' rule: rev_induct)
  case Nil
  then show ?case using oracle_reaches_Nil by metis
next
  case (snoc facts blocks)
  from oracle_reaches_snoc [OF snoc.prems(1) refl] oracle_reaches_snoc [OF snoc.prems(2) refl] show ?case
    using snoc.IH by fastforce
qed

text \<open>Any chain over the genesis state is accepted by the oracle, which then holds its ledger.\<close>

lemma chain_state_oracle:
  assumes "chain_state blake2b sha256 network (genesis_base sha256 root_hash) blocks l tip d"
  shows "\<exists>orc. oracle_reaches blake2b sha256 network depth blocks orc \<and> or_network orc = network \<and>
           or_ledger orc = l \<and> or_source_sequence_digest orc = d \<and>
           (case or_last_projected_block orc of None \<Rightarrow> id_height tip = 0 | Some b \<Rightarrow> b = tip)"
  using assms
proof induction
  case base
  show ?case
    by (intro exI [of _ "with_supported_reorg_depth sha256 network depth"] conjI oracle_reaches.start)
      (simp_all add: with_supported_reorg_depth_def genesis_base_def)
next
  case (block blocks l tip d facts builder loc l')
  then obtain orc where orc: "oracle_reaches blake2b sha256 network depth blocks orc" "or_network orc = network"
    "or_ledger orc = l" "or_source_sequence_digest orc = d"
    "case or_last_projected_block orc of None \<Rightarrow> id_height tip = 0 | Some b \<Rightarrow> b = tip" by blast
  have "validate_next_block (facts_block facts) (header_parent_hash (block_header facts)) orc = Inr ()"
    using orc(5) \<open>extends facts tip\<close>
    by (auto simp: validate_next_block_def extends_def block_height_next_Some_iff word_unat_eq_iff split: option.splits)
  then have "\<exists>undo orc'. apply_block blake2b sha256 facts orc = (Inr undo, orc') \<and> or_network orc' = network \<and>
      or_ledger orc' = l' \<and> or_source_sequence_digest orc' = builder_finish builder \<and>
      or_last_projected_block orc' = Some (facts_block facts)"
    using orc block.hyps by (simp add: apply_block_def apply_block_in_place_def Let_def)
  then show ?case
    using oracle_reaches.accept [OF orc(1)] by fastforce
qed

section \<open>Plans and stores of one wallet state\<close>

definition same_rows :: "stored_rows \<Rightarrow> stored_rows \<Rightarrow> bool" where
  "same_rows st st' \<longleftrightarrow> (\<forall>f k. st (family_column f) k = st' (family_column f) k)"

lemma tracks_unique:
  assumes "tracks blake2b network lim st w p" and "tracks blake2b network lim' st' w p'"
  shows "same_rows (plan_view st (ts_rows p)) (plan_view st' (ts_rows p'))"
    and "pl_accumulator (ts_rows p) = pl_accumulator (ts_rows p')"
    and "pl_accumulator_row_counts (ts_rows p) = pl_accumulator_row_counts (ts_rows p')"
    and "pl_utxo_summary (ts_rows p) = pl_utxo_summary (ts_rows p')"
proof -
  obtain rows rows' where rows: "plans blake2b lim st (ledger_summary (mr_ledger (ts_rows w))) rows (ts_rows p)" "encodes (ts_rows w) rows"
    and rows': "plans blake2b lim' st' (ledger_summary (mr_ledger (ts_rows w))) rows' (ts_rows p')" "encodes (ts_rows w) rows'"
    using assms unfolding tracks_def realizes_def by blast
  have eq: "rows' = rows" by (rule encodes_unique [OF rows'(2) rows(2)])
  show "same_rows (plan_view st (ts_rows p)) (plan_view st' (ts_rows p'))"
    using rows(1) rows'(1) by (simp add: eq same_rows_def plans_def shows_table_def)
  have "db_accumulator (pl_accumulator (ts_rows p)) = db_accumulator (pl_accumulator (ts_rows p')) \<and>
      db_row_counts (pl_accumulator (ts_rows p)) = db_row_counts (pl_accumulator (ts_rows p'))"
    using rows(1) rows'(1) by (intro digests_unique [of blake2b rows]) (simp_all add: eq plans_def)
  then show acc: "pl_accumulator (ts_rows p) = pl_accumulator (ts_rows p')" by simp
  show "pl_accumulator_row_counts (ts_rows p) = pl_accumulator_row_counts (ts_rows p')"
    "pl_utxo_summary (ts_rows p) = pl_utxo_summary (ts_rows p')"
    using rows(1) rows'(1) acc by (simp_all add: plans_def)
qed

lemma planner_new_view: "plan_view st (ts_rows (planner_new s lim)) = st"
  by (simp add: plan_view_def planner_new_def Let_def fun_eq_iff)

text \<open>A plan that tracks a wallet state and a single step of the planner.\<close>

lemma tracks_step_sims:
  fixes lib :: "'d rocksdb"
  assumes "reads_stored lib db st" and "tracks blake2b network lim st w p"
  shows "sim resource_error same_failure (tracks blake2b network lim st)
           (apply_replay sha256 (machine_ops blake2b network) replay w)
           (apply_replay sha256 (plan_ops blake2b lib db network) replay p)"
    and "sim resource_error same_failure (tracks blake2b network lim st)
           (rollback_height (machine_ops blake2b network) h w) (rollback_height (plan_ops blake2b lib db network) h p)"
proof -
  have related: "planner.related TYPE('d) lib db st blake2b network lim w p"
    using assms unfolding planner.related_def tracks_def by simp
  have tracks: "planner.related TYPE('d) lib db st blake2b network lim x y \<Longrightarrow> tracks blake2b network lim st x y" for x y
    unfolding planner.related_def tracks_def by simp
  show "sim resource_error same_failure (tracks blake2b network lim st)
      (apply_replay sha256 (machine_ops blake2b network) replay w)
      (apply_replay sha256 (plan_ops blake2b lib db network) replay p)"
    by (rule sim_mono [OF planner.apply_replay_sim [OF related] tracks])
  show "sim resource_error same_failure (tracks blake2b network lim st)
      (rollback_height (machine_ops blake2b network) h w) (rollback_height (plan_ops blake2b lib db network) h p)"
    by (rule sim_mono [OF planner.rollback_height_sim [OF related] tracks])
qed

lemma publish_keeps_network:
  "publish_planned_transition blake2b lib batch evidence logical_bytes cancelled s = (r, s') \<Longrightarrow>
   sc_network (ws_control s') = sc_network (ws_control s) \<and>
   sc_supported_reorg_depth (ws_control s') = sc_supported_reorg_depth (ws_control s)"
  by (auto simp: publish_planned_transition_def Let_def and_then_Ok_iff split: sum.splits prod.splits if_splits)

lemma transition_keeps_network:
  "apply_canonical_event_range_cancellable blake2b sha256 lib source event fence settled_tip limit rows cancelled s = (r, s') \<Longrightarrow>
   sc_network (ws_control s') = sc_network (ws_control s)"
  "reconcile_canonical_event_sequence_cancellable blake2b sha256 lib source events fence settled_tip rollback replay_range
     limit rows cancelled s = (r, s') \<Longrightarrow> sc_network (ws_control s') = sc_network (ws_control s)"
  by (auto simp: apply_canonical_event_range_cancellable_def reconcile_canonical_event_sequence_cancellable_def
      dest: publish_keeps_network split: sum.splits prod.splits)

end
