(* ===== verification/Sample_Store.thy ===== *)
theory Sample_Store
  imports Wallet_Store
begin

text \<open>
  A concrete wallet store, on which the properties of the store are evaluated: an in-memory database
  that obeys \<open>rocksdb_lawful\<close>, a READY store after one block without transactions, and the committed event that
  appends one block without transactions.
\<close>

section \<open>An in-memory database\<close>

type_synonym memory = "(string \<times> u8 list, u8 list) fmap \<times> u8 list"

definition memory_rows :: "memory \<Rightarrow> stored_rows" where
  "memory_rows db cf k = fmlookup (fst db) (cf, k)"

fun memory_write :: "batch_op \<Rightarrow> memory \<Rightarrow> memory" where
  "memory_write (PutCf cf k v) (rows, control) = (fmupd (cf, k) v rows, control)"
| "memory_write (DeleteCf cf k) (rows, control) = (fmdrop (cf, k) rows, control)"
| "memory_write (Put k v) (rows, control) = (rows, v)"

definition memory_lib :: "memory rocksdb" where
  "memory_lib =
     \<lparr>rdb_cf_handle = (\<lambda>_ _. True), rdb_get_cf = (\<lambda>db cf k. Inr (memory_rows db cf k)),
      rdb_iterator = (\<lambda>db. [Inr (WALLET_STORE_CONTROL_KEY, snd db)]),
      rdb_iterator_cf = (\<lambda>db cf start.
        map (\<lambda>k. Inr (k, the (memory_rows db cf k)))
          (sorted_list_of_set {k. memory_rows db cf k \<noteq> None \<and> start \<le> k})),
      rdb_write_opt = (\<lambda>batch db. (Inr (), fold memory_write batch db))\<rparr>"

lemma memory_write_rows: "memory_rows (fold memory_write batch db) = fold apply_op batch (memory_rows db)"
proof (induction batch arbitrary: db)
  case (Cons op batch)
  have "memory_rows (memory_write op db) = apply_op op (memory_rows db)"
    by (cases op; cases db) (auto simp: memory_rows_def fun_eq_iff)
  then show ?case using Cons by simp
qed simp

lemma memory_write_control: "snd (fold memory_write (batch @ [Put k v]) db) = v"
  by (cases "fold memory_write batch db") simp

lemma memory_write_opt: "rdb_write_opt memory_lib batch db = (Inr (), fold memory_write batch db)"
  by (simp add: memory_lib_def)

lemma memory_lawful: "rocksdb_lawful memory_lib memory_rows"
  by (auto simp: rocksdb_lawful_def reads_stored_def memory_lib_def memory_write_rows)

section \<open>A store after one block\<close>

definition sample_blake2b :: blake2b_fn where
  "sample_blake2b = (\<lambda>p m. replicate (hash_length p) 0)"

definition sample_sha256 :: sha256_fn where
  "sample_sha256 = (\<lambda>_. filled 0)"

definition sample_tip :: block_id where
  "sample_tip = \<lparr>id_height = 1, id_hash = filled 1\<rparr>"

definition sample_evidence :: ready_evidence where
  "sample_evidence =
     \<lparr>re_source_position = sample_position 1 1 1, re_source_sequence_digest = sample_digest 1,
      re_settled_tip = sample_tip,
      re_projection_digest = accumulator_display_digest sample_blake2b accumulator_empty,
      re_projection_accumulator = accumulator_empty, re_row_counts = row_counts_default,
      re_utxo_summary = \<lparr>us_utxo_count = 0, us_total_value_zat = 0, us_commitment = commitment_empty\<rparr>\<rparr>"

definition ready_control :: "u64 \<Rightarrow> ready_evidence \<Rightarrow> store_control" where
  "ready_control generation evidence =
     \<lparr>sc_network = ZcashRegtest, sc_supported_reorg_depth = 10, sc_writer_generation = generation,
      sc_build_lease = None, sc_build_state = Ready evidence\<rparr>"

definition sample_store :: "memory wallet_store" where
  "sample_store =
     (let control = ready_control 1 sample_evidence in
      \<lparr>ws_db = (fmempty, case control_encode sample_blake2b control of Inr bs \<Rightarrow> bs | Inl _ \<Rightarrow> []),
       ws_control = control, ws_ready_evidence = sample_evidence\<rparr>)"

definition sample_base :: chain_base where
  "sample_base =
    \<lparr>cb_ledger = ledger_empty, cb_tip = \<lparr>id_height = 0, id_hash = filled 0\<rparr>,
     cb_digest = sample_digest 0\<rparr>"

lemmas sample_control_evaluation =
  control_encode_def ready_control_def sample_position_def sample_digest_def source_position_new_def
  validate_build_lease_def encode_ready_evidence_def validate_ready_evidence_def validate_event_cursor_def
  cursor_event_sequence_def cursor_for_sequence_def row_counts_default_def commitment_empty_def checked_sub_def
  REQUIRED_CANONICAL_SEQUENCE_DIGEST_VERSION_def sample_tip_def

lemma sample_control_bytes:
  "control_encode sample_blake2b (ready_control 1 sample_evidence) = Inr (snd (ws_db sample_store))"
proof -
  have "\<exists>bs. control_encode sample_blake2b (ready_control 1 sample_evidence) = Inr bs"
    by (simp add: sample_control_evaluation sample_evidence_def)
  then show ?thesis by (auto simp: sample_store_def Let_def)
qed

lemma memory_decode_only_control:
  assumes "control_encode blake2b c = Inr (snd db)" and "control_wf c"
  shows "decode_only_control blake2b memory_lib db = Inr c"
  using control_decode_encode [OF assms(2,1)] by (simp add: decode_only_control_def memory_lib_def)

lemma sample_store_admitted: "require_current_ready_control sample_blake2b memory_lib sample_store = Inr ()"
proof -
  have "control_wf (ready_control 1 sample_evidence)"
    by (simp add: control_wf_def ready_control_def sample_evidence_def sample_position_def)
  from memory_decode_only_control [OF sample_control_bytes this] show ?thesis
    by (simp add: require_current_ready_control_def sample_store_def Let_def ready_control_def)
qed

lemma sample_base_wf: "base_wf blake2b network sample_base"
  using ledger_inv_empty by (simp add: base_wf_def sample_base_def ledger_empty_def)

lemma sample_append:
  "\<exists>builder. try_append sample_sha256 digest (resume_from_prefix (sample_digest n)) = Inr builder \<and>
     builder_finish builder = sample_digest (n + 1)" if "unat n < 100"
  using that by (auto simp: try_append_def resume_from_prefix_def builder_finish_def checked_add_def
      sample_digest_def sample_sha256_def Let_def sha256_domain_and_bytes_def)

lemma sample_chain_state:
  "chain_state sample_blake2b sample_sha256 network sample_base [sample_block 1 1 0 []] ledger_empty sample_tip (sample_digest 1)"
proof -
  let ?facts = "sample_block 1 1 0 []"
  obtain builder where builder: "try_append sample_sha256 (facts_digest sample_sha256 ?facts FactsDigestV1)
      (resume_from_prefix (cb_digest sample_base)) = Inr builder" "builder_finish builder = sample_digest 1"
    using sample_append [of 0] by (auto simp: sample_base_def)
  have "extends ?facts (cb_tip sample_base)" "facts_block ?facts = sample_tip"
    "\<exists>loc. scan_block (ledger_ops sample_blake2b network) (facts_block ?facts) ?facts (cb_ledger sample_base) =
       Inr (loc, ledger_empty)"
    by (simp_all add: extends_def sample_base_def facts_block_def sample_block_def sample_tip_def scan_block_def)
  then show ?thesis
    using chain_state.block [OF chain_state.base _ builder(1)] builder(2) by auto
qed

lemma digests_empty: "digests blake2b fmempty accumulator_empty row_counts_default"
proof -
  have "row_count f row_counts_default = 0" for f
    by (cases f) (simp_all add: row_counts_default_def)
  then show ?thesis
    by (simp add: digests_def table_lanes_def family_size_def accumulator_empty_def)
qed

lemma sample_store_follows:
  "store_follows sample_blake2b sample_sha256 memory_rows sample_base [sample_block 1 1 0 []] [] sample_store"
proof -
  let ?w = "\<lparr>ts_rows = \<lparr>mr_ledger = ledger_empty, mr_undo = fmempty\<rparr>, ts_current_tip = sample_tip,
             ts_settled_tip = sample_tip, ts_source_sequence_digest = sample_digest 1\<rparr>"
  have "follows sample_blake2b sample_sha256 ZcashRegtest sample_base [sample_block 1 1 0 []] [] ?w"
    by (rule follows.settled [OF sample_chain_state])
  moreover have "shows_table (memory_rows (ws_db sample_store)) fmempty" "encodes (ts_rows ?w) fmempty"
    by (simp_all add: shows_table_def sample_store_def memory_rows_def Let_def encodes_def family_encodes_def index_encodes_def
        ledger_empty_def)
  moreover have "ledger_summary ledger_empty = \<lparr>us_utxo_count = 0, us_total_value_zat = 0, us_commitment = commitment_empty\<rparr>"
    by (simp add: ledger_summary_def ledger_empty_def)
  ultimately show ?thesis
    unfolding store_follows_def store_holds_def using digests_empty
    by (intro exI [of _ ?w])
      (auto simp: sample_store_def Let_def ready_control_def sample_evidence_def machine_wf_def ledger_inv_empty
        sample_position_def source_position_new_def sample_tip_def)
qed

section \<open>A committed event\<close>

definition sample_replay :: validated_block_replay where
  "sample_replay =
     \<lparr>rp_format_version = ReplayFormatV1,
      rp_reference_digest = facts_digest sample_sha256 (sample_block 2 2 1 []) FactsDigestV1,
      rp_facts = sample_block 2 2 1 []\<rparr>"

definition sample_fence :: event_fence where
  "sample_fence =
     \<lparr>fence_chain_epoch_id = 2, fence_chain_event_sequence = 2,
      fence_visible_tip = \<lparr>id_height = 2, id_hash = filled 2\<rparr>, fence_sequence_digest = sample_digest 2\<rparr>"

definition sample_event :: retained_event where
  "sample_event =
     \<lparr>ev_cursor = cursor_for_sequence 2, ev_resulting_epoch_id = 2, ev_previous_epoch_id = Some 1,
      ev_kind = Committed, ev_reverted_range = None, ev_committed_range = inclusive 2 2,
      ev_resulting_fence = sample_fence\<rparr>"

definition sample_source :: canonical_source_identity where
  "sample_source = source_identity_from_ready_evidence sample_evidence"

definition sample_undo :: reorg_undo where
  "sample_undo =
     block_undo \<lparr>id_height = 2, id_hash = filled 2\<rparr> (filled 1) (sample_digest 1) (sample_digest 2)
       no_locals"

definition sample_limit :: u64 where
  "sample_limit = 1048576"

lemma sample_undo_bytes:
  "undo_encode_value sample_undo = Inr (undo_bytes sample_undo)" "length (undo_bytes sample_undo) = 160"
  "as_slice (undo_encode_key sample_undo) = to_be_bytes (2 :: block_height)"
  unfolding undo_encode_Ok_iff
  by (simp_all add: undo_valid_def sample_undo_def block_undo_def no_locals_def sample_digest_def checked_add_def
      undo_bytes_def key_list_bytes_def undo_encode_key_def)

lemma sample_insert_undo:
  "\<exists>p. insert_undo sample_blake2b memory_lib (ws_db sample_store) sample_undo
           (ts_rows (planner_new sample_store sample_limit)) = Inr p \<and>
       pl_overlay p = fmupd (REORG_UNDO_COLUMN_FAMILY, to_be_bytes (2 :: block_height)) (Some (undo_bytes sample_undo)) fmempty \<and>
       append_row sample_blake2b ReorgUndo (to_be_bytes (2 :: block_height)) (undo_bytes sample_undo)
         (pl_accumulator (ts_rows (planner_new sample_store sample_limit))) = Inr (pl_accumulator p) \<and>
       pl_accumulator_row_counts p = row_counts_default\<lparr>reorg_undo_count := 1\<rparr> \<and>
       pl_utxo_summary p = re_utxo_summary sample_evidence \<and>
       pl_logical_bytes p = \<lparr>lb_limit = sample_limit, lb_batch = 164, lb_overlay = 164\<rparr>"
proof -
  let ?p = "ts_rows (planner_new sample_store sample_limit)"
  have "row_fits (ReorgUndo, to_be_bytes (2 :: block_height), undo_bytes sample_undo)"
    by (simp add: row_fits_def sample_undo_bytes)
  then obtain b where b: "append_row sample_blake2b ReorgUndo (to_be_bytes (2 :: block_height)) (undo_bytes sample_undo)
      (pl_accumulator ?p) = Inr b"
    using append_row_total [of ReorgUndo "to_be_bytes (2 :: block_height)" "undo_bytes sample_undo" "pl_accumulator ?p"]
    by (auto simp: planner_new_def Let_def sample_store_def sample_evidence_def row_counts_default_def)
  then have "db_row_counts b = row_counts_default\<lparr>reorg_undo_count := 1\<rparr>"
    by (auto simp: append_row_def and_then_Ok_iff checked_add_def planner_new_def Let_def sample_store_def
        sample_evidence_def row_counts_default_def split: if_splits)
  then show ?thesis
    using b by (simp add: insert_undo_def plan_insert_row_def raw_def insert_row_after_absence_observed_def put_raw_def
        sample_undo_bytes column_family_def memory_lib_def memory_rows_def planner_new_def Let_def sample_store_def reserve_put_def
        reserve_batch_and_replace_overlay_def logical_entry_bytes_def u64_try_from_usize_def checked_transition_bytes_def
        checked_add_def checked_sub_def ensure_within_limit_def accounting_new_def sample_limit_def)
qed

text \<open>The plan for the event, after the replay.\<close>

definition sample_applied :: "plan \<Rightarrow> plan transition_state" where
  "sample_applied p =
     \<lparr>ts_rows = p, ts_current_tip = \<lparr>id_height = 2, id_hash = filled 2\<rparr>, ts_settled_tip = sample_tip,
      ts_source_sequence_digest = sample_digest 2\<rparr>"

definition sample_plan :: "plan \<Rightarrow> bool" where
  "sample_plan p \<longleftrightarrow>
     pl_overlay p = fmupd (REORG_UNDO_COLUMN_FAMILY, to_be_bytes (2 :: block_height)) (Some (undo_bytes sample_undo)) fmempty \<and>
     append_row sample_blake2b ReorgUndo (to_be_bytes (2 :: block_height)) (undo_bytes sample_undo)
       (pl_accumulator (ts_rows (planner_new sample_store sample_limit))) = Inr (pl_accumulator p) \<and>
     pl_accumulator_row_counts p = row_counts_default\<lparr>reorg_undo_count := 1\<rparr> \<and>
     pl_utxo_summary p = re_utxo_summary sample_evidence \<and>
     pl_logical_bytes p = \<lparr>lb_limit = sample_limit, lb_batch = 164, lb_overlay = 164\<rparr>"

abbreviation sample_ops :: "plan row_ops" where
  "sample_ops \<equiv> plan_ops sample_blake2b memory_lib (ws_db sample_store) ZcashRegtest"

lemma sample_apply_replay:
  "\<exists>p. sample_plan p \<and>
     apply_replay sample_sha256 sample_ops sample_replay (planner_new sample_store sample_limit) = Inr (sample_applied p)"
proof -
  let ?new = "planner_new sample_store sample_limit" and ?tip = "\<lparr>id_height = 2, id_hash = filled 2\<rparr> :: block_id"
  obtain p where p: "insert_undo sample_blake2b memory_lib (ws_db sample_store) sample_undo (ts_rows ?new) = Inr p"
    and plan: "sample_plan p"
    using sample_insert_undo unfolding sample_plan_def by blast
  have new: "ts_current_tip ?new = sample_tip" "ts_settled_tip ?new = sample_tip"
    "ts_source_sequence_digest ?new = sample_digest 1"
    by (simp_all add: planner_new_def Let_def sample_store_def sample_evidence_def sample_position_def
        source_position_new_def sample_tip_def)
  have extend: "extend_source_sequence_digest sample_sha256 (sample_digest 1) digest = Inr (sample_digest 2)" for digest
    using sample_append [of 1 digest] by (auto simp: extend_source_sequence_digest_def checked_add_def sample_digest_def Let_def)
  have "ro_insert_undo sample_ops sample_undo (ts_rows ?new) = Inr p"
    using p by (simp add: plan_ops_def)
  then have "apply_block_rows sample_ops (sample_block 2 2 1 []) ?tip (sample_digest 1) (sample_digest 2) ?new =
      Inr (?new\<lparr>ts_rows := p\<rparr>)"
    using new by (simp add: apply_block_rows_def scan_block_def retain_undo_def sample_undo_def sample_block_def
        sample_tip_def block_undo_def word_le_nat_alt)
  then have "apply_replay sample_sha256 sample_ops sample_replay ?new = Inr (sample_applied p)"
    using new extend by (simp add: apply_replay_def sample_replay_def Let_def sample_block_def sample_tip_def block_height_next_def
        checked_add_def transition_state.equality sample_applied_def)
  then show ?thesis using plan by blast
qed

lemma sample_load_undo:
  assumes "sample_plan p"
  shows "ro_load_undo sample_ops 2 p = Inr (Some (sample_undo, undo_bytes sample_undo))"
proof -
  have "undo_decode (to_be_bytes (2 :: block_height)) (undo_bytes sample_undo) = Inr sample_undo"
    using undo.decode_encode [OF TrueI sample_undo_bytes(1)] by (simp add: sample_undo_bytes)
  then show ?thesis
    using assms by (simp add: sample_plan_def plan_ops_def load_undo_def raw_def decode_row_def)
qed

lemma sample_finish_plan:
  "\<exists>p. finish_plan sample_blake2b sample_sha256 memory_lib sample_store (inclusive 2 2) [Inr sample_replay]
          tip_reason digest_reason sample_fence sample_tip (planner_new sample_store sample_limit) = Inr (sample_applied p) \<and>
       sample_plan p"
proof -
  obtain p where p: "sample_plan p"
    and replay: "apply_replay sample_sha256 sample_ops sample_replay (planner_new sample_store sample_limit) = Inr (sample_applied p)"
    using sample_apply_replay by blast
  have "validate_incremental_replay_range (inclusive 2 2) = Inr ()"
    by (simp add: validate_incremental_replay_range_def inclusive_range_len_def range_is_anchored_empty_def
        validate_event_range_def checked_sub_def checked_add_def MAX_CANONICAL_INCREMENTAL_REPLAY_BLOCKS_def)
  then have "apply_replay_range sample_sha256 sample_ops (inclusive 2 2) [Inr sample_replay] (planner_new sample_store sample_limit) =
      Inr (sample_applied p)"
    using replay by (simp add: apply_replay_range_def apply_replay_row_def into_iter_def range_iter_next_def
        sample_replay_def sample_block_def)
  moreover have "require_publishable_undo_suffix sample_ops 10 (sample_applied p) = Inr ()"
    using p sample_load_undo [OF p]
    by (simp add: require_publishable_undo_suffix_def publishable_undo_def Let_def sample_tip_def sample_plan_def
        checked_sub_def block_height_next_def checked_add_def plan_ops_def sample_undo_def block_undo_def sample_applied_def)
  ultimately show ?thesis
    using p by (simp add: finish_plan_def Let_def sample_store_def ready_control_def sample_fence_def advance_settled_tip_def
        sample_applied_def)
qed

lemma sample_rollback_height:
  assumes "sample_plan p"
  shows "\<exists>p'. rollback_height sample_ops 2 (sample_applied p) = Inr p'"
proof -
  obtain b where "remove_row sample_blake2b ReorgUndo (to_be_bytes (2 :: block_height)) (undo_bytes sample_undo) (pl_accumulator p) = Inr b"
    using assms unfolding sample_plan_def remove_row_iff_append_row [symmetric] by blast
  then have "\<exists>p'. ro_remove_undo sample_ops 2 (undo_bytes sample_undo) p = Inr p'"
    using assms by (simp add: sample_plan_def plan_ops_def remove_undo_def plan_remove_row_def raw_def
        remove_row_after_value_observed_def delete_raw_def column_family_def memory_lib_def reserve_delete_def
        reserve_batch_and_replace_overlay_def logical_entry_bytes_def u64_try_from_usize_def checked_transition_bytes_def
        checked_add_def checked_sub_def ensure_within_limit_def sample_limit_def sample_undo_bytes)
  then show ?thesis
    using sample_load_undo [OF assms]
    by (auto simp: rollback_height_def rollback_undo_def sample_applied_def sample_undo_def block_undo_def no_locals_def
        checked_sub_def)
qed

lemma sample_publication:
  assumes plan: "sample_plan p" and pos: "publication_position sample_fence sample_event = Inr pos"
  shows "\<exists>s'. (case into_publication sample_blake2b pos (sample_applied p) of (batch, evidence, logical_bytes) \<Rightarrow>
      publish_planned_transition sample_blake2b memory_lib batch evidence logical_bytes False sample_store) = (Inr (), s')"
proof -
  obtain batch evidence bytes where publication: "into_publication sample_blake2b pos (sample_applied p) = (batch, evidence, bytes)"
    by (metis prod_cases3)
  have "pos = \<lparr>sp_chain_epoch_id = 2, sp_tip = \<lparr>id_height = 2, id_hash = filled 2\<rparr>, sp_event_sequence = 2,
      sp_event_cursor = cursor_for_sequence 2\<rparr>"
    using pos by (auto simp: publication_position_def and_then_Ok_iff cursor_from_bytes_def with_event_cursor_def Let_def
        sample_fence_def sample_event_def split: if_splits)
  then have evidence: "control_wf (ready_control 2 evidence)" "\<exists>bs. control_encode sample_blake2b (ready_control 2 evidence) = Inr bs"
    using publication plan
    by (auto simp: into_publication_def Let_def control_wf_def position_wf_def sample_evidence_def sample_control_evaluation
        sample_plan_def sample_applied_def)
  then obtain bs where bs: "control_encode sample_blake2b (ready_control 2 evidence) = Inr bs" by blast
  have bytes: "bytes = \<lparr>lb_limit = sample_limit, lb_batch = 164, lb_overlay = 164\<rparr>"
    using publication plan by (simp add: into_publication_def Let_def sample_plan_def sample_applied_def)
  have sum: "unat (of_nat m + of_nat (length bs) :: u64) = m + length bs" if "m < 1000" for m
    using that control_encode_bound [OF bs]
    by (simp add: of_nat_add [symmetric] unat_of_nat take_bit_nat_eq_self del: of_nat_add)
  have "length WALLET_STORE_CONTROL_KEY = 13" by (simp add: WALLET_STORE_CONTROL_KEY_def)
  then have "\<exists>a. reserve_control WALLET_STORE_CONTROL_KEY bs bytes = Inr a"
    using control_encode_bound [OF bs] sum [of 341] sum [of 177] sum [of 13]
    by (simp add: reserve_control_def bytes logical_entry_bytes_def u64_try_from_usize_def checked_transition_bytes_def
        checked_add_def ensure_within_limit_def sample_limit_def word_less_nat_alt unat_of_nat take_bit_nat_eq_self)
  moreover have "decode_only_control sample_blake2b memory_lib
      (fold memory_write (batch @ [Put WALLET_STORE_CONTROL_KEY bs]) (ws_db sample_store)) = Inr (ready_control 2 evidence)"
    using memory_decode_only_control [OF _ evidence(1)] bs memory_write_control by metis
  moreover have "sc_writer_generation (ws_control sample_store) = 1" "sc_network (ws_control sample_store) = ZcashRegtest"
    "sc_supported_reorg_depth (ws_control sample_store) = 10"
    by (simp_all add: sample_store_def Let_def ready_control_def)
  ultimately show ?thesis
    using bs sample_store_admitted
    by (auto simp: publication publish_planned_transition_def Let_def ready_control_def checked_add_def memory_write_opt
        simp del: fold_append)
qed

section \<open>The event is applied\<close>

lemma sample_position_ok: "\<exists>pos. publication_position sample_fence sample_event = Inr pos"
  by (simp add: publication_position_def cursor_from_bytes_def with_event_cursor_def Let_def validate_event_cursor_def
      cursor_event_sequence_def cursor_for_sequence_def sample_fence_def sample_event_def
      WALLET_PROJECTION_EVENT_CURSOR_VERSION_def)

lemmas sample_event_evaluation =
  sample_event_def sample_fence_def sample_source_def source_identity_from_ready_evidence_def sample_evidence_def
  sample_position_def source_position_new_def sample_tip_def cursor_event_sequence_def cursor_for_sequence_def
  checked_add_def block_height_next_def validate_transition_logical_byte_limit_def sample_limit_def
  MAX_WALLET_PROJECTION_TRANSITION_LOGICAL_BYTES_def validate_resulting_settled_tip_def

lemma sample_store_evidence: "ws_ready_evidence sample_store = sample_evidence"
  by (simp add: sample_store_def Let_def)

lemma sample_planner_new: "ts_current_tip (planner_new sample_store lim) = sample_tip"
  "ts_source_sequence_digest (planner_new sample_store lim) = sample_digest 1"
  by (simp_all add: planner_new_def Let_def sample_store_def sample_evidence_def sample_position_def
      source_position_new_def sample_tip_def)

lemma sample_event_checks:
  "validate_transition_logical_byte_limit sample_limit = Inr sample_limit"
  "source_identity_from_ready_evidence (ws_ready_evidence sample_store) = sample_source"
  "validate_event_fences sample_source sample_event sample_fence = Inr ()"
  "validate_resulting_settled_tip (si_settled_tip sample_source) sample_tip (fence_visible_tip sample_fence) = Inr ()"
  "validate_committed_event_shape (planner_new sample_store lim) sample_event sample_fence = Inr ()"
  "validate_reconciliation_event_sequence sample_source [sample_event] sample_fence = Inr ()"
  "replay_range_from_ancestor (ts_current_tip (planner_new sample_store lim)) sample_fence = Inr (inclusive 2 2)"
  "validate_incremental_replay_range (inclusive 2 2) = Inr ()"
  by (simp_all add: sample_event_evaluation validate_event_fences_def sample_store_evidence Let_def validate_committed_event_shape_def
      sample_planner_new validate_reconciliation_event_sequence_def validate_reconciliation_event_def
      validate_reconciliation_event_shape_def validate_event_range_def range_is_anchored_empty_def
      replay_range_from_ancestor_def validate_incremental_replay_range_def inclusive_range_len_def checked_sub_def
      MAX_CANONICAL_INCREMENTAL_REPLAY_BLOCKS_def word_less_nat_alt word_le_nat_alt)

lemma sample_event_fields: "ev_kind sample_event = Committed" "ev_committed_range sample_event = inclusive 2 2"
  by (simp_all add: sample_event_def)

lemma sample_committed:
  "\<exists>s'. apply_canonical_event_range_cancellable sample_blake2b sample_sha256 memory_lib sample_source sample_event
     sample_fence sample_tip sample_limit [Inr sample_replay] False sample_store = (Inr (), s')"
proof -
  obtain pos where pos: "publication_position sample_fence sample_event = Inr pos"
    using sample_position_ok by blast
  obtain p where p: "sample_plan p"
    and finish: "finish_plan sample_blake2b sample_sha256 memory_lib sample_store (inclusive 2 2) [Inr sample_replay]
      ''applied replay tip differs from the resulting canonical fence''
      ''applied replay digest differs from the resulting canonical fence''
      sample_fence sample_tip (planner_new sample_store sample_limit) = Inr (sample_applied p)"
    using sample_finish_plan by blast
  have "plan_canonical_event_range sample_blake2b sample_sha256 memory_lib sample_source sample_event sample_fence
      sample_tip sample_limit [Inr sample_replay] sample_store = Inr (sample_applied p, pos)"
    using pos finish
    by (simp add: plan_canonical_event_range_def sample_store_admitted sample_event_checks Let_def sample_event_fields)
  then show ?thesis
    using sample_publication [OF p pos] by (simp add: apply_canonical_event_range_cancellable_def)
qed

lemma sample_reconciled:
  "\<exists>s'. reconcile_canonical_event_sequence_cancellable sample_blake2b sample_sha256 memory_lib sample_source [sample_event]
     sample_fence sample_tip None (inclusive 2 2) sample_limit [Inr sample_replay] False sample_store = (Inr (), s')"
proof -
  obtain pos where pos: "publication_position sample_fence sample_event = Inr pos"
    using sample_position_ok by blast
  obtain p where p: "sample_plan p"
    and finish: "finish_plan sample_blake2b sample_sha256 memory_lib sample_store (inclusive 2 2) [Inr sample_replay]
      ''reconciled replay tip differs from the target canonical fence''
      ''reconciled replay digest differs from the target canonical fence''
      sample_fence sample_tip (planner_new sample_store sample_limit) = Inr (sample_applied p)"
    using sample_finish_plan by blast
  have "plan_canonical_event_sequence sample_blake2b sample_sha256 memory_lib sample_source [sample_event] sample_fence
      sample_tip None (inclusive 2 2) sample_limit [Inr sample_replay] sample_store = Inr (sample_applied p, pos)"
    using pos finish
    by (simp add: plan_canonical_event_sequence_def sample_store_admitted sample_event_checks Let_def)
  then show ?thesis
    using sample_publication [OF p pos] by (simp add: reconcile_canonical_event_sequence_cancellable_def)
qed

end
