(* ===== verification/Store_Properties.thy ===== *)
theory Store_Properties
  imports Store_Facts Sample_Store
begin

text \<open>
  The properties of the durable wallet store: it stays on the canonical chain under events and under
  reconciliation, its rows are a function of the chain and those of the serial oracle, a transition is
  published as a whole or not at all, what is not settled can be rolled back, and a plan stays within
  its byte limit.
\<close>

section \<open>Following the chain\<close>

text \<open>
  C1: a canonical event applied to a store that follows a chain leaves a store that follows the
  resulting chain. The blocks the event reverts are taken off the unsettled end, the replayed blocks
  are appended, a prefix of the unsettled blocks becomes settled, and the published evidence names the
  visible tip and the digest of the event's fence and the requested settled tip; no more blocks than
  the supported reorg depth remain unsettled.
\<close>

theorem canonical_event_follows_chain:
  assumes "rocksdb_lawful lib stored" and "base_wf blake2b (sc_network (ws_control s)) base"
    and "store_follows blake2b sha256 stored base settled unsettled s"
    and "apply_canonical_event_range blake2b sha256 lib source event fence settled_tip limit rows s = (Ok (), s')"
  shows "\<exists>replays newly rest. rows = map Ok replays \<and>
           take (length unsettled - reverted_blocks event) unsettled @ map rp_facts replays = newly @ rest \<and>
           store_follows blake2b sha256 stored base (settled @ newly) rest s' \<and>
           sp_tip (re_source_position (ws_ready_evidence s')) = fence_visible_tip fence \<and>
           re_source_sequence_digest (ws_ready_evidence s') = fence_sequence_digest fence \<and>
           re_settled_tip (ws_ready_evidence s') = settled_tip \<and>
           length rest \<le> unat (sc_supported_reorg_depth (ws_control s'))"
  using apply_event_follows [OF assms(1-3)] assms(4) unfolding apply_canonical_event_range_def by blast

lemma sample_network: "sc_network (ws_control sample_store) = ZcashRegtest"
  by (simp add: sample_store_def Let_def ready_control_def)

theorem canonical_event_follows_chain_witness:
  "\<exists>s'. apply_canonical_event_range sample_blake2b sample_sha256 memory_lib sample_source sample_event sample_fence
          sample_tip sample_limit [Ok sample_replay] sample_store = (Ok (), s') \<and>
        sp_tip (re_source_position (ws_ready_evidence s')) = fence_visible_tip sample_fence"
proof -
  obtain s' where "apply_canonical_event_range sample_blake2b sample_sha256 memory_lib sample_source sample_event
      sample_fence sample_tip sample_limit [Ok sample_replay] sample_store = (Ok (), s')"
    using sample_committed by (auto simp: apply_canonical_event_range_def)
  from canonical_event_follows_chain [OF memory_lawful sample_base_wf sample_store_follows this] this show ?thesis
    by blast
qed

text \<open>
  C9: a reconciliation over a sequence of retained events takes a store that follows a chain to one
  that follows the chain rolled back by the given range and extended with the replayed blocks, at the
  target fence and settled tip.
\<close>

theorem reconciliation_follows_chain:
  assumes "rocksdb_lawful lib stored" and "base_wf blake2b (sc_network (ws_control s)) base"
    and "store_follows blake2b sha256 stored base settled unsettled s"
    and "reconcile_canonical_event_sequence blake2b sha256 lib source events fence settled_tip
           rollback replay_range limit rows s = (Ok (), s')"
  shows "\<exists>replays newly rest. rows = map Ok replays \<and>
           take (length unsettled - rolled_back rollback) unsettled @ map rp_facts replays = newly @ rest \<and>
           store_follows blake2b sha256 stored base (settled @ newly) rest s' \<and>
           sp_tip (re_source_position (ws_ready_evidence s')) = fence_visible_tip fence \<and>
           re_source_sequence_digest (ws_ready_evidence s') = fence_sequence_digest fence \<and>
           re_settled_tip (ws_ready_evidence s') = settled_tip \<and>
           length rest \<le> unat (sc_supported_reorg_depth (ws_control s'))"
  using reconcile_follows [OF assms(1-3)] assms(4) unfolding reconcile_canonical_event_sequence_def by blast

theorem reconciliation_follows_chain_witness:
  "\<exists>s'. reconcile_canonical_event_sequence sample_blake2b sample_sha256 memory_lib sample_source [sample_event] sample_fence
          sample_tip None (inclusive 2 2) sample_limit [Ok sample_replay] sample_store = (Ok (), s') \<and>
        re_source_sequence_digest (ws_ready_evidence s') = fence_sequence_digest sample_fence"
proof -
  obtain s' where "reconcile_canonical_event_sequence sample_blake2b sample_sha256 memory_lib sample_source [sample_event]
      sample_fence sample_tip None (inclusive 2 2) sample_limit [Ok sample_replay] sample_store = (Ok (), s')"
    using sample_reconciled by (auto simp: reconcile_canonical_event_sequence_def)
  from reconciliation_follows_chain [OF memory_lawful sample_base_wf sample_store_follows this] this show ?thesis
    by blast
qed

section \<open>The sample event, applied and reconciled\<close>

lemma store_follows_heights:
  assumes "store_follows blake2b sha256 stored base settled unsettled s"
  shows "unat (id_height (sp_tip (re_source_position (ws_ready_evidence s)))) =
         unat (id_height (re_settled_tip (ws_ready_evidence s))) + length unsettled"
  using assms follows_heights(1) by (auto simp: store_follows_def store_holds_def Let_def)

abbreviation sample_chain :: "canonical_block_facts list" where
  "sample_chain \<equiv> [sample_block 1 1 0 []]"

abbreviation sample_suffix :: "canonical_block_facts list" where
  "sample_suffix \<equiv> [sample_block 2 2 1 []]"

lemma sample_suffix_split:
  assumes "[rp_facts sample_replay] = newly @ rest"
    and "store_follows sample_blake2b sample_sha256 memory_rows sample_base (sample_block 1 1 0 [] # newly) rest s'"
    and "sp_tip (re_source_position (ws_ready_evidence s')) = fence_visible_tip sample_fence"
    and "re_settled_tip (ws_ready_evidence s') = sample_tip"
  shows "store_follows sample_blake2b sample_sha256 memory_rows sample_base sample_chain sample_suffix s'"
proof -
  have "length rest = 1"
    using store_follows_heights [OF assms(2)] assms(3,4) by (simp add: sample_fence_def sample_tip_def)
  moreover have "newly @ rest = sample_suffix"
    using assms(1) by (simp add: sample_replay_def)
  ultimately have "newly = []" "rest = sample_suffix"
    by (auto simp: append_eq_Cons_conv)
  then show ?thesis using assms(2) by simp
qed

lemma sample_committed_follows:
  "\<exists>s'. apply_canonical_event_range sample_blake2b sample_sha256 memory_lib sample_source sample_event sample_fence
          sample_tip sample_limit [Ok sample_replay] sample_store = (Ok (), s') \<and>
        store_follows sample_blake2b sample_sha256 memory_rows sample_base sample_chain sample_suffix s' \<and>
        sc_network (ws_control s') = ZcashRegtest"
proof -
  obtain s' where s': "apply_canonical_event_range_cancellable sample_blake2b sample_sha256 memory_lib sample_source sample_event
      sample_fence sample_tip sample_limit [Ok sample_replay] False sample_store = (Ok (), s')"
    using sample_committed by blast
  from apply_event_follows [OF memory_lawful sample_base_wf sample_store_follows this] show ?thesis
    using s' transition_keeps_network(1) [OF s'] sample_network
    by (auto simp: apply_canonical_event_range_def elim: sample_suffix_split)
qed

lemma sample_reconciled_follows:
  "\<exists>s'. reconcile_canonical_event_sequence sample_blake2b sample_sha256 memory_lib sample_source [sample_event] sample_fence
          sample_tip None (inclusive 2 2) sample_limit [Ok sample_replay] sample_store = (Ok (), s') \<and>
        store_follows sample_blake2b sample_sha256 memory_rows sample_base sample_chain sample_suffix s' \<and>
        sc_network (ws_control s') = ZcashRegtest"
proof -
  obtain s' where s': "reconcile_canonical_event_sequence_cancellable sample_blake2b sample_sha256 memory_lib sample_source
      [sample_event] sample_fence sample_tip None (inclusive 2 2) sample_limit [Ok sample_replay] False sample_store = (Ok (), s')"
    using sample_reconciled by blast
  from reconcile_follows [OF memory_lawful sample_base_wf sample_store_follows this] show ?thesis
    using s' transition_keeps_network(2) [OF s'] sample_network
    by (auto simp: reconcile_canonical_event_sequence_def elim: sample_suffix_split)
qed

section \<open>What a store contains\<close>

lemma published_evidence:
  "publish_planned_transition blake2b lib batch evidence logical_bytes cancelled s = (Ok (), s') \<Longrightarrow> ws_ready_evidence s' = evidence"
  by (auto simp: publish_planned_transition_def Let_def split: sum.splits prod.splits)

lemma applied_position:
  assumes "apply_canonical_event_range_cancellable blake2b sha256 lib source event fence settled_tip limit rows cancelled s = (Ok (), s')"
  shows "publication_position fence event = Ok (re_source_position (ws_ready_evidence s'))"
  using assms
  by (auto simp: apply_canonical_event_range_cancellable_def plan_canonical_event_range_def into_publication_def Let_def
      and_then_Ok_iff dest!: published_evidence split: sum.splits if_splits)

lemma reconciled_position:
  assumes "reconcile_canonical_event_sequence_cancellable blake2b sha256 lib source events fence settled_tip rollback replay_range
      limit rows cancelled s = (Ok (), s')"
  shows "publication_position fence (last events) = Ok (re_source_position (ws_ready_evidence s'))"
  using assms
  by (auto simp: reconcile_canonical_event_sequence_cancellable_def plan_canonical_event_sequence_def into_publication_def Let_def
      and_then_Ok_iff ok_or_Ok_iff dest!: published_evidence split: sum.splits if_splits)

lemma store_of_chain_unique:
  assumes "store_follows blake2b sha256 stored base settled unsettled s"
    and "store_follows blake2b sha256 stored base settled unsettled s'"
    and "sc_network (ws_control s) = sc_network (ws_control s')"
    and "re_source_position (ws_ready_evidence s) = re_source_position (ws_ready_evidence s')"
  shows "same_rows (stored (ws_db s)) (stored (ws_db s')) \<and> ws_ready_evidence s = ws_ready_evidence s'"
proof -
  obtain w where w: "store_holds blake2b stored s w" "store_holds blake2b stored s' w"
    using assms(1-3) follows_unique unfolding store_follows_def by metis
  have t: "tracks blake2b (sc_network (ws_control s)) 0 (stored (ws_db s)) w (planner_new s 0)"
    "tracks blake2b (sc_network (ws_control s)) 0 (stored (ws_db s')) w (planner_new s' 0)"
    using planner_new_tracks [OF w(1)] planner_new_tracks [OF w(2)] assms(3) by simp_all
  note same = tracks_unique [OF t]
  show ?thesis
    using same w assms(4) by (simp add: planner_new_view) (simp add: planner_new_def Let_def store_holds_def)
qed

text \<open>
  C11: reconciliation and stepwise application agree. A store that applies an event, and a store over the
  same base that reconciles a sequence of retained events ending in this event, perhaps from another
  history, with other rollbacks and other replays, publish the same evidence, source position included,
  and hold the same rows, if both end at the same fence and settled tip with the same blocks.
\<close>

theorem reconciliation_agrees_with_application:
  assumes "rocksdb_lawful lib stored" and "base_wf blake2b (sc_network (ws_control s)) base"
    and "sc_network (ws_control t) = sc_network (ws_control s)"
    and "store_follows blake2b sha256 stored base settled unsettled s"
    and "store_follows blake2b sha256 stored base settled' unsettled' t"
    and "apply_canonical_event_range blake2b sha256 lib source event fence settled_tip limit (map Ok replays) s = (Ok (), s')"
    and "reconcile_canonical_event_sequence blake2b sha256 lib source' events fence settled_tip
           rollback replay_range limit' (map Ok replays') t = (Ok (), t')"
    and "last events = event"
    and "settled @ take (length unsettled - reverted_blocks event) unsettled @ map rp_facts replays =
         settled' @ take (length unsettled' - rolled_back rollback) unsettled' @ map rp_facts replays'"
  shows "same_rows (stored (ws_db s')) (stored (ws_db t')) \<and> ws_ready_evidence s' = ws_ready_evidence t'"
proof -
  note apply_ok = assms(6) [unfolded apply_canonical_event_range_def] and
    reconcile_ok = assms(7) [unfolded reconcile_canonical_event_sequence_def]
  obtain newly rest where s': "take (length unsettled - reverted_blocks event) unsettled @ map rp_facts replays = newly @ rest"
    "store_follows blake2b sha256 stored base (settled @ newly) rest s'"
    "sp_tip (re_source_position (ws_ready_evidence s')) = fence_visible_tip fence" "re_settled_tip (ws_ready_evidence s') = settled_tip"
    using apply_event_follows [OF assms(1,2,4) apply_ok] by (auto simp: inj_map_eq_map)
  obtain newly' rest' where t': "take (length unsettled' - rolled_back rollback) unsettled' @ map rp_facts replays' = newly' @ rest'"
    "store_follows blake2b sha256 stored base (settled' @ newly') rest' t'"
    "sp_tip (re_source_position (ws_ready_evidence t')) = fence_visible_tip fence" "re_settled_tip (ws_ready_evidence t') = settled_tip"
    using reconcile_follows [OF assms(1) _ assms(5) reconcile_ok] assms(2,3) by (auto simp: inj_map_eq_map)
  have "length rest = length rest'"
    using store_follows_heights [OF s'(2)] store_follows_heights [OF t'(2)] s'(3,4) t'(3,4) by simp
  then have "settled @ newly = settled' @ newly'" "rest = rest'"
    using assms(9) unfolding s'(1) t'(1) by (simp_all flip: append_assoc)
  moreover have "sc_network (ws_control s') = sc_network (ws_control t')"
    using transition_keeps_network(1) [OF apply_ok] transition_keeps_network(2) [OF reconcile_ok] assms(3) by simp
  moreover have "re_source_position (ws_ready_evidence s') = re_source_position (ws_ready_evidence t')"
    using applied_position [OF apply_ok] reconciled_position [OF reconcile_ok] assms(8) by simp
  ultimately show ?thesis using store_of_chain_unique [of _ _ _ _ "settled @ newly" rest s' t'] s'(2) t'(2) by simp
qed

theorem reconciliation_agrees_with_application_witness:
  "\<exists>s s'. apply_canonical_event_range sample_blake2b sample_sha256 memory_lib sample_source sample_event sample_fence
            sample_tip sample_limit [Ok sample_replay] sample_store = (Ok (), s) \<and>
          reconcile_canonical_event_sequence sample_blake2b sample_sha256 memory_lib sample_source [sample_event] sample_fence
            sample_tip None (inclusive 2 2) sample_limit [Ok sample_replay] sample_store = (Ok (), s') \<and>
          same_rows (memory_rows (ws_db s)) (memory_rows (ws_db s')) \<and> ws_ready_evidence s = ws_ready_evidence s'"
proof -
  obtain s s' where ok: "apply_canonical_event_range sample_blake2b sample_sha256 memory_lib sample_source sample_event sample_fence
        sample_tip sample_limit (map Ok [sample_replay]) sample_store = (Ok (), s)"
      "reconcile_canonical_event_sequence sample_blake2b sample_sha256 memory_lib sample_source [sample_event] sample_fence
        sample_tip None (inclusive 2 2) sample_limit (map Ok [sample_replay]) sample_store = (Ok (), s')"
    using sample_committed_follows sample_reconciled_follows by auto
  have "same_rows (memory_rows (ws_db s)) (memory_rows (ws_db s')) \<and> ws_ready_evidence s = ws_ready_evidence s'"
    by (rule reconciliation_agrees_with_application [OF memory_lawful sample_base_wf refl sample_store_follows sample_store_follows ok])
      simp_all
  then show ?thesis using ok by auto
qed

text \<open>
  C2: a store that follows a chain over the genesis state holds what the serial oracle holds after
  these blocks: every unspent and every spent output row is the encoding of what the oracle finds for
  the outpoint, every address balance row decodes to the oracle's balance, and the UTXO summary and the
  source digest are the oracle's.
\<close>

theorem store_agrees_with_oracle:
  assumes "store_follows blake2b sha256 stored (genesis_base sha256 root_hash) settled unsettled s"
  shows "\<exists>orc. oracle_reaches blake2b sha256 (sc_network (ws_control s)) depth (settled @ unsettled) orc \<and>
     (\<forall>p. rel_option (\<lambda>u v. unspent_encode_value u = Ok v) (find_unspent_output p orc)
             (stored (ws_db s) TRANSPARENT_UNSPENT_OUTPUT_COLUMN_FAMILY (as_slice (outpoint_key_new p)))) \<and>
     (\<forall>p. rel_option (\<lambda>u v. spent_encode_value u = Ok v) (find_spent_output p orc)
             (stored (ws_db s) TRANSPARENT_SPENT_OUTPUT_COLUMN_FAMILY (as_slice (outpoint_key_new p)))) \<and>
     (\<forall>a. oracle_address_balance a orc =
             (case stored (ws_db s) TRANSPARENT_ADDRESS_BALANCE_COLUMN_FAMILY (as_slice a) of
                None \<Rightarrow> 0 | Some v \<Rightarrow> from_be_bytes v)) \<and>
     re_utxo_summary (ws_ready_evidence s) = oracle_utxo_summary orc \<and>
     re_source_sequence_digest (ws_ready_evidence s) = or_source_sequence_digest orc"
proof -
  obtain w where follows: "follows blake2b sha256 (sc_network (ws_control s)) (genesis_base sha256 root_hash) settled unsettled w"
    and holds: "store_holds blake2b stored s w"
    using assms by (auto simp: store_follows_def)
  obtain orc where orc: "oracle_reaches blake2b sha256 (sc_network (ws_control s)) depth (settled @ unsettled) orc"
    "or_ledger orc = mr_ledger (ts_rows w)" "or_source_sequence_digest orc = ts_source_sequence_digest w"
    using chain_state_oracle [OF follows_chain_state [OF follows]] by blast
  obtain rows where rows: "shows_table (stored (ws_db s)) rows" "encodes (ts_rows w) rows"
    using holds by (auto simp: store_holds_def Let_def)
  have row: "stored (ws_db s) (family_column f) k = fmlookup rows (f, k)" for f k
    using rows(1) by (simp add: shows_table_def)
  note unspent = row [of TransparentUnspentOutput] and spent = row [of TransparentSpentOutput]
    and balance = row [of TransparentAddressBalance]
  have rel: "rel_option (\<lambda>b v. Inr (to_be_bytes b) = (Inr v :: contract_error + u8 list))
      (fmlookup (lg_balance_by_address (or_ledger orc)) a) (fmlookup rows (TransparentAddressBalance, as_slice a))" for a
    using rows(2) by (simp add: encodes_def family_encodes_def orc(2))
  have "oracle_address_balance a orc = (case fmlookup rows (TransparentAddressBalance, as_slice a) of
      None \<Rightarrow> 0 | Some v \<Rightarrow> from_be_bytes v)" for a
    using rel [of a] unfolding oracle_address_balance_def by (auto elim!: option.rel_cases)
  moreover have "rel_option (\<lambda>u v. unspent_encode_value u = Ok v) (find_unspent_output p orc)
      (fmlookup rows (TransparentUnspentOutput, as_slice (outpoint_key_new p)))"
    "rel_option (\<lambda>u v. spent_encode_value u = Ok v) (find_spent_output p orc)
      (fmlookup rows (TransparentSpentOutput, as_slice (outpoint_key_new p)))" for p
    using rows(2) unfolding encodes_def family_encodes_def find_unspent_output_def find_spent_output_def orc(2) by blast+
  moreover have "re_utxo_summary (ws_ready_evidence s) = oracle_utxo_summary orc"
    "re_source_sequence_digest (ws_ready_evidence s) = or_source_sequence_digest orc"
    using holds by (simp_all add: store_holds_def Let_def oracle_utxo_summary_def ledger_summary_def orc)
  ultimately show ?thesis
    using orc(1) unspent spent balance
    by (intro exI [of _ orc]) (simp del: as_slice_outpoint_key_new)
qed

theorem store_agrees_with_oracle_witness:
  "\<exists>orc. oracle_reaches sample_blake2b sample_sha256 ZcashRegtest 5 sample_chain orc \<and>
     re_utxo_summary sample_evidence = oracle_utxo_summary orc"
proof -
  have base: "genesis_base sample_sha256 (filled 0) = sample_base"
    by (simp add: genesis_base_def sample_base_def builder_finish_def builder_new.simps sample_digest_def sample_sha256_def
        sha256_domain_and_bytes_def)
  from store_agrees_with_oracle [OF sample_store_follows [folded base], of 5] show ?thesis
    by (auto simp: sample_network sample_store_evidence)
qed

section \<open>Atomic publication\<close>

text \<open>
  C3: whatever \<open>apply_canonical_event_range_cancellable\<close> reports (success, a rejected event, a failed
  replay, a byte limit, a failed write, or cancellation), the rows of the database are those from
  before the call or exactly the rows of the resulting chain, never a mixture; a cancelled transition
  fails and leaves the store as it was.
\<close>

theorem transition_is_atomic:
  assumes "rocksdb_lawful lib stored" and "base_wf blake2b (sc_network (ws_control s)) base"
    and "store_follows blake2b sha256 stored base settled unsettled s"
    and "apply_canonical_event_range_cancellable blake2b sha256 lib source event fence settled_tip limit rows cancelled s = (r, s')"
  shows "(stored (ws_db s') = stored (ws_db s) \<or>
          (\<exists>replays newly rest w table. rows = map Ok replays \<and>
             take (length unsettled - reverted_blocks event) unsettled @ map rp_facts replays = newly @ rest \<and>
             follows blake2b sha256 (sc_network (ws_control s)) base (settled @ newly) rest w \<and>
             encodes (ts_rows w) table \<and> shows_table (stored (ws_db s')) table)) \<and>
         (cancelled \<longrightarrow> s' = s \<and> r \<noteq> Ok ())"
proof (cases "plan_canonical_event_range blake2b sha256 lib source event fence settled_tip limit rows s")
  case (Inl e)
  then show ?thesis using assms(4) by (auto simp: apply_canonical_event_range_cancellable_def)
next
  case (Inr planned)
  then obtain p pos where plan: "plan_canonical_event_range blake2b sha256 lib source event fence settled_tip limit rows s = Inr (p, pos)"
    by (cases planned) simp
  obtain evidence bytes where published:
    "publish_planned_transition blake2b lib (pl_batch (ts_rows p)) evidence bytes cancelled s = (r, s')"
    using assms(4) plan by (auto simp: apply_canonical_event_range_cancellable_def into_publication_def Let_def)
  obtain w where w: "follows blake2b sha256 (sc_network (ws_control s)) base settled unsettled w" "store_holds blake2b stored s w"
    using assms(3) by (auto simp: store_follows_def)
  obtain replays newly rest w' where reached: "rows = map Ok replays"
      "take (length unsettled - reverted_blocks event) unsettled @ map rp_facts replays = newly @ rest"
      "follows blake2b sha256 (sc_network (ws_control s)) base (settled @ newly) rest w'"
    and "tracks blake2b (sc_network (ws_control s)) limit (stored (ws_db s)) w' p"
    using plan_event_follows [OF assms(1,2) w plan] by blast
  then obtain table where "encodes (ts_rows w') table"
    "shows_table (fold apply_op (pl_batch (ts_rows p)) (stored (ws_db s))) table"
    by (auto simp: tracks_def realizes_def plans_def)
  then show ?thesis
    using publish_atomic [OF assms(1) published] reached by metis
qed

theorem transition_is_atomic_witness:
  "\<exists>r s'. apply_canonical_event_range_cancellable sample_blake2b sample_sha256 memory_lib sample_source sample_event sample_fence
     sample_tip sample_limit [Ok sample_replay] True sample_store = (r, s') \<and> s' = sample_store \<and> r \<noteq> Ok ()"
proof -
  obtain r s' where "apply_canonical_event_range_cancellable sample_blake2b sample_sha256 memory_lib sample_source sample_event
      sample_fence sample_tip sample_limit [Ok sample_replay] True sample_store = (r, s')"
    by (cases "apply_canonical_event_range_cancellable sample_blake2b sample_sha256 memory_lib sample_source sample_event
      sample_fence sample_tip sample_limit [Ok sample_replay] True sample_store")
  with transition_is_atomic [OF memory_lawful sample_base_wf sample_store_follows this] show ?thesis by blast
qed

text \<open>
  C13: the batch that a successful transition writes, the control record included, is no larger than
  the caller's logical byte limit, which is at most one gibibyte.
\<close>

theorem written_batch_within_limit:
  assumes "rocksdb_lawful lib stored" and "base_wf blake2b (sc_network (ws_control s)) base"
    and "store_follows blake2b sha256 stored base settled unsettled s"
    and "apply_canonical_event_range blake2b sha256 lib source event fence settled_tip limit rows s = (Ok (), s')"
  shows "\<exists>batch. rdb_write_opt lib batch (ws_db s) = (Ok (), ws_db s') \<and>
           sum_list (map op_size batch) \<le> unat limit \<and> unat limit \<le> 2 ^ 30"
proof -
  obtain p pos where plan: "plan_canonical_event_range blake2b sha256 lib source event fence settled_tip limit rows s = Inr (p, pos)"
    and "(case into_publication blake2b pos p of (batch, evidence, logical_bytes) \<Rightarrow>
        publish_planned_transition blake2b lib batch evidence logical_bytes False s) = (Inr (), s')"
    using assms(4) by (auto simp: apply_canonical_event_range_def apply_canonical_event_range_cancellable_def split: sum.splits)
  then obtain encoded a where reserved: "reserve_control WALLET_STORE_CONTROL_KEY encoded (pl_logical_bytes (ts_rows p)) = Inr a"
    and written: "rdb_write_opt lib (pl_batch (ts_rows p) @ [Put WALLET_STORE_CONTROL_KEY encoded]) (ws_db s) = (Inr (), ws_db s')"
    by (auto simp: into_publication_def publish_planned_transition_def Let_def and_then_Ok_iff split: sum.splits prod.splits)
  obtain w where w: "follows blake2b sha256 (sc_network (ws_control s)) base settled unsettled w" "store_holds blake2b stored s w"
    using assms(3) by (auto simp: store_follows_def)
  have "accounted (ts_rows p)" "lb_limit (pl_logical_bytes (ts_rows p)) = limit"
    using plan_event_follows [OF assms(1,2) w plan] by (auto simp: tracks_def realizes_def plans_def)
  then have "sum_list (map op_size (pl_batch (ts_rows p))) + entry_size WALLET_STORE_CONTROL_KEY (Some encoded) \<le> unat limit"
    using reserved by (auto simp: reserve_control_def and_then_Ok_iff logical_entry_bytes_Ok_iff checked_transition_bytes_def
        checked_add_Some_iff ensure_within_limit_def accounted_def word_less_nat_alt split: if_splits)
  moreover have "unat limit \<le> 2 ^ 30"
    using plan by (auto simp: plan_canonical_event_range_def and_then_Ok_iff validate_transition_logical_byte_limit_def
        MAX_WALLET_PROJECTION_TRANSITION_LOGICAL_BYTES_def word_less_nat_alt split: if_splits)
  ultimately show ?thesis using written by (intro exI [of _ "pl_batch (ts_rows p) @ [Put WALLET_STORE_CONTROL_KEY encoded]"]) simp
qed

theorem written_batch_within_limit_witness:
  "\<exists>s' batch. apply_canonical_event_range sample_blake2b sample_sha256 memory_lib sample_source sample_event sample_fence
     sample_tip sample_limit [Ok sample_replay] sample_store = (Ok (), s') \<and>
     rdb_write_opt memory_lib batch (ws_db sample_store) = (Ok (), ws_db s') \<and>
     sum_list (map op_size batch) \<le> unat sample_limit"
proof -
  obtain s' where "apply_canonical_event_range sample_blake2b sample_sha256 memory_lib sample_source sample_event
      sample_fence sample_tip sample_limit [Ok sample_replay] sample_store = (Ok (), s')"
    using sample_committed by (auto simp: apply_canonical_event_range_def)
  from written_batch_within_limit [OF memory_lawful sample_base_wf sample_store_follows this] this show ?thesis by blast
qed

section \<open>The planner and the wallet machine\<close>

text \<open>
  C4: on a plan that stands for a wallet state, the durable planner computes what the abstract wallet
  machine computes. When a replay range, a rollback or a settlement succeeds on the plan it succeeds
  on the machine, and the new plan stands for the new state; when it fails, either the machine fails in
  the same way or the planner ran out of a resource (an unavailable column family, a failed read, the
  byte limit or a counter at its bound).
\<close>

theorem planner_refines_machine:
  assumes "reads_stored lib db st" and "tracks blake2b network lim st w p"
  shows "sim resource_error same_failure (tracks blake2b network lim st)
           (apply_replay_range sha256 (machine_ops blake2b network) rng rows w)
           (apply_replay_range sha256 (plan_ops blake2b lib db network) rng rows p) \<and>
         sim resource_error same_failure (tracks blake2b network lim st)
           (rollback_range (machine_ops blake2b network) rng w) (rollback_range (plan_ops blake2b lib db network) rng p) \<and>
         sim resource_error same_failure (tracks blake2b network lim st)
           (advance_settled_tip (machine_ops blake2b network) tip w)
           (advance_settled_tip (plan_ops blake2b lib db network) tip p)"
  using tracks_sims [OF assms] by blast

lemma sample_store_tracks:
  "\<exists>w. follows sample_blake2b sample_sha256 ZcashRegtest sample_base sample_chain [] w \<and>
       tracks sample_blake2b ZcashRegtest lim (memory_rows (ws_db sample_store)) w (planner_new sample_store lim)"
  using sample_store_follows planner_new_tracks by (fastforce simp: store_follows_def sample_network)

lemma memory_reads: "reads_stored memory_lib db (memory_rows db)"
  using memory_lawful unfolding rocksdb_lawful_def by blast

theorem planner_refines_machine_witness:
  "\<exists>w. sim resource_error same_failure (tracks sample_blake2b ZcashRegtest sample_limit (memory_rows (ws_db sample_store)))
         (apply_replay_range sample_sha256 (machine_ops sample_blake2b ZcashRegtest) (inclusive 2 2) [Ok sample_replay] w)
         (apply_replay_range sample_sha256 (plan_ops sample_blake2b memory_lib (ws_db sample_store) ZcashRegtest)
           (inclusive 2 2) [Ok sample_replay] (planner_new sample_store sample_limit))"
proof -
  obtain w where w: "tracks sample_blake2b ZcashRegtest sample_limit (memory_rows (ws_db sample_store)) w (planner_new sample_store sample_limit)"
    using sample_store_tracks by blast
  from planner_refines_machine [OF memory_reads w] show ?thesis by blast
qed

section \<open>Rolling back\<close>

text \<open>
  C6: a store that follows a chain can roll back any part of its unsettled suffix: the planner walks
  the undo rows down to the first reverted block and arrives at a plan for the remaining chain, or
  stops for lack of a resource. It never finds an undo row missing or inconsistent.
\<close>

theorem unsettled_suffix_rolls_back:
  assumes "rocksdb_lawful lib stored" and "base_wf blake2b (sc_network (ws_control s)) base"
    and "store_follows blake2b sha256 stored base settled (kept @ facts # reverted) s"
  shows "(\<exists>w p. rollback_range (plan_ops blake2b lib (ws_db s) (sc_network (ws_control s)))
              (inclusive (id_height (facts_block facts)) (id_height (sp_tip (re_source_position (ws_ready_evidence s)))))
              (planner_new s limit) = Ok p \<and>
            follows blake2b sha256 (sc_network (ws_control s)) base settled kept w \<and>
            tracks blake2b (sc_network (ws_control s)) limit (stored (ws_db s)) w p) \<or>
         (\<exists>e. rollback_range (plan_ops blake2b lib (ws_db s) (sc_network (ws_control s)))
              (inclusive (id_height (facts_block facts)) (id_height (sp_tip (re_source_position (ws_ready_evidence s)))))
              (planner_new s limit) = Err e \<and> resource_error e)"
proof -
  let ?net = "sc_network (ws_control s)" and ?tip = "id_height (sp_tip (re_source_position (ws_ready_evidence s)))"
  let ?rng = "inclusive (id_height (facts_block facts)) ?tip"
  obtain w where w: "follows blake2b sha256 ?net base settled (kept @ facts # reverted) w" "store_holds blake2b stored s w"
    using assms(3) by (auto simp: store_follows_def)
  have tip: "?tip = id_height (ts_current_tip w)" using w(2) by (simp add: store_holds_def Let_def)
  obtain w' where w': "rollback_range (machine_ops blake2b ?net) ?rng w = Inr w'" "follows blake2b sha256 ?net base settled kept w'"
    using rollback_loop_succeeds [OF assms(2) w(1)] by (auto simp: rollback_range_def tip)
  have "reads_stored lib (ws_db s) (stored (ws_db s))" using assms(1) by (simp add: rocksdb_lawful_def)
  from tracks_sims(2) [OF this planner_new_tracks [OF w(2), of limit], of ?rng] w' show ?thesis
    by (cases "rollback_range (plan_ops blake2b lib (ws_db s) ?net) ?rng (planner_new s limit)") auto
qed

theorem unsettled_suffix_rolls_back_witness:
  "\<exists>s :: memory wallet_store. store_follows sample_blake2b sample_sha256 memory_rows sample_base sample_chain sample_suffix s \<and>
     ((\<exists>p. rollback_range (plan_ops sample_blake2b memory_lib (ws_db s) ZcashRegtest)
         (inclusive 2 (id_height (sp_tip (re_source_position (ws_ready_evidence s))))) (planner_new s sample_limit) = Ok p) \<or>
      (\<exists>e. rollback_range (plan_ops sample_blake2b memory_lib (ws_db s) ZcashRegtest)
         (inclusive 2 (id_height (sp_tip (re_source_position (ws_ready_evidence s))))) (planner_new s sample_limit) = Err e \<and>
         resource_error e))"
proof -
  obtain s :: "memory wallet_store"
    where s: "store_follows sample_blake2b sample_sha256 memory_rows sample_base sample_chain ([] @ sample_block 2 2 1 [] # []) s"
    "sc_network (ws_control s) = ZcashRegtest"
    using sample_committed_follows by auto
  have "id_height (facts_block (sample_block 2 2 1 [])) = 2" by (simp add: facts_block_def sample_block_def)
  with unsettled_suffix_rolls_back [OF memory_lawful sample_base_wf s(1), of sample_limit] s show ?thesis by auto
qed

text \<open>
  C8: rolling back the block that was just applied restores what the store had: the same rows in every
  family, the same accumulator, row counts and UTXO summary, the same tips and the same digest.
\<close>

theorem rollback_undoes_replay:
  assumes "rocksdb_lawful lib stored" and "base_wf blake2b (sc_network (ws_control s)) base"
    and "store_follows blake2b sha256 stored base settled unsettled s"
    and "apply_replay sha256 (plan_ops blake2b lib (ws_db s) (sc_network (ws_control s))) replay (planner_new s limit) = Ok p"
    and "rollback_height (plan_ops blake2b lib (ws_db s) (sc_network (ws_control s))) h p = Ok p'"
  shows "same_rows (plan_view (stored (ws_db s)) (ts_rows p')) (stored (ws_db s)) \<and>
         db_accumulator (pl_accumulator (ts_rows p')) = re_projection_accumulator (ws_ready_evidence s) \<and>
         pl_accumulator_row_counts (ts_rows p') = re_row_counts (ws_ready_evidence s) \<and>
         pl_utxo_summary (ts_rows p') = re_utxo_summary (ws_ready_evidence s) \<and>
         ts_current_tip p' = sp_tip (re_source_position (ws_ready_evidence s)) \<and>
         ts_settled_tip p' = re_settled_tip (ws_ready_evidence s) \<and>
         ts_source_sequence_digest p' = re_source_sequence_digest (ws_ready_evidence s)"
proof -
  let ?net = "sc_network (ws_control s)" and ?st = "stored (ws_db s)"
  obtain w where w: "follows blake2b sha256 ?net base settled unsettled w" "store_holds blake2b stored s w"
    using assms(3) by (auto simp: store_follows_def)
  have reads: "reads_stored lib (ws_db s) ?st" using assms(1) by (simp add: rocksdb_lawful_def)
  note new = planner_new_tracks [OF w(2), of limit]
  obtain w1 where w1: "apply_replay sha256 (machine_ops blake2b ?net) replay w = Inr w1" "tracks blake2b ?net limit ?st w1 p"
    using sim_OkD [OF tracks_step_sims(1) [OF reads new, of sha256 replay, unfolded assms(4)]] by blast
  obtain w2 where w2: "rollback_height (machine_ops blake2b ?net) h w1 = Inr w2" "tracks blake2b ?net limit ?st w2 p'"
    using sim_OkD [OF tracks_step_sims(2) [OF reads w1(2), of h, unfolded assms(5)]] by blast
  have "follows blake2b sha256 ?net base settled unsettled w2"
    using rollback_height_follows [OF assms(2) apply_replay_follows [OF assms(2) w(1) w1(1)] w2(1)] by auto
  then have "w2 = w" by (rule follows_unique [OF _ w(1)])
  then have "tracks blake2b ?net limit ?st w p'" using w2(2) by simp
  from tracks_unique [OF this new] this new show ?thesis
    by (simp add: planner_new_view) (simp add: planner_new_def Let_def tracks_def)
qed

theorem rollback_undoes_replay_witness:
  "\<exists>p p'. apply_replay sample_sha256 (plan_ops sample_blake2b memory_lib (ws_db sample_store) ZcashRegtest) sample_replay
            (planner_new sample_store sample_limit) = Ok p \<and>
          rollback_height (plan_ops sample_blake2b memory_lib (ws_db sample_store) ZcashRegtest) 2 p = Ok p' \<and>
          same_rows (plan_view (memory_rows (ws_db sample_store)) (ts_rows p')) (memory_rows (ws_db sample_store))"
proof -
  obtain p p' where p: "apply_replay sample_sha256 (plan_ops sample_blake2b memory_lib (ws_db sample_store)
        (sc_network (ws_control sample_store))) sample_replay (planner_new sample_store sample_limit) = Ok p"
      "rollback_height (plan_ops sample_blake2b memory_lib (ws_db sample_store) (sc_network (ws_control sample_store))) 2 p = Ok p'"
    using sample_apply_replay sample_rollback_height unfolding sample_network by blast
  from rollback_undoes_replay [OF memory_lawful sample_base_wf sample_store_follows p] p show ?thesis
    unfolding sample_network by blast
qed

end
