(* ===== verification/Wallet_Queries.thy ===== *)
theory Wallet_Queries
  imports Store_Facts
begin

text \<open>
  The queries of an admitted READY wallet store (\<open>zinder-wallet-rocksdb/src/store.rs\<close>): point reads of
  outputs, balances, address transactions and undo records, and the bounded pages over the address
  index and the address history.
\<close>

section \<open>Point reads\<close>

definition read_optional ::
    "'d rocksdb \<Rightarrow> 'd wallet_store \<Rightarrow> string \<Rightarrow> u8 list \<Rightarrow> (u8 list \<Rightarrow> contract_error + 'row) \<Rightarrow>
       wallet_error + 'row option" where
  "read_optional lib s family_name key decode =
     and_then (column_family lib (ws_db s) family_name) (\<lambda>_.
     and_then (map_err (RocksDbOperation ''query read'') (rdb_get_cf lib (ws_db s) family_name key))
       (decode_row decode))"

definition store_find_unspent_output ::
    "'d rocksdb \<Rightarrow> 'd wallet_store \<Rightarrow> transparent_outpoint \<Rightarrow> wallet_error + unspent_output option" where
  "store_find_unspent_output lib s outpoint =
     (let key = outpoint_key_new outpoint in
      read_optional lib s TRANSPARENT_UNSPENT_OUTPUT_COLUMN_FAMILY (as_slice key) (unspent_decode_value key))"

definition store_find_spent_output ::
    "'d rocksdb \<Rightarrow> 'd wallet_store \<Rightarrow> transparent_outpoint \<Rightarrow> wallet_error + spent_output option" where
  "store_find_spent_output lib s outpoint =
     (let key = outpoint_key_new outpoint in
      read_optional lib s TRANSPARENT_SPENT_OUTPUT_COLUMN_FAMILY (as_slice key) (spent_decode_value key))"

definition find_unspent_output_by_address_key ::
    "'d rocksdb \<Rightarrow> 'd wallet_store \<Rightarrow> address_unspent_key \<Rightarrow> wallet_error + unspent_output option" where
  "find_unspent_output_by_address_key lib s key =
     and_then (column_family lib (ws_db s) TRANSPARENT_UNSPENT_OUTPUT_BY_ADDRESS_COLUMN_FAMILY) (\<lambda>_.
     and_then (map_err (RocksDbOperation ''address unspent index read'')
                 (rdb_get_cf lib (ws_db s) TRANSPARENT_UNSPENT_OUTPUT_BY_ADDRESS_COLUMN_FAMILY (as_slice key)))
       (\<lambda>row. case row of
          None \<Rightarrow> Ok None
        | Some encoded_index \<Rightarrow>
            if encoded_index \<noteq> []
            then Err (AdmissionChanged ''address unspent index values must be empty'')
            else
              and_then (store_find_unspent_output lib s (unspent_key_outpoint key)) (\<lambda>found.
              and_then (ok_or found (AdmissionChanged ''address unspent index references a missing primary output''))
                (\<lambda>output.
              if uo_address_script_hash output \<noteq> unspent_key_address_script_hash key \<or>
                 id_height (pos_block (uo_created_at output)) \<noteq> unspent_key_creation_height key
              then Err (AdmissionChanged ''address unspent index does not match its primary output'')
              else Ok (Some output)))))"

definition find_address_transaction ::
    "'d rocksdb \<Rightarrow> 'd wallet_store \<Rightarrow> address_transaction_key \<Rightarrow> wallet_error + address_transaction option" where
  "find_address_transaction lib s key =
     read_optional lib s TRANSPARENT_ADDRESS_TRANSACTION_COLUMN_FAMILY (as_slice key)
       (address_transaction_decode_value key)"

definition find_reorg_undo :: "'d rocksdb \<Rightarrow> 'd wallet_store \<Rightarrow> block_height \<Rightarrow> wallet_error + reorg_undo option" where
  "find_reorg_undo lib s block_height =
     (let key = to_be_bytes block_height in read_optional lib s REORG_UNDO_COLUMN_FAMILY key (undo_decode key))"

definition store_address_balance :: "'d rocksdb \<Rightarrow> 'd wallet_store \<Rightarrow> script_hash \<Rightarrow> wallet_error + u64" where
  "store_address_balance lib s address =
     (let key = as_slice address in
      and_then (read_optional lib s TRANSPARENT_ADDRESS_BALANCE_COLUMN_FAMILY key (balance_decode key)) (\<lambda>row.
      Ok (case row of None \<Rightarrow> 0 | Some balance \<Rightarrow> ab_balance_zat balance)))"

section \<open>Pages\<close>

record ('row, 'key) page =
  page_rows :: "'row list"
  page_next_after :: "'key option"

text \<open>
  The loop of both page queries. A row error ends the scan with an error, a key at which \<open>stop\<close> holds
  ends it with the last page, keys up to the exclusive continuation key are skipped, and a further key
  after a full page ends it with the continuation key of the page.
\<close>

fun page_scan ::
    "string \<Rightarrow> (u8 list \<Rightarrow> bool) \<Rightarrow> u8 list option \<Rightarrow> (u8 list \<Rightarrow> u8 list \<Rightarrow> wallet_error + 'key \<times> 'row) \<Rightarrow> nat \<Rightarrow>
       (rocksdb_error + u8 list \<times> u8 list) list \<Rightarrow> 'row list \<Rightarrow> 'key option \<Rightarrow> wallet_error + ('row, 'key) page" where
  "page_scan operation stop after row_of page_size [] rows last_key =
     Ok \<lparr>page_rows = rows, page_next_after = None\<rparr>"
| "page_scan operation stop after row_of page_size (Inl e # _) rows last_key = Err (RocksDbOperation operation e)"
| "page_scan operation stop after row_of page_size (Inr (key_bytes, encoded) # rest) rows last_key =
     (if stop key_bytes then Ok \<lparr>page_rows = rows, page_next_after = None\<rparr>
      else if (case after of None \<Rightarrow> False | Some key \<Rightarrow> key_bytes \<le> key)
      then page_scan operation stop after row_of page_size rest rows last_key
      else if length rows = page_size then Ok \<lparr>page_rows = rows, page_next_after = last_key\<rparr>
      else
        and_then (row_of key_bytes encoded) (\<lambda>(key, row).
        page_scan operation stop after row_of page_size rest (rows @ [row]) (Some key)))"

definition starts_with :: "u8 list \<Rightarrow> u8 list \<Rightarrow> bool" where
  "starts_with bs prefix \<longleftrightarrow> take (length prefix) bs = prefix"

definition unspent_page_row ::
    "'d rocksdb \<Rightarrow> 'd wallet_store \<Rightarrow> script_hash \<Rightarrow> u8 list \<Rightarrow> u8 list \<Rightarrow>
       wallet_error + address_unspent_key \<times> unspent_output" where
  "unspent_page_row lib s address key_bytes encoded_index =
     and_then (map_err Contract (address_unspent_key_decode key_bytes)) (\<lambda>key.
     if encoded_index \<noteq> [] then Err (AdmissionChanged ''address unspent index values must be empty'')
     else
       and_then (store_find_unspent_output lib s (unspent_key_outpoint key)) (\<lambda>found.
       and_then (ok_or found (AdmissionChanged ''address unspent index references a missing primary output'')) (\<lambda>output.
       if uo_address_script_hash output \<noteq> address \<or>
          id_height (pos_block (uo_created_at output)) \<noteq> unspent_key_creation_height key
       then Err (AdmissionChanged ''address unspent index does not match its primary output'')
       else Ok (key, output))))"

definition address_unspent_outputs_page_from_height ::
    "'d rocksdb \<Rightarrow> 'd wallet_store \<Rightarrow> script_hash \<Rightarrow> block_height \<Rightarrow> address_unspent_key option \<Rightarrow> u16 \<Rightarrow>
       wallet_error + (unspent_output, address_unspent_key) page" where
  "address_unspent_outputs_page_from_height lib s address start_height after page_size =
     (if (case after of None \<Rightarrow> False | Some key \<Rightarrow> unspent_key_address_script_hash key \<noteq> address)
      then Err (ContinuationAddressMismatch TRANSPARENT_UNSPENT_OUTPUT_BY_ADDRESS_COLUMN_FAMILY)
      else
        and_then (column_family lib (ws_db s) TRANSPARENT_UNSPENT_OUTPUT_BY_ADDRESS_COLUMN_FAMILY) (\<lambda>_.
        let start = (case after of None \<Rightarrow> as_slice (address_unspent_first_at_or_after address start_height)
                     | Some key \<Rightarrow> as_slice key) in
        page_scan ''address unspent page scan'' (\<lambda>key_bytes. \<not> starts_with key_bytes (as_slice address))
          (map_option as_slice after) (unspent_page_row lib s address) (unat page_size)
          (rdb_iterator_cf lib (ws_db s) TRANSPARENT_UNSPENT_OUTPUT_BY_ADDRESS_COLUMN_FAMILY start) [] None))"

definition address_unspent_outputs_page ::
    "'d rocksdb \<Rightarrow> 'd wallet_store \<Rightarrow> script_hash \<Rightarrow> address_unspent_key option \<Rightarrow> u16 \<Rightarrow>
       wallet_error + (unspent_output, address_unspent_key) page" where
  "address_unspent_outputs_page lib s address after page_size =
     address_unspent_outputs_page_from_height lib s address 0 after page_size"

definition history_page_row ::
    "u8 list \<Rightarrow> u8 list \<Rightarrow> wallet_error + address_transaction_key \<times> address_transaction" where
  "history_page_row key_bytes encoded_transaction =
     and_then (map_err Contract (address_transaction_key_decode key_bytes)) (\<lambda>key.
     and_then (map_err Contract (address_transaction_decode_value key encoded_transaction)) (\<lambda>row.
     Ok (key, row)))"

definition address_transaction_history_range_page ::
    "'d rocksdb \<Rightarrow> 'd wallet_store \<Rightarrow> script_hash \<Rightarrow> block_height_range \<Rightarrow> address_transaction_key option \<Rightarrow> u16 \<Rightarrow>
       wallet_error + (address_transaction, address_transaction_key) page" where
  "address_transaction_history_range_page lib s address height_range after page_size =
     (if (case after of None \<Rightarrow> False | Some key \<Rightarrow> transaction_key_address_script_hash key \<noteq> address)
      then Err (ContinuationAddressMismatch TRANSPARENT_ADDRESS_TRANSACTION_COLUMN_FAMILY)
      else
        and_then (column_family lib (ws_db s) TRANSPARENT_ADDRESS_TRANSACTION_COLUMN_FAMILY) (\<lambda>_.
        let upper_bound = as_slice (address_transaction_key_new address (range_end height_range) (- 1));
            start = (case after of None \<Rightarrow> as_slice (address_transaction_first_at_or_after address (range_start height_range))
                     | Some key \<Rightarrow> as_slice key) in
        page_scan ''address transaction history page scan''
          (\<lambda>key_bytes. \<not> starts_with key_bytes (as_slice address) \<or> upper_bound < key_bytes)
          (map_option as_slice after) history_page_row (unat page_size)
          (rdb_iterator_cf lib (ws_db s) TRANSPARENT_ADDRESS_TRANSACTION_COLUMN_FAMILY start) [] None))"

definition address_transaction_history_page ::
    "'d rocksdb \<Rightarrow> 'd wallet_store \<Rightarrow> script_hash \<Rightarrow> address_transaction_key option \<Rightarrow> u16 \<Rightarrow>
       wallet_error + (address_transaction, address_transaction_key) page" where
  "address_transaction_history_page lib s address after page_size =
     address_transaction_history_range_page lib s address (inclusive 0 (- 1)) after page_size"

section \<open>What the queries rely on in RocksDB\<close>

text \<open>
  An iterator over a column family returns the stored rows from its start key on, in key order, up to
  its end or to the first error.
\<close>

fun scans :: "(rocksdb_error + u8 list \<times> u8 list) list \<Rightarrow> (u8 list \<times> u8 list) list \<Rightarrow> bool" where
  "scans [] kvs \<longleftrightarrow> kvs = []"
| "scans (Inl e # _) kvs \<longleftrightarrow> True"
| "scans (Inr kv # rest) kvs \<longleftrightarrow> (case kvs of [] \<Rightarrow> False | kv' # kvs \<Rightarrow> kv = kv' \<and> scans rest kvs)"

definition scans_stored :: "'d rocksdb \<Rightarrow> ('d \<Rightarrow> stored_rows) \<Rightarrow> bool" where
  "scans_stored lib stored \<longleftrightarrow>
     (\<forall>db cf start. \<exists>ks. sorted_wrt (<) ks \<and> set ks = {k. stored db cf k \<noteq> None \<and> start \<le> k} \<and>
        scans (rdb_iterator_cf lib db cf start) (map (\<lambda>k. (k, the (stored db cf k))) ks))"

end
