(* ===== verification/Query_Pages.thy ===== *)
theory Query_Pages
  imports Wallet_Queries
begin

text \<open>
  What the queries of a store that holds a wallet state return. A point read returns the row of the
  ledger; a page returns the next rows of the address in key order. Both may fail because the database
  cannot be read, and for no other reason.
\<close>

fun read_failure :: "wallet_error \<Rightarrow> bool" where
  "read_failure (ColumnFamilyUnavailable _) \<longleftrightarrow> True"
| "read_failure (RocksDbOperation _ _) \<longleftrightarrow> True"
| "read_failure _ \<longleftrightarrow> False"

section \<open>Point reads\<close>

lemma read_optional_sim:
  assumes "rocksdb_lawful lib stored" and "\<And>v. stored (ws_db s) cf k = Some v \<Longrightarrow> decode v = Inr (f v)"
  shows "sim read_failure E (=) (Ok (map_option f (stored (ws_db s) cf k))) (read_optional lib s cf k decode)"
proof -
  have reads: "rdb_get_cf lib (ws_db s) cf k = Inr v \<Longrightarrow> v = stored (ws_db s) cf k" for v
    using assms(1) unfolding rocksdb_lawful_def reads_stored_def by blast
  show ?thesis
    using assms(2)
    by (cases "rdb_get_cf lib (ws_db s) cf k"; cases "stored (ws_db s) cf k")
      (auto simp: read_optional_def column_family_def decode_row_def dest: reads)
qed

text \<open>A family of rows under its codec.\<close>

lemma family_read_sim:
  assumes "rocksdb_lawful lib stored" and "shows_table (stored (ws_db s)) rows"
    and "family_encodes kb enc f m rows" and "\<And>a v. fmlookup m x = Some a \<Longrightarrow> enc a = Inr v \<Longrightarrow> decode v = Inr a"
  shows "sim read_failure E (=) (Ok (fmlookup m x)) (read_optional lib s (family_column f) (kb x) decode)"
proof -
  have stored: "stored (ws_db s) (family_column f) (kb x) = fmlookup rows (f, kb x)"
    using assms(2) by (simp add: shows_table_def)
  have rel: "rel_option (\<lambda>a v. enc a = Inr v) (fmlookup m x) (fmlookup rows (f, kb x))"
    using assms(3) by (simp add: family_encodes_def)
  have "sim read_failure E (=) (Ok (map_option (\<lambda>v. projr (decode v)) (stored (ws_db s) (family_column f) (kb x))))
      (read_optional lib s (family_column f) (kb x) decode)"
    using rel assms(4) by (intro read_optional_sim [OF assms(1)]) (auto simp: stored elim!: option.rel_cases)
  moreover have "map_option (\<lambda>v. projr (decode v)) (fmlookup rows (f, kb x)) = fmlookup m x"
    using rel assms(4) by (auto elim!: option.rel_cases)
  ultimately show ?thesis by (simp add: stored)
qed

lemma store_holdsE:
  assumes "store_holds blake2b stored s w"
  obtains rows where "shows_table (stored (ws_db s)) rows" "encodes (ts_rows w) rows"
    "ledger_inv blake2b (sc_network (ws_control s)) (mr_ledger (ts_rows w))"
  using assms unfolding store_holds_def Let_def machine_wf_def by blast

lemma find_unspent_sim:
  assumes "rocksdb_lawful lib stored" and "store_holds blake2b stored s w"
  shows "sim read_failure E (=) (Ok (fmlookup (lg_unspent_outputs (mr_ledger (ts_rows w))) (outpoint_key_new p)))
           (store_find_unspent_output lib s p)"
proof -
  obtain rows where rows: "shows_table (stored (ws_db s)) rows" "encodes (ts_rows w) rows"
    "ledger_inv blake2b (sc_network (ws_control s)) (mr_ledger (ts_rows w))"
    using store_holdsE [OF assms(2)] .
  have "sim read_failure E (=) (Ok (fmlookup (lg_unspent_outputs (mr_ledger (ts_rows w))) (outpoint_key_new p)))
      (read_optional lib s (family_column TransparentUnspentOutput) (as_slice (outpoint_key_new p))
        (unspent_decode_value (outpoint_key_new p)))"
  proof (rule family_read_sim [OF assms(1) rows(1)])
    show "family_encodes as_slice unspent_encode_value TransparentUnspentOutput (lg_unspent_outputs (mr_ledger (ts_rows w))) rows"
      using rows(2) by (simp add: encodes_def)
    fix u v
    assume "fmlookup (lg_unspent_outputs (mr_ledger (ts_rows w))) (outpoint_key_new p) = Some u" "unspent_encode_value u = Inr v"
    then show "unspent_decode_value (outpoint_key_new p) v = Inr u"
      using rows(3) unspent.decode_encode [of u v] unfolding ledger_inv_def by metis
  qed
  then show ?thesis by (simp add: store_find_unspent_output_def Let_def)
qed

lemma find_spent_sim:
  assumes "rocksdb_lawful lib stored" and "store_holds blake2b stored s w"
  shows "sim read_failure E (=) (Ok (fmlookup (lg_spent_outputs (mr_ledger (ts_rows w))) (outpoint_key_new p)))
           (store_find_spent_output lib s p)"
proof -
  obtain rows where rows: "shows_table (stored (ws_db s)) rows" "encodes (ts_rows w) rows"
    "ledger_inv blake2b (sc_network (ws_control s)) (mr_ledger (ts_rows w))"
    using store_holdsE [OF assms(2)] .
  have "sim read_failure E (=) (Ok (fmlookup (lg_spent_outputs (mr_ledger (ts_rows w))) (outpoint_key_new p)))
      (read_optional lib s (family_column TransparentSpentOutput) (as_slice (outpoint_key_new p))
        (spent_decode_value (outpoint_key_new p)))"
  proof (rule family_read_sim [OF assms(1) rows(1)])
    show "family_encodes as_slice spent_encode_value TransparentSpentOutput (lg_spent_outputs (mr_ledger (ts_rows w))) rows"
      using rows(2) by (simp add: encodes_def)
    fix u v
    assume "fmlookup (lg_spent_outputs (mr_ledger (ts_rows w))) (outpoint_key_new p) = Some u" "spent_encode_value u = Inr v"
    then show "spent_decode_value (outpoint_key_new p) v = Inr u"
      using rows(3) spent.decode_encode [of u v] unfolding ledger_inv_def by metis
  qed
  then show ?thesis by (simp add: store_find_spent_output_def Let_def)
qed

lemma address_balance_sim:
  assumes "rocksdb_lawful lib stored" and "store_holds blake2b stored s w"
  shows "sim read_failure E (=) (Ok (balance_of a (lg_balance_by_address (mr_ledger (ts_rows w))))) (store_address_balance lib s a)"
proof -
  obtain rows where rows: "shows_table (stored (ws_db s)) rows" "encodes (ts_rows w) rows"
    using store_holdsE [OF assms(2)] .
  have row: "stored (ws_db s) TRANSPARENT_ADDRESS_BALANCE_COLUMN_FAMILY (as_slice a) =
      map_option to_be_bytes (fmlookup (lg_balance_by_address (mr_ledger (ts_rows w))) a)"
  proof -
    have "rel_option (\<lambda>b v. Inr (to_be_bytes b) = (Inr v :: contract_error + u8 list))
        (fmlookup (lg_balance_by_address (mr_ledger (ts_rows w))) a) (fmlookup rows (TransparentAddressBalance, as_slice a))"
      using rows(2) unfolding encodes_def family_encodes_def by blast
    then show ?thesis
      using rows(1) unfolding shows_table_def by (auto simp: family_column.simps(5) [symmetric] elim!: option.rel_cases simp del: family_column.simps)
  qed
  let ?f = "\<lambda>v. \<lparr>ab_address_script_hash = a, ab_balance_zat = from_be_bytes v\<rparr>"
  have "sim read_failure E (=) (Ok (map_option ?f (stored (ws_db s) TRANSPARENT_ADDRESS_BALANCE_COLUMN_FAMILY (as_slice a))))
      (read_optional lib s TRANSPARENT_ADDRESS_BALANCE_COLUMN_FAMILY (as_slice a) (balance_decode (as_slice a)))"
    by (rule read_optional_sim [OF assms(1)]) (auto simp: row balance_decode_def)
  then show ?thesis
    unfolding row store_address_balance_def Let_def
    by (cases "read_optional lib s TRANSPARENT_ADDRESS_BALANCE_COLUMN_FAMILY (as_slice a) (balance_decode (as_slice a))";
        cases "fmlookup (lg_balance_by_address (mr_ledger (ts_rows w))) a") (auto simp: balance_of_def)
qed

section \<open>Pages\<close>

definition skipped :: "u8 list option \<Rightarrow> u8 list \<Rightarrow> bool" where
  "skipped after k \<longleftrightarrow> (case after of None \<Rightarrow> False | Some a \<Rightarrow> k \<le> a)"

definition page_of ::
    "('k \<Rightarrow> 'key) \<Rightarrow> ('k \<Rightarrow> 'row) \<Rightarrow> nat \<Rightarrow> 'row list \<Rightarrow> 'key option \<Rightarrow> 'k list \<Rightarrow> ('row, 'key) page" where
  "page_of key row n rows last_key ks =
     \<lparr>page_rows = rows @ map row (take n ks),
      page_next_after = (if n < length ks then if n = 0 then last_key else Some (key (ks ! (n - 1))) else None)\<rparr>"

lemma page_of_Nil [simp]: "page_of key row n rows last_key [] = \<lparr>page_rows = rows, page_next_after = None\<rparr>"
  by (simp add: page_of_def)

lemma page_of_0: "page_of key row 0 rows last_key (k # ks) = \<lparr>page_rows = rows, page_next_after = last_key\<rparr>"
  by (simp add: page_of_def)

lemma page_of_Suc:
  "page_of key row (Suc n) rows last_key (k # ks) = page_of key row n (rows @ [row k]) (Some (key k)) ks"
  by (cases n) (simp_all add: page_of_def)

lemma page_scan_sim:
  assumes "scans items (map (\<lambda>k. (k, v k)) ks)" and "length rows \<le> sz"
    and "\<And>k. k \<in> set ks \<Longrightarrow> \<not> stop k \<Longrightarrow> \<not> skipped after k \<Longrightarrow>
           sim read_failure E (=) (Ok (key k, row k)) (row_of k (v k))"
  shows "sim read_failure E (=)
           (Ok (page_of key row (sz - length rows) rows last_key
                  (filter (\<lambda>k. \<not> skipped after k) (takeWhile (\<lambda>k. \<not> stop k) ks))))
           (page_scan operation stop after row_of sz items rows last_key)"
  using assms
proof (induction operation stop after row_of sz items rows last_key arbitrary: ks rule: page_scan.induct)
  case (3 operation stop after row_of sz k enc items rows last_key)
  obtain ks' where ks: "ks = k # ks'" "enc = v k" "scans items (map (\<lambda>k. (k, v k)) ks')"
    using 3(3) by (cases ks) auto
  have skip: "(case after of None \<Rightarrow> False | Some key \<Rightarrow> k \<le> key) \<longleftrightarrow> skipped after k" by (simp add: skipped_def)
  consider "stop k" | "\<not> stop k" "skipped after k" | "\<not> stop k" "\<not> skipped after k" "length rows = sz"
    | "\<not> stop k" "\<not> skipped after k" "length rows < sz" using 3(4) by linarith
  then show ?case
  proof cases
    case 1
    then show ?thesis by (simp add: ks)
  next
    case 2
    then show ?thesis using 3(1) [OF 2(1) _ ks(3) 3(4)] 3(5) by (simp add: ks skip)
  next
    case 3
    then show ?thesis by (simp add: ks skip page_of_0)
  next
    case 4
    have more: "sz - length rows = Suc (sz - length (rows @ [row k]))" using 4(3) by simp
    have row: "sim read_failure E (=) (Ok (key k, row k)) (row_of k enc)" using 3(5) [of k] 4 by (simp add: ks)
    show ?thesis
    proof (cases "row_of k enc")
      case (Inl e)
      then show ?thesis using row 4 by (auto simp: skip ks)
    next
      case (Inr r)
      then have r: "r = (key k, row k)" using row by simp
      have "sim read_failure E (=) (Ok (page_of key row (sz - length (rows @ [row k])) (rows @ [row k]) (Some (key k))
            (filter (\<lambda>k. \<not> skipped after k) (takeWhile (\<lambda>k. \<not> stop k) ks'))))
          (page_scan operation stop after row_of sz items (rows @ [row k]) (Some (key k)))"
        using 4 Inr r 3(5) by (intro 3(2) [OF _ _ _ _ _ ks(3)]) (auto simp: skip ks)
      then show ?thesis using 4 Inr r by (simp add: ks skip more page_of_Suc del: length_append)
    qed
  qed
qed auto

section \<open>Keys with a common prefix\<close>

lemma lex_take_mono: "xs \<le> ys \<Longrightarrow> take n xs \<le> take n (ys :: 'a::linorder list)"
proof (induction xs arbitrary: ys n)
  case (Cons x xs)
  then obtain y ys' where ys: "ys = y # ys'" by (cases ys) simp_all
  show ?case using Cons by (cases n) (auto simp: ys)
qed simp

lemma prefix_interval:
  assumes "starts_with lo p" and "lo \<le> k" and "k \<le> hi" and "starts_with hi p"
  shows "starts_with k p"
  using lex_take_mono [OF assms(2), of "length p"] lex_take_mono [OF assms(3), of "length p"] assms(1,4)
  by (simp add: starts_with_def)

lemma takeWhile_eq_filter:
  assumes "sorted_wrt (<) ks" and "\<And>k k'. k \<in> set ks \<Longrightarrow> k' \<in> set ks \<Longrightarrow> k < k' \<Longrightarrow> Q k' \<Longrightarrow> Q k"
  shows "takeWhile Q ks = filter Q ks"
  using assms
proof (induction ks)
  case (Cons k ks)
  show ?case
  proof (cases "Q k")
    case True
    have "takeWhile Q ks = filter Q ks" using Cons.prems by (intro Cons.IH) auto
    then show ?thesis using True by simp
  next
    case False
    then have "filter Q ks = []" using Cons.prems by (fastforce simp: filter_empty_conv)
    then show ?thesis using False by simp
  qed
qed simp

lemma sorted_as_slices:
  fixes K :: "'n::len bytes set"
  assumes "sorted_wrt (<) L" and "set L = as_slice ` K"
  shows "L = map as_slice (sorted_list_of_set K)"
proof -
  have "finite K" using assms(2) by (metis finite_set finite_imageD inj_onI as_slice_eq_iff)
  then have "set (map as_slice (sorted_list_of_set K)) = set L" using assms(2) by simp
  moreover have "sorted_wrt (<) (map as_slice (sorted_list_of_set K))"
    unfolding sorted_wrt_map by (rule sorted_wrt_mono_rel [OF _ strict_sorted_list_of_set]) (simp add: less_bytes_def)
  ultimately show ?thesis
    using assms(1) by (metis strict_sorted_equal)
qed

lemma page_of_map: "page_of key row n rows last_key (map f ks) = page_of (key \<circ> f) (row \<circ> f) n rows last_key ks"
  by (simp add: page_of_def take_map)

text \<open>A page over the keys of a column family that lie in a set closed downwards from the start key.\<close>

lemma page_over_keys:
  fixes K :: "'n::len bytes set"
  assumes "scans_stored lib stored"
    and keys: "{k. stored db cf k \<noteq> None \<and> lo \<le> k \<and> \<not> stop k \<and> \<not> skipped after k} = as_slice ` K"
    and closed: "\<And>k k'. lo \<le> k \<Longrightarrow> k < k' \<Longrightarrow> \<not> stop k' \<Longrightarrow> \<not> stop k"
    and row: "\<And>k. k \<in> K \<Longrightarrow>
      sim read_failure E (=) (Ok (k, row k)) (row_of (as_slice k) (the (stored db cf (as_slice k))))"
  shows "sim read_failure E (=) (Ok (page_of id row n [] None (sorted_list_of_set K)))
           (page_scan operation stop after row_of n (rdb_iterator_cf lib db cf lo) [] None)"
proof -
  obtain ks where ks: "sorted_wrt (<) ks" "set ks = {k. stored db cf k \<noteq> None \<and> lo \<le> k}"
    and items: "scans (rdb_iterator_cf lib db cf lo) (map (\<lambda>k. (k, the (stored db cf k))) ks)"
    using assms(1) unfolding scans_stored_def by blast
  define L where "L = filter (\<lambda>k. \<not> skipped after k) (takeWhile (\<lambda>k. \<not> stop k) ks)"
  have "takeWhile (\<lambda>k. \<not> stop k) ks = filter (\<lambda>k. \<not> stop k) ks"
    using ks closed by (intro takeWhile_eq_filter) blast+
  then have "L = map as_slice (sorted_list_of_set K)"
    using ks keys by (intro sorted_as_slices) (auto simp: L_def sorted_wrt_filter)
  moreover have rows: "sim read_failure E (=) (Ok (array_of k, (row \<circ> array_of) k)) (row_of k (the (stored db cf k)))"
    if "k \<in> set ks" "\<not> stop k" "\<not> skipped after k" for k
  proof -
    have "k \<in> as_slice ` K" using that ks(2) unfolding keys [symmetric] by simp
    then show ?thesis using row by auto
  qed
  have "sim read_failure E (=) (Ok (page_of array_of (row \<circ> array_of) n [] None L))
      (page_scan operation stop after row_of n (rdb_iterator_cf lib db cf lo) [] None)"
    unfolding L_def by (rule page_scan_sim [OF items, where rows = "[]" and sz = n, simplified]) (use rows in auto)
  ultimately show ?thesis by (simp add: page_of_map comp_def id_def)
qed

lemma column_family_sim:
  "sim read_failure E R x (f ()) \<Longrightarrow> sim read_failure E R x (and_then (column_family lib db cf) f)"
  by (cases "rdb_cf_handle lib db cf"; cases x) (auto simp: column_family_def)

lemma image_restrict:
  assumes "{k. P k \<and> Q k} = f ` A" and "\<And>k. k \<in> A \<Longrightarrow> L (f k) \<and> S (f k) \<longleftrightarrow> C k"
  shows "{k. P k \<and> L k \<and> Q k \<and> S k} = f ` {k \<in> A. C k}"
proof -
  have "{k. P k \<and> L k \<and> Q k \<and> S k} = {k. P k \<and> Q k} \<inter> {k. L k \<and> S k}" by blast
  also have "\<dots> = f ` {k \<in> A. L (f k) \<and> S (f k)}" unfolding assms(1) by blast
  also have "{k \<in> A. L (f k) \<and> S (f k)} = {k \<in> A. C k}" using assms(2) by blast
  finally show ?thesis .
qed

lemma image_domain:
  assumes "\<And>k. P k \<Longrightarrow> k \<in> range f" and "\<And>x. P (f x) \<and> Q (f x) \<longleftrightarrow> x \<in> A"
  shows "{k. P k \<and> Q k} = f ` A"
  using assms by blast

section \<open>Pages of unspent outputs\<close>

definition unspent_keys :: "ledger \<Rightarrow> script_hash \<Rightarrow> address_unspent_key set" where
  "unspent_keys l a =
     {address_unspent_key_new u | u x. fmlookup (lg_unspent_outputs l) x = Some u \<and> uo_address_script_hash u = a}"

definition output_at_key :: "ledger \<Rightarrow> address_unspent_key \<Rightarrow> unspent_output" where
  "output_at_key l k = the (fmlookup (lg_unspent_outputs l) (outpoint_key_new (unspent_key_outpoint k)))"

text \<open>The keys that remain for a page: from the start height on, or after the continuation key.\<close>

definition remaining_unspent ::
    "ledger \<Rightarrow> script_hash \<Rightarrow> block_height \<Rightarrow> address_unspent_key option \<Rightarrow> address_unspent_key list" where
  "remaining_unspent l a start after =
     sorted_list_of_set {k \<in> unspent_keys l a.
       case after of None \<Rightarrow> start \<le> unspent_key_creation_height k | Some b \<Rightarrow> b < k}"

lemma starts_with_address_key:
  "starts_with (as_slice (address_unspent_key_new u)) (as_slice a) \<longleftrightarrow> uo_address_script_hash u = a"
  "starts_with (as_slice (address_unspent_first_at_or_after a h)) (as_slice a)"
  "starts_with (as_slice (k :: address_unspent_key)) (as_slice a) \<longleftrightarrow> unspent_key_address_script_hash k = a"
proof -
  show "starts_with (as_slice (address_unspent_key_new u)) (as_slice a) \<longleftrightarrow> uo_address_script_hash u = a"
    by (simp add: starts_with_def)
  show "starts_with (as_slice (address_unspent_first_at_or_after a h)) (as_slice a)"
    by (simp add: starts_with_def address_unspent_first_at_or_after_def)
  have "take 32 (as_slice k) = as_slice a \<longleftrightarrow> array_of (take 32 (as_slice k)) = a"
    by (auto simp: as_slice_array_of dest: arg_cong [where f = array_of] arg_cong [where f = as_slice])
  then show "starts_with (as_slice k) (as_slice a) \<longleftrightarrow> unspent_key_address_script_hash k = a"
    by (simp add: starts_with_def unspent_key_address_script_hash_def)
qed

lemma replicate_zero_least: "length xs = n \<Longrightarrow> replicate n 0 \<le> (xs :: u8 list)"
  by (induction xs arbitrary: n) (auto simp: word_neq_0_conv)

lemma unspent_first_at_or_after:
  assumes "unspent_key_address_script_hash k = a"
  shows "address_unspent_first_at_or_after a h \<le> k \<longleftrightarrow> h \<le> unspent_key_creation_height k"
proof -
  have k: "as_slice k = as_slice a @ to_be_bytes (unspent_key_creation_height k) @ drop 36 (as_slice k)"
    using take_drop_append [of 4 32 "as_slice k"] assms
    by (auto simp: unspent_key_creation_height_def unspent_key_address_script_hash_def to_from_be_bytes)
  have "replicate 36 0 \<le> drop 36 (as_slice k)" by (rule replicate_zero_least) simp
  then have "address_unspent_first_at_or_after a h \<le> k \<longleftrightarrow> \<not> unspent_key_creation_height k < h"
    unfolding not_less [symmetric] less_bytes_def
    by (subst k) (auto simp: address_unspent_first_at_or_after_def lex_append_same_length)
  then show ?thesis by auto
qed

lemma unspent_page_row_sim:
  assumes "rocksdb_lawful lib stored" and "store_holds blake2b stored s w"
    and "k \<in> unspent_keys (mr_ledger (ts_rows w)) a"
  shows "sim read_failure E (=) (Ok (k, output_at_key (mr_ledger (ts_rows w)) k)) (unspent_page_row lib s a (as_slice k) [])"
proof -
  let ?l = "mr_ledger (ts_rows w)"
  obtain u x where u: "k = address_unspent_key_new u" "fmlookup (lg_unspent_outputs ?l) x = Some u" "uo_address_script_hash u = a"
    using assms(3) by (auto simp: unspent_keys_def)
  have inv: "ledger_inv blake2b (sc_network (ws_control s)) ?l"
    using assms(2) by (auto simp: store_holds_def Let_def machine_wf_def)
  have "x = outpoint_key_new (uo_outpoint u)"
    using inv u(2) unfolding ledger_inv_def by blast
  then have found: "fmlookup (lg_unspent_outputs ?l) (outpoint_key_new (unspent_key_outpoint k)) = Some u"
    using u(1,2) by simp
  have row: "sim read_failure E (=) (Ok (Some u)) (store_find_unspent_output lib s (unspent_key_outpoint k))"
    using find_unspent_sim [OF assms(1,2), of E "unspent_key_outpoint k"] unfolding found .
  have "output_at_key ?l k = u" by (simp add: output_at_key_def found)
  moreover have "unspent_key_creation_height k = id_height (pos_block (uo_created_at u))" by (simp add: u(1))
  ultimately show ?thesis
    using row u(3)
    by (cases "store_find_unspent_output lib s (unspent_key_outpoint k)")
      (auto simp: unspent_page_row_def address_unspent_key_decode_def)
qed

lemma skipped_map: "skipped (map_option as_slice after) (as_slice k) \<longleftrightarrow> (case after of None \<Rightarrow> False | Some b \<Rightarrow> k \<le> b)"
  by (simp add: skipped_def less_eq_bytes_def split: option.splits)

lemma unspent_page_keys:
  fixes a start after
  defines "lo \<equiv> (case after of None \<Rightarrow> as_slice (address_unspent_first_at_or_after a start) | Some k \<Rightarrow> as_slice k)"
  assumes index: "index_encodes (lg_unspent_outputs l) rows"
  shows "{k. fmlookup rows (TransparentUnspentOutputByAddress, k) \<noteq> None \<and> lo \<le> k \<and> \<not> \<not> starts_with k (as_slice a) \<and>
             \<not> skipped (map_option as_slice after) k} =
         as_slice ` {k \<in> unspent_keys l a.
           case after of None \<Rightarrow> start \<le> unspent_key_creation_height k | Some b \<Rightarrow> b < k}"
proof -
  have "fmlookup rows (TransparentUnspentOutputByAddress, k) \<noteq> None \<longleftrightarrow>
      (\<exists>x u. fmlookup (lg_unspent_outputs l) x = Some u \<and> k = as_slice (address_unspent_key_new u))" for k
    using index unfolding index_encodes_def by simp
  then have "{k. fmlookup rows (TransparentUnspentOutputByAddress, k) \<noteq> None \<and> \<not> \<not> starts_with k (as_slice a)} =
      as_slice ` unspent_keys l a"
    by (auto simp: unspent_keys_def starts_with_address_key(1) simp del: as_slice_address_unspent_key_new intro!: imageI)
  moreover have "lo \<le> as_slice k \<and> \<not> skipped (map_option as_slice after) (as_slice k) \<longleftrightarrow>
      (case after of None \<Rightarrow> start \<le> unspent_key_creation_height k | Some b \<Rightarrow> b < k)"
    if "k \<in> unspent_keys l a" for k
  proof -
    have "unspent_key_address_script_hash k = a" using that by (auto simp: unspent_keys_def)
    then show ?thesis
      using unspent_first_at_or_after [of k a start]
      by (cases after) (auto simp: lo_def skipped_def less_eq_bytes_def less_bytes_def order.strict_iff_order)
  qed
  ultimately show ?thesis by (rule image_restrict)
qed

lemma unspent_page_sim:
  assumes lawful: "rocksdb_lawful lib stored" "scans_stored lib stored" and holds: "store_holds blake2b stored s w"
    and after: "\<And>b. after = Some b \<Longrightarrow> unspent_key_address_script_hash b = a"
  shows "sim read_failure E (=)
           (Ok (page_of id (output_at_key (mr_ledger (ts_rows w))) (unat n) [] None
                  (remaining_unspent (mr_ledger (ts_rows w)) a start after)))
           (address_unspent_outputs_page_from_height lib s a start after n)"
proof -
  let ?l = "mr_ledger (ts_rows w)" and ?cf = TRANSPARENT_UNSPENT_OUTPUT_BY_ADDRESS_COLUMN_FAMILY
  define lo where "lo = (case after of None \<Rightarrow> as_slice (address_unspent_first_at_or_after a start) | Some k \<Rightarrow> as_slice k)"
  obtain rows where rows: "shows_table (stored (ws_db s)) rows" "encodes (ts_rows w) rows"
    using store_holdsE [OF holds] .
  have index: "index_encodes (lg_unspent_outputs ?l) rows" using rows(2) by (simp add: encodes_def)
  have stored: "stored (ws_db s) ?cf k = fmlookup rows (TransparentUnspentOutputByAddress, k)" for k
    using rows(1) [unfolded shows_table_def, rule_format, of TransparentUnspentOutputByAddress k] by simp
  have lo: "starts_with lo (as_slice a)"
    using after starts_with_address_key(2) by (cases after) (simp_all add: lo_def starts_with_address_key(3))
  have page: "sim read_failure E (=) (Ok (page_of id (output_at_key ?l) (unat n) [] None (remaining_unspent ?l a start after)))
      (page_scan ''address unspent page scan'' (\<lambda>k. \<not> starts_with k (as_slice a)) (map_option as_slice after)
        (unspent_page_row lib s a) (unat n) (rdb_iterator_cf lib (ws_db s) ?cf lo) [] None)"
    unfolding remaining_unspent_def
  proof (rule page_over_keys [OF lawful(2)])
    show "{k. stored (ws_db s) ?cf k \<noteq> None \<and> lo \<le> k \<and> \<not> \<not> starts_with k (as_slice a) \<and>
        \<not> skipped (map_option as_slice after) k} = as_slice ` {k \<in> unspent_keys ?l a.
          case after of None \<Rightarrow> start \<le> unspent_key_creation_height k | Some b \<Rightarrow> b < k}"
      unfolding stored lo_def by (rule unspent_page_keys [OF index])
  next
    fix k k' assume "lo \<le> k" "k < k'" "\<not> \<not> starts_with k' (as_slice a)"
    then show "\<not> \<not> starts_with k (as_slice a)" using prefix_interval [OF lo, of k k'] by auto
  next
    fix k assume "k \<in> {k \<in> unspent_keys ?l a.
      case after of None \<Rightarrow> start \<le> unspent_key_creation_height k | Some b \<Rightarrow> b < k}"
    then have k: "k \<in> unspent_keys ?l a" by simp
    then have "\<exists>x u. fmlookup (lg_unspent_outputs ?l) x = Some u \<and> as_slice k = as_slice (address_unspent_key_new u)"
      unfolding unspent_keys_def by blast
    then have "stored (ws_db s) ?cf (as_slice k) = Some []"
      unfolding stored using index unfolding index_encodes_def by presburger
    then show "sim read_failure E (=) (Ok (k, output_at_key ?l k))
        (unspent_page_row lib s a (as_slice k) (the (stored (ws_db s) ?cf (as_slice k))))"
      using unspent_page_row_sim [OF lawful(1) holds k] by simp
  qed
  have "\<not> (case after of None \<Rightarrow> False | Some key \<Rightarrow> unspent_key_address_script_hash key \<noteq> a)"
    using after by (simp split: option.split)
  then show ?thesis
    unfolding address_unspent_outputs_page_from_height_def Let_def lo_def [symmetric]
    by (simp only: if_False not_False_eq_True) (rule column_family_sim [OF page])
qed

section \<open>Pages of the transaction history\<close>

text \<open>
  The keys that remain for a history page: the transactions of the address up to the end of the range,
  from the start of the range on or after the continuation key.
\<close>

definition remaining_history ::
    "ledger \<Rightarrow> script_hash \<Rightarrow> block_height_range \<Rightarrow> address_transaction_key option \<Rightarrow> address_transaction_key list" where
  "remaining_history l a rng after =
     sorted_list_of_set {k. fmlookup (lg_address_transactions l) k \<noteq> None \<and>
       transaction_key_address_script_hash k = a \<and> transaction_key_block_height k \<le> range_end rng \<and>
       (case after of None \<Rightarrow> range_start rng \<le> transaction_key_block_height k | Some b \<Rightarrow> b < k)}"

lemma starts_with_transaction_key:
  "starts_with (as_slice (k :: address_transaction_key)) (as_slice a) \<longleftrightarrow> transaction_key_address_script_hash k = a"
proof -
  have "take 32 (as_slice k) = as_slice a \<longleftrightarrow> array_of (take 32 (as_slice k)) = a"
    by (auto simp: as_slice_array_of dest: arg_cong [where f = array_of] arg_cong [where f = as_slice])
  then show ?thesis by (simp add: starts_with_def transaction_key_address_script_hash_def)
qed

lemma history_bounds:
  assumes "transaction_key_address_script_hash k = a"
  shows "address_transaction_first_at_or_after a h \<le> k \<longleftrightarrow> h \<le> transaction_key_block_height k"
    and "address_transaction_key_new a h (- 1) < k \<longleftrightarrow> h < transaction_key_block_height k"
  using assms
  by (cases k rule: address_transaction_key_cases;
      auto simp: address_transaction_first_at_or_after_def not_less [symmetric] address_transaction_key_less_iff
        word_order.extremum_strict simp del: as_slice_address_transaction_key_new)+

lemma history_page_keys:
  fixes a rng after
  defines "lo \<equiv> (case after of None \<Rightarrow> as_slice (address_transaction_first_at_or_after a (range_start rng)) | Some k \<Rightarrow> as_slice k)"
    and "hi \<equiv> as_slice (address_transaction_key_new a (range_end rng) (- 1))"
  assumes "family_encodes as_slice (\<lambda>e. Inr (as_slice (address_transaction_encode_value e))) f (lg_address_transactions l) rows"
  shows "{k. fmlookup rows (f, k) \<noteq> None \<and> lo \<le> k \<and> \<not> (\<not> starts_with k (as_slice a) \<or> hi < k) \<and>
             \<not> skipped (map_option as_slice after) k} =
         as_slice ` {k. fmlookup (lg_address_transactions l) k \<noteq> None \<and>
           transaction_key_address_script_hash k = a \<and> transaction_key_block_height k \<le> range_end rng \<and>
           (case after of None \<Rightarrow> range_start rng \<le> transaction_key_block_height k | Some b \<Rightarrow> b < k)}"
proof -
  let ?A = "{k. fmlookup (lg_address_transactions l) k \<noteq> None \<and> transaction_key_address_script_hash k = a \<and>
    transaction_key_block_height k \<le> range_end rng}"
  have dom: "fmlookup rows (f, as_slice k) = None \<longleftrightarrow> fmlookup (lg_address_transactions l) k = None" for k
    using assms(3) option.rel_sel unfolding family_encodes_def by metis
  have slices: "fmlookup rows (f, k) \<noteq> None \<Longrightarrow> k \<in> range (as_slice :: address_transaction_key \<Rightarrow> u8 list)" for k
    using assms(3) [unfolded family_encodes_def, THEN conjunct2, rule_format, of k] by (cases "k \<in> range (as_slice :: address_transaction_key \<Rightarrow> u8 list)") simp_all
  have scope: "\<not> (\<not> starts_with (as_slice k) (as_slice a) \<or> hi < as_slice k) \<longleftrightarrow>
      transaction_key_address_script_hash k = a \<and> transaction_key_block_height k \<le> range_end rng" for k
    using history_bounds(2) [of k a "range_end rng"] unfolding hi_def starts_with_transaction_key less_bytes_def
    by auto
  have "{k. fmlookup rows (f, k) \<noteq> None \<and> \<not> (\<not> starts_with k (as_slice a) \<or> hi < k)} = as_slice ` ?A"
    by (rule image_domain, erule slices) (simp only: scope dom mem_Collect_eq)
  moreover have "lo \<le> as_slice k \<and> \<not> skipped (map_option as_slice after) (as_slice k) \<longleftrightarrow>
      (case after of None \<Rightarrow> range_start rng \<le> transaction_key_block_height k | Some b \<Rightarrow> b < k)"
    if "k \<in> ?A" for k
    using that history_bounds(1) [of k a "range_start rng"]
    by (cases after) (auto simp: lo_def skipped_def less_eq_bytes_def less_bytes_def order.strict_iff_order)
  ultimately have "{k. fmlookup rows (f, k) \<noteq> None \<and> lo \<le> k \<and> \<not> (\<not> starts_with k (as_slice a) \<or> hi < k) \<and>
      \<not> skipped (map_option as_slice after) k} = as_slice ` {k \<in> ?A.
      case after of None \<Rightarrow> range_start rng \<le> transaction_key_block_height k | Some b \<Rightarrow> b < k}"
    by (rule image_restrict)
  then show ?thesis by (simp add: conj_assoc)
qed

lemma history_page_row_sim:
  assumes "ledger_inv blake2b network l" and "fmlookup (lg_address_transactions l) k = Some e"
  shows "history_page_row (as_slice k) (as_slice (address_transaction_encode_value e)) = Ok (k, e)"
proof -
  have "at_key e = k" using assms unfolding ledger_inv_def by blast
  then have "address_transaction_decode_value k (as_slice (address_transaction_encode_value e)) = Inr e"
    using address_tx.decode_encode [of e] by simp
  then show ?thesis by (simp add: history_page_row_def address_transaction_key_decode_def)
qed

lemma history_page_sim:
  assumes lawful: "scans_stored lib stored" and holds: "store_holds blake2b stored s w"
    and after: "\<And>b. after = Some b \<Longrightarrow> transaction_key_address_script_hash b = a"
  shows "sim read_failure E (=)
           (Ok (page_of id (\<lambda>k. the (fmlookup (lg_address_transactions (mr_ledger (ts_rows w))) k)) (unat n) [] None
                  (remaining_history (mr_ledger (ts_rows w)) a rng after)))
           (address_transaction_history_range_page lib s a rng after n)"
proof -
  let ?l = "mr_ledger (ts_rows w)" and ?cf = TRANSPARENT_ADDRESS_TRANSACTION_COLUMN_FAMILY
  let ?hi = "as_slice (address_transaction_key_new a (range_end rng) (- 1))"
  define lo where "lo = (case after of None \<Rightarrow> as_slice (address_transaction_first_at_or_after a (range_start rng)) | Some k \<Rightarrow> as_slice k)"
  obtain rows where rows: "shows_table (stored (ws_db s)) rows" "encodes (ts_rows w) rows"
    and inv: "ledger_inv blake2b (sc_network (ws_control s)) ?l"
    using store_holdsE [OF holds] .
  have family: "family_encodes as_slice (\<lambda>e. Inr (as_slice (address_transaction_encode_value e))) TransparentAddressTransaction
      (lg_address_transactions ?l) rows" using rows(2) by (simp add: encodes_def)
  have stored: "stored (ws_db s) ?cf k = fmlookup rows (TransparentAddressTransaction, k)" for k
    using rows(1) [unfolded shows_table_def, rule_format, of TransparentAddressTransaction k] by simp
  have lo: "starts_with lo (as_slice a)"
    using after by (cases after) (simp_all add: lo_def starts_with_transaction_key address_transaction_first_at_or_after_def
        del: as_slice_address_transaction_key_new)
  have page: "sim read_failure E (=) (Ok (page_of id (\<lambda>k. the (fmlookup (lg_address_transactions ?l) k)) (unat n) [] None
        (remaining_history ?l a rng after)))
      (page_scan ''address transaction history page scan'' (\<lambda>k. \<not> starts_with k (as_slice a) \<or> ?hi < k)
        (map_option as_slice after) history_page_row (unat n) (rdb_iterator_cf lib (ws_db s) ?cf lo) [] None)"
    unfolding remaining_history_def
  proof (rule page_over_keys [OF lawful], goal_cases)
    case 1
    show ?case unfolding stored lo_def by (rule history_page_keys [OF family])
  next
    case (2 k k')
    then show ?case using prefix_interval [OF lo, of k k'] by auto
  next
    case (3 k)
    then obtain e where e: "fmlookup (lg_address_transactions ?l) k = Some e" by auto
    have "rel_option (\<lambda>e v. Inr (as_slice (address_transaction_encode_value e)) = (Inr v :: contract_error + u8 list))
        (fmlookup (lg_address_transactions ?l) k) (fmlookup rows (TransparentAddressTransaction, as_slice k))"
      using family unfolding family_encodes_def by blast
    then show ?case using e history_page_row_sim [OF inv e] by (auto simp: stored elim: option.rel_cases)
  qed
  have "\<not> (case after of None \<Rightarrow> False | Some key \<Rightarrow> transaction_key_address_script_hash key \<noteq> a)"
    using after by (simp split: option.split)
  then show ?thesis
    unfolding address_transaction_history_range_page_def Let_def lo_def [symmetric]
    by (simp only: if_False not_False_eq_True) (rule column_family_sim [OF page])
qed

end
