(* ===== verification/Serving_Pair.thy ===== *)
theory Serving_Pair
  imports Wallet_Queries
begin

text \<open>
  The read side of the wallet service (\<open>services/zinder-query/src\<close>): chain epochs, the canonical and
  wallet readers of a serving pair, the admission of a pair (\<open>wallet_serving_pair.rs\<close>), the errors of
  the query service and the continuation cursor of the transparent history
  (\<open>wallet_serving_query.rs\<close>).
\<close>

section \<open>Chain epochs\<close>

datatype shielded_protocol = Sapling | Orchard | Ironwood

definition SUBTREE_LEAF_COUNT :: u32 where
  "SUBTREE_LEAF_COUNT = 65536"

definition MAX_SUBTREE_ROOTS_PER_REQUEST :: u32 where
  "MAX_SUBTREE_ROOTS_PER_REQUEST = 1024"

record chain_tip_metadata =
  sapling_commitment_tree_size :: u32
  orchard_commitment_tree_size :: u32
  ironwood_commitment_tree_size :: u32

fun commitment_tree_size :: "chain_tip_metadata \<Rightarrow> shielded_protocol \<Rightarrow> u32" where
  "commitment_tree_size m Sapling = sapling_commitment_tree_size m"
| "commitment_tree_size m Orchard = orchard_commitment_tree_size m"
| "commitment_tree_size m Ironwood = ironwood_commitment_tree_size m"

definition completed_subtree_count :: "chain_tip_metadata \<Rightarrow> shielded_protocol \<Rightarrow> u32" where
  "completed_subtree_count m protocol = commitment_tree_size m protocol div SUBTREE_LEAF_COUNT"

record chain_epoch =
  ce_id :: chain_epoch_id
  ce_network :: network
  ce_visible_tip_height :: block_height
  ce_visible_tip_hash :: block_hash
  ce_settled_tip_height :: block_height
  ce_settled_tip_hash :: block_hash
  ce_artifact_schema_version :: u16
  ce_tip_metadata :: chain_tip_metadata
  ce_created_at :: unix_timestamp_millis

section \<open>Artifacts of the canonical store\<close>

record block_header_view =
  bh_block_id :: block_id
  bh_previous_block_hash :: block_hash
  bh_merkle_root_hash :: "32 bytes"
  bh_commitment_bytes :: "32 bytes"
  bh_block_time :: i64
  bh_bits :: u32
  bh_nonce :: "32 bytes"
  bh_version :: u32

definition into_header :: "block_header_artifact \<Rightarrow> block_header_view" where
  "into_header h =
     \<lparr>bh_block_id = \<lparr>id_height = header_height h, id_hash = header_block_hash h\<rparr>,
      bh_previous_block_hash = header_parent_hash h, bh_merkle_root_hash = header_merkle_root_hash h,
      bh_commitment_bytes = header_commitment_bytes h, bh_block_time = header_block_time h, bh_bits = header_bits h,
      bh_nonce = header_nonce h, bh_version = header_version h\<rparr>"

record block_blob_artifact =
  blob_height :: block_height
  blob_block_hash :: block_hash
  blob_parent_hash :: block_hash
  blob_raw_block_bytes :: "u8 list"

record transaction_location =
  loc_transaction_id :: transaction_id
  loc_block_height :: block_height
  loc_block_hash :: block_hash
  loc_tx_index_in_block :: u32

record transaction_blob_artifact =
  tb_location :: transaction_location
  tb_raw_transaction_bytes :: "u8 list"

record subtree_root_artifact =
  sr_protocol :: shielded_protocol
  sr_subtree_index :: u32
  sr_root_hash :: "32 bytes"
  sr_completing_block_height :: block_height
  sr_completing_block_hash :: block_hash

record subtree_root_range =
  srr_protocol :: shielded_protocol
  srr_start_index :: u32
  srr_max_entries :: u32

datatype block_selector = SelectHeight block_height | SelectHash block_hash

datatype block_hash_lookup = Resolved block_id | NotInBestChain | NotIndexed

datatype raw_blob_retention = RetainNone | RetainTransactions | RetainAll

definition retains_block_blobs :: "raw_blob_retention \<Rightarrow> bool" where
  "retains_block_blobs r \<longleftrightarrow> r = RetainAll"

section \<open>Readers\<close>

text \<open>
  The trait objects of a pair as records of their methods. Compact blocks are only passed on, so their
  type is a parameter.
\<close>

record 'c canonical_reader =
  cr_raw_blob_retention :: raw_blob_retention
  cr_network :: network
  cr_event_fence :: event_fence
  cr_chain_epoch :: "canonical_store_error + chain_epoch"
  cr_block_header_at :: "block_height \<Rightarrow> canonical_store_error + block_header_artifact option"
  cr_block_hash_lookup :: "block_hash \<Rightarrow> canonical_store_error + block_hash_lookup"
  cr_compact_block_at :: "block_height \<Rightarrow> canonical_store_error + 'c option"
  cr_compact_blocks_in_range :: "block_height_range \<Rightarrow> canonical_store_error + 'c list"
  cr_block_blob_at :: "block_height \<Rightarrow> canonical_store_error + block_blob_artifact option"
  cr_block_blobs_in_range :: "block_height_range \<Rightarrow> canonical_store_error + block_blob_artifact option list"
  cr_transaction_location :: "transaction_id \<Rightarrow> canonical_store_error + transaction_location option"
  cr_transaction_blob :: "transaction_location \<Rightarrow> canonical_store_error + transaction_blob_artifact option"
  cr_subtree_roots :: "subtree_root_range \<Rightarrow> canonical_store_error + subtree_root_artifact list"

record wallet_reader =
  wr_network :: network
  wr_ready_evidence :: ready_evidence
  wr_address_unspent_outputs_page ::
    "script_hash \<Rightarrow> address_unspent_key option \<Rightarrow> u16 \<Rightarrow> wallet_error + (unspent_output, address_unspent_key) page"
  wr_address_unspent_outputs_page_from_height ::
    "script_hash \<Rightarrow> block_height \<Rightarrow> address_unspent_key option \<Rightarrow> u16 \<Rightarrow>
       wallet_error + (unspent_output, address_unspent_key) page"
  wr_address_transaction_history_page ::
    "script_hash \<Rightarrow> address_transaction_key option \<Rightarrow> u16 \<Rightarrow>
       wallet_error + (address_transaction, address_transaction_key) page"
  wr_address_transaction_history_range_page ::
    "script_hash \<Rightarrow> block_height_range \<Rightarrow> address_transaction_key option \<Rightarrow> u16 \<Rightarrow>
       wallet_error + (address_transaction, address_transaction_key) page"
  wr_address_balance :: "script_hash \<Rightarrow> wallet_error + u64"

text \<open>The wallet reader of a RocksDB wallet secondary: every method is the query of its store.\<close>

definition secondary_reader :: "'d rocksdb \<Rightarrow> 'd wallet_store \<Rightarrow> wallet_reader" where
  "secondary_reader lib s =
     \<lparr>wr_network = sc_network (ws_control s), wr_ready_evidence = ws_ready_evidence s,
      wr_address_unspent_outputs_page = address_unspent_outputs_page lib s,
      wr_address_unspent_outputs_page_from_height = address_unspent_outputs_page_from_height lib s,
      wr_address_transaction_history_page = address_transaction_history_page lib s,
      wr_address_transaction_history_range_page = address_transaction_history_range_page lib s,
      wr_address_balance = store_address_balance lib s\<rparr>"

section \<open>Errors of the query service\<close>

datatype (plugins only: code) serving_admission_error =
  AdmissionNetworkMismatch network network
| CanonicalRead canonical_store_error
| CanonicalFenceMismatch
| WalletSourceMismatch canonical_source_identity canonical_source_identity

datatype artifact_family =
  FamilyChainEpoch | FamilyChainEvent | FamilyBlockHeader | FamilyBlockReplay | FamilyBlockBlob | FamilyCompactBlock
| FamilyBlockTransactionIndex | FamilyTransactionLocation | FamilyTransactionFacts
| FamilyTransactionIntrinsicValueBalances | FamilyTransactionBlob | FamilyTreeState | FamilyFinalNoteCommitmentRoots
| FamilyBlockValuePoolBalances | FamilySubtreeRoot | FamilyAddressOutputIndex | FamilyTransparentOutput
| FamilyTransparentSpendFact | FamilyBlockHashIndex | FamilyDisplacedBlock | FamilyMempoolEvent

datatype artifact_key =
  KeyBlockHeight block_height
| KeyTransactionId transaction_id
| KeySubtreeRootIndex shielded_protocol u32
| KeyBlockTransactionIndex block_height u64

typedecl store_error

typedecl materialized_view_store_error

typedecl source_error

text \<open>The admission error of a pair is kept as a value where the source keeps its text.\<close>

datatype (plugins only: code) query_error =
  InvalidBlockRange block_height block_height
| BlockRangeTooLarge nat nat
| SubtreeRootRangeTooLarge u32 u32
| TransparentBalanceAddressCountExceeded nat u32
| ArtifactUnavailable artifact_family artifact_key
| CompactBlockPayloadMalformed block_height string
| ArtifactCorrupt artifact_family string
| BlockNotInBestChain
| UnsupportedShieldedProtocol shielded_protocol
| TransparentHistoryCursorInvalid string
| InvalidAddress string
| ChainEventCursorInvalid string
| ChainEventCursorExpired u64 u64
| ChainEpochPinUnavailable chain_epoch_id
| UnsupportedChainEvent string
| UnsupportedBlockSelector string
| UnsupportedTransactionStatus string
| UnsupportedWalletEncoding string
| TransactionBroadcastDisabled
| BroadcastTransactionTooLarge nat nat
| MaterializedViewUnavailable string
| EndpointCapabilityUnavailable string
| BlockingTaskFailed string
| Store store_error
| MaterializedViewStore materialized_view_store_error
| WalletProjectionRead serving_admission_error
| CanonicalStore canonical_store_error
| WalletStore wallet_error
| Node source_error

section \<open>Admission of a serving pair\<close>

record 'c serving_pair =
  pair_canonical :: "'c canonical_reader"
  pair_wallet :: wallet_reader
  pair_canonical_fence :: event_fence
  pair_wallet_source :: canonical_source_identity

definition validate_readers :: "'c canonical_reader \<Rightarrow> wallet_reader \<Rightarrow> serving_admission_error + unit" where
  "validate_readers canonical wallet =
     (if cr_network canonical \<noteq> wr_network wallet
      then Err (AdmissionNetworkMismatch (cr_network canonical) (wr_network wallet))
      else
        let fence = cr_event_fence canonical in
        and_then (map_err CanonicalRead (cr_chain_epoch canonical)) (\<lambda>epoch.
        let visible_tip = \<lparr>id_height = ce_visible_tip_height epoch, id_hash = ce_visible_tip_hash epoch\<rparr> in
        if ce_network epoch \<noteq> cr_network canonical \<or> ce_id epoch \<noteq> fence_chain_epoch_id fence \<or>
           visible_tip \<noteq> fence_visible_tip fence
        then Err CanonicalFenceMismatch
        else
          let canonical_source =
                \<lparr>si_source_position =
                   source_position_new (fence_chain_epoch_id fence) (fence_visible_tip fence)
                     (fence_chain_event_sequence fence),
                 si_source_sequence_digest = fence_sequence_digest fence,
                 si_settled_tip =
                   \<lparr>id_height = ce_settled_tip_height epoch, id_hash = ce_settled_tip_hash epoch\<rparr>\<rparr>;
              wallet_source = source_identity_from_ready_evidence (wr_ready_evidence wallet) in
          if wallet_source \<noteq> canonical_source
          then Err (WalletSourceMismatch canonical_source wallet_source)
          else Ok ()))"

definition serving_pair_new :: "'c canonical_reader \<Rightarrow> wallet_reader \<Rightarrow> query_error + 'c serving_pair" where
  "serving_pair_new canonical wallet =
     and_then (map_err WalletProjectionRead (validate_readers canonical wallet)) (\<lambda>_.
     Ok \<lparr>pair_canonical = canonical, pair_wallet = wallet, pair_canonical_fence = cr_event_fence canonical,
         pair_wallet_source = source_identity_from_ready_evidence (wr_ready_evidence wallet)\<rparr>)"

section \<open>The history cursor\<close>

definition TRANSPARENT_HISTORY_CURSOR_MAGIC :: "u8 list" where
  "TRANSPARENT_HISTORY_CURSOR_MAGIC = [0x7a, 0x74, 0x68, 0x31]"

definition TRANSPARENT_HISTORY_CURSOR_LEN :: nat where
  "TRANSPARENT_HISTORY_CURSOR_LEN = 174"

record history_cursor =
  hc_source :: canonical_source_identity
  hc_after :: address_transaction_key

definition append_block_id :: "u8 list \<Rightarrow> block_id \<Rightarrow> u8 list" where
  "append_block_id encoded block_id = (encoded @ to_be_bytes (id_height block_id)) @ as_slice (id_hash block_id)"

definition cursor_issue :: "canonical_source_identity \<Rightarrow> address_transaction_key \<Rightarrow> u8 list" where
  "cursor_issue source after =
     (let position = si_source_position source;
          digest = si_source_sequence_digest source;
          encoded = TRANSPARENT_HISTORY_CURSOR_MAGIC @ to_be_bytes (sp_chain_epoch_id position);
          encoded = append_block_id encoded (sp_tip position);
          encoded = encoded @ to_be_bytes (sp_event_sequence position);
          encoded = encoded @ to_be_bytes (sequence_digest_version_value (sd_version digest));
          encoded = encoded @ to_be_bytes (sd_block_count digest);
          encoded = encoded @ as_slice (sd_bytes digest);
          encoded = append_block_id encoded (si_settled_tip source)
      in encoded @ as_slice after)"

definition invalid_transparent_history_cursor :: query_error where
  "invalid_transparent_history_cursor =
     TransparentHistoryCursorInvalid ''cursor is not a native transparent-history continuation''"

definition cursor_bytes :: "u8 list \<Rightarrow> nat \<Rightarrow> nat \<Rightarrow> query_error + 'n::len bytes" where
  "cursor_bytes encoded start end' =
     ok_or (case slice_get encoded start end' of None \<Rightarrow> None | Some bs \<Rightarrow> try_into bs)
       invalid_transparent_history_cursor"

definition decode_block_id :: "u8 list \<Rightarrow> nat \<Rightarrow> query_error + block_id" where
  "decode_block_id encoded start =
     and_then (cursor_bytes encoded start (start + 4) :: query_error + 4 bytes) (\<lambda>height.
     and_then (cursor_bytes encoded (start + 4) (start + 36)) (\<lambda>hash.
     Ok \<lparr>id_height = from_be_bytes (as_slice height), id_hash = hash\<rparr>))"

definition settled_tip_is_within_source :: "block_id \<Rightarrow> block_id \<Rightarrow> bool" where
  "settled_tip_is_within_source source_tip settled_tip \<longleftrightarrow>
     id_height settled_tip < id_height source_tip \<or>
     (id_height settled_tip = id_height source_tip \<and> id_hash settled_tip = id_hash source_tip)"

definition cursor_decode :: "u8 list \<Rightarrow> query_error + history_cursor" where
  "cursor_decode encoded =
     (if length encoded \<noteq> TRANSPARENT_HISTORY_CURSOR_LEN \<or> \<not> starts_with encoded TRANSPARENT_HISTORY_CURSOR_MAGIC
      then Err invalid_transparent_history_cursor
      else
        and_then (cursor_bytes encoded 4 12 :: query_error + 8 bytes) (\<lambda>epoch.
        and_then (decode_block_id encoded 12) (\<lambda>tip.
        and_then (cursor_bytes encoded 48 56 :: query_error + 8 bytes) (\<lambda>event_sequence.
        and_then (cursor_bytes encoded 56 58 :: query_error + 2 bytes) (\<lambda>version.
        and_then (ok_or (sequence_digest_version_try_from (from_be_bytes (as_slice version)))
                    invalid_transparent_history_cursor) (\<lambda>version.
        and_then (cursor_bytes encoded 58 66 :: query_error + 8 bytes) (\<lambda>block_count.
        and_then (cursor_bytes encoded 66 98) (\<lambda>digest_bytes.
        and_then (decode_block_id encoded 98) (\<lambda>settled_tip.
        let chain_epoch_id = from_be_bytes (as_slice epoch);
            event_sequence = from_be_bytes (as_slice event_sequence);
            digest = \<lparr>sd_version = version, sd_block_count = from_be_bytes (as_slice block_count),
                      sd_bytes = digest_bytes\<rparr> in
        if chain_epoch_id = 0 \<or> event_sequence = 0 \<or> sd_block_count digest = 0 \<or>
           \<not> settled_tip_is_within_source tip settled_tip
        then Err invalid_transparent_history_cursor
        else
          and_then (map_err (\<lambda>_. invalid_transparent_history_cursor)
                      (address_transaction_key_decode (drop 134 encoded))) (\<lambda>after.
          Ok \<lparr>hc_source =
                \<lparr>si_source_position = source_position_new chain_epoch_id tip event_sequence,
                 si_source_sequence_digest = digest, si_settled_tip = settled_tip\<rparr>,
              hc_after = after\<rparr>))))))))))"

definition cursor_resume :: "u8 list \<Rightarrow> canonical_source_identity \<Rightarrow> query_error + address_transaction_key" where
  "cursor_resume cursor expected_source =
     and_then (cursor_decode cursor) (\<lambda>decoded.
     if hc_source decoded \<noteq> expected_source
     then Err (ChainEpochPinUnavailable (sp_chain_epoch_id (si_source_position (hc_source decoded))))
     else Ok (hc_after decoded))"

end
