(* ===== verification/Serving_Cursor.thy ===== *)
theory Serving_Cursor
  imports Serving_Pair
begin

text \<open>
  The continuation cursor of the transparent history is a canonical encoding of the source that issued
  it and of the last key of the page: decoding accepts exactly the bytes that issuing produces.
\<close>

section \<open>Parts of a cursor\<close>

lemma cursor_bytes_at [simp]:
  fixes a :: "'n::len bytes"
  assumes "start = length pre" and "end' = start + LENGTH('n)"
  shows "cursor_bytes (pre @ as_slice a @ post) start end' = Inr a"
  using assms by (simp add: cursor_bytes_def slice_get_def)

lemma take_drop_join: "m = k + n \<Longrightarrow> take n (drop k xs) @ drop m xs = drop k xs"
  by (simp only: take_drop_append)

definition cursor_parts ::
    "4 bytes \<Rightarrow> 8 bytes \<Rightarrow> 4 bytes \<Rightarrow> 32 bytes \<Rightarrow> 8 bytes \<Rightarrow> 2 bytes \<Rightarrow> 8 bytes \<Rightarrow> 32 bytes \<Rightarrow> 4 bytes \<Rightarrow> 32 bytes \<Rightarrow> 40 bytes \<Rightarrow> u8 list" where
  "cursor_parts magic epoch height hash seq version blocks digest s_height s_hash after =
     as_slice magic @ as_slice epoch @ as_slice height @ as_slice hash @ as_slice seq @ as_slice version @
     as_slice blocks @ as_slice digest @ as_slice s_height @ as_slice s_hash @ as_slice after"

lemma cursor_parts_cases:
  assumes "length bs = 174"
  obtains magic epoch height hash seq version blocks digest s_height s_hash after where
    "bs = cursor_parts magic epoch height hash seq version blocks digest s_height s_hash after"
proof (rule that)
  show "bs = cursor_parts (array_of (take 4 (drop 0 bs))) (array_of (take 8 (drop 4 bs))) (array_of (take 4 (drop 12 bs)))
      (array_of (take 32 (drop 16 bs))) (array_of (take 8 (drop 48 bs))) (array_of (take 2 (drop 56 bs)))
      (array_of (take 8 (drop 58 bs))) (array_of (take 32 (drop 66 bs))) (array_of (take 4 (drop 98 bs)))
      (array_of (take 32 (drop 102 bs))) (array_of (drop 134 bs))"
    using assms by (simp add: cursor_parts_def take_drop_join del: drop_0)
qed

lemma cursor_parts_length [simp]:
  "length (cursor_parts magic epoch height hash seq version blocks digest s_height s_hash after) = 174"
  by (simp add: cursor_parts_def)

lemma cursor_parts_inject:
  "cursor_parts m e h x q v c d sh sx k = cursor_parts m' e' h' x' q' v' c' d' sh' sx' k' \<longleftrightarrow>
     m = m' \<and> e = e' \<and> h = h' \<and> x = x' \<and> q = q' \<and> v = v' \<and> c = c' \<and> d = d' \<and> sh = sh' \<and> sx = sx' \<and> k = k'"
  by (simp add: cursor_parts_def)

section \<open>Issuing and decoding\<close>

lemma cursor_issue_parts:
  "cursor_issue source after =
     cursor_parts (array_of TRANSPARENT_HISTORY_CURSOR_MAGIC) (array_of (to_be_bytes (sp_chain_epoch_id (si_source_position source))))
       (array_of (to_be_bytes (id_height (sp_tip (si_source_position source))))) (id_hash (sp_tip (si_source_position source)))
       (array_of (to_be_bytes (sp_event_sequence (si_source_position source))))
       (array_of (to_be_bytes (sequence_digest_version_value (sd_version (si_source_sequence_digest source)))))
       (array_of (to_be_bytes (sd_block_count (si_source_sequence_digest source)))) (sd_bytes (si_source_sequence_digest source))
       (array_of (to_be_bytes (id_height (si_settled_tip source)))) (id_hash (si_settled_tip source)) after"
  by (simp add: cursor_issue_def Let_def append_block_id_def cursor_parts_def TRANSPARENT_HISTORY_CURSOR_MAGIC_def)

text \<open>A source from which a cursor can be resumed.\<close>

definition resumable_source :: "canonical_source_identity \<Rightarrow> bool" where
  "resumable_source source \<longleftrightarrow>
     (let position = si_source_position source in
      position = source_position_new (sp_chain_epoch_id position) (sp_tip position) (sp_event_sequence position) \<and>
      sp_chain_epoch_id position \<noteq> 0 \<and> sp_event_sequence position \<noteq> 0 \<and>
      sd_block_count (si_source_sequence_digest source) \<noteq> 0 \<and>
      settled_tip_is_within_source (sp_tip position) (si_settled_tip source))"

lemma cursor_decode_parts:
  "cursor_decode (cursor_parts magic epoch height hash seq version blocks digest s_height s_hash after) =
     (let source =
        \<lparr>si_source_position = source_position_new (from_be_bytes (as_slice epoch))
             \<lparr>id_height = from_be_bytes (as_slice height), id_hash = hash\<rparr> (from_be_bytes (as_slice seq)),
         si_source_sequence_digest = \<lparr>sd_version = SequenceDigestV1, sd_block_count = from_be_bytes (as_slice blocks),
            sd_bytes = digest\<rparr>,
         si_settled_tip = \<lparr>id_height = from_be_bytes (as_slice s_height), id_hash = s_hash\<rparr>\<rparr> in
      if as_slice magic = TRANSPARENT_HISTORY_CURSOR_MAGIC \<and> from_be_bytes (as_slice version) = (1 :: u16) \<and>
         resumable_source source
      then Ok \<lparr>hc_source = source, hc_after = after\<rparr> else Err invalid_transparent_history_cursor)"
proof -
  let ?bs = "cursor_parts magic epoch height hash seq version blocks digest s_height s_hash after"
  have "cursor_bytes ?bs 4 12 = Inr epoch" "cursor_bytes ?bs 12 16 = Inr height" "cursor_bytes ?bs 16 48 = Inr hash"
    "cursor_bytes ?bs 48 56 = Inr seq" "cursor_bytes ?bs 56 58 = Inr version" "cursor_bytes ?bs 58 66 = Inr blocks"
    "cursor_bytes ?bs 66 98 = Inr digest" "cursor_bytes ?bs 98 102 = Inr s_height" "cursor_bytes ?bs 102 134 = Inr s_hash"
    "address_transaction_key_decode (drop 134 ?bs) = Inr after"
    "starts_with ?bs TRANSPARENT_HISTORY_CURSOR_MAGIC \<longleftrightarrow> as_slice magic = TRANSPARENT_HISTORY_CURSOR_MAGIC"
    by (simp_all add: cursor_parts_def cursor_bytes_def slice_get_def address_transaction_key_decode_def starts_with_def
        TRANSPARENT_HISTORY_CURSOR_MAGIC_def)
  then show ?thesis
    by (auto simp: cursor_decode_def decode_block_id_def TRANSPARENT_HISTORY_CURSOR_LEN_def sequence_digest_version_try_from_def
        Let_def resumable_source_def source_position_new_def)
qed

lemma cursor_issue_length: "length (cursor_issue source after) = TRANSPARENT_HISTORY_CURSOR_LEN"
  by (simp add: cursor_issue_parts TRANSPARENT_HISTORY_CURSOR_LEN_def)

lemma cursor_decode_issue:
  assumes "resumable_source source"
  shows "cursor_decode (cursor_issue source after) = Ok \<lparr>hc_source = source, hc_after = after\<rparr>"
proof -
  have version: "sd_version (si_source_sequence_digest source) = SequenceDigestV1"
    by (cases "sd_version (si_source_sequence_digest source)")
  have "si_source_position source = source_position_new (sp_chain_epoch_id (si_source_position source))
      (sp_tip (si_source_position source)) (sp_event_sequence (si_source_position source))"
    using assms by (simp add: resumable_source_def Let_def)
  then have "\<lparr>si_source_position = source_position_new (sp_chain_epoch_id (si_source_position source))
        \<lparr>id_height = id_height (sp_tip (si_source_position source)), id_hash = id_hash (sp_tip (si_source_position source))\<rparr>
        (sp_event_sequence (si_source_position source)),
      si_source_sequence_digest = \<lparr>sd_version = SequenceDigestV1,
        sd_block_count = sd_block_count (si_source_sequence_digest source), sd_bytes = sd_bytes (si_source_sequence_digest source)\<rparr>,
      si_settled_tip = \<lparr>id_height = id_height (si_settled_tip source), id_hash = id_hash (si_settled_tip source)\<rparr>\<rparr> = source"
    using version by (metis block_id.surjective old.unit.exhaust sequence_digest.surjective canonical_source_identity.surjective)
  then show ?thesis
    using assms version by (simp add: cursor_issue_parts cursor_decode_parts TRANSPARENT_HISTORY_CURSOR_MAGIC_def Let_def)
qed

lemma cursor_decode_canonical:
  assumes "cursor_decode bs = Ok c"
  shows "resumable_source (hc_source c) \<and> cursor_issue (hc_source c) (hc_after c) = bs"
proof -
  have "length bs = 174"
    using assms by (auto simp: cursor_decode_def TRANSPARENT_HISTORY_CURSOR_LEN_def split: if_splits)
  then obtain magic epoch height hash seq version blocks digest s_height s_hash after where
    bs: "bs = cursor_parts magic epoch height hash seq version blocks digest s_height s_hash after"
    by (rule cursor_parts_cases)
  have version: "to_be_bytes (1 :: u16) = as_slice version" if "from_be_bytes (as_slice version) = (1 :: u16)"
    using to_from_be_bytes [where 'a = 16, of "as_slice version"] that by simp
  have magic: "array_of TRANSPARENT_HISTORY_CURSOR_MAGIC = magic" if "as_slice magic = TRANSPARENT_HISTORY_CURSOR_MAGIC"
    using that by (metis array_of_as_slice)
  show ?thesis
    using assms version magic
    by (auto simp: bs cursor_decode_parts cursor_issue_parts cursor_parts_inject Let_def source_position_new_def
        to_from_be_bytes split: if_splits)
qed

text \<open>
  C36: the bytes of a history cursor and what they mean determine each other. Decoding yields a source and
  a key exactly for the bytes that issuing a cursor for them produces, and only when the source is one
  that can be resumed: a nonzero epoch, event sequence and block count, and a settled tip within the
  source. Every other byte string is refused.
\<close>

theorem history_cursor_round_trip:
  "cursor_decode bs = Ok c \<longleftrightarrow> resumable_source (hc_source c) \<and> bs = cursor_issue (hc_source c) (hc_after c)"
  using cursor_decode_canonical [of bs c] cursor_decode_issue [of "hc_source c" "hc_after c"] by auto

end
