(* ===== verification/Wallet_Serving.thy ===== *)
theory Wallet_Serving
  imports Serving_Pair
begin

text \<open>
  The queries of the wallet service over an admitted serving pair
  (\<open>services/zinder-query/src/wallet_serving_query.rs\<close>). Every query is a function of the pair it
  captures; the blocking tasks that run it are not modelled, except where a stream reports that one
  failed.
\<close>

section \<open>Epochs and blocks\<close>

definition pair_chain_epoch :: "'c serving_pair \<Rightarrow> chain_epoch_id option \<Rightarrow> query_error + chain_epoch" where
  "pair_chain_epoch pair requested =
     and_then (map_err CanonicalStore (cr_chain_epoch (pair_canonical pair))) (\<lambda>epoch.
     case requested of
       None \<Rightarrow> Ok epoch
     | Some r \<Rightarrow> if r \<noteq> ce_id epoch then Err (ChainEpochPinUnavailable r) else Ok epoch)"

definition visible_tip_block :: "'c serving_pair \<Rightarrow> chain_epoch_id option \<Rightarrow> query_error + block_id \<times> chain_epoch" where
  "visible_tip_block pair at_epoch_id =
     and_then (pair_chain_epoch pair at_epoch_id) (\<lambda>epoch.
     Ok (\<lparr>id_height = ce_visible_tip_height epoch, id_hash = ce_visible_tip_hash epoch\<rparr>, epoch))"

definition settled_tip_block :: "'c serving_pair \<Rightarrow> chain_epoch_id option \<Rightarrow> query_error + block_id \<times> chain_epoch" where
  "settled_tip_block pair at_epoch_id =
     and_then (pair_chain_epoch pair at_epoch_id) (\<lambda>epoch.
     Ok (\<lparr>id_height = ce_settled_tip_height epoch, id_hash = ce_settled_tip_hash epoch\<rparr>, epoch))"

definition block_id_at :: "'c serving_pair \<Rightarrow> block_height \<Rightarrow> query_error + block_id" where
  "block_id_at pair height =
     and_then (map_err CanonicalStore (cr_block_header_at (pair_canonical pair) height)) (\<lambda>header.
     ok_or (map_option (\<lambda>header. \<lparr>id_height = height, id_hash = header_block_hash header\<rparr>) header)
       BlockNotInBestChain)"

fun resolve_block_id_by_selector ::
    "'c serving_pair \<Rightarrow> block_selector \<Rightarrow> chain_epoch \<Rightarrow> query_error + block_id \<times> chain_epoch" where
  "resolve_block_id_by_selector pair (SelectHeight height) epoch =
     (if height \<le> ce_visible_tip_height epoch
      then and_then (block_id_at pair height) (\<lambda>block_id. Ok (block_id, epoch))
      else Err BlockNotInBestChain)"
| "resolve_block_id_by_selector pair (SelectHash hash) epoch =
     and_then (map_err CanonicalStore (cr_block_hash_lookup (pair_canonical pair) hash)) (\<lambda>found.
     case found of
       Resolved block_id \<Rightarrow> Ok (block_id, epoch)
     | NotInBestChain \<Rightarrow> Err BlockNotInBestChain
     | NotIndexed \<Rightarrow> Err BlockNotInBestChain)"

definition block_id_by_selector ::
    "'c serving_pair \<Rightarrow> block_selector \<Rightarrow> chain_epoch_id option \<Rightarrow> query_error + block_id \<times> chain_epoch" where
  "block_id_by_selector pair selector at_epoch_id =
     and_then (pair_chain_epoch pair at_epoch_id) (resolve_block_id_by_selector pair selector)"

definition block_header_by_selector ::
    "'c serving_pair \<Rightarrow> block_selector \<Rightarrow> chain_epoch_id option \<Rightarrow> query_error + block_header_view \<times> chain_epoch" where
  "block_header_by_selector pair selector at_epoch_id =
     and_then (pair_chain_epoch pair at_epoch_id) (\<lambda>epoch.
     and_then (resolve_block_id_by_selector pair selector epoch) (\<lambda>(block_id, _).
     and_then (map_err CanonicalStore (cr_block_header_at (pair_canonical pair) (id_height block_id))) (\<lambda>header.
     and_then (ok_or header BlockNotInBestChain) (\<lambda>header. Ok (into_header header, epoch)))))"

definition artifact_unavailable :: "artifact_family \<Rightarrow> block_height \<Rightarrow> query_error" where
  "artifact_unavailable family height = ArtifactUnavailable family (KeyBlockHeight height)"

definition compact_block_at ::
    "'c serving_pair \<Rightarrow> block_height \<Rightarrow> chain_epoch_id option \<Rightarrow> query_error + 'c \<times> chain_epoch" where
  "compact_block_at pair height at_epoch_id =
     and_then (pair_chain_epoch pair at_epoch_id) (\<lambda>epoch.
     and_then (map_err CanonicalStore (cr_compact_block_at (pair_canonical pair) height)) (\<lambda>found.
     and_then (ok_or found (artifact_unavailable FamilyCompactBlock height)) (\<lambda>compact_block.
     Ok (compact_block, epoch))))"

definition validate_block_range :: "block_height_range \<Rightarrow> u32 \<Rightarrow> query_error + unit" where
  "validate_block_range block_range max_blocks =
     (if range_start block_range > range_end block_range
      then Err (InvalidBlockRange (range_start block_range) (range_end block_range))
      else
        let requested = range_iter_len (into_iter block_range); maximum = unat max_blocks in
        if requested > maximum then Err (BlockRangeTooLarge requested maximum) else Ok ())"

definition DEFAULT_MAX_COMPACT_BLOCK_RANGE :: u32 where
  "DEFAULT_MAX_COMPACT_BLOCK_RANGE = 1000"

definition DEFAULT_MAX_FULL_BLOCK_RANGE :: u32 where
  "DEFAULT_MAX_FULL_BLOCK_RANGE = 1000"

definition compact_blocks_in_range ::
    "'c serving_pair \<Rightarrow> block_height_range \<Rightarrow> chain_epoch_id option \<Rightarrow> query_error + 'c list \<times> block_height_range \<times> chain_epoch" where
  "compact_blocks_in_range pair block_range at_epoch_id =
     and_then (validate_block_range block_range DEFAULT_MAX_COMPACT_BLOCK_RANGE) (\<lambda>_.
     and_then (pair_chain_epoch pair at_epoch_id) (\<lambda>epoch.
     and_then (map_err CanonicalStore (cr_compact_blocks_in_range (pair_canonical pair) block_range)) (\<lambda>blocks.
     Ok (blocks, block_range, epoch))))"

definition full_block_at ::
    "'c serving_pair \<Rightarrow> block_height \<Rightarrow> chain_epoch_id option \<Rightarrow> query_error + block_blob_artifact \<times> chain_epoch" where
  "full_block_at pair height at_epoch_id =
     and_then (pair_chain_epoch pair at_epoch_id) (\<lambda>epoch.
     if \<not> retains_block_blobs (cr_raw_blob_retention (pair_canonical pair))
     then Err (EndpointCapabilityUnavailable ''wallet.read.full_block_at_v1'')
     else
       and_then (map_err CanonicalStore (cr_block_blob_at (pair_canonical pair) height)) (\<lambda>found.
       and_then (ok_or found (artifact_unavailable FamilyBlockBlob height)) (\<lambda>block_blob.
       Ok (block_blob, epoch))))"

definition raw_transaction ::
    "'c serving_pair \<Rightarrow> transaction_id \<Rightarrow> chain_epoch_id option \<Rightarrow> query_error + transaction_blob_artifact \<times> chain_epoch" where
  "raw_transaction pair transaction_id at_epoch_id =
     and_then (pair_chain_epoch pair at_epoch_id) (\<lambda>epoch.
     and_then (map_err CanonicalStore (cr_transaction_location (pair_canonical pair) transaction_id)) (\<lambda>found.
     and_then (ok_or found (ArtifactUnavailable FamilyTransactionLocation (KeyTransactionId transaction_id))) (\<lambda>location.
     and_then (map_err CanonicalStore (cr_transaction_blob (pair_canonical pair) location)) (\<lambda>found.
     and_then (ok_or found (ArtifactUnavailable FamilyTransactionBlob (KeyTransactionId transaction_id))) (\<lambda>transaction.
     Ok (transaction, epoch))))))"

definition validate_subtree_root_range :: "subtree_root_range \<Rightarrow> query_error + unit" where
  "validate_subtree_root_range r =
     (let requested = srr_max_entries r in
      if requested > MAX_SUBTREE_ROOTS_PER_REQUEST
      then Err (SubtreeRootRangeTooLarge requested MAX_SUBTREE_ROOTS_PER_REQUEST)
      else Ok ())"

definition subtree_roots ::
    "'c serving_pair \<Rightarrow> subtree_root_range \<Rightarrow> chain_epoch_id option \<Rightarrow> query_error + subtree_root_artifact list \<times> chain_epoch" where
  "subtree_roots pair r at_epoch_id =
     and_then (validate_subtree_root_range r) (\<lambda>_.
     and_then (pair_chain_epoch pair at_epoch_id) (\<lambda>epoch.
     let completed = completed_subtree_count (ce_tip_metadata epoch) (srr_protocol r) in
     if completed \<le> srr_start_index r then Ok ([], epoch)
     else
       let available_entries = min (saturating_sub completed (srr_start_index r)) (srr_max_entries r) in
       if available_entries = 0
       then Err (ArtifactUnavailable FamilySubtreeRoot (KeySubtreeRootIndex (srr_protocol r) (srr_start_index r)))
       else
         and_then (map_err CanonicalStore (cr_subtree_roots (pair_canonical pair) (r\<lparr>srr_max_entries := available_entries\<rparr>)))
           (\<lambda>roots. Ok (roots, epoch))))"

section \<open>Streams of full blocks\<close>

text \<open>
  The sender of a stream is a channel of the asynchronous runtime: a parameter \<open>send\<close> that takes a
  message and reports whether the receiver still takes messages.
\<close>

type_synonym 'ch block_sender = "query_error + block_blob_artifact \<Rightarrow> 'ch \<Rightarrow> bool \<times> 'ch"

definition FULL_BLOCK_STREAM_SUB_READ_BLOCKS :: u32 where
  "FULL_BLOCK_STREAM_SUB_READ_BLOCKS = 16"

fun forward_block_blobs ::
    "'ch block_sender \<Rightarrow> (block_height \<times> block_blob_artifact option) list \<Rightarrow> 'ch \<Rightarrow> bool \<times> 'ch" where
  "forward_block_blobs send [] ch = (True, ch)"
| "forward_block_blobs send ((height, None) # rest) ch =
     (False, snd (send (Err (artifact_unavailable FamilyBlockBlob height)) ch))"
| "forward_block_blobs send ((height, Some block_blob) # rest) ch =
     (case send (Ok block_blob) ch of
        (False, ch) \<Rightarrow> (False, ch)
      | (True, ch) \<Rightarrow> forward_block_blobs send rest ch)"

definition forward_full_block_sub_range ::
    "'ch block_sender \<Rightarrow> block_height_range \<Rightarrow> block_blob_artifact option list \<Rightarrow> 'ch \<Rightarrow> bool \<times> 'ch" where
  "forward_full_block_sub_range send sub_range block_blobs ch =
     (if length block_blobs \<noteq> range_iter_len (into_iter sub_range)
      then (False, snd (send (Err (ArtifactCorrupt FamilyBlockBlob
             (''full-block range returned '' @ decimal 1 (length block_blobs) @ '' rows for '' @
              decimal 1 (range_iter_len (into_iter sub_range)) @ '' requested heights''))) ch))
      else forward_block_blobs send (zip (range_heights sub_range) block_blobs) ch)"

lemma sub_read_advances:
  assumes "min (saturating_add start 15) last_height \<noteq> (last_height :: u32)"
  shows "unat (saturating_add (min (saturating_add start 15) last_height) 1) = unat start + 16"
    and "unat start + 16 \<le> unat last_height"
proof -
  have "saturating_add start 15 < last_height" using assms by (auto simp: min_def split: if_splits)
  then have "min (unat start + 15) 4294967295 < unat last_height"
    by (simp add: word_less_nat_alt unat_saturating_add)
  moreover have "unat last_height < 4294967296"
    using unsigned_less [of last_height, where ?'a = nat] by simp
  ultimately have *: "unat start + 15 < unat last_height" "unat last_height < 4294967296" by linarith+
  then have "min (saturating_add start 15) last_height = saturating_add start 15"
    by (auto simp: min_def word_le_nat_alt unat_saturating_add)
  moreover have "min (unat start + 15) 4294967295 = unat start + 15" "min (unat start + 16) 4294967295 = unat start + 16"
    using * by linarith+
  ultimately show "unat (saturating_add (min (saturating_add start 15) last_height) 1) = unat start + 16"
    by (simp add: unat_saturating_add)
  show "unat start + 16 \<le> unat last_height" using * by simp
qed

text \<open>\<open>join_error\<close> says which blocking reads end without a result, and the reason they report.\<close>

function drive_full_block_range ::
    "(block_height_range \<Rightarrow> string option) \<Rightarrow> 'ch block_sender \<Rightarrow> 'c serving_pair \<Rightarrow> u32 \<Rightarrow> u32 \<Rightarrow> 'ch \<Rightarrow> 'ch" where
  "drive_full_block_range join_error send pair last_height sub_read_start ch =
     (let sub_read_end = min (saturating_add sub_read_start (FULL_BLOCK_STREAM_SUB_READ_BLOCKS - 1)) last_height;
          sub_range = inclusive sub_read_start sub_read_end in
      case join_error sub_range of
        Some reason \<Rightarrow> snd (send (Err (BlockingTaskFailed reason)) ch)
      | None \<Rightarrow>
          (case cr_block_blobs_in_range (pair_canonical pair) sub_range of
             Inl e \<Rightarrow> snd (send (Err (CanonicalStore e)) ch)
           | Inr block_blobs \<Rightarrow>
               (case forward_full_block_sub_range send sub_range block_blobs ch of
                  (False, ch) \<Rightarrow> ch
                | (True, ch) \<Rightarrow>
                    if sub_read_end = last_height then ch
                    else drive_full_block_range join_error send pair last_height (saturating_add sub_read_end 1) ch)))"
  by auto

termination
  by (relation "measure (\<lambda>(_, _, _, last_height, start, _). unat last_height - unat start)")
    (auto simp: FULL_BLOCK_STREAM_SUB_READ_BLOCKS_def sub_read_advances dest: sub_read_advances)

declare drive_full_block_range.simps [simp del]

text \<open>The stream runs on the fresh channel \<open>ch\<close>; the result is the channel after the stream has ended.\<close>

definition full_blocks_in_range ::
    "(block_height_range \<Rightarrow> string option) \<Rightarrow> 'ch block_sender \<Rightarrow> 'c serving_pair \<Rightarrow> block_height_range \<Rightarrow>
       chain_epoch_id option \<Rightarrow> 'ch \<Rightarrow> query_error + 'ch \<times> chain_epoch" where
  "full_blocks_in_range join_error send pair block_range at_epoch_id ch =
     and_then (validate_block_range block_range DEFAULT_MAX_FULL_BLOCK_RANGE) (\<lambda>_.
     and_then (pair_chain_epoch pair at_epoch_id) (\<lambda>epoch.
     if \<not> retains_block_blobs (cr_raw_blob_retention (pair_canonical pair))
     then Err (EndpointCapabilityUnavailable ''wallet.read.full_block_range_v1'')
     else Ok (drive_full_block_range join_error send pair (range_end block_range) (range_start block_range) ch, epoch)))"

section \<open>Unspent outputs of an address\<close>

definition WALLET_READ_PAGE_SIZE :: u16 where
  "WALLET_READ_PAGE_SIZE = - 1"

record transparent_unspent_output =
  tu_address_script_hash :: script_hash
  tu_script_pub_key :: "u8 list"
  tu_outpoint :: transparent_outpoint
  tu_value_zat :: u64
  tu_block_height :: block_height
  tu_block_hash :: block_hash

definition transparent_unspent_output_new :: "unspent_output \<Rightarrow> transparent_unspent_output" where
  "transparent_unspent_output_new u =
     \<lparr>tu_address_script_hash = uo_address_script_hash u, tu_script_pub_key = uo_script_pub_key u,
      tu_outpoint = uo_outpoint u, tu_value_zat = uo_value_zat u,
      tu_block_height = id_height (pos_block (uo_created_at u)),
      tu_block_hash = id_hash (pos_block (uo_created_at u))\<rparr>"

text \<open>
  The loop that reads every page: it extends the rows and follows the continuation key until a page
  has none. Nothing in the loop itself bounds it, so not returning is the value \<open>None\<close>.
\<close>

partial_function (option) collect_pages ::
    "('key option \<Rightarrow> 'e + ('row, 'key) page) \<Rightarrow> ('row \<Rightarrow> 'out) \<Rightarrow> 'out list \<Rightarrow> 'key option \<Rightarrow> ('e + 'out list) option" where
  "collect_pages read_page convert outputs after =
     (case read_page after of
        Inl e \<Rightarrow> Some (Err e)
      | Inr page \<Rightarrow>
          (case page_next_after page of
             None \<Rightarrow> Some (Ok (outputs @ map convert (page_rows page)))
           | Some next_after \<Rightarrow>
               collect_pages read_page convert (outputs @ map convert (page_rows page)) (Some next_after)))"

record unspent_outputs_request =
  ur_address_script_hash :: script_hash
  ur_start_height :: block_height

definition transparent_address_unspent_outputs ::
    "'c serving_pair \<Rightarrow> unspent_outputs_request \<Rightarrow> chain_epoch_id option \<Rightarrow>
       (query_error + transparent_unspent_output list \<times> chain_epoch) option" where
  "transparent_address_unspent_outputs pair request at_epoch_id =
     (case pair_chain_epoch pair at_epoch_id of
        Inl e \<Rightarrow> Some (Err e)
      | Inr epoch \<Rightarrow>
          map_option (\<lambda>outputs. and_then outputs (\<lambda>outputs. Ok (outputs, epoch)))
            (collect_pages
               (\<lambda>after. map_err WalletStore
                  (wr_address_unspent_outputs_page_from_height (pair_wallet pair) (ur_address_script_hash request)
                     (ur_start_height request) after WALLET_READ_PAGE_SIZE))
               transparent_unspent_output_new [] None))"

section \<open>Transactions of an address\<close>

record tx_ids_request =
  tr_address_script_hash :: script_hash
  tr_start_height :: block_height
  tr_end_height :: block_height
  tr_max_entries :: u32
  tr_from_cursor :: "u8 list option"
  tr_descending :: bool

record tx_index_artifact =
  ti_address_script_hash :: script_hash
  ti_block_height :: block_height
  ti_tx_index_in_block :: u32
  ti_transaction_id :: transaction_id
  ti_block_hash :: block_hash

record address_tx_ids =
  ids_chain_epoch :: chain_epoch
  ids_artifacts :: "tx_index_artifact list"
  ids_next_cursor :: "u8 list option"

definition validate_transparent_history_cursor_key ::
    "address_transaction_key \<Rightarrow> tx_ids_request \<Rightarrow> query_error + unit" where
  "validate_transparent_history_cursor_key key request =
     (if transaction_key_address_script_hash key \<noteq> tr_address_script_hash request
      then Err (TransparentHistoryCursorInvalid ''cursor address does not match request address'')
      else
        let height = transaction_key_block_height key in
        if height < tr_start_height request \<or> height > tr_end_height request
        then Err (TransparentHistoryCursorInvalid ''cursor height is outside request range'')
        else Ok ())"

definition tx_index_artifact_of :: "script_hash \<Rightarrow> address_transaction \<Rightarrow> tx_index_artifact" where
  "tx_index_artifact_of address row =
     \<lparr>ti_address_script_hash = address, ti_block_height = transaction_key_block_height (at_key row),
      ti_tx_index_in_block = transaction_key_tx_index (at_key row), ti_transaction_id = at_transaction_id row,
      ti_block_hash = at_block_hash row\<rparr>"

text \<open>The entries of a request are not zero; their number is cut to 16 bits for the page.\<close>

definition history_page_size :: "u32 \<Rightarrow> u16" where
  "history_page_size max_entries =
     (let entries = (if unat max_entries < 2 ^ 16 then ucast max_entries else - 1) in
      if entries = 0 then - 1 else entries)"

definition transparent_address_tx_ids_in_range ::
    "'c serving_pair \<Rightarrow> tx_ids_request \<Rightarrow> query_error + address_tx_ids" where
  "transparent_address_tx_ids_in_range pair request =
     (if tr_descending request
      then Err (MaterializedViewUnavailable ''descending canonical transparent history'')
      else
        and_then (pair_chain_epoch pair None) (\<lambda>epoch.
        and_then (case tr_from_cursor request of
                    None \<Rightarrow> Ok None
                  | Some cursor \<Rightarrow> and_then (cursor_resume cursor (pair_wallet_source pair)) (\<lambda>key. Ok (Some key))) (\<lambda>after.
        and_then (case after of
                    None \<Rightarrow> Ok ()
                  | Some key \<Rightarrow> validate_transparent_history_cursor_key key request) (\<lambda>_.
        and_then (map_err WalletStore
                    (wr_address_transaction_history_range_page (pair_wallet pair) (tr_address_script_hash request)
                       (inclusive (tr_start_height request) (tr_end_height request)) after
                       (history_page_size (tr_max_entries request)))) (\<lambda>page.
        Ok \<lparr>ids_chain_epoch = epoch,
            ids_artifacts = map (tx_index_artifact_of (tr_address_script_hash request)) (page_rows page),
            ids_next_cursor = map_option (cursor_issue (pair_wallet_source pair)) (page_next_after page)\<rparr>)))))"

section \<open>Balances\<close>

definition MAX_TRANSPARENT_ADDRESS_BALANCE_ADDRESSES :: u32 where
  "MAX_TRANSPARENT_ADDRESS_BALANCE_ADDRESSES = 256"

record address_balance_response =
  tab_confirmed_zat :: u64
  tab_unconfirmed_delta_zat :: i64
  tab_address_count :: u32
  tab_chain_epoch :: chain_epoch

text \<open>The order in which a \<open>HashSet\<close> iterates is unspecified: it is the parameter \<open>iter\<close>.\<close>

definition transparent_address_balance ::
    "(script_hash set \<Rightarrow> script_hash list) \<Rightarrow> 'c serving_pair \<Rightarrow> script_hash list \<Rightarrow> chain_epoch_id option \<Rightarrow>
       query_error + address_balance_response" where
  "transparent_address_balance iter pair addresses at_epoch_id =
     (let requested_address_count = length addresses in
      if \<not> (requested_address_count < 2 ^ 32 \<and> 1 \<le> requested_address_count \<and>
             requested_address_count \<le> unat MAX_TRANSPARENT_ADDRESS_BALANCE_ADDRESSES)
      then Err (TransparentBalanceAddressCountExceeded requested_address_count MAX_TRANSPARENT_ADDRESS_BALANCE_ADDRESSES)
      else
        and_then (pair_chain_epoch pair at_epoch_id) (\<lambda>epoch.
        let addresses = set addresses in
        and_then (try_fold (\<lambda>address confirmed_zat.
            and_then (map_err WalletStore (wr_address_balance (pair_wallet pair) address)) (\<lambda>balance.
            Ok (saturating_add confirmed_zat balance))) (iter addresses) 0) (\<lambda>confirmed_zat.
        Ok \<lparr>tab_confirmed_zat = confirmed_zat, tab_unconfirmed_delta_zat = 0,
            tab_address_count = (if card addresses < 2 ^ 32 then of_nat (card addresses) else - 1),
            tab_chain_epoch = epoch\<rparr>)))"

end
