(* ===== verification/Serving_Facts.thy ===== *)
theory Serving_Facts
  imports Query_Pages Serving_Cursor Wallet_Serving
begin

text \<open>
  What the queries of a serving pair return: the page loop ends with every row of the address, a
  history page continues where its cursor says, and a stream of full blocks delivers the blocks of its
  range in order.
\<close>

section \<open>Walking over pages\<close>

text \<open>
  The contract between a paged query and its clients: after a key, the remaining keys are the ones
  that follow it.
\<close>

locale key_walk =
  fixes keys :: "'k option \<Rightarrow> 'k list" and valid :: "'k \<Rightarrow> bool"
  assumes keys_after: "keys after = xs @ k # ys \<Longrightarrow> keys (Some k) = ys"
    and keys_valid: "(\<And>b. after = Some b \<Longrightarrow> valid b) \<Longrightarrow> k \<in> set (keys after) \<Longrightarrow> valid k"
begin

lemma page_continues:
  assumes "page_next_after (page_of token row n [] None (keys after)) = Some t" and "0 < n"
    and "\<And>b. after = Some b \<Longrightarrow> valid b"
  obtains k where "t = token k" "valid k" "keys after = take n (keys after) @ keys (Some k)" "n < length (keys after)"
proof -
  let ?k = "keys after ! (n - 1)"
  have n: "n < length (keys after)" "t = token ?k"
    using assms(1,2) by (auto simp: page_of_def split: if_splits)
  have "keys after = take (n - 1) (keys after) @ ?k # drop n (keys after)"
    using n assms(2) id_take_nth_drop [of "n - 1" "keys after"] by simp
  then have "keys (Some ?k) = drop n (keys after)" by (rule keys_after)
  then have "keys after = take n (keys after) @ keys (Some ?k)" by simp
  moreover have "?k \<in> set (keys after)" using n(1) by (intro nth_mem) simp
  then have "valid ?k" using assms(3) keys_valid [of after ?k] by blast
  ultimately show thesis using that n by blast
qed

text \<open>
  A client that follows the continuation tokens of the pages ends, with every row once and in order. A
  token is what a page hands out for its last key.
\<close>

lemma collect_pages_walk:
  assumes n: "0 < n"
    and page: "\<And>after. (\<And>k. after = Some k \<Longrightarrow> valid k) \<Longrightarrow>
      sim Q E (=) (Ok (page_of token row n [] None (keys after))) (read_page (map_option token after))"
    and "\<And>k. after = Some k \<Longrightarrow> valid k"
  shows "\<exists>r. collect_pages read_page convert outputs (map_option token after) = Some r \<and>
    sim Q E (=) (Ok (outputs @ map (convert \<circ> row) (keys after))) r"
  using assms(3)
proof (induction "length (keys after)" arbitrary: after outputs rule: less_induct)
  case less
  let ?p = "page_of token row n [] None (keys after)"
  have page: "sim Q E (=) (Ok ?p) (read_page (map_option token after))" using less.prems by (rule page)
  show ?case
  proof (cases "read_page (map_option token after)")
    case (Inl e)
    then show ?thesis using page by (auto simp: collect_pages.simps)
  next
    case (Inr p)
    then have p: "p = ?p" using page by simp
    show ?thesis
    proof (cases "page_next_after ?p")
      case None
      then have "length (keys after) \<le> n" using n by (auto simp: page_of_def split: if_splits)
      then show ?thesis using Inr p None by (simp add: collect_pages.simps) (simp add: page_of_def)
    next
      case (Some t)
      obtain k where k: "t = token k" "valid k" "keys after = take n (keys after) @ keys (Some k)" "n < length (keys after)"
        using page_continues [OF Some n less.prems] .
      have "length (keys after) = length (take n (keys after)) + length (keys (Some k))"
        using k(3) by (metis length_append)
      then have "length (keys (Some k)) < length (keys after)" using n k(4) by simp
      then obtain r where "collect_pages read_page convert (outputs @ map convert (page_rows ?p)) (Some t) = Some r"
        "sim Q E (=) (Ok ((outputs @ map convert (page_rows ?p)) @ map (convert \<circ> row) (keys (Some k)))) r"
        using less.hyps [of "Some k" "outputs @ map convert (page_rows ?p)"] k(1,2) by auto
      moreover have "(outputs @ map convert (page_rows ?p)) @ map (convert \<circ> row) (keys (Some k)) =
          outputs @ map (convert \<circ> row) (keys after)"
        using arg_cong [OF k(3), of "map (convert \<circ> row)"] by (simp add: page_of_def)
      ultimately show ?thesis using Inr p Some by (simp add: collect_pages.simps)
    qed
  qed
qed

end

section \<open>The walks of the wallet store\<close>

lemma sorted_list_of_set_after:
  assumes "sorted_list_of_set S = xs @ k # ys"
  shows "ys = sorted_list_of_set {j \<in> S. k < j}" and "k \<in> S"
proof -
  have S: "finite S" using assms by (metis Nil_is_append_conv list.distinct(1) sorted_list_of_set.fold_insort_key.infinite)
  have sorted: "sorted_wrt (<) (xs @ k # ys)" using strict_sorted_list_of_set [of S] assms by simp
  have set: "set (xs @ k # ys) = S" using S by (simp flip: assms)
  then show "k \<in> S" by auto
  have "set ys = {j \<in> S. k < j}" using sorted by (auto simp: set [symmetric] sorted_wrt_append)
  moreover have "sorted_wrt (<) ys" using sorted by (simp add: sorted_wrt_append)
  ultimately show "ys = sorted_list_of_set {j \<in> S. k < j}"
    using S by (metis (no_types, lifting) finite_set set_sorted_list_of_set strict_sorted_equal strict_sorted_list_of_set)
qed

lemma unspent_height_mono:
  assumes "k \<le> j" and "unspent_key_address_script_hash k = a" and "unspent_key_address_script_hash j = a"
  shows "unspent_key_creation_height k \<le> unspent_key_creation_height j"
proof -
  have "address_unspent_first_at_or_after a (unspent_key_creation_height k) \<le> k"
    by (simp add: unspent_first_at_or_after [OF assms(2)])
  then show ?thesis using assms(1) unspent_first_at_or_after [OF assms(3)] by (meson order.trans)
qed

lemma history_height_mono:
  assumes "k \<le> j" and "transaction_key_address_script_hash k = a" and "transaction_key_address_script_hash j = a"
  shows "transaction_key_block_height k \<le> transaction_key_block_height j"
proof -
  have "address_transaction_first_at_or_after a (transaction_key_block_height k) \<le> k"
    by (simp add: history_bounds(1) [OF assms(2)])
  then show ?thesis using assms(1) history_bounds(1) [OF assms(3)] by (meson order.trans)
qed

lemma finite_unspent_keys [simp]: "finite (unspent_keys l a)"
proof -
  have "unspent_keys l a \<subseteq> address_unspent_key_new ` fmran' (lg_unspent_outputs l)"
    by (auto simp: unspent_keys_def intro: fmran'I)
  then show ?thesis by (rule finite_subset) (simp add: fmran'_alt_def)
qed

lemma unspent_keys_address: "k \<in> unspent_keys l a \<Longrightarrow> unspent_key_address_script_hash k = a"
  by (auto simp: unspent_keys_def)

interpretation unspent_walk: key_walk "remaining_unspent l a start" "\<lambda>k. unspent_key_address_script_hash k = a" for l a start
proof
  fix after xs k ys assume "remaining_unspent l a start after = xs @ k # ys"
  note split = sorted_list_of_set_after [OF this [unfolded remaining_unspent_def]]
  have "{j \<in> {k \<in> unspent_keys l a. case after of None \<Rightarrow> start \<le> unspent_key_creation_height k | Some b \<Rightarrow> b < k}. k < j} =
      {j \<in> unspent_keys l a. k < j}"
  proof -
    have "unspent_key_creation_height k \<le> unspent_key_creation_height j" if "j \<in> unspent_keys l a" "k < j" for j
      using split(2) that by (intro unspent_height_mono [of k j a]) (auto dest: unspent_keys_address)
    then show ?thesis using split(2) by (cases after) (auto intro: order.trans order.strict_trans)
  qed
  then show "remaining_unspent l a start (Some k) = ys" using split(1) by (simp add: remaining_unspent_def)
next
  fix k after assume "k \<in> set (remaining_unspent l a start after)"
  then show "unspent_key_address_script_hash k = a"
    by (auto simp: remaining_unspent_def dest: unspent_keys_address)
qed

interpretation history_walk: key_walk "remaining_history l a rng"
  "\<lambda>k. transaction_key_address_script_hash k = a \<and> range_start rng \<le> transaction_key_block_height k \<and>
     transaction_key_block_height k \<le> range_end rng" for l a rng
proof
  fix after xs k ys assume "remaining_history l a rng after = xs @ k # ys"
  note split = sorted_list_of_set_after [OF this [unfolded remaining_history_def]]
  have "{j \<in> {k. fmlookup (lg_address_transactions l) k \<noteq> None \<and> transaction_key_address_script_hash k = a \<and>
        transaction_key_block_height k \<le> range_end rng \<and>
        (case after of None \<Rightarrow> range_start rng \<le> transaction_key_block_height k | Some b \<Rightarrow> b < k)}. k < j} =
      {j. fmlookup (lg_address_transactions l) j \<noteq> None \<and> transaction_key_address_script_hash j = a \<and>
        transaction_key_block_height j \<le> range_end rng \<and> k < j}"
  proof -
    have "transaction_key_block_height k \<le> transaction_key_block_height j"
      if "transaction_key_address_script_hash j = a" "k < j" for j
      using split(2) that by (intro history_height_mono [of k j a]) auto
    then show ?thesis using split(2) by (cases after) (auto intro: order.trans order.strict_trans)
  qed
  then show "remaining_history l a rng (Some k) = ys" using split(1) by (simp add: remaining_history_def)
next
  fix after k
  assume after: "\<And>b. after = Some b \<Longrightarrow> transaction_key_address_script_hash b = a \<and>
      range_start rng \<le> transaction_key_block_height b \<and> transaction_key_block_height b \<le> range_end rng"
    and "k \<in> set (remaining_history l a rng after)"
  moreover have "finite {k. fmlookup (lg_address_transactions l) k \<noteq> None}"
  proof -
    have "{k. fmlookup (lg_address_transactions l) k \<noteq> None} = fmdom' (lg_address_transactions l)"
      by (auto simp: fmlookup_dom'_iff)
    then show ?thesis by (simp only: finite_fmdom')
  qed
  ultimately have k: "transaction_key_address_script_hash k = a" "transaction_key_block_height k \<le> range_end rng"
      "case after of None \<Rightarrow> range_start rng \<le> transaction_key_block_height k | Some b \<Rightarrow> b < k"
    unfolding remaining_history_def by (subst (asm) set_sorted_list_of_set; force intro: finite_subset)+
  then show "transaction_key_address_script_hash k = a \<and> range_start rng \<le> transaction_key_block_height k \<and>
      transaction_key_block_height k \<le> range_end rng"
    using after history_height_mono [of _ k a] by (cases after) (auto intro: order.trans)
qed

section \<open>Streams of full blocks\<close>

text \<open>The messages of a stream over some heights: their blocks in order, up to the first that is not retained.\<close>

fun block_stream :: "(block_height \<Rightarrow> block_blob_artifact option) \<Rightarrow> block_height list \<Rightarrow> (query_error + block_blob_artifact) list" where
  "block_stream blob_at [] = []"
| "block_stream blob_at (h # hs) =
     (case blob_at h of
        None \<Rightarrow> [Err (artifact_unavailable FamilyBlockBlob h)]
      | Some blob \<Rightarrow> Ok blob # block_stream blob_at hs)"

lemma block_stream_append:
  "block_stream blob_at (xs @ ys) =
     (if \<forall>h\<in>set xs. blob_at h \<noteq> None then block_stream blob_at xs @ block_stream blob_at ys else block_stream blob_at xs)"
  by (induction xs) (auto split: option.splits)

lemma block_stream_prefix: "\<exists>zs. block_stream blob_at (xs @ ys) = block_stream blob_at xs @ zs"
  by (simp add: block_stream_append)

text \<open>
  What a stream relies on in its channel: \<open>sent\<close> are the messages the receiver got; a send that succeeds
  adds its message, and one that fails adds nothing.
\<close>

definition sender_lawful :: "'ch block_sender \<Rightarrow> ('ch \<Rightarrow> (query_error + block_blob_artifact) list) \<Rightarrow> bool" where
  "sender_lawful send sent \<longleftrightarrow>
     (\<forall>message ch. sent (snd (send message ch)) = (if fst (send message ch) then sent ch @ [message] else sent ch))"

text \<open>The receiver got a part of the stream, all of it if it took every message.\<close>

definition received :: "'ch block_sender \<Rightarrow> (query_error + block_blob_artifact) list \<Rightarrow> (query_error + block_blob_artifact) list \<Rightarrow>
    (query_error + block_blob_artifact) list \<Rightarrow> bool" where
  "received send before stream after \<longleftrightarrow>
     (\<exists>rest. before @ stream = after @ rest) \<and> ((\<forall>message ch. fst (send message ch)) \<longrightarrow> after = before @ stream)"

lemma forward_block_blobs_received:
  assumes "sender_lawful send sent" and "forward_block_blobs send (map (\<lambda>h. (h, blob_at h)) hs) ch = (go, ch')"
  shows "received send (sent ch) (block_stream blob_at hs) (sent ch') \<and>
    (go \<longrightarrow> (\<forall>h\<in>set hs. blob_at h \<noteq> None) \<and> sent ch' = sent ch @ block_stream blob_at hs) \<and>
    (\<not> go \<longrightarrow> (\<forall>message ch. fst (send message ch)) \<longrightarrow> (\<exists>h\<in>set hs. blob_at h = None))"
  using assms(2)
proof (induction hs arbitrary: ch)
  case Nil
  then show ?case by (simp add: received_def)
next
  case (Cons h hs)
  have send: "sent (snd (send message ch)) = (if fst (send message ch) then sent ch @ [message] else sent ch)" for message
    using assms(1) by (simp add: sender_lawful_def)
  show ?case
  proof (cases "blob_at h")
    case None
    then show ?thesis using Cons.prems send by (auto simp: received_def)
  next
    case (Some blob)
    obtain ok ch1 where ok: "send (Ok blob) ch = (ok, ch1)" by fastforce
    show ?thesis
    proof (cases ok)
      case True
      then show ?thesis using Cons.IH [of ch1] Cons.prems send [of "Ok blob"] Some ok by (simp add: received_def)
    next
      case False
      then show ?thesis using Cons.prems send [of "Ok blob"] Some ok by (auto simp: received_def) (metis fst_conv)+
    qed
  qed
qed

lemma range_heights_split:
  assumes "unat s \<le> unat m" and "unat m < unat e"
  shows "range_heights (inclusive s e) = range_heights (inclusive s m) @ range_heights (inclusive (m + 1) e)"
proof -
  have "unat (m + 1) = Suc (unat m)" using assms(2) by (intro unat_Suc_word [of m e]) (simp add: word_less_nat_alt)
  moreover have "[unat s ..< Suc (unat e)] = [unat s ..< Suc (unat m)] @ [Suc (unat m) ..< Suc (unat e)]"
    using assms upt_add_eq_append [of "unat s" "Suc (unat m)" "unat e - unat m"] by simp
  ultimately show ?thesis by (simp add: range_heights_upt del: upt_Suc)
qed

text \<open>What a stream relies on in the canonical reader: a range read returns the blob of every height of the range.\<close>

definition reads_blobs :: "'c canonical_reader \<Rightarrow> (block_height \<Rightarrow> block_blob_artifact option) \<Rightarrow> bool" where
  "reads_blobs reader blob_at \<longleftrightarrow> (\<forall>r. cr_block_blobs_in_range reader r = Ok (map blob_at (range_heights r)))"

lemma forward_sub_range:
  assumes "unat e < unat s + 16"
  shows "forward_full_block_sub_range send (inclusive s e) (map blob_at (range_heights (inclusive s e))) ch =
    forward_block_blobs send (map (\<lambda>h. (h, blob_at h)) (range_heights (inclusive s e))) ch"
proof -
  have "length (range_heights (inclusive s e)) \<le> 16" using assms by (simp add: range_heights_upt del: upt_Suc)
  then have "range_iter_len (into_iter (inclusive s e)) = length (range_heights (inclusive s e))"
    by (simp add: range_iter_len_into_iter)
  then show ?thesis by (simp add: forward_full_block_sub_range_def zip_map2 zip_same_conv_map comp_def)
qed

lemma sub_read_bounds:
  fixes start last_height :: u32
  assumes "start \<le> last_height"
  defines "e \<equiv> min (saturating_add start (FULL_BLOCK_STREAM_SUB_READ_BLOCKS - 1)) last_height"
  shows "unat start \<le> unat e" "unat e < unat start + 16" "e \<le> last_height"
proof -
  have "unat (min a b) = min (unat a) (unat b)" for a b :: u32 by (simp add: min_def word_le_nat_alt)
  then have "unat e = min (min (unat start + 15) 4294967295) (unat last_height)"
    by (simp add: e_def FULL_BLOCK_STREAM_SUB_READ_BLOCKS_def unat_saturating_add)
  moreover have "unat start \<le> unat last_height" using assms(1) by (simp add: word_le_nat_alt)
  moreover have "unat last_height < 4294967296" using unsigned_less [of last_height, where ?'a = nat] by simp
  ultimately show "unat start \<le> unat e" "unat e < unat start + 16" by linarith+
  show "e \<le> last_height" by (simp add: e_def)
qed

lemma saturating_add_one: "a < b \<Longrightarrow> saturating_add a 1 = a + (1 :: 'a::len word)"
proof -
  assume "a < b"
  then have u: "unat (a + 1) = Suc (unat a)" by (rule unat_Suc_word)
  have "Suc (unat a) \<le> 2 ^ LENGTH('a) - 1" using unsigned_less [of "a + 1", where ?'a = nat] unfolding u by linarith
  then have "unat (saturating_add a 1) = unat (a + 1)" by (simp add: unat_saturating_add u)
  then show ?thesis by (simp only: word_unat_eq_iff)
qed

lemma received_append:
  assumes "received send before xs between" and "between = before @ xs" and "received send between ys after"
  shows "received send before (xs @ ys) after"
  using assms by (auto simp: received_def)

lemma received_stop:
  assumes "received send before xs after" and "(\<forall>message ch. fst (send message ch)) \<longrightarrow> ys = []"
  shows "received send before (xs @ ys) after"
  using assms unfolding received_def by (metis append.assoc append_Nil2)

lemma drive_received:
  assumes "reads_blobs (pair_canonical pair) blob_at" and "\<And>r. join_error r = None" and lawful: "sender_lawful send sent"
    and "start \<le> last_height"
  shows "received send (sent ch) (block_stream blob_at (range_heights (inclusive start last_height)))
    (sent (drive_full_block_range join_error send pair last_height start ch))"
  using assms(4)
proof (induction "unat last_height - unat start" arbitrary: start ch rule: less_induct)
  case less
  let ?e = "min (saturating_add start (FULL_BLOCK_STREAM_SUB_READ_BLOCKS - 1)) last_height"
  note e = sub_read_bounds [OF less.prems]
  obtain go ch' where forward:
    "forward_block_blobs send (map (\<lambda>h. (h, blob_at h)) (range_heights (inclusive start ?e))) ch = (go, ch')" by fastforce
  note ch' = forward_block_blobs_received [OF lawful forward]
  have drive: "drive_full_block_range join_error send pair last_height start ch =
      (if \<not> go \<or> ?e = last_height then ch'
       else drive_full_block_range join_error send pair last_height (saturating_add ?e 1) ch')"
    using assms(1,2) forward forward_sub_range [OF e(2), of send blob_at ch]
    by (subst drive_full_block_range.simps) (cases go; auto simp: reads_blobs_def Let_def)
  show ?case
  proof (cases "?e = last_height")
    case True
    then show ?thesis using drive ch' by simp
  next
    case False
    then have lt: "?e < last_height" using e(3) by (rule order.not_eq_order_implies_strict)
    then have step: "saturating_add ?e 1 = ?e + 1" "unat (?e + 1) = Suc (unat ?e)"
      by (rule saturating_add_one, rule unat_Suc_word [of ?e last_height])
    have split: "range_heights (inclusive start last_height) =
        range_heights (inclusive start ?e) @ range_heights (inclusive (?e + 1) last_height)"
      using e(1) lt by (intro range_heights_split) (simp_all add: word_less_nat_alt)
    show ?thesis
    proof (cases go)
      case True
      have "received send (sent ch') (block_stream blob_at (range_heights (inclusive (?e + 1) last_height)))
          (sent (drive_full_block_range join_error send pair last_height (?e + 1) ch'))"
        using e lt step less.prems by (intro less.hyps) (simp_all add: word_le_nat_alt word_less_nat_alt)
      then show ?thesis
        using True ch' drive False step(1) by (auto simp: split block_stream_append intro: received_append)
    next
      case False
      then show ?thesis using ch' drive by (auto simp: split block_stream_append intro: received_stop)
    qed
  qed
qed

end
