(* ===== verification/Serving_Properties.thy ===== *)
theory Serving_Properties
  imports Serving_Facts Store_Properties
begin

text \<open>
  The properties of the wallet service over an admitted serving pair: a request is answered from one
  source, the unspent outputs, histories and balances it returns are those of the serial oracle for the
  chain the wallet store follows, history cursors are bound to their source, and block streams deliver
  their range in order.
\<close>

section \<open>An admitted pair\<close>

text \<open>The epoch that a response names, as the source of the wallet rows.\<close>

definition epoch_names_source :: "chain_epoch \<Rightarrow> canonical_source_identity \<Rightarrow> bool" where
  "epoch_names_source epoch source \<longleftrightarrow>
     ce_id epoch = sp_chain_epoch_id (si_source_position source) \<and>
     \<lparr>id_height = ce_visible_tip_height epoch, id_hash = ce_visible_tip_hash epoch\<rparr> = sp_tip (si_source_position source) \<and>
     \<lparr>id_height = ce_settled_tip_height epoch, id_hash = ce_settled_tip_hash epoch\<rparr> = si_settled_tip source"

lemma serving_pair_new_Ok:
  assumes "serving_pair_new canonical wallet = Ok pair"
  shows "pair_canonical pair = canonical" "pair_wallet pair = wallet"
    "pair_wallet_source pair = source_identity_from_ready_evidence (wr_ready_evidence wallet)"
    "\<exists>epoch. cr_chain_epoch canonical = Ok epoch \<and> epoch_names_source epoch (pair_wallet_source pair) \<and>
       ce_network epoch = wr_network wallet"
proof -
  have valid: "validate_readers canonical wallet = Ok ()" and pair: "pair =
      \<lparr>pair_canonical = canonical, pair_wallet = wallet, pair_canonical_fence = cr_event_fence canonical,
       pair_wallet_source = source_identity_from_ready_evidence (wr_ready_evidence wallet)\<rparr>"
    using assms by (auto simp: serving_pair_new_def and_then_Ok_iff)
  show "pair_canonical pair = canonical" "pair_wallet pair = wallet"
    "pair_wallet_source pair = source_identity_from_ready_evidence (wr_ready_evidence wallet)"
    by (simp_all add: pair)
  show "\<exists>epoch. cr_chain_epoch canonical = Ok epoch \<and> epoch_names_source epoch (pair_wallet_source pair) \<and>
      ce_network epoch = wr_network wallet"
    using valid
    by (cases "cr_chain_epoch canonical")
      (auto simp: validate_readers_def Let_def pair epoch_names_source_def source_identity_from_ready_evidence_def
        source_position_new_def split: if_splits)
qed

lemma pair_chain_epoch_Ok_iff:
  "pair_chain_epoch pair requested = Ok epoch \<longleftrightarrow>
     cr_chain_epoch (pair_canonical pair) = Ok epoch \<and> (\<forall>r. requested = Some r \<longrightarrow> r = ce_id epoch)"
  by (cases "cr_chain_epoch (pair_canonical pair)") (auto simp: pair_chain_epoch_def split: option.splits)

text \<open>What a pair over a store that follows a chain serves: the ledger of the oracle for that chain.\<close>

lemma served_ledger:
  assumes "store_follows blake2b sha256 stored (genesis_base sha256 root_hash) settled unsettled s"
    and "serving_pair_new canonical (secondary_reader lib s) = Ok pair"
  obtains orc w where "oracle_reaches blake2b sha256 (sc_network (ws_control s)) depth (settled @ unsettled) orc"
    "store_holds blake2b stored s w" "or_ledger orc = mr_ledger (ts_rows w)" "pair_wallet pair = secondary_reader lib s"
    "\<forall>requested epoch. pair_chain_epoch pair requested = Ok epoch \<longrightarrow>
       (case or_last_projected_block orc of None \<Rightarrow> ce_visible_tip_height epoch = 0
        | Some b \<Rightarrow> b = \<lparr>id_height = ce_visible_tip_height epoch, id_hash = ce_visible_tip_hash epoch\<rparr>)"
proof -
  obtain w where follows: "follows blake2b sha256 (sc_network (ws_control s)) (genesis_base sha256 root_hash) settled unsettled w"
    and holds: "store_holds blake2b stored s w"
    using assms(1) by (auto simp: store_follows_def)
  obtain orc where orc: "oracle_reaches blake2b sha256 (sc_network (ws_control s)) depth (settled @ unsettled) orc"
    "or_ledger orc = mr_ledger (ts_rows w)"
    "case or_last_projected_block orc of None \<Rightarrow> id_height (ts_current_tip w) = 0 | Some b \<Rightarrow> b = ts_current_tip w"
    using chain_state_oracle [OF follows_chain_state [OF follows]] by blast
  have "sp_tip (re_source_position (ws_ready_evidence s)) = ts_current_tip w"
    using holds by (simp add: store_holds_def Let_def)
  then have tip: "\<lparr>id_height = ce_visible_tip_height epoch, id_hash = ce_visible_tip_hash epoch\<rparr> = ts_current_tip w"
    if "pair_chain_epoch pair requested = Ok epoch" for requested epoch
    using serving_pair_new_Ok [OF assms(2)] that
    by (auto simp: pair_chain_epoch_Ok_iff epoch_names_source_def source_identity_from_ready_evidence_def secondary_reader_def)
  show thesis
  proof (rule that [OF orc(1) holds orc(2) serving_pair_new_Ok(2) [OF assms(2)]])
    show "\<forall>requested epoch. pair_chain_epoch pair requested = Ok epoch \<longrightarrow>
        (case or_last_projected_block orc of None \<Rightarrow> ce_visible_tip_height epoch = 0
         | Some b \<Rightarrow> b = \<lparr>id_height = ce_visible_tip_height epoch, id_hash = ce_visible_tip_hash epoch\<rparr>)"
      using tip orc(3) by (metis (no_types, lifting) block_id.select_convs(1) option.case_eq_if)
  qed
qed

text \<open>A failure of the wallet database to read, as the service reports it.\<close>

definition wallet_failure :: "query_error \<Rightarrow> bool" where
  "wallet_failure e \<longleftrightarrow> (\<exists>f. e = WalletStore f \<and> read_failure f)"

lemma wallet_store_sim:
  "sim read_failure (\<lambda>_ _. False) R a c \<Longrightarrow> sim wallet_failure (\<lambda>_ _. False) R a (map_err WalletStore c)"
  by (cases a; cases c) (auto simp: wallet_failure_def)

section \<open>A sample pair\<close>

lemma sample_genesis_base: "genesis_base sample_sha256 (filled 0) = sample_base"
  by (simp add: genesis_base_def sample_base_def builder_finish_def builder_new.simps sample_digest_def sample_sha256_def
      sha256_domain_and_bytes_def)

lemma scans_all: "scans (map Inr kvs) kvs"
  by (induction kvs) auto

lemma memory_scans: "scans_stored memory_lib memory_rows"
proof -
  have "finite {k. memory_rows db cf k \<noteq> None \<and> start \<le> k}" for db cf start
  proof -
    have "{k. memory_rows db cf k \<noteq> None \<and> start \<le> k} \<subseteq> snd ` fmdom' (fst db)"
      by (force simp: memory_rows_def image_iff intro: fmdom'I)
    then show ?thesis by (rule finite_subset) simp
  qed
  moreover have "scans (map (\<lambda>k. Inr (k, f k)) ks) (map (\<lambda>k. (k, f k)) ks)" for f :: "u8 list \<Rightarrow> u8 list" and ks
    using scans_all [of "map (\<lambda>k. (k, f k)) ks"] by (simp add: comp_def)
  ultimately show ?thesis
    unfolding scans_stored_def memory_lib_def
    by (intro allI, rule_tac x = "sorted_list_of_set {k. memory_rows db cf k \<noteq> None \<and> start \<le> k}" in exI) simp
qed

definition sample_epoch :: chain_epoch where
  "sample_epoch =
     \<lparr>ce_id = 1, ce_network = ZcashRegtest, ce_visible_tip_height = 1, ce_visible_tip_hash = filled 1,
      ce_settled_tip_height = 1, ce_settled_tip_hash = filled 1, ce_artifact_schema_version = 1,
      ce_tip_metadata = \<lparr>sapling_commitment_tree_size = 200000, orchard_commitment_tree_size = 0,
        ironwood_commitment_tree_size = 0\<rparr>, ce_created_at = 0\<rparr>"

definition sample_blob :: "block_height \<Rightarrow> block_blob_artifact option" where
  "sample_blob h = Some \<lparr>blob_height = h, blob_block_hash = filled 0, blob_parent_hash = filled 0, blob_raw_block_bytes = []\<rparr>"

definition sample_reader :: "unit canonical_reader" where
  "sample_reader =
     \<lparr>cr_raw_blob_retention = RetainAll, cr_network = ZcashRegtest,
      cr_event_fence = \<lparr>fence_chain_epoch_id = 1, fence_chain_event_sequence = 1, fence_visible_tip = sample_tip,
        fence_sequence_digest = sample_digest 1\<rparr>,
      cr_chain_epoch = Ok sample_epoch, cr_block_header_at = (\<lambda>_. Ok None), cr_block_hash_lookup = (\<lambda>_. Ok NotIndexed),
      cr_compact_block_at = (\<lambda>_. Ok None), cr_compact_blocks_in_range = (\<lambda>_. Ok []),
      cr_block_blob_at = (\<lambda>h. Ok (sample_blob h)),
      cr_block_blobs_in_range = (\<lambda>r. Ok (map sample_blob (range_heights r))),
      cr_transaction_location = (\<lambda>_. Ok None), cr_transaction_blob = (\<lambda>_. Ok None), cr_subtree_roots = (\<lambda>_. Ok [])\<rparr>"

definition sample_pair :: "unit serving_pair" where
  "sample_pair =
     \<lparr>pair_canonical = sample_reader, pair_wallet = secondary_reader memory_lib sample_store,
      pair_canonical_fence = cr_event_fence sample_reader, pair_wallet_source = sample_source\<rparr>"

lemma sample_pair_admitted: "serving_pair_new sample_reader (secondary_reader memory_lib sample_store) = Ok sample_pair"
  by (simp add: serving_pair_new_def validate_readers_def sample_reader_def secondary_reader_def sample_network Let_def
      sample_epoch_def sample_tip_def sample_store_evidence sample_evidence_def source_identity_from_ready_evidence_def
      sample_position_def sample_pair_def sample_source_def)

lemma sample_chain_epoch: "pair_chain_epoch sample_pair None = Ok sample_epoch"
  by (simp add: pair_chain_epoch_def sample_pair_def sample_reader_def)

section \<open>Unspent outputs\<close>

lemma output_at_unspent_key:
  assumes "ledger_inv blake2b network l" and "k \<in> unspent_keys l a"
  shows "fmlookup (lg_unspent_outputs l) (outpoint_key_new (uo_outpoint (output_at_key l k))) = Some (output_at_key l k)"
    "address_unspent_key_new (output_at_key l k) = k" "uo_address_script_hash (output_at_key l k) = a"
proof -
  obtain u x where u: "k = address_unspent_key_new u" "fmlookup (lg_unspent_outputs l) x = Some u" "uo_address_script_hash u = a"
    using assms(2) by (auto simp: unspent_keys_def)
  have "x = outpoint_key_new (uo_outpoint u)" using assms(1) u(2) unfolding ledger_inv_def by blast
  then have "output_at_key l k = u" using u by (simp add: output_at_key_def)
  with u \<open>x = _\<close> show "fmlookup (lg_unspent_outputs l) (outpoint_key_new (uo_outpoint (output_at_key l k))) = Some (output_at_key l k)"
    "address_unspent_key_new (output_at_key l k) = k" "uo_address_script_hash (output_at_key l k) = a" by simp_all
qed

lemma remaining_unspent_outputs:
  fixes a start
  assumes "ledger_inv blake2b network l"
  defines "us \<equiv> map (output_at_key l) (remaining_unspent l a start None)"
  shows "sorted_wrt (<) (map address_unspent_key_new us)"
    and "set us = {u. fmlookup (lg_unspent_outputs l) (outpoint_key_new (uo_outpoint u)) = Some u \<and>
      uo_address_script_hash u = a \<and> start \<le> id_height (pos_block (uo_created_at u))}"
proof -
  have set: "set (remaining_unspent l a start None) = {k \<in> unspent_keys l a. start \<le> unspent_key_creation_height k}"
    by (simp add: remaining_unspent_def)
  have "map address_unspent_key_new us = remaining_unspent l a start None"
    using output_at_unspent_key(2) [OF assms(1)] set by (auto simp: us_def intro!: map_idI)
  then show "sorted_wrt (<) (map address_unspent_key_new us)"
    by (simp add: remaining_unspent_def)
  show "set us = {u. fmlookup (lg_unspent_outputs l) (outpoint_key_new (uo_outpoint u)) = Some u \<and>
      uo_address_script_hash u = a \<and> start \<le> id_height (pos_block (uo_created_at u))}" (is "_ = ?R")
  proof (intro equalityI subsetI)
    fix u assume "u \<in> set us"
    then obtain k where k: "k \<in> unspent_keys l a" "start \<le> unspent_key_creation_height k" "u = output_at_key l k"
      by (auto simp: us_def set)
    note at = output_at_unspent_key [OF assms(1) k(1), folded k(3)]
    then show "u \<in> ?R" using k(2) at(2) [symmetric] by simp
  next
    fix u assume u: "u \<in> ?R"
    then have "address_unspent_key_new u \<in> unspent_keys l a" by (auto simp: unspent_keys_def)
    moreover have "output_at_key l (address_unspent_key_new u) = u" using u by (simp add: output_at_key_def)
    ultimately show "u \<in> set us" using u by (auto simp: us_def set image_iff intro!: bexI [of _ "address_unspent_key_new u"])
  qed
qed

text \<open>
  C16: the request for the unspent outputs of an address ends, whatever the number of pages it takes. Its
  answer is a refused epoch pin, a failure of the canonical or the wallet database to read, or the
  outputs of the address from the start height on, each once and in key order, that the serial oracle
  holds after the blocks of the chain the wallet store follows; the epoch it names is the tip of these
  blocks.
\<close>

theorem unspent_outputs_served_completely:
  assumes "rocksdb_lawful lib stored" and "scans_stored lib stored"
    and "store_follows blake2b sha256 stored (genesis_base sha256 root_hash) settled unsettled s"
    and "serving_pair_new canonical (secondary_reader lib s) = Ok pair"
  shows "\<exists>orc r. oracle_reaches blake2b sha256 (sc_network (ws_control s)) depth (settled @ unsettled) orc \<and>
     transparent_address_unspent_outputs pair request at_epoch_id = Some r \<and>
     (case r of
        Inl e \<Rightarrow> pair_chain_epoch pair at_epoch_id = Err e \<or> wallet_failure e
      | Inr (outputs, epoch) \<Rightarrow>
          pair_chain_epoch pair at_epoch_id = Ok epoch \<and>
          (case or_last_projected_block orc of None \<Rightarrow> ce_visible_tip_height epoch = 0
           | Some b \<Rightarrow> b = \<lparr>id_height = ce_visible_tip_height epoch, id_hash = ce_visible_tip_hash epoch\<rparr>) \<and>
          (\<exists>us. outputs = map transparent_unspent_output_new us \<and> sorted_wrt (<) (map address_unspent_key_new us) \<and>
             set us = {u. find_unspent_output (uo_outpoint u) orc = Some u \<and>
               uo_address_script_hash u = ur_address_script_hash request \<and>
               ur_start_height request \<le> id_height (pos_block (uo_created_at u))}))"
proof -
  obtain orc w where orc: "oracle_reaches blake2b sha256 (sc_network (ws_control s)) depth (settled @ unsettled) orc"
    and holds: "store_holds blake2b stored s w" and ledger: "or_ledger orc = mr_ledger (ts_rows w)"
    and wallet: "pair_wallet pair = secondary_reader lib s"
    and tip: "\<forall>requested epoch. pair_chain_epoch pair requested = Ok epoch \<longrightarrow>
       (case or_last_projected_block orc of None \<Rightarrow> ce_visible_tip_height epoch = 0
        | Some b \<Rightarrow> b = \<lparr>id_height = ce_visible_tip_height epoch, id_hash = ce_visible_tip_hash epoch\<rparr>)"
    using served_ledger [OF assms(3,4), of depth] .
  let ?l = "or_ledger orc" and ?a = "ur_address_script_hash request" and ?start = "ur_start_height request"
  let ?us = "map (output_at_key ?l) (remaining_unspent ?l ?a ?start None)"
  have inv: "ledger_inv blake2b (sc_network (ws_control s)) ?l"
    unfolding ledger by (rule store_holdsE [OF holds])
  have page: "sim wallet_failure (\<lambda>_ _. False) (=)
      (Ok (page_of id (output_at_key ?l) (unat WALLET_READ_PAGE_SIZE) [] None (remaining_unspent ?l ?a ?start after)))
      (map_err WalletStore (address_unspent_outputs_page_from_height lib s ?a ?start after WALLET_READ_PAGE_SIZE))"
    if "\<And>k. after = Some k \<Longrightarrow> unspent_key_address_script_hash k = ?a" for after
    unfolding ledger using that by (intro wallet_store_sim unspent_page_sim [OF assms(1,2) holds])
  have "0 < unat WALLET_READ_PAGE_SIZE" by (simp add: WALLET_READ_PAGE_SIZE_def unsigned_minus_1_eq_mask mask_eq_exp_minus_1)
  from unspent_walk.collect_pages_walk [OF this, where token = id, unfolded option.map_id, OF page,
      of None transparent_unspent_output_new "[]"]
  obtain r where r: "collect_pages (\<lambda>after. map_err WalletStore (address_unspent_outputs_page_from_height lib s ?a ?start after
        WALLET_READ_PAGE_SIZE)) transparent_unspent_output_new [] None = Some r"
    "sim wallet_failure (\<lambda>_ _. False) (=) (Ok (map transparent_unspent_output_new ?us)) r"
    by auto
  have run: "transparent_address_unspent_outputs pair request at_epoch_id = Some (and_then (pair_chain_epoch pair at_epoch_id)
      (\<lambda>epoch. and_then r (\<lambda>outputs. Ok (outputs, epoch))))"
    using r(1) wallet
    by (cases "pair_chain_epoch pair at_epoch_id") (simp_all add: transparent_address_unspent_outputs_def secondary_reader_def)
  have us: "sorted_wrt (<) (map address_unspent_key_new ?us)"
    "set ?us = {u. find_unspent_output (uo_outpoint u) orc = Some u \<and> uo_address_script_hash u = ?a \<and>
      ?start \<le> id_height (pos_block (uo_created_at u))}"
    using remaining_unspent_outputs [OF inv, of ?a ?start] by (simp_all add: find_unspent_output_def)
  show ?thesis
  proof (intro exI conjI, rule orc, rule run, cases "pair_chain_epoch pair at_epoch_id")
    case (Inr epoch)
    then show "case and_then (pair_chain_epoch pair at_epoch_id) (\<lambda>epoch. and_then r (\<lambda>outputs. Ok (outputs, epoch))) of
        Inl e \<Rightarrow> pair_chain_epoch pair at_epoch_id = Err e \<or> wallet_failure e
      | Inr (outputs, epoch) \<Rightarrow> pair_chain_epoch pair at_epoch_id = Ok epoch \<and>
          (case or_last_projected_block orc of None \<Rightarrow> ce_visible_tip_height epoch = 0
           | Some b \<Rightarrow> b = \<lparr>id_height = ce_visible_tip_height epoch, id_hash = ce_visible_tip_hash epoch\<rparr>) \<and>
          (\<exists>us. outputs = map transparent_unspent_output_new us \<and> sorted_wrt (<) (map address_unspent_key_new us) \<and>
             set us = {u. find_unspent_output (uo_outpoint u) orc = Some u \<and> uo_address_script_hash u = ?a \<and>
               ?start \<le> id_height (pos_block (uo_created_at u))})"
      using r(2) tip us by (cases r) (simp, auto simp del: map_map intro!: exI [of _ ?us])
  qed simp
qed

theorem unspent_outputs_served_completely_witness:
  "\<exists>orc r. oracle_reaches sample_blake2b sample_sha256 ZcashRegtest 5 sample_chain orc \<and>
     transparent_address_unspent_outputs sample_pair \<lparr>ur_address_script_hash = filled 7, ur_start_height = 0\<rparr> None = Some r"
proof -
  from unspent_outputs_served_completely [OF memory_lawful memory_scans sample_store_follows [folded sample_genesis_base]
      sample_pair_admitted, of 5]
  show ?thesis unfolding sample_network append_Nil2 by blast
qed

section \<open>Histories\<close>

text \<open>A client of the history: a request, repeated with the cursor of the response before.\<close>

definition history_client_page ::
    "'c serving_pair \<Rightarrow> tx_ids_request \<Rightarrow> u8 list option \<Rightarrow> query_error + (tx_index_artifact, u8 list) page" where
  "history_client_page pair request cursor =
     and_then (transparent_address_tx_ids_in_range pair (request\<lparr>tr_from_cursor := cursor\<rparr>)) (\<lambda>ids.
     Ok \<lparr>page_rows = ids_artifacts ids, page_next_after = ids_next_cursor ids\<rparr>)"

lemma history_page_size_pos: "0 < unat (history_page_size max_entries)"
  by (auto simp: history_page_size_def Let_def unat_gt_0)

lemma resume_issued:
  "resumable_source source \<Longrightarrow> cursor_resume (cursor_issue source k) source = Ok k"
  by (simp add: cursor_resume_def cursor_decode_issue)

lemma history_client_page_sim:
  assumes lawful: "scans_stored lib stored" and holds: "store_holds blake2b stored s w"
    and wallet: "pair_wallet pair = secondary_reader lib s" and epoch: "pair_chain_epoch pair None = Ok epoch"
    and source: "resumable_source (pair_wallet_source pair)" and ascending: "\<not> tr_descending request"
    and after: "\<And>k. after = Some k \<Longrightarrow> transaction_key_address_script_hash k = tr_address_script_hash request \<and>
      tr_start_height request \<le> transaction_key_block_height k \<and> transaction_key_block_height k \<le> tr_end_height request"
  shows "sim wallet_failure (\<lambda>_ _. False) (=)
    (Ok (page_of (cursor_issue (pair_wallet_source pair)) (tx_index_artifact_of (tr_address_script_hash request) \<circ>
        (\<lambda>k. the (fmlookup (lg_address_transactions (mr_ledger (ts_rows w))) k)))
        (unat (history_page_size (tr_max_entries request))) [] None
        (remaining_history (mr_ledger (ts_rows w)) (tr_address_script_hash request)
          (inclusive (tr_start_height request) (tr_end_height request)) after)))
    (history_client_page pair request (map_option (cursor_issue (pair_wallet_source pair)) after))"
proof -
  let ?a = "tr_address_script_hash request" and ?rng = "inclusive (tr_start_height request) (tr_end_height request)"
  let ?n = "history_page_size (tr_max_entries request)" and ?l = "mr_ledger (ts_rows w)"
  let ?p = "page_of id (\<lambda>k. the (fmlookup (lg_address_transactions ?l) k)) (unat ?n) [] None (remaining_history ?l ?a ?rng after)"
  have page: "sim read_failure (\<lambda>_ _. False) (=) (Ok ?p) (address_transaction_history_range_page lib s ?a ?rng after ?n)"
    using after by (intro history_page_sim [OF lawful holds]) simp
  have valid: "validate_transparent_history_cursor_key k (request\<lparr>tr_from_cursor := c\<rparr>) = Ok ()" if "after = Some k" for k c
    using after [OF that] by (simp add: validate_transparent_history_cursor_key_def Let_def not_less)
  have run: "history_client_page pair request (map_option (cursor_issue (pair_wallet_source pair)) after) =
      and_then (map_err WalletStore (address_transaction_history_range_page lib s ?a ?rng after ?n)) (\<lambda>page.
      Ok \<lparr>page_rows = map (tx_index_artifact_of ?a) (page_rows page),
          page_next_after = map_option (cursor_issue (pair_wallet_source pair)) (page_next_after page)\<rparr>)"
    using ascending epoch valid resume_issued [OF source]
    by (cases after; cases "address_transaction_history_range_page lib s ?a ?rng after ?n")
      (simp_all add: history_client_page_def transparent_address_tx_ids_in_range_def wallet secondary_reader_def)
  show ?thesis
    using page unfolding run
    by (cases "address_transaction_history_range_page lib s ?a ?rng after ?n")
      (auto simp: wallet_failure_def page_of_def)
qed

lemma remaining_history_rows:
  fixes a rng
  assumes "ledger_inv blake2b network l"
  defines "rows \<equiv> map (\<lambda>k. the (fmlookup (lg_address_transactions l) k)) (remaining_history l a rng None)"
  shows "sorted_wrt (<) (map at_key rows)"
    and "set rows = {row. fmlookup (lg_address_transactions l) (at_key row) = Some row \<and>
      transaction_key_address_script_hash (at_key row) = a \<and> range_start rng \<le> transaction_key_block_height (at_key row) \<and>
      transaction_key_block_height (at_key row) \<le> range_end rng}"
proof -
  let ?K = "{k. fmlookup (lg_address_transactions l) k \<noteq> None \<and> transaction_key_address_script_hash k = a \<and>
    transaction_key_block_height k \<le> range_end rng \<and> range_start rng \<le> transaction_key_block_height k}"
  have "?K \<subseteq> fmdom' (lg_address_transactions l)" by (auto simp: fmlookup_dom'_iff)
  then have set: "set (remaining_history l a rng None) = ?K"
    by (simp add: remaining_history_def finite_subset [OF _ finite_fmdom'])
  have key: "at_key e = k" if "fmlookup (lg_address_transactions l) k = Some e" for k e
    using assms(1) that unfolding ledger_inv_def by blast
  have "map at_key rows = remaining_history l a rng None"
    using key set by (auto simp: rows_def intro!: map_idI)
  then show "sorted_wrt (<) (map at_key rows)" by (simp add: remaining_history_def)
  show "set rows = {row. fmlookup (lg_address_transactions l) (at_key row) = Some row \<and>
      transaction_key_address_script_hash (at_key row) = a \<and> range_start rng \<le> transaction_key_block_height (at_key row) \<and>
      transaction_key_block_height (at_key row) \<le> range_end rng}"
  proof (intro equalityI subsetI, goal_cases)
    case (1 row)
    then obtain k where "k \<in> ?K" "row = the (fmlookup (lg_address_transactions l) k)" by (auto simp: rows_def set)
    then show ?case using key [of k row] by auto
  next
    case (2 row)
    then have "at_key row \<in> ?K" "row = the (fmlookup (lg_address_transactions l) (at_key row))" by auto
    then show ?case unfolding rows_def set_map set by blast
  qed
qed

text \<open>
  C17: a client that asks for the history of an address and repeats its request with the cursor of each
  response reaches a response without a cursor. Unless the wallet database fails to read, the responses
  together list every transaction of the address in the requested heights that the serial oracle holds
  for the chain the wallet store follows, each once and in key order: no cursor of an earlier response is
  refused while the pair stays in service.
\<close>

theorem history_cursors_reach_every_transaction:
  assumes "scans_stored lib stored"
    and "store_follows blake2b sha256 stored (genesis_base sha256 root_hash) settled unsettled s"
    and "serving_pair_new canonical (secondary_reader lib s) = Ok pair"
    and "resumable_source (pair_wallet_source pair)" and "\<not> tr_descending request"
  shows "\<exists>orc r. oracle_reaches blake2b sha256 (sc_network (ws_control s)) depth (settled @ unsettled) orc \<and>
     collect_pages (history_client_page pair request) id [] None = Some r \<and>
     (case r of
        Inl e \<Rightarrow> wallet_failure e
      | Inr artifacts \<Rightarrow>
          (\<exists>rows. artifacts = map (tx_index_artifact_of (tr_address_script_hash request)) rows \<and>
             sorted_wrt (<) (map at_key rows) \<and>
             set rows = {row. fmlookup (lg_address_transactions (or_ledger orc)) (at_key row) = Some row \<and>
               transaction_key_address_script_hash (at_key row) = tr_address_script_hash request \<and>
               tr_start_height request \<le> transaction_key_block_height (at_key row) \<and>
               transaction_key_block_height (at_key row) \<le> tr_end_height request}))"
proof -
  obtain orc w where orc: "oracle_reaches blake2b sha256 (sc_network (ws_control s)) depth (settled @ unsettled) orc"
    and holds: "store_holds blake2b stored s w" and ledger: "or_ledger orc = mr_ledger (ts_rows w)"
    and wallet: "pair_wallet pair = secondary_reader lib s"
    using served_ledger [OF assms(2,3), of depth] .
  obtain epoch where epoch: "pair_chain_epoch pair None = Ok epoch"
    using serving_pair_new_Ok(1,4) [OF assms(3)] by (auto simp: pair_chain_epoch_Ok_iff)
  let ?a = "tr_address_script_hash request" and ?rng = "inclusive (tr_start_height request) (tr_end_height request)"
  let ?rows = "map (\<lambda>k. the (fmlookup (lg_address_transactions (or_ledger orc)) k)) (remaining_history (or_ledger orc) ?a ?rng None)"
  have inv: "ledger_inv blake2b (sc_network (ws_control s)) (or_ledger orc)"
    unfolding ledger by (rule store_holdsE [OF holds])
  have page: "sim wallet_failure (\<lambda>_ _. False) (=)
      (Ok (page_of (cursor_issue (pair_wallet_source pair)) (tx_index_artifact_of ?a \<circ>
        (\<lambda>k. the (fmlookup (lg_address_transactions (or_ledger orc)) k))) (unat (history_page_size (tr_max_entries request))) [] None
        (remaining_history (or_ledger orc) ?a ?rng after)))
      (history_client_page pair request (map_option (cursor_issue (pair_wallet_source pair)) after))"
    if "\<And>k. after = Some k \<Longrightarrow> transaction_key_address_script_hash k = ?a \<and>
      range_start ?rng \<le> transaction_key_block_height k \<and> transaction_key_block_height k \<le> range_end ?rng" for after
    unfolding ledger
    by (rule history_client_page_sim [OF assms(1) holds wallet epoch assms(4,5)]) (use that in simp)
  from history_walk.collect_pages_walk [OF history_page_size_pos page, of None id "[]"]
  obtain r where r: "collect_pages (history_client_page pair request) id [] None = Some r"
    "sim wallet_failure (\<lambda>_ _. False) (=) (Ok (map (tx_index_artifact_of ?a) ?rows)) r"
    by (auto simp: comp_def)
  have rows: "r = Inr (map (tx_index_artifact_of ?a) ?rows)" if "r = Inr artifacts" for artifacts using r(2) that by simp
  note remaining_history_rows [OF inv, of ?a ?rng, simplified block_height_range.select_convs]
  then show ?thesis
    using r rows by (intro exI [of _ orc] exI [of _ r] conjI orc) (auto split: sum.split simp del: map_map)
qed

lemma sample_source_resumable: "resumable_source (pair_wallet_source sample_pair)"
  by (simp add: sample_pair_def sample_source_def source_identity_from_ready_evidence_def sample_evidence_def resumable_source_def
      sample_position_def source_position_new_def sample_digest_def sample_tip_def settled_tip_is_within_source_def)

abbreviation sample_request :: tx_ids_request where
  "sample_request \<equiv>
     \<lparr>tr_address_script_hash = filled 7, tr_start_height = 0, tr_end_height = 10, tr_max_entries = 2, tr_from_cursor = None,
      tr_descending = False\<rparr>"

theorem history_cursors_reach_every_transaction_witness:
  "\<exists>orc r. oracle_reaches sample_blake2b sample_sha256 ZcashRegtest 5 sample_chain orc \<and>
     collect_pages (history_client_page sample_pair sample_request) id [] None = Some r"
proof -
  have "\<not> tr_descending sample_request" by simp
  from history_cursors_reach_every_transaction [OF memory_scans sample_store_follows [folded sample_genesis_base]
      sample_pair_admitted sample_source_resumable this, of 5]
  show ?thesis unfolding sample_network append_Nil2 by blast
qed

text \<open>
  C35: a history cursor serves only the pair whose source issued it. A request whose cursor was issued for
  another source (another epoch, tip, event sequence, digest or settled tip) is refused with the epoch of
  the cursor, whatever the key, so that pages of two forks are never combined.
\<close>

theorem history_cursor_bound_to_source:
  assumes "resumable_source source" and "source \<noteq> pair_wallet_source pair" and "\<not> tr_descending request"
    and "tr_from_cursor request = Some (cursor_issue source key)" and "pair_chain_epoch pair None = Ok epoch"
  shows "transparent_address_tx_ids_in_range pair request =
    Err (ChainEpochPinUnavailable (sp_chain_epoch_id (si_source_position source)))"
  using assms by (simp add: transparent_address_tx_ids_in_range_def cursor_resume_def cursor_decode_issue)

definition sample_other_source :: canonical_source_identity where
  "sample_other_source = sample_source\<lparr>si_source_position := source_position_new 2 sample_tip 2\<rparr>"

theorem history_cursor_bound_to_source_witness:
  "transparent_address_tx_ids_in_range sample_pair (sample_request\<lparr>tr_from_cursor := Some (cursor_issue sample_other_source (filled 7))\<rparr>) =
    Err (ChainEpochPinUnavailable 2)"
proof -
  have "resumable_source sample_other_source"
    by (simp add: sample_other_source_def sample_source_def source_identity_from_ready_evidence_def sample_evidence_def
        resumable_source_def source_position_new_def sample_digest_def sample_tip_def settled_tip_is_within_source_def)
  moreover have "sample_other_source \<noteq> pair_wallet_source sample_pair"
    by (simp add: sample_other_source_def sample_pair_def sample_source_def source_identity_from_ready_evidence_def
        sample_evidence_def sample_position_def source_position_new_def)
  moreover have "sp_chain_epoch_id (si_source_position sample_other_source) = 2"
    by (simp add: sample_other_source_def source_position_new_def)
  ultimately show ?thesis
    using history_cursor_bound_to_source [of sample_other_source sample_pair
        "sample_request\<lparr>tr_from_cursor := Some (cursor_issue sample_other_source (filled 7))\<rparr>" "filled 7" sample_epoch]
      sample_chain_epoch by simp
qed

text \<open>
  The start height of a request also bounds the cursor that comes with it: a cursor whose key lies below
  it is refused, although it was issued for the same pair and address.
\<close>

lemma history_start_height_limits_cursor:
  assumes "resumable_source (pair_wallet_source pair)" and "\<not> tr_descending request"
    and "tr_from_cursor request = Some (cursor_issue (pair_wallet_source pair) key)" and "pair_chain_epoch pair None = Ok epoch"
    and "transaction_key_address_script_hash key = tr_address_script_hash request"
    and "transaction_key_block_height key < tr_start_height request"
  shows "transparent_address_tx_ids_in_range pair request =
    Err (TransparentHistoryCursorInvalid ''cursor height is outside request range'')"
  using assms by (simp add: transparent_address_tx_ids_in_range_def resume_issued validate_transparent_history_cursor_key_def Let_def)

section \<open>Balances\<close>







section \<open>Point reads\<close>

text \<open>
  C38: a point read of a wallet store that follows a chain over the genesis state returns what the serial
  oracle finds after the blocks of that chain, for unspent outputs, spent outputs and balances; it can
  fail only because the database cannot be read.
\<close>

theorem point_reads_agree_with_oracle:
  assumes "rocksdb_lawful lib stored"
    and "store_follows blake2b sha256 stored (genesis_base sha256 root_hash) settled unsettled s"
  shows "\<exists>orc. oracle_reaches blake2b sha256 (sc_network (ws_control s)) depth (settled @ unsettled) orc \<and>
     (\<forall>p. case store_find_unspent_output lib s p of Inl e \<Rightarrow> read_failure e | Inr found \<Rightarrow> found = find_unspent_output p orc) \<and>
     (\<forall>p. case store_find_spent_output lib s p of Inl e \<Rightarrow> read_failure e | Inr found \<Rightarrow> found = find_spent_output p orc) \<and>
     (\<forall>a. case store_address_balance lib s a of Inl e \<Rightarrow> read_failure e | Inr zat \<Rightarrow> zat = oracle_address_balance a orc)"
proof -
  obtain w where follows: "follows blake2b sha256 (sc_network (ws_control s)) (genesis_base sha256 root_hash) settled unsettled w"
    and holds: "store_holds blake2b stored s w"
    using assms(2) by (auto simp: store_follows_def)
  obtain orc where orc: "oracle_reaches blake2b sha256 (sc_network (ws_control s)) depth (settled @ unsettled) orc"
    "or_ledger orc = mr_ledger (ts_rows w)"
    using chain_state_oracle [OF follows_chain_state [OF follows]] by blast
  have read: "sim read_failure (\<lambda>_ _. False) (=) (Ok x) c \<Longrightarrow>
      (\<forall>e. c = Inl e \<longrightarrow> read_failure e) \<and> (\<forall>y. c = Inr y \<longrightarrow> y = x)" for x c
    by (cases c) auto
  have "find_unspent_output p orc = fmlookup (lg_unspent_outputs (mr_ledger (ts_rows w))) (outpoint_key_new p)"
    "find_spent_output p orc = fmlookup (lg_spent_outputs (mr_ledger (ts_rows w))) (outpoint_key_new p)"
    "oracle_address_balance a orc = balance_of a (lg_balance_by_address (mr_ledger (ts_rows w)))" for p a
    by (simp_all add: find_unspent_output_def find_spent_output_def oracle_address_balance_def balance_of_def orc(2))
  then show ?thesis
    using orc(1) read [OF find_unspent_sim [OF assms(1) holds]] read [OF find_spent_sim [OF assms(1) holds]]
      read [OF address_balance_sim [OF assms(1) holds]]
    by (intro exI [of _ orc]) (simp split: sum.splits)
qed

theorem point_reads_agree_with_oracle_witness:
  "\<exists>orc. oracle_reaches sample_blake2b sample_sha256 ZcashRegtest 5 sample_chain orc \<and>
     store_address_balance memory_lib sample_store (filled 7) = Ok (oracle_address_balance (filled 7) orc)"
proof -
  have "\<exists>zat. store_address_balance memory_lib sample_store (filled 7) = Ok zat"
    by (simp add: store_address_balance_def read_optional_def column_family_def memory_lib_def memory_rows_def sample_store_def
        decode_row_def Let_def)
  then show ?thesis
    using point_reads_agree_with_oracle [OF memory_lawful sample_store_follows [folded sample_genesis_base], of 5]
    by (auto simp: sample_network split: sum.splits)
qed

section \<open>Streams and bounded reads\<close>

text \<open>
  C39: the stream of a full-block range ends, also at the last height of the 32-bit domain. When the reads
  of the canonical store succeed, a client that takes every message receives the blocks of the range in
  ascending height, each once, up to the first height whose block is not retained, which is reported; a
  client that goes away has received a prefix of these messages. No stream has more than a thousand.
\<close>

theorem full_block_stream_in_order:
  assumes "reads_blobs (pair_canonical pair) blob_at" and "\<And>r. join_error r = None"
    and "sender_lawful send sent" and "sent ch = []"
    and "full_blocks_in_range join_error send pair block_range at_epoch_id ch = Ok (ch', epoch)"
  shows "(\<exists>rest. block_stream blob_at (map of_nat [unat (range_start block_range) ..< Suc (unat (range_end block_range))]) =
            sent ch' @ rest) \<and>
         ((\<forall>message ch. fst (send message ch)) \<longrightarrow>
            sent ch' = block_stream blob_at (map of_nat [unat (range_start block_range) ..< Suc (unat (range_end block_range))])) \<and>
         length (sent ch') \<le> 1000"
proof -
  have range: "range_start block_range \<le> range_end block_range" "range_iter_len (into_iter block_range) \<le> 1000"
    and ch': "ch' = drive_full_block_range join_error send pair (range_end block_range) (range_start block_range) ch"
    using assms(5) by (auto simp: full_blocks_in_range_def and_then_Ok_iff validate_block_range_def Let_def
        DEFAULT_MAX_FULL_BLOCK_RANGE_def not_less not_le split: if_splits)
  have "received send (sent ch) (block_stream blob_at (range_heights block_range)) (sent ch')"
    using drive_received [where join_error = join_error, OF assms(1-3) range(1), of ch] by (simp add: ch' range_heights_upt)
  then have stream: "\<exists>rest. block_stream blob_at (range_heights block_range) = sent ch' @ rest"
    "(\<forall>message ch. fst (send message ch)) \<longrightarrow> sent ch' = block_stream blob_at (range_heights block_range)"
    using assms(4) by (simp_all add: received_def)
  have "length (block_stream blob_at hs) \<le> length hs" for hs by (induction hs) (auto split: option.splits)
  moreover have "length (range_heights block_range) \<le> 1000" using range(2) by (simp add: range_iter_len_into_iter)
  ultimately have "length (block_stream blob_at (range_heights block_range)) \<le> 1000" by (rule order.trans)
  then have "length (sent ch') \<le> 1000" using stream(1) by auto
  then show ?thesis using stream by (simp add: range_heights_upt)
qed

text \<open>A channel whose receiver takes a given number of messages.\<close>

definition bounded_send :: "(nat \<times> (query_error + block_blob_artifact) list) block_sender" where
  "bounded_send message ch = (if length (snd ch) < fst ch then (True, (fst ch, snd ch @ [message])) else (False, ch))"

lemma bounded_send_lawful: "sender_lawful bounded_send snd"
  by (simp add: sender_lawful_def bounded_send_def)

lemma sample_retention: "cr_raw_blob_retention (pair_canonical sample_pair) = RetainAll"
  by (simp add: sample_pair_def sample_reader_def)

theorem full_block_stream_in_order_witness:
  "\<exists>ch rest. full_blocks_in_range (\<lambda>_. None) bounded_send sample_pair (inclusive (- 3) (- 1)) None (2, []) = Ok (ch, sample_epoch) \<and>
     [Ok (the (sample_blob (- 3))), Ok (the (sample_blob (- 2))), Ok (the (sample_blob (- 1)))] = snd ch @ rest"
proof -
  have blobs: "reads_blobs (pair_canonical sample_pair) sample_blob"
    by (simp add: reads_blobs_def sample_pair_def sample_reader_def)
  have "\<exists>ch. full_blocks_in_range (\<lambda>_. None) bounded_send sample_pair (inclusive (- 3) (- 1)) None (2, []) = Ok (ch, sample_epoch)"
    by (simp add: full_blocks_in_range_def validate_block_range_def sample_chain_epoch Let_def range_iter_len_def into_iter_def
        saturating_add_def saturating_sub_def checked_add_def DEFAULT_MAX_FULL_BLOCK_RANGE_def sample_retention retains_block_blobs_def)
  then obtain ch where run: "full_blocks_in_range (\<lambda>_. None) bounded_send sample_pair (inclusive (- 3) (- 1)) None (2, []) =
      Ok (ch, sample_epoch)" by blast
  from full_block_stream_in_order [OF blobs _ bounded_send_lawful _ run]
  obtain rest where "block_stream sample_blob (map of_nat [unat (- 3 :: u32) ..< Suc (unat (- 1 :: u32))]) = snd ch @ rest" by auto
  moreover have "map of_nat [unat (- 3 :: u32) ..< Suc (unat (- 1 :: u32))] = [- 3, - 2, - 1 :: u32]"
    by (simp add: upt_rec unsigned_minus_1_eq_mask mask_eq_exp_minus_1)
  ultimately show ?thesis using run by (auto simp: sample_blob_def)
qed

text \<open>
  C40: what a request for subtree roots reads is bounded. The range it reads starts where the request
  starts, is not empty, has at most 1024 entries and no more than requested, and ends at or before the
  number of subtrees completed at the tip of the epoch; a request beyond that number is answered with no
  roots and without a read.
\<close>

theorem subtree_root_reads_bounded:
  assumes "pair_chain_epoch pair at_epoch_id = Ok epoch" and "srr_max_entries r \<noteq> 0"
  shows "(\<exists>entries. 0 < entries \<and> unat entries \<le> 1024 \<and> entries \<le> srr_max_entries r \<and>
            unat (srr_start_index r) + unat entries \<le> unat (commitment_tree_size (ce_tip_metadata epoch) (srr_protocol r)) div 65536 \<and>
            subtree_roots pair r at_epoch_id =
              and_then (map_err CanonicalStore (cr_subtree_roots (pair_canonical pair) (r\<lparr>srr_max_entries := entries\<rparr>)))
                (\<lambda>roots. Ok (roots, epoch))) \<or>
         (subtree_roots pair r at_epoch_id = Ok ([], epoch) \<and>
            unat (commitment_tree_size (ce_tip_metadata epoch) (srr_protocol r)) div 65536 \<le> unat (srr_start_index r)) \<or>
         (subtree_roots pair r at_epoch_id = Err (SubtreeRootRangeTooLarge (srr_max_entries r) 1024) \<and>
            1024 < unat (srr_max_entries r))"
proof -
  let ?completed = "completed_subtree_count (ce_tip_metadata epoch) (srr_protocol r)"
  let ?entries = "min (saturating_sub ?completed (srr_start_index r)) (srr_max_entries r)"
  have completed: "unat ?completed = unat (commitment_tree_size (ce_tip_metadata epoch) (srr_protocol r)) div 65536"
    by (simp add: completed_subtree_count_def SUBTREE_LEAF_COUNT_def unat_div)
  consider "1024 < unat (srr_max_entries r)" | "unat (srr_max_entries r) \<le> 1024" "?completed \<le> srr_start_index r"
    | "unat (srr_max_entries r) \<le> 1024" "srr_start_index r < ?completed" by (metis not_le)
  then show ?thesis
  proof cases
    case 1
    then show ?thesis
      by (simp add: subtree_roots_def validate_subtree_root_range_def Let_def MAX_SUBTREE_ROOTS_PER_REQUEST_def word_less_nat_alt)
  next
    case 2
    then show ?thesis
      using completed assms(1) by (simp add: subtree_roots_def validate_subtree_root_range_def Let_def MAX_SUBTREE_ROOTS_PER_REQUEST_def
          word_less_nat_alt word_le_nat_alt)
  next
    case 3
    have sub: "unat (saturating_sub ?completed (srr_start_index r)) = unat ?completed - unat (srr_start_index r)"
      by (simp add: unat_saturating_sub)
    have "unat ?entries \<le> unat (srr_max_entries r)" "unat ?entries \<le> unat ?completed - unat (srr_start_index r)"
      using sub by (auto simp: min_def word_le_nat_alt)
    moreover have nonzero: "?entries \<noteq> 0"
      using assms(2) 3(2) sub by (auto simp: min_def word_less_nat_alt split: if_splits)
    moreover have "subtree_roots pair r at_epoch_id = and_then (map_err CanonicalStore (cr_subtree_roots (pair_canonical pair)
        (r\<lparr>srr_max_entries := ?entries\<rparr>))) (\<lambda>roots. Ok (roots, epoch))"
    proof -
      have "\<not> ?completed \<le> srr_start_index r" "\<not> MAX_SUBTREE_ROOTS_PER_REQUEST < srr_max_entries r"
        using 3 by (simp_all add: MAX_SUBTREE_ROOTS_PER_REQUEST_def word_less_nat_alt not_le)
      then show ?thesis using assms(1) nonzero by (simp add: subtree_roots_def validate_subtree_root_range_def Let_def)
    qed
    ultimately show ?thesis
      using 3 completed
      by (intro disjI1 exI [of _ ?entries]) (auto simp: word_le_nat_alt word_less_nat_alt unat_gt_0)
  qed
qed

theorem subtree_root_reads_bounded_witness:
  "\<exists>entries. 0 < entries \<and> unat entries \<le> 2 \<and>
     subtree_roots sample_pair \<lparr>srr_protocol = Sapling, srr_start_index = 1, srr_max_entries = 10\<rparr> None =
       and_then (map_err CanonicalStore (cr_subtree_roots (pair_canonical sample_pair)
         \<lparr>srr_protocol = Sapling, srr_start_index = 1, srr_max_entries = entries\<rparr>)) (\<lambda>roots. Ok (roots, sample_epoch))"
  using subtree_root_reads_bounded [OF sample_chain_epoch, of "\<lparr>srr_protocol = Sapling, srr_start_index = 1, srr_max_entries = 10\<rparr>"]
  by (auto simp: sample_epoch_def)

end
