(* ===== verification/Build_Lease.thy ===== *)
theory Build_Lease
  imports Event_Transitions "HOL-Library.Char_ord"
begin

text \<open>
  The BUILDING wallet store and its lease (\<open>zinder-wallet-rocksdb/src/store.rs\<close>, \<open>build.rs\<close>): creating
  and reopening the store, acquiring, renewing and releasing the durable build lease, the heartbeat of a
  running build, the release after a failed build, and the publication of READY evidence. Every
  operation opens the database, reads the control record, and replaces it in one synchronous write.
\<close>

section \<open>The disk\<close>

text \<open>
  What the store uses of the file system and of RocksDB besides reading and writing an open database.
  The database of the state \<open>'d\<close> is the one at the path of the store.
\<close>

datatype rocksdb_io_mode = DirectIo | BufferedIo

text \<open>A secondary has a metadata path of its own; the path of the store is an argument of the operations.\<close>

datatype rocksdb_open_role = Primary | ExistingPrimary | Secondary string

record 'd host =
  host_parent :: "string \<Rightarrow> string option"
  host_create_dir_all :: "string \<Rightarrow> 'd \<Rightarrow> (io_error + unit) \<times> 'd"
  host_create_dir :: "string \<Rightarrow> 'd \<Rightarrow> (io_error + unit) \<times> 'd"
  host_canonicalize :: "string \<Rightarrow> 'd \<Rightarrow> (io_error + string) \<times> 'd"
  host_exists :: "string \<Rightarrow> 'd \<Rightarrow> bool"
  host_remove_dir_all :: "string \<Rightarrow> 'd \<Rightarrow> (io_error + unit) \<times> 'd"
  host_list_cf :: "string \<Rightarrow> 'd \<Rightarrow> (rocksdb_error + string list) \<times> 'd"
  host_open_cf :: "rocksdb_open_role \<Rightarrow> rocksdb_io_mode \<Rightarrow> string \<Rightarrow> 'd \<Rightarrow> (rocksdb_error + unit) \<times> 'd"

text \<open>A database is opened with direct I/O, and with buffered I/O when that fails.\<close>

definition open_bounded_rocksdb ::
    "'d host \<Rightarrow> rocksdb_open_role \<Rightarrow> string \<Rightarrow> 'd \<Rightarrow> (rocksdb_error + rocksdb_io_mode) \<times> 'd" where
  "open_bounded_rocksdb host role path db =
     db_then (if role = ExistingPrimary then db_then (host_list_cf host path db) (\<lambda>_ db. (Ok (), db)) else (Ok (), db))
       (\<lambda>_ db.
     case host_open_cf host role DirectIo path db of
       (Inr _, db) \<Rightarrow> (Ok DirectIo, db)
     | (Inl direct_error, db) \<Rightarrow>
         db_then (host_open_cf host role BufferedIo path db) (\<lambda>_ db. (Ok BufferedIo, db)))"

section \<open>The resource budget\<close>

datatype rocksdb_statistics_level = StatisticsOff | StatisticsTickers | StatisticsFull

record rocksdb_resource_budget =
  rb_block_cache_bytes :: u64
  rb_max_wal_bytes :: u64
  rb_max_open_files :: i32
  rb_write_buffer_bytes :: u64
  rb_max_write_buffer_count :: i32
  rb_max_background_jobs :: i32
  rb_memtable_budget_bytes :: u64
  rb_statistics_level :: rocksdb_statistics_level

definition MIB :: u64 where
  "MIB = 1024 * 1024"

definition resource_budget_validate :: "rocksdb_resource_budget \<Rightarrow> string + unit" where
  "resource_budget_validate b =
     (if rb_block_cache_bytes b < 4 * MIB
      then Err ''rocksdb_resource_budget.block_cache_bytes must be at least 4 MiB''
      else if rb_max_wal_bytes b < 4 * MIB
      then Err ''rocksdb_resource_budget.max_wal_bytes must be at least 4 MiB; zero disables RocksDB's WAL-size flush trigger''
      else if sint (rb_max_open_files b) < 32
      then Err ''rocksdb_resource_budget.max_open_files must be at least 32; negative values pin every SST's metadata in resident memory''
      else if rb_write_buffer_bytes b < 4 * MIB
      then Err ''rocksdb_resource_budget.write_buffer_bytes must be at least 4 MiB''
      else if sint (rb_max_write_buffer_count b) < 2
      then Err ''rocksdb_resource_budget.max_write_buffer_count must be at least 2''
      else if sint (rb_max_background_jobs b) < 2
      then Err ''rocksdb_resource_budget.max_background_jobs must be at least 2''
      else if rb_memtable_budget_bytes b < 4 * MIB
      then Err ''rocksdb_resource_budget.memtable_budget_bytes must be at least 4 MiB''
      else Ok ())"

definition validate_resource_budget :: "rocksdb_resource_budget \<Rightarrow> wallet_error + unit" where
  "validate_resource_budget budget = map_err InvalidResourceBudget (resource_budget_validate budget)"

section \<open>Admission\<close>

definition WALLET_DATA_COLUMN_FAMILIES :: "string list" where
  "WALLET_DATA_COLUMN_FAMILIES =
     [TRANSPARENT_UNSPENT_OUTPUT_COLUMN_FAMILY, TRANSPARENT_UNSPENT_OUTPUT_BY_ADDRESS_COLUMN_FAMILY,
      TRANSPARENT_SPENT_OUTPUT_COLUMN_FAMILY, TRANSPARENT_ADDRESS_TRANSACTION_COLUMN_FAMILY,
      TRANSPARENT_ADDRESS_BALANCE_COLUMN_FAMILY, REORG_UNDO_COLUMN_FAMILY]"

definition required_column_family_names :: "string list" where
  "required_column_family_names = ''default'' # WALLET_DATA_COLUMN_FAMILIES"

definition require_exact_column_families :: "'d host \<Rightarrow> string \<Rightarrow> 'd \<Rightarrow> (wallet_error + unit) \<times> 'd" where
  "require_exact_column_families host path db =
     db_then (db_map_err (RocksDbOperation ''column-family admission'') (host_list_cf host path db)) (\<lambda>observed db.
     let expected = sort required_column_family_names; observed = sort observed in
     (if expected \<noteq> observed then Err (ColumnFamilyContractMismatch expected observed) else Ok (), db))"

definition require_building_control :: "store_control \<Rightarrow> string \<Rightarrow> network \<Rightarrow> wallet_error + unit" where
  "require_building_control control store_path expected_network =
     (if sc_network control \<noteq> expected_network
      then Err (NetworkMismatch expected_network (sc_network control))
      else case sc_build_state control of
        Building _ \<Rightarrow> Ok ()
      | Ready _ \<Rightarrow> Err (StoreNotReady store_path))"

definition write_control_sync ::
    "blake2b_fn \<Rightarrow> 'd rocksdb \<Rightarrow> store_control \<Rightarrow> 'd \<Rightarrow> (wallet_error + unit) \<times> 'd" where
  "write_control_sync blake2b lib control db =
     (case map_err Contract (control_encode blake2b control) of
        Inl e \<Rightarrow> (Err e, db)
      | Inr encoded \<Rightarrow>
          db_map_err (RocksDbOperation ''control publication'')
            (rdb_write_opt lib [Put WALLET_STORE_CONTROL_KEY encoded] db))"

text \<open>Every replacement of the control record is read back and compared.\<close>

definition replace_control ::
    "blake2b_fn \<Rightarrow> 'd rocksdb \<Rightarrow> string \<Rightarrow> store_control \<Rightarrow> 'd \<Rightarrow> (wallet_error + unit) \<times> 'd" where
  "replace_control blake2b lib reason next_control db =
     db_then (write_control_sync blake2b lib next_control db) (\<lambda>_ db.
     (and_then (decode_only_control blake2b lib db) (\<lambda>persisted.
      if persisted \<noteq> next_control then Err (AdmissionChanged reason) else Ok ()), db))"

section \<open>The build store\<close>

record wallet_build_store =
  bs_store_path :: string
  bs_resource_budget :: rocksdb_resource_budget
  bs_network :: network

definition create_fresh_directory :: "'d host \<Rightarrow> string \<Rightarrow> 'd \<Rightarrow> (wallet_error + unit) \<times> 'd" where
  "create_fresh_directory host path db =
     db_then
       (case host_parent host path of
          None \<Rightarrow> (Ok (), db)
        | Some parent \<Rightarrow>
            if parent = [] then (Ok (), db)
            else db_map_err (PathUnavailable parent) (host_create_dir_all host parent db))
       (\<lambda>_ db.
     case host_create_dir host path db of
       (Inr _, db) \<Rightarrow> (Ok (), db)
     | (Inl source, db) \<Rightarrow>
         (Err (if io_kind source = AlreadyExists then PathNotFresh path else PathUnavailable path source), db))"

definition build_store_create_fresh ::
    "blake2b_fn \<Rightarrow> 'd rocksdb \<Rightarrow> 'd host \<Rightarrow> string \<Rightarrow> network \<Rightarrow> canonical_source_identity \<Rightarrow> u32 \<Rightarrow>
       rocksdb_resource_budget \<Rightarrow> 'd \<Rightarrow> (wallet_error + wallet_build_store) \<times> 'd" where
  "build_store_create_fresh blake2b lib host path network target_source supported_reorg_depth budget db =
     db_then (validate_resource_budget budget, db) (\<lambda>_ db.
     db_then (create_fresh_directory host path db) (\<lambda>_ db.
     db_then (db_map_err (PathUnavailable path) (host_canonicalize host path db)) (\<lambda>store_path db.
     db_then (db_map_err (RocksDbOperation ''fresh build-store open'') (open_bounded_rocksdb host Primary store_path db))
       (\<lambda>_ db.
     db_then (write_control_sync blake2b lib
        \<lparr>sc_network = network, sc_supported_reorg_depth = supported_reorg_depth, sc_writer_generation = 0,
         sc_build_lease = None, sc_build_state = Building (si_source_position target_source)\<rparr> db) (\<lambda>_ db.
     (Ok \<lparr>bs_store_path = store_path, bs_resource_budget = budget, bs_network = network\<rparr>, db))))))"

definition build_store_open ::
    "blake2b_fn \<Rightarrow> 'd rocksdb \<Rightarrow> 'd host \<Rightarrow> string \<Rightarrow> network \<Rightarrow> rocksdb_resource_budget \<Rightarrow> 'd \<Rightarrow>
       (wallet_error + wallet_build_store) \<times> 'd" where
  "build_store_open blake2b lib host path expected_network budget db =
     db_then (validate_resource_budget budget, db) (\<lambda>_ db.
     db_then (db_map_err (PathUnavailable path) (host_canonicalize host path db)) (\<lambda>store_path db.
     db_then (require_exact_column_families host store_path db) (\<lambda>_ db.
     db_then (db_map_err (RocksDbOperation ''build-store reopen'') (open_bounded_rocksdb host ExistingPrimary store_path db))
       (\<lambda>_ db.
     db_then (decode_only_control blake2b lib db, db) (\<lambda>control db.
     db_then (require_building_control control store_path expected_network, db) (\<lambda>_ db.
     (Ok \<lparr>bs_store_path = store_path, bs_resource_budget = budget, bs_network = expected_network\<rparr>, db)))))))"

definition open_building_control ::
    "blake2b_fn \<Rightarrow> 'd rocksdb \<Rightarrow> 'd host \<Rightarrow> wallet_build_store \<Rightarrow> 'd \<Rightarrow> (wallet_error + store_control) \<times> 'd" where
  "open_building_control blake2b lib host bs db =
     db_then (require_exact_column_families host (bs_store_path bs) db) (\<lambda>_ db.
     db_then (db_map_err (RocksDbOperation ''build lease open'')
                (open_bounded_rocksdb host ExistingPrimary (bs_store_path bs) db)) (\<lambda>_ db.
     db_then (decode_only_control blake2b lib db, db) (\<lambda>control db.
     db_then (require_building_control control (bs_store_path bs) (bs_network bs), db) (\<lambda>_ db.
     (Ok control, db)))))"

section \<open>The lease\<close>

definition validate_lease_request ::
    "store_control \<Rightarrow> build_lease_request \<Rightarrow> unix_timestamp_millis \<Rightarrow> wallet_error + unit" where
  "validate_lease_request control request now =
     (if lr_expires_at request \<le> now then Err BuildLeaseExpiryNotFuture
      else case sc_build_state control of
        Ready _ \<Rightarrow> Err (AdmissionChanged ''projection build lease requires a BUILDING control record'')
      | Building target \<Rightarrow>
          if si_source_position (lr_pinned_canonical_anchor request) \<noteq> target
          then Err (BuildLeaseCanonicalAnchorMismatch ''requested source position differs from the BUILDING target'')
          else if lr_earliest_retained_event_sequence request >
                  sp_event_sequence (si_source_position (lr_pinned_canonical_anchor request))
          then Err (BuildLeaseCanonicalAnchorMismatch ''retained event anchor follows the pinned canonical event'')
          else Ok ())"

definition authorize_active_lease ::
    "store_control \<Rightarrow> build_lease \<Rightarrow> unix_timestamp_millis \<Rightarrow> wallet_error + build_lease" where
  "authorize_active_lease control lease now =
     and_then (ok_or (sc_build_lease control) BuildLeaseMissing) (\<lambda>persisted.
     if bl_owner persisted \<noteq> bl_owner lease
     then Err (BuildLeaseOwnerMismatch (bl_owner persisted) (bl_owner lease))
     else if bl_generation persisted \<noteq> bl_generation lease
     then Err (BuildLeaseGenerationMismatch (bl_generation persisted) (bl_generation lease))
     else if bl_pinned_canonical_anchor persisted \<noteq> bl_pinned_canonical_anchor lease \<or>
             bl_earliest_retained_event_sequence persisted \<noteq> bl_earliest_retained_event_sequence lease \<or>
             bl_expires_at persisted \<noteq> bl_expires_at lease \<or> bl_network persisted \<noteq> bl_network lease \<or>
             bl_projection_schema_version persisted \<noteq> bl_projection_schema_version lease \<or>
             bl_version persisted \<noteq> bl_version lease
     then Err (BuildLeaseCanonicalAnchorMismatch ''supplied capability differs from durable lease identity'')
     else if bl_expires_at persisted \<le> now then Err (BuildLeaseExpired (bl_expires_at persisted))
     else Ok persisted)"

definition require_expired_lease :: "store_control \<Rightarrow> unix_timestamp_millis \<Rightarrow> wallet_error + unit" where
  "require_expired_lease control now =
     (case sc_build_lease control of
        None \<Rightarrow> Ok ()
      | Some lease \<Rightarrow> if bl_expires_at lease > now then Err (BuildLeaseHeld (bl_expires_at lease)) else Ok ())"

definition try_acquire_lease ::
    "blake2b_fn \<Rightarrow> 'd rocksdb \<Rightarrow> 'd host \<Rightarrow> wallet_build_store \<Rightarrow> build_lease_request \<Rightarrow> unix_timestamp_millis \<Rightarrow>
       'd \<Rightarrow> (wallet_error + build_lease) \<times> 'd" where
  "try_acquire_lease blake2b lib host bs request now db =
     db_then (open_building_control blake2b lib host bs db) (\<lambda>control db.
     db_then (validate_lease_request control request now, db) (\<lambda>_ db.
     db_then (require_expired_lease control now, db) (\<lambda>_ db.
     db_then (ok_or (checked_add (sc_writer_generation control) 1) BuildLeaseGenerationOverflow, db) (\<lambda>generation db.
     let lease = lease_from_request request generation (bs_network bs);
         next_control = control\<lparr>sc_writer_generation := generation, sc_build_lease := Some lease\<rparr> in
     db_then (replace_control blake2b lib ''projection build lease differs after synchronous acquisition'' next_control db)
       (\<lambda>_ db. (Ok lease, db))))))"

definition renew_lease ::
    "blake2b_fn \<Rightarrow> 'd rocksdb \<Rightarrow> 'd host \<Rightarrow> wallet_build_store \<Rightarrow> build_lease \<Rightarrow> unix_timestamp_millis \<Rightarrow>
       unix_timestamp_millis \<Rightarrow> 'd \<Rightarrow> (wallet_error + build_lease) \<times> 'd" where
  "renew_lease blake2b lib host bs lease expires_at now db =
     db_then (open_building_control blake2b lib host bs db) (\<lambda>control db.
     db_then (authorize_active_lease control lease now, db) (\<lambda>persisted db.
     if expires_at \<le> now then (Err BuildLeaseExpiryNotFuture, db)
     else if expires_at \<le> bl_expires_at persisted then (Err BuildLeaseRenewalNotExtended, db)
     else
       let renewed = lease_renewed expires_at persisted;
           next_control = control\<lparr>sc_build_lease := Some renewed\<rparr> in
       db_then (replace_control blake2b lib ''projection build lease differs after synchronous renewal'' next_control db)
         (\<lambda>_ db. (Ok renewed, db))))"

definition release_lease ::
    "blake2b_fn \<Rightarrow> 'd rocksdb \<Rightarrow> 'd host \<Rightarrow> wallet_build_store \<Rightarrow> build_lease \<Rightarrow> unix_timestamp_millis \<Rightarrow>
       'd \<Rightarrow> (wallet_error + unit) \<times> 'd" where
  "release_lease blake2b lib host bs lease now db =
     db_then (open_building_control blake2b lib host bs db) (\<lambda>control db.
     db_then (authorize_active_lease control lease now, db) (\<lambda>_ db.
     replace_control blake2b lib ''projection build lease differs after synchronous release''
       (control\<lparr>sc_build_lease := None\<rparr>) db))"

text \<open>
  The staging directory of a build stands beside the store: the canonical path of the store has no
  trailing separator, so replacing its file name by the file name with a suffix appends the suffix.
\<close>

definition projection_staging_path :: "string \<Rightarrow> string" where
  "projection_staging_path wallet_path = wallet_path @ ''.projection-load-staging''"

definition discard_unpublished ::
    "blake2b_fn \<Rightarrow> 'd rocksdb \<Rightarrow> 'd host \<Rightarrow> wallet_build_store \<Rightarrow> unix_timestamp_millis \<Rightarrow> 'd \<Rightarrow>
       (wallet_error + unit) \<times> 'd" where
  "discard_unpublished blake2b lib host bs now db =
     db_then (open_building_control blake2b lib host bs db) (\<lambda>control db.
     db_then (require_building_control control (bs_store_path bs) (bs_network bs), db) (\<lambda>_ db.
     db_then (require_expired_lease control now, db) (\<lambda>_ db.
     let staging_path = projection_staging_path (bs_store_path bs) in
     db_then (if host_exists host staging_path db
              then db_map_err (PathUnavailable staging_path) (host_remove_dir_all host staging_path db)
              else (Ok (), db)) (\<lambda>_ db.
     db_map_err (PathUnavailable (bs_store_path bs)) (host_remove_dir_all host (bs_store_path bs) db)))))"

section \<open>A running build\<close>

text \<open>What a builder and a validated build keep in memory: the open database, the control record and the lease.\<close>

record 'd build_handle =
  bh_db :: 'd
  bh_control :: store_control
  bh_lease :: build_lease

text \<open>The errors that prove that the lease no longer belongs to the build.\<close>

fun lease_superseded :: "wallet_error \<Rightarrow> bool" where
  "lease_superseded (BuildLeaseExpired _) \<longleftrightarrow> True"
| "lease_superseded BuildLeaseMissing \<longleftrightarrow> True"
| "lease_superseded (BuildLeaseOwnerMismatch _ _) \<longleftrightarrow> True"
| "lease_superseded (BuildLeaseGenerationMismatch _ _) \<longleftrightarrow> True"
| "lease_superseded (BuildLeaseCanonicalAnchorMismatch _) \<longleftrightarrow> True"
| "lease_superseded _ \<longleftrightarrow> False"

definition builder_create_fresh ::
    "blake2b_fn \<Rightarrow> 'd rocksdb \<Rightarrow> 'd host \<Rightarrow> wallet_build_store \<Rightarrow> build_lease_request \<Rightarrow> unix_timestamp_millis \<Rightarrow>
       'd \<Rightarrow> (wallet_error + 'd build_handle) \<times> 'd" where
  "builder_create_fresh blake2b lib host bs request now db =
     db_then (try_acquire_lease blake2b lib host bs request now db) (\<lambda>lease db.
     case db_map_err (RocksDbOperation ''fresh leased build open'')
            (open_bounded_rocksdb host ExistingPrimary (bs_store_path bs) db) of
       (Inl open_error, db) \<Rightarrow>
         (case release_lease blake2b lib host bs lease now db of
            (Inr _, db) \<Rightarrow> (Err open_error, db)
          | (Inl e, db) \<Rightarrow> (Err (if lease_superseded e then open_error else BuildLeaseCleanup open_error e), db))
     | (Inr _, db) \<Rightarrow>
         db_then (decode_only_control blake2b lib db, db) (\<lambda>control db.
         (Ok \<lparr>bh_db = db, bh_control = control, bh_lease = lease\<rparr>, db)))"

record lease_heartbeat =
  hb_now :: unix_timestamp_millis
  hb_renew_until :: "unix_timestamp_millis option"

definition DEFAULT_BUILD_LEASE_DURATION_MILLIS :: u64 where
  "DEFAULT_BUILD_LEASE_DURATION_MILLIS = 60 * 60 * 1000"

definition default_build_lease_heartbeat :: "unix_timestamp_millis \<Rightarrow> unix_timestamp_millis \<Rightarrow> lease_heartbeat" where
  "default_build_lease_heartbeat now current_expires_at =
     (let desired_expires_at = saturating_add now DEFAULT_BUILD_LEASE_DURATION_MILLIS;
          renew_until = max desired_expires_at (saturating_add current_expires_at 1) in
      if renew_until \<le> current_expires_at then \<lparr>hb_now = now, hb_renew_until = None\<rparr>
      else \<lparr>hb_now = now, hb_renew_until = Some renew_until\<rparr>)"

text \<open>Once the renewal is written, the build keeps the renewed lease even if the read back fails.\<close>

definition apply_build_lease_heartbeat ::
    "blake2b_fn \<Rightarrow> 'd rocksdb \<Rightarrow> lease_heartbeat \<Rightarrow> 'd build_handle \<Rightarrow> (wallet_error + unit) \<times> 'd build_handle" where
  "apply_build_lease_heartbeat blake2b lib heartbeat h =
     (case and_then (decode_only_control blake2b lib (bh_db h)) (\<lambda>persisted_control.
           and_then (authorize_active_lease persisted_control (bh_lease h) (hb_now heartbeat)) (\<lambda>persisted_lease.
           Ok (persisted_control, persisted_lease))) of
        Inl e \<Rightarrow> (Err e, h)
      | Inr (persisted_control, persisted_lease) \<Rightarrow>
          (case hb_renew_until heartbeat of
             None \<Rightarrow> (Ok (), h\<lparr>bh_control := persisted_control, bh_lease := persisted_lease\<rparr>)
           | Some renew_until \<Rightarrow>
               if renew_until \<le> hb_now heartbeat then (Err BuildLeaseExpiryNotFuture, h)
               else if renew_until \<le> bl_expires_at persisted_lease then (Err BuildLeaseRenewalNotExtended, h)
               else
                 let renewed = lease_renewed renew_until persisted_lease;
                     next_control = persisted_control\<lparr>sc_build_lease := Some renewed\<rparr> in
                 (case write_control_sync blake2b lib next_control (bh_db h) of
                    (Inl e, db) \<Rightarrow> (Err e, h\<lparr>bh_db := db\<rparr>)
                  | (Inr _, db) \<Rightarrow>
                      let h = h\<lparr>bh_db := db, bh_lease := renewed\<rparr> in
                      (case decode_only_control blake2b lib db of
                         Inl e \<Rightarrow> (Err e, h)
                       | Inr persisted_after_write \<Rightarrow>
                           if persisted_after_write \<noteq> next_control
                           then (Err (AdmissionChanged
                                  ''projection build lease differs after in-process heartbeat renewal''), h)
                           else (Ok (), h\<lparr>bh_control := next_control\<rparr>)))))"

definition publish_ready_at ::
    "blake2b_fn \<Rightarrow> 'd rocksdb \<Rightarrow> ready_evidence \<Rightarrow> unix_timestamp_millis \<Rightarrow> 'd build_handle \<Rightarrow>
       (wallet_error + 'd wallet_store) \<times> 'd" where
  "publish_ready_at blake2b lib ready_evidence now h =
     db_then (decode_only_control blake2b lib (bh_db h), bh_db h) (\<lambda>persisted_control db.
     db_then (authorize_active_lease persisted_control (bh_lease h) now, db) (\<lambda>persisted_lease db.
     if bl_pinned_canonical_anchor persisted_lease \<noteq> source_identity_from_ready_evidence ready_evidence
     then (Err (BuildLeaseCanonicalAnchorMismatch ''READY evidence differs from the pinned canonical anchor''), db)
     else
       let ready_control =
             \<lparr>sc_network = sc_network (bh_control h),
              sc_supported_reorg_depth = sc_supported_reorg_depth (bh_control h),
              sc_writer_generation = sc_writer_generation (bh_control h), sc_build_lease = None,
              sc_build_state = Ready ready_evidence\<rparr> in
       db_then (replace_control blake2b lib ''READY control differs after its synchronous publication'' ready_control db)
         (\<lambda>_ db. (Ok \<lparr>ws_db = db, ws_control = ready_control, ws_ready_evidence = ready_evidence\<rparr>, db))))"

section \<open>The release after a failed build\<close>

record lease_cleanup =
  lc_wallet_path :: string
  lc_network :: network
  lc_resource_budget :: rocksdb_resource_budget
  lc_lease :: "build_lease option"
  lc_now :: unix_timestamp_millis

definition cleanup_arm :: "build_lease \<Rightarrow> unix_timestamp_millis \<Rightarrow> lease_cleanup \<Rightarrow> lease_cleanup" where
  "cleanup_arm lease now cleanup = cleanup\<lparr>lc_lease := Some lease, lc_now := now\<rparr>"

definition cleanup_disarm :: "lease_cleanup \<Rightarrow> lease_cleanup" where
  "cleanup_disarm cleanup = cleanup\<lparr>lc_lease := None\<rparr>"

definition release_after_error ::
    "blake2b_fn \<Rightarrow> 'd rocksdb \<Rightarrow> 'd host \<Rightarrow> lease_cleanup \<Rightarrow> 'd \<Rightarrow> (wallet_error + unit) \<times> 'd" where
  "release_after_error blake2b lib host cleanup db =
     (case lc_lease cleanup of
        None \<Rightarrow> (Ok (), db)
      | Some lease \<Rightarrow>
          (case build_store_open blake2b lib host (lc_wallet_path cleanup) (lc_network cleanup)
                  (lc_resource_budget cleanup) db of
             (Inl e, db) \<Rightarrow> (case e of StoreNotReady _ \<Rightarrow> (Ok (), db) | _ \<Rightarrow> (Err e, db))
           | (Inr bs, db) \<Rightarrow>
               (case release_lease blake2b lib host bs lease (lc_now cleanup) db of
                  (Inr _, db) \<Rightarrow> (Ok (), db)
                | (Inl e, db) \<Rightarrow> if lease_superseded e then (Ok (), db) else (Err e, db))))"

definition finish_failed_wallet_build ::
    "blake2b_fn \<Rightarrow> 'd rocksdb \<Rightarrow> 'd host \<Rightarrow> lease_cleanup \<Rightarrow> wallet_error \<Rightarrow> 'd \<Rightarrow> (wallet_error + 'a) \<times> 'd" where
  "finish_failed_wallet_build blake2b lib host cleanup build_error db =
     (case release_after_error blake2b lib host cleanup db of
        (Inr _, db) \<Rightarrow> (Err build_error, db)
      | (Inl cleanup_error, db) \<Rightarrow> (Err (BuildLeaseCleanup build_error cleanup_error), db))"

end
