(* ===== verification/Lease_Facts.thy ===== *)
theory Lease_Facts
  imports Build_Lease
begin

text \<open>
  The build lease as an automaton on control records. Every operation of the build store reads the
  durable control record, and leaves it or takes one step of the automaton, also when it reports an
  error. From this follow the exclusion of other builders while a lease has not expired, and the fencing
  of earlier builders by the writer generation.
\<close>

section \<open>What the lease relies on\<close>

text \<open>
  A scan of the default column family that finds the control record finds what is stored, a synchronous
  write that succeeds stores its record, one that fails stores it or leaves what was stored, and opening
  the database stores nothing.
\<close>

definition control_lawful :: "'d rocksdb \<Rightarrow> 'd host \<Rightarrow> ('d \<Rightarrow> u8 list option) \<Rightarrow> bool" where
  "control_lawful lib host stored_control \<longleftrightarrow>
     (\<forall>db v. rdb_iterator lib db = [Inr (WALLET_STORE_CONTROL_KEY, v)] \<longrightarrow> stored_control db = Some v) \<and>
     (\<forall>v db u db'. rdb_write_opt lib [Put WALLET_STORE_CONTROL_KEY v] db = (Inr u, db') \<longrightarrow> stored_control db' = Some v) \<and>
     (\<forall>v db e db'. rdb_write_opt lib [Put WALLET_STORE_CONTROL_KEY v] db = (Inl e, db') \<longrightarrow>
        stored_control db' = stored_control db \<or> stored_control db' = Some v) \<and>
     (\<forall>path db. stored_control (snd (host_list_cf host path db)) = stored_control db) \<and>
     (\<forall>role mode path db. stored_control (snd (host_open_cf host role mode path db)) = stored_control db)"

definition durable_control :: "blake2b_fn \<Rightarrow> ('d \<Rightarrow> u8 list option) \<Rightarrow> 'd \<Rightarrow> store_control option" where
  "durable_control blake2b stored_control db =
     (case stored_control db of
        None \<Rightarrow> None
      | Some v \<Rightarrow> (case control_decode blake2b v of Inl _ \<Rightarrow> None | Inr c \<Rightarrow> Some c))"

section \<open>The lease automaton\<close>

inductive lease_step :: "store_control \<Rightarrow> store_control \<Rightarrow> bool" where
  acquire: "lease_step c (c\<lparr>sc_writer_generation := g, sc_build_lease := Some (lease_from_request request g (sc_network c))\<rparr>)"
    if "validate_lease_request c request now = Ok ()" "require_expired_lease c now = Ok ()"
      "checked_add (sc_writer_generation c) 1 = Some g"
| renew: "lease_step c (c\<lparr>sc_build_lease := Some (lease_renewed expires_at l)\<rparr>)"
    if "sc_build_lease c = Some l" "bl_expires_at l < expires_at"
| release: "lease_step c (c\<lparr>sc_build_lease := None\<rparr>)" if "sc_build_lease c = Some l"
| publish: "lease_step c c'"
    if "sc_build_lease c = Some l" "sc_build_lease c' = None" "sc_build_state c' = Ready e"
      "source_identity_from_ready_evidence e = bl_pinned_canonical_anchor l"

inductive_cases lease_stepE: "lease_step c c'"

text \<open>A control record that was decoded: its encoding, and what the lease of a BUILDING record says.\<close>

lemma decoded_control:
  assumes "control_decode blake2b bs = Ok c"
  shows "control_wf c" "validate_build_lease c = Ok ()"
    "\<And>target. sc_build_state c = Building target \<Longrightarrow> validate_event_cursor target = Ok ()"
  using control.encode_decode [OF assms] by (auto simp: control_encode_def and_then_Ok_iff)

lemma decoded_lease:
  assumes "validate_build_lease c = Ok ()" and "sc_build_lease c = Some l"
  obtains target where "sc_build_state c = Building target" "bl_generation l = sc_writer_generation c"
    "bl_network l = sc_network c" "si_source_position (bl_pinned_canonical_anchor l) = target"
  using assms by (auto simp: validate_build_lease_def split: if_splits build_state.splits)

text \<open>Every BUILDING record the automaton reaches can be written, and is read back as it was written.\<close>

lemma building_encodes:
  assumes "sc_build_state c = Building target" and "validate_event_cursor target = Ok ()" and "validate_build_lease c = Ok ()"
  obtains bs where "control_encode blake2b c = Ok bs"
  using assms by (simp add: control_encode_def Let_def)

lemma lease_step_valid:
  assumes "lease_step c c'" and "control_wf c" and "validate_build_lease c = Ok ()"
    and "sc_build_state c' = Building target"
  shows "control_wf c' \<and> validate_build_lease c' = Ok () \<and> sc_build_state c = Building target \<and>
         sc_network c' = sc_network c \<and> sc_supported_reorg_depth c' = sc_supported_reorg_depth c \<and>
         sc_writer_generation c \<le> sc_writer_generation c'"
  using assms
proof cases
  case (acquire request now g)
  then have "sc_writer_generation c \<le> g"
    by (simp add: checked_add_Some_iff word_le_nat_alt)
  with acquire assms show ?thesis
    by (auto simp: validate_lease_request_def validate_build_lease_def lease_from_request_def control_wf_def
        not_less split: if_splits build_state.splits)
next
  case (renew l expires_at)
  with assms show ?thesis
    by (auto simp: validate_build_lease_def lease_renewed_def control_wf_def split: if_splits build_state.splits)
next
  case (release l)
  with assms show ?thesis
    by (auto simp: validate_build_lease_def control_wf_def split: if_splits build_state.splits)
next
  case publish
  with assms show ?thesis by simp
qed

section \<open>Disk operations\<close>

text \<open>An operation that satisfies \<open>keeps\<close> leaves the control record; results of its continuation are kept.\<close>

definition keeps :: "('d \<Rightarrow> 'x) \<Rightarrow> ('e + 'a) \<times> 'd \<Rightarrow> 'd \<Rightarrow> bool" where
  "keeps at r db \<longleftrightarrow> at (snd r) = at db"

lemma keeps_then:
  assumes "keeps at r db" and "\<And>x db'. r = (Inr x, db') \<Longrightarrow> at db' = at db \<Longrightarrow> keeps at (f x db') db"
  shows "keeps at (db_then r f) db"
  using assms by (cases r; cases "fst r") (auto simp: keeps_def)

lemma keeps_map_err: "keeps at r db \<Longrightarrow> keeps at (db_map_err g r) db"
  by (simp add: keeps_def db_map_err_def)

lemma keeps_pure [simp]: "keeps at (r, db) db"
  by (simp add: keeps_def)

lemma keeps_here: "at db' = at db \<Longrightarrow> keeps at (r, db') db"
  by (simp add: keeps_def)

lemma keeps_open:
  assumes "control_lawful lib host stored_control"
  shows "keeps stored_control (open_bounded_rocksdb host role path db) db"
proof -
  have list: "stored_control (snd (host_list_cf host path db)) = stored_control db"
    and op: "stored_control (snd (host_open_cf host role mode path db)) = stored_control db" for db mode
    using assms by (simp_all add: control_lawful_def)
  have again: "keeps stored_control
      (case host_open_cf host role DirectIo path db' of
         (Inr _, db) \<Rightarrow> (Ok DirectIo, db)
       | (Inl direct_error, db) \<Rightarrow> db_then (host_open_cf host role BufferedIo path db) (\<lambda>_ db. (Ok BufferedIo, db))) db"
    if "stored_control db' = stored_control db" for db'
  proof (cases "host_open_cf host role DirectIo path db'")
    case (Pair r db2)
    then have db2: "stored_control db2 = stored_control db" using op [of DirectIo db'] that by simp
    then have "keeps stored_control (host_open_cf host role BufferedIo path db2) db"
      using op [of BufferedIo db2] by (simp add: keeps_def)
    then have "keeps stored_control (db_then (host_open_cf host role BufferedIo path db2) (\<lambda>_ db. (Ok BufferedIo, db))) db"
      by (auto intro!: keeps_then keeps_here)
    then show ?thesis using Pair db2 by (cases r) (auto intro: keeps_here)
  qed
  show ?thesis
    unfolding open_bounded_rocksdb_def
    by (intro keeps_then again) (auto simp: keeps_def list intro!: keeps_then [unfolded keeps_def])
qed

lemma keeps_column_families:
  assumes "control_lawful lib host stored_control"
  shows "keeps stored_control (require_exact_column_families host path db) db"
  unfolding require_exact_column_families_def Let_def
  using assms by (intro keeps_then keeps_map_err keeps_here) (simp_all add: control_lawful_def keeps_def)

lemma decode_only_control_durable:
  assumes "control_lawful lib host stored_control" and "decode_only_control blake2b lib db = Ok c"
  shows "durable_control blake2b stored_control db = Some c"
    and "\<exists>bs. control_decode blake2b bs = Ok c"
proof -
  obtain v where "rdb_iterator lib db = [Inr (WALLET_STORE_CONTROL_KEY, v)]" "control_decode blake2b v = Inr c"
    using assms(2) by (auto simp: decode_only_control_def and_then_Ok_iff map_err_Ok_iff split: list.splits if_splits)
  then show "durable_control blake2b stored_control db = Some c" "\<exists>bs. control_decode blake2b bs = Ok c"
    using assms(1) by (auto simp: control_lawful_def durable_control_def)
qed

lemma open_building_control_keeps:
  assumes "control_lawful lib host stored_control"
  shows "keeps stored_control (open_building_control blake2b lib host bs db) db"
  unfolding open_building_control_def
  by (intro keeps_then keeps_map_err keeps_column_families [OF assms] keeps_here)
    (auto simp: keeps_def dest: keeps_open [OF assms, unfolded keeps_def, THEN trans])

lemma open_building_control_Ok:
  assumes "control_lawful lib host stored_control" and "open_building_control blake2b lib host bs db = (Ok c, db')"
  shows "stored_control db' = stored_control db" "decode_only_control blake2b lib db' = Ok c"
    "require_building_control c (bs_store_path bs) (bs_network bs) = Ok ()"
proof -
  show "stored_control db' = stored_control db"
    using open_building_control_keeps [OF assms(1), of blake2b bs db] assms(2) by (simp add: keeps_def)
  show "decode_only_control blake2b lib db' = Ok c" "require_building_control c (bs_store_path bs) (bs_network bs) = Ok ()"
    using assms(2) by (auto simp: open_building_control_def db_then_def split: prod.splits sum.splits)
qed


section \<open>Operations refine the automaton\<close>

text \<open>The durable record is kept, or takes one step.\<close>

definition steps_or_keeps :: "blake2b_fn \<Rightarrow> ('d \<Rightarrow> u8 list option) \<Rightarrow> 'd \<Rightarrow> 'd \<Rightarrow> bool" where
  "steps_or_keeps blake2b stored_control db db' \<longleftrightarrow>
     durable_control blake2b stored_control db' = durable_control blake2b stored_control db \<or>
     (\<exists>c c'. durable_control blake2b stored_control db = Some c \<and> lease_step c c' \<and>
        durable_control blake2b stored_control db' = Some c')"

lemma durable_cong: "stored_control db' = stored_control db \<Longrightarrow>
    durable_control blake2b stored_control db' = durable_control blake2b stored_control db"
  by (simp add: durable_control_def)

lemma write_control_sync_effect:
  assumes "control_lawful lib host stored_control" and "control_wf c"
    and "write_control_sync blake2b lib c db = (r, db')"
  shows "(durable_control blake2b stored_control db' = durable_control blake2b stored_control db \<or>
           durable_control blake2b stored_control db' = Some c) \<and>
         (\<forall>u. r = Ok u \<longrightarrow> durable_control blake2b stored_control db' = Some c)"
proof (cases "control_encode blake2b c")
  case (Inl e)
  then show ?thesis using assms(3) by (auto simp: write_control_sync_def)
next
  case (Inr bs)
  obtain w where w: "rdb_write_opt lib [Put WALLET_STORE_CONTROL_KEY bs] db = (w, db')" "r = map_err (RocksDbOperation ''control publication'') w"
    using assms(3) Inr by (cases "rdb_write_opt lib [Put WALLET_STORE_CONTROL_KEY bs] db")
      (simp add: write_control_sync_def db_map_err_def)
  have written: "durable_control blake2b stored_control db' = Some c" if "stored_control db' = Some bs"
    using control_decode_encode [OF assms(2) Inr] that by (simp add: durable_control_def)
  show ?thesis
  proof (cases w)
    case (Inl e)
    then have "stored_control db' = stored_control db \<or> stored_control db' = Some bs"
      using assms(1) w(1) unfolding control_lawful_def by blast
    then show ?thesis using written Inl w(2) by (auto dest: durable_cong)
  next
    case (Inr u)
    then have "stored_control db' = Some bs" using assms(1) w(1) unfolding control_lawful_def by blast
    then show ?thesis using written by blast
  qed
qed

lemma replace_control_effect:
  assumes "control_lawful lib host stored_control" and "control_wf c"
    and "replace_control blake2b lib reason c db = (r, db')"
  shows "durable_control blake2b stored_control db' = durable_control blake2b stored_control db \<or>
         durable_control blake2b stored_control db' = Some c"
    and "r = Ok u \<Longrightarrow> durable_control blake2b stored_control db' = Some c"
proof -
  obtain w db2 where w: "write_control_sync blake2b lib c db = (w, db2)" by (cases "write_control_sync blake2b lib c db")
  then have db2: "db' = db2" using assms(3) by (cases w) (auto simp: replace_control_def)
  show "durable_control blake2b stored_control db' = durable_control blake2b stored_control db \<or>
      durable_control blake2b stored_control db' = Some c"
    using write_control_sync_effect [OF assms(1,2) w] db2 by blast
  show "durable_control blake2b stored_control db' = Some c" if "r = Ok u"
  proof -
    have "w = Ok ()" using assms(3) w that by (cases w) (auto simp: replace_control_def)
    then show ?thesis using write_control_sync_effect [OF assms(1,2) w] db2 by blast
  qed
qed

lemma lease_step_wf:
  assumes "lease_step c c'" and "control_decode blake2b bs = Ok c"
  shows "control_wf c'"
proof (cases "sc_build_state c'")
  case (Building target)
  then show ?thesis using lease_step_valid [OF assms(1)] decoded_control [OF assms(2)] by blast
next
  case (Ready e)
  show ?thesis using assms(1)
  proof cases
    case (publish l e')
    moreover have "position_wf (si_source_position (bl_pinned_canonical_anchor l))"
      using decoded_control(1) [OF assms(2)] publish(1) by (simp add: control_wf_def)
    moreover have "re_source_position e' = si_source_position (source_identity_from_ready_evidence e')"
      by (simp add: source_identity_from_ready_evidence_def)
    ultimately show ?thesis by (auto simp: control_wf_def)
  qed (use Ready decoded_control [OF assms(2)] in
      \<open>auto simp: control_wf_def validate_lease_request_def validate_build_lease_def split: if_splits build_state.splits\<close>)
qed

text \<open>Replacing the record that was read by one that the automaton allows.\<close>

lemma replace_control_steps:
  assumes "control_lawful lib host stored_control" and "decode_only_control blake2b lib db = Ok c" and "lease_step c c'"
    and "replace_control blake2b lib reason c' db = (r, db')"
  shows "steps_or_keeps blake2b stored_control db db'"
    and "r = Ok u \<Longrightarrow> durable_control blake2b stored_control db' = Some c'"
proof -
  obtain bs where "control_decode blake2b bs = Ok c" using decode_only_control_durable(2) [OF assms(1,2)] by blast
  then have wf: "control_wf c'" by (rule lease_step_wf [OF assms(3)])
  show "steps_or_keeps blake2b stored_control db db'"
    using replace_control_effect(1) [OF assms(1) wf assms(4)] decode_only_control_durable(1) [OF assms(1,2)] assms(3)
    unfolding steps_or_keeps_def by blast
  show "r = Ok u \<Longrightarrow> durable_control blake2b stored_control db' = Some c'"
    by (rule replace_control_effect(2) [OF assms(1) wf assms(4)])
qed

lemma lease_eq_iff:
  "l = m \<longleftrightarrow> bl_owner l = bl_owner m \<and> bl_generation l = bl_generation m \<and>
     bl_pinned_canonical_anchor l = bl_pinned_canonical_anchor m \<and>
     bl_earliest_retained_event_sequence l = bl_earliest_retained_event_sequence m \<and>
     bl_expires_at l = bl_expires_at m \<and> bl_network l = bl_network m \<and>
     bl_projection_schema_version l = bl_projection_schema_version m \<and> bl_version l = bl_version m"
  for l m :: build_lease
  by (auto intro: build_lease.equality)

lemma authorize_active_lease_Ok_iff:
  "authorize_active_lease c lease now = Ok l \<longleftrightarrow> sc_build_lease c = Some lease \<and> l = lease \<and> now < bl_expires_at lease"
proof (cases "sc_build_lease c")
  case (Some persisted)
  show ?thesis
  proof (cases "persisted = lease")
    case True
    then show ?thesis using Some by (auto simp: authorize_active_lease_def)
  next
    case False
    then have "\<not> (\<exists>l. authorize_active_lease c lease now = Ok l)"
      using Some unfolding lease_eq_iff [of persisted lease] by (simp add: authorize_active_lease_def)
    then show ?thesis using Some False by auto
  qed
qed (simp add: authorize_active_lease_def)

lemma steps_or_keeps_refl [simp]: "steps_or_keeps blake2b stored_control db db"
  by (simp add: steps_or_keeps_def)

text \<open>
  The operations have one shape: from the record they read they work out the next record and their
  result, or an error, and replace the record.
\<close>

definition update_control ::
    "blake2b_fn \<Rightarrow> 'd rocksdb \<Rightarrow> string \<Rightarrow> wallet_error + store_control \<times> 'a \<Rightarrow> 'd \<Rightarrow> (wallet_error + 'a) \<times> 'd" where
  "update_control blake2b lib reason planned db =
     db_then (planned, db) (\<lambda>(next_control, x) db.
     db_then (replace_control blake2b lib reason next_control db) (\<lambda>_ db. (Ok x, db)))"

definition acquired :: "wallet_build_store \<Rightarrow> build_lease_request \<Rightarrow> unix_timestamp_millis \<Rightarrow> store_control \<Rightarrow>
    wallet_error + store_control \<times> build_lease" where
  "acquired bs request now c =
     and_then (validate_lease_request c request now) (\<lambda>_.
     and_then (require_expired_lease c now) (\<lambda>_.
     and_then (ok_or (checked_add (sc_writer_generation c) 1) BuildLeaseGenerationOverflow) (\<lambda>g.
     let lease = lease_from_request request g (bs_network bs) in
     Ok (c\<lparr>sc_writer_generation := g, sc_build_lease := Some lease\<rparr>, lease))))"

definition renewed :: "build_lease \<Rightarrow> unix_timestamp_millis \<Rightarrow> unix_timestamp_millis \<Rightarrow> store_control \<Rightarrow>
    wallet_error + store_control \<times> build_lease" where
  "renewed lease expires_at now c =
     and_then (authorize_active_lease c lease now) (\<lambda>persisted.
     if expires_at \<le> now then Err BuildLeaseExpiryNotFuture
     else if expires_at \<le> bl_expires_at persisted then Err BuildLeaseRenewalNotExtended
     else Ok (c\<lparr>sc_build_lease := Some (lease_renewed expires_at persisted)\<rparr>, lease_renewed expires_at persisted))"

definition released :: "build_lease \<Rightarrow> unix_timestamp_millis \<Rightarrow> store_control \<Rightarrow> wallet_error + store_control \<times> unit" where
  "released lease now c = and_then (authorize_active_lease c lease now) (\<lambda>_. Ok (c\<lparr>sc_build_lease := None\<rparr>, ()))"

definition published :: "store_control \<Rightarrow> build_lease \<Rightarrow> ready_evidence \<Rightarrow> unix_timestamp_millis \<Rightarrow> store_control \<Rightarrow>
    wallet_error + store_control \<times> store_control" where
  "published held lease e now c =
     and_then (authorize_active_lease c lease now) (\<lambda>persisted.
     if bl_pinned_canonical_anchor persisted \<noteq> source_identity_from_ready_evidence e
     then Err (BuildLeaseCanonicalAnchorMismatch ''READY evidence differs from the pinned canonical anchor'')
     else let ready = \<lparr>sc_network = sc_network held, sc_supported_reorg_depth = sc_supported_reorg_depth held,
                sc_writer_generation = sc_writer_generation held, sc_build_lease = None, sc_build_state = Ready e\<rparr> in
       Ok (ready, ready))"

lemmas update_shape = update_control_def db_then_and_then Let_def

lemma acquire_shape:
  "try_acquire_lease blake2b lib host bs request now db =
     db_then (open_building_control blake2b lib host bs db) (\<lambda>c db.
       update_control blake2b lib ''projection build lease differs after synchronous acquisition'' (acquired bs request now c) db)"
  by (simp add: try_acquire_lease_def acquired_def update_shape)

lemma renew_shape:
  "renew_lease blake2b lib host bs lease expires_at now db =
     db_then (open_building_control blake2b lib host bs db) (\<lambda>c db.
       update_control blake2b lib ''projection build lease differs after synchronous renewal'' (renewed lease expires_at now c) db)"
  by (simp add: renew_lease_def renewed_def update_shape if_distrib [of "\<lambda>r. db_then (r, _) _"] cong: if_cong)

lemma release_shape:
  "release_lease blake2b lib host bs lease now db =
     db_then (open_building_control blake2b lib host bs db) (\<lambda>c db.
       update_control blake2b lib ''projection build lease differs after synchronous release'' (released lease now c) db)"
  by (simp add: release_lease_def released_def update_shape db_then_unit)

text \<open>What the records they write are.\<close>

lemma acquired_step:
  assumes "acquired bs request now c = Ok (c', l)" and "sc_network c = bs_network bs"
  shows "lease_step c c' \<and> sc_build_lease c' = Some l \<and> require_expired_lease c now = Ok () \<and>
    sc_writer_generation c < sc_writer_generation c' \<and> bl_generation l = sc_writer_generation c' \<and>
    sc_build_state c' = sc_build_state c"
proof -
  obtain g where g: "validate_lease_request c request now = Ok ()" "require_expired_lease c now = Ok ()"
    "checked_add (sc_writer_generation c) 1 = Some g"
    "l = lease_from_request request g (sc_network c)" "c' = c\<lparr>sc_writer_generation := g, sc_build_lease := Some l\<rparr>"
    using assms by (auto simp: acquired_def and_then_Ok_iff ok_or_Ok_iff Let_def)
  then have "sc_writer_generation c < g" by (simp add: checked_add_Some_iff word_less_nat_alt)
  with g show ?thesis using lease_step.acquire [OF g(1-3)] by (simp add: lease_from_request_def)
qed

lemma renewed_step:
  assumes "renewed lease expires_at now c = Ok (c', l)"
  shows "lease_step c c' \<and> sc_build_lease c = Some lease \<and> now < bl_expires_at lease \<and> l = lease_renewed expires_at lease \<and>
    c' = c\<lparr>sc_build_lease := Some l\<rparr>"
  using assms lease_step.renew [of c lease expires_at]
  by (auto simp: renewed_def and_then_Ok_iff authorize_active_lease_Ok_iff not_le split: if_splits)

lemma released_step:
  assumes "released lease now c = Ok (c', u)"
  shows "lease_step c c' \<and> sc_build_lease c = Some lease \<and> now < bl_expires_at lease \<and> c' = c\<lparr>sc_build_lease := None\<rparr>"
  using assms lease_step.release [of c lease] by (auto simp: released_def and_then_Ok_iff authorize_active_lease_Ok_iff)

lemma published_step:
  assumes "published held lease e now c = Ok (c', c'')"
  shows "lease_step c c' \<and> sc_build_lease c = Some lease \<and> now < bl_expires_at lease \<and> c'' = c' \<and>
    sc_build_state c' = Ready e \<and> source_identity_from_ready_evidence e = bl_pinned_canonical_anchor lease"
  using assms lease_step.publish [of c lease c' e]
  by (auto simp: published_def and_then_Ok_iff authorize_active_lease_Ok_iff Let_def split: if_splits)

text \<open>What an update does to the durable record.\<close>

lemma update_control_effect:
  assumes "control_lawful lib host stored_control" and "decode_only_control blake2b lib db = Ok c"
    and "\<forall>c' x. planned = Ok (c', x) \<longrightarrow> lease_step c c'"
    and "update_control blake2b lib reason planned db = (r, db')"
  shows "steps_or_keeps blake2b stored_control db db' \<and>
         (\<forall>e. planned = Err e \<longrightarrow> r = Err e \<and> db' = db) \<and>
         (\<forall>x. r = Ok x \<longrightarrow> (\<exists>c'. planned = Ok (c', x) \<and> durable_control blake2b stored_control db' = Some c'))"
proof (cases planned)
  case (Inl e)
  then show ?thesis using assms(4) by (auto simp: update_control_def)
next
  case (Inr p)
  obtain c' x where p: "planned = Ok (c', x)" using Inr by (cases p) simp
  obtain w db2 where w: "replace_control blake2b lib reason c' db = (w, db2)" by (cases "replace_control blake2b lib reason c' db")
  then have r: "db' = db2" "\<And>y. r = Ok y \<Longrightarrow> y = x \<and> w = Ok ()"
    using assms(4) p by (cases w; auto simp: update_control_def)+
  show ?thesis
    using replace_control_steps [OF assms(1,2) assms(3) [rule_format, OF p] w] r p by auto
qed

text \<open>The same for an update of the record of a store that is opened first.\<close>

lemma opened_update_effect:
  assumes "control_lawful lib host stored_control"
    and "\<forall>c c' x. sc_network c = bs_network bs \<longrightarrow> planned c = Ok (c', x) \<longrightarrow> lease_step c c'"
    and "db_then (open_building_control blake2b lib host bs db) (\<lambda>c db. update_control blake2b lib reason (planned c) db) = (r, db')"
  shows "steps_or_keeps blake2b stored_control db db' \<and>
         (\<forall>c e. durable_control blake2b stored_control db = Some c \<longrightarrow> planned c = Err e \<longrightarrow>
            (\<exists>e. r = Err e) \<and> durable_control blake2b stored_control db' = Some c) \<and>
         (\<forall>x. r = Ok x \<longrightarrow> (\<exists>c c'. durable_control blake2b stored_control db = Some c \<and> sc_network c = bs_network bs \<and>
            planned c = Ok (c', x) \<and> durable_control blake2b stored_control db' = Some c'))"
proof (cases "open_building_control blake2b lib host bs db")
  case (Pair opened db2)
  have same: "durable_control blake2b stored_control db2 = durable_control blake2b stored_control db"
    using open_building_control_keeps [OF assms(1), of blake2b bs db] Pair by (intro durable_cong) (simp add: keeps_def)
  show ?thesis
  proof (cases opened)
    case (Inl e)
    then show ?thesis using Pair assms(3) same by (auto simp: steps_or_keeps_def)
  next
    case (Inr c)
    then have c: "decode_only_control blake2b lib db2 = Ok c" "sc_network c = bs_network bs"
      using open_building_control_Ok [OF assms(1), of blake2b bs db c db2] Pair
      by (auto simp: require_building_control_def split: if_splits)
    have upd: "update_control blake2b lib reason (planned c) db2 = (r, db')" using assms(3) Pair Inr by simp
    have durable: "durable_control blake2b stored_control db = Some c"
      using decode_only_control_durable(1) [OF assms(1) c(1)] same by simp
    have "\<forall>c' x. planned c = Ok (c', x) \<longrightarrow> lease_step c c'" using assms(2) c(2) by blast
    from update_control_effect [OF assms(1) c(1) this upd] show ?thesis
      using same durable c(2) by (auto simp: steps_or_keeps_def)
  qed
qed

lemma opened_update_steps:
  assumes "control_lawful lib host stored_control"
    and "\<forall>c c' x. sc_network c = bs_network bs \<longrightarrow> planned c = Ok (c', x) \<longrightarrow> lease_step c c'"
  shows "steps_or_keeps blake2b stored_control db
    (snd (db_then (open_building_control blake2b lib host bs db) (\<lambda>c db. update_control blake2b lib reason (planned c) db)))"
  using opened_update_effect [OF assms prod.collapse [symmetric]] by blast

section \<open>Capabilities that no longer authorize\<close>

text \<open>An operation is refused when it reports an error and leaves the durable record.\<close>

definition refused :: "('d \<Rightarrow> 'x) \<Rightarrow> ('e + 'a) \<times> 'd \<Rightarrow> 'd \<Rightarrow> bool" where
  "refused at r db \<longleftrightarrow> (\<exists>e. fst r = Err e) \<and> at (snd r) = at db"

lemma opened_update_refused:
  assumes "control_lawful lib host stored_control"
    and "\<forall>c c' x. sc_network c = bs_network bs \<longrightarrow> planned c = Ok (c', x) \<longrightarrow> lease_step c c'"
    and "\<And>c. durable_control blake2b stored_control db = Some c \<Longrightarrow> \<exists>e. planned c = Err e"
  shows "refused (durable_control blake2b stored_control)
    (db_then (open_building_control blake2b lib host bs db) (\<lambda>c db. update_control blake2b lib reason (planned c) db)) db"
proof -
  obtain r db' where r: "db_then (open_building_control blake2b lib host bs db)
      (\<lambda>c db. update_control blake2b lib reason (planned c) db) = (r, db')" by fastforce
  note effect = opened_update_effect [OF assms(1,2) r]
  show ?thesis
  proof (cases "durable_control blake2b stored_control db")
    case None
    then have "\<exists>e. r = Err e" using effect by (cases r) auto
    then show ?thesis using effect None r by (auto simp: refused_def steps_or_keeps_def)
  next
    case (Some c)
    then show ?thesis using effect assms(3) r by (auto simp: refused_def)
  qed
qed

definition powerless ::
    "blake2b_fn \<Rightarrow> 'd rocksdb \<Rightarrow> 'd host \<Rightarrow> ('d \<Rightarrow> u8 list option) \<Rightarrow> build_lease \<Rightarrow> unix_timestamp_millis \<Rightarrow> 'd \<Rightarrow> bool" where
  "powerless blake2b lib host stored_control lease now db \<longleftrightarrow>
     (\<forall>bs expires_at. refused (durable_control blake2b stored_control) (renew_lease blake2b lib host bs lease expires_at now db) db) \<and>
     (\<forall>bs. refused (durable_control blake2b stored_control) (release_lease blake2b lib host bs lease now db) db) \<and>
     (\<forall>heartbeat h. hb_now heartbeat = now \<longrightarrow> bh_db h = db \<longrightarrow> bh_lease h = lease \<longrightarrow>
        (\<exists>e. apply_build_lease_heartbeat blake2b lib heartbeat h = (Err e, h))) \<and>
     (\<forall>evidence h. bh_db h = db \<longrightarrow> bh_lease h = lease \<longrightarrow>
        (\<exists>e. publish_ready_at blake2b lib evidence now h = (Err e, db)))"

lemma powerlessI:
  assumes "control_lawful lib host stored_control"
    and "\<And>c. durable_control blake2b stored_control db = Some c \<Longrightarrow> sc_build_lease c \<noteq> Some lease \<or> bl_expires_at lease \<le> now"
  shows "powerless blake2b lib host stored_control lease now db"
proof -
  have no: "\<exists>e. authorize_active_lease c lease now = Err e" if "durable_control blake2b stored_control db = Some c" for c
    using assms(2) [OF that] by (cases "authorize_active_lease c lease now") (auto simp: authorize_active_lease_Ok_iff)
  then have err: "\<exists>e. renewed lease expires_at now c = Err e" "\<exists>e. released lease now c = Err e"
    if "durable_control blake2b stored_control db = Some c" for c expires_at
    using that by (fastforce simp: renewed_def released_def)+
  have decoded: "\<exists>e. authorize_active_lease c lease now = Err e" if "decode_only_control blake2b lib db = Ok c" for c
    using no decode_only_control_durable(1) [OF assms(1) that] by blast
  show ?thesis
    unfolding powerless_def renew_shape release_shape
  proof (intro conjI allI impI)
    show "refused (durable_control blake2b stored_control) (db_then (open_building_control blake2b lib host bs db)
        (\<lambda>c. update_control blake2b lib ''projection build lease differs after synchronous renewal'' (renewed lease expires_at now c))) db"
      for bs expires_at
      by (rule opened_update_refused [OF assms(1)]) (use err renewed_step in blast)+
    show "refused (durable_control blake2b stored_control) (db_then (open_building_control blake2b lib host bs db)
        (\<lambda>c. update_control blake2b lib ''projection build lease differs after synchronous release'' (released lease now c))) db" for bs
      by (rule opened_update_refused [OF assms(1)]) (use err released_step in blast)+
    show "\<exists>e. apply_build_lease_heartbeat blake2b lib heartbeat h = (Err e, h)"
      if "hb_now heartbeat = now" "bh_db h = db" "bh_lease h = lease" for heartbeat and h :: "'a build_handle"
      using that decoded
      by (cases "decode_only_control blake2b lib db") (fastforce simp: apply_build_lease_heartbeat_def)+
    show "\<exists>e. publish_ready_at blake2b lib evidence now h = (Err e, db)"
      if "bh_db h = db" "bh_lease h = lease" for evidence and h :: "'a build_handle"
      using that decoded by (cases "decode_only_control blake2b lib db") (fastforce simp: publish_ready_at_def)+
  qed
qed

section \<open>Runs of several builders\<close>

text \<open>Any number of processes operate on one store, each with the arguments, clock and capability it likes.\<close>

inductive build_step :: "blake2b_fn \<Rightarrow> 'd rocksdb \<Rightarrow> 'd host \<Rightarrow> 'd \<Rightarrow> 'd \<Rightarrow> bool" for blake2b lib host where
  acquires: "build_step blake2b lib host db (snd (try_acquire_lease blake2b lib host bs request now db))"
| renews: "build_step blake2b lib host db (snd (renew_lease blake2b lib host bs lease expires_at now db))"
| releases: "build_step blake2b lib host db (snd (release_lease blake2b lib host bs lease now db))"
| beats: "build_step blake2b lib host (bh_db h) (bh_db (snd (apply_build_lease_heartbeat blake2b lib heartbeat h)))"
| publishes: "build_step blake2b lib host (bh_db h) (snd (publish_ready_at blake2b lib evidence now h))"

lemma heartbeat_steps:
  assumes "control_lawful lib host stored_control"
  shows "steps_or_keeps blake2b stored_control (bh_db h) (bh_db (snd (apply_build_lease_heartbeat blake2b lib heartbeat h)))"
proof (cases "\<exists>c l renew_until. decode_only_control blake2b lib (bh_db h) = Ok c \<and>
    authorize_active_lease c (bh_lease h) (hb_now heartbeat) = Ok l \<and> hb_renew_until heartbeat = Some renew_until \<and>
    bl_expires_at l < renew_until")
  case True
  then obtain c l renew_until where c: "decode_only_control blake2b lib (bh_db h) = Ok c"
    "authorize_active_lease c (bh_lease h) (hb_now heartbeat) = Ok l" "hb_renew_until heartbeat = Some renew_until"
    "bl_expires_at l < renew_until" by blast
  let ?next = "c\<lparr>sc_build_lease := Some (lease_renewed renew_until l)\<rparr>"
  obtain bs where bs: "control_decode blake2b bs = Ok c" using decode_only_control_durable(2) [OF assms c(1)] by blast
  have step: "lease_step c ?next" using c(2,4) by (auto simp: authorize_active_lease_Ok_iff intro: lease_step.renew)
  obtain r db where w: "write_control_sync blake2b lib ?next (bh_db h) = (r, db)" by fastforce
  have "bh_db (snd (apply_build_lease_heartbeat blake2b lib heartbeat h)) \<in> {bh_db h, db}"
    using c w by (auto simp: apply_build_lease_heartbeat_def Let_def split: sum.splits prod.splits)
  then show ?thesis
    using write_control_sync_effect [OF assms lease_step_wf [OF step bs] w] decode_only_control_durable(1) [OF assms c(1)] step
    by (auto simp: steps_or_keeps_def)
next
  case False
  then have "bh_db (snd (apply_build_lease_heartbeat blake2b lib heartbeat h)) = bh_db h"
    by (auto simp: apply_build_lease_heartbeat_def not_less and_then_def split: sum.splits option.splits)
  then show ?thesis by simp
qed

lemma publish_shape:
  "publish_ready_at blake2b lib e now h =
     db_then (db_then (decode_only_control blake2b lib (bh_db h), bh_db h) (\<lambda>c db.
       update_control blake2b lib ''READY control differs after its synchronous publication''
         (published (bh_control h) (bh_lease h) e now c) db))
       (\<lambda>ready db. (Ok \<lparr>ws_db = db, ws_control = ready, ws_ready_evidence = e\<rparr>, db))"
  by (simp add: publish_ready_at_def published_def update_shape db_then_assoc
      if_distrib [of "\<lambda>r. db_then (r, _) _"] if_distrib [of "\<lambda>r. db_then r _"] cong: if_cong)

lemma publish_effect:
  assumes "control_lawful lib host stored_control" and "publish_ready_at blake2b lib e now h = (r, db')"
  shows "steps_or_keeps blake2b stored_control (bh_db h) db' \<and>
    (\<forall>s. r = Ok s \<longrightarrow> durable_control blake2b stored_control db' = Some (ws_control s) \<and> ws_db s = db' \<and>
       ws_ready_evidence s = e \<and> sc_build_state (ws_control s) = Ready e \<and>
       (\<exists>c. durable_control blake2b stored_control (bh_db h) = Some c \<and> sc_build_lease c = Some (bh_lease h) \<and>
          now < bl_expires_at (bh_lease h) \<and>
          source_identity_from_ready_evidence e = bl_pinned_canonical_anchor (bh_lease h)))"
proof (cases "decode_only_control blake2b lib (bh_db h)")
  case (Inl e)
  then show ?thesis using assms(2) by (auto simp: publish_ready_at_def)
next
  case (Inr c)
  obtain u db2 where u: "update_control blake2b lib ''READY control differs after its synchronous publication''
      (published (bh_control h) (bh_lease h) e now c) (bh_db h) = (u, db2)" by fastforce
  have r: "db' = db2" "\<And>s. r = Ok s \<Longrightarrow> \<exists>ready. u = Ok ready \<and> s = \<lparr>ws_db = db2, ws_control = ready, ws_ready_evidence = e\<rparr>"
    using assms(2) u Inr by (cases u; auto simp: publish_shape)+
  have step: "\<forall>c' x. published (bh_control h) (bh_lease h) e now c = Ok (c', x) \<longrightarrow> lease_step c c'"
    using published_step by blast
  note effect = update_control_effect [OF assms(1) Inr step u]
  show ?thesis
  proof (intro conjI allI impI)
    fix s
    assume "r = Ok s"
    then obtain ready where s: "u = Ok ready" "s = \<lparr>ws_db = db2, ws_control = ready, ws_ready_evidence = e\<rparr>" using r(2) by blast
    then obtain c' where c': "published (bh_control h) (bh_lease h) e now c = Ok (c', ready)"
      "durable_control blake2b stored_control db2 = Some c'" using effect by blast
    note published_step [OF c'(1)]
    then show "durable_control blake2b stored_control db' = Some (ws_control s)" "ws_db s = db'" "ws_ready_evidence s = e"
      "sc_build_state (ws_control s) = Ready e"
      "\<exists>c. durable_control blake2b stored_control (bh_db h) = Some c \<and> sc_build_lease c = Some (bh_lease h) \<and>
        now < bl_expires_at (bh_lease h) \<and> source_identity_from_ready_evidence e = bl_pinned_canonical_anchor (bh_lease h)"
      using c'(2) s r(1) decode_only_control_durable(1) [OF assms(1) Inr] by auto
  qed (use effect r(1) in blast)
qed

lemma build_step_steps:
  assumes "control_lawful lib host stored_control" and "build_step blake2b lib host db db'"
  shows "steps_or_keeps blake2b stored_control db db'"
  using assms(2)
proof cases
  case (acquires bs request now)
  then show ?thesis unfolding acquire_shape by (auto intro!: opened_update_steps [OF assms(1)] dest: acquired_step)
next
  case (renews bs lease expires_at now)
  then show ?thesis unfolding renew_shape by (auto intro!: opened_update_steps [OF assms(1)] dest: renewed_step)
next
  case (releases bs lease now)
  then show ?thesis unfolding release_shape by (auto intro!: opened_update_steps [OF assms(1)] dest: released_step)
next
  case (beats h heartbeat)
  then show ?thesis using heartbeat_steps [OF assms(1)] by simp
next
  case (publishes h evidence now)
  then show ?thesis using publish_effect [OF assms(1) prod.collapse [symmetric]] by blast
qed

end
