(* ===== verification/Lease_Properties.thy ===== *)
theory Lease_Properties
  imports Lease_Facts Sample_Store
begin

text \<open>
  The properties of the build lease: the control record stays well formed whatever the builders of a
  store do, generations fence earlier builders off, and a lease that has not expired excludes the others.
\<close>

section \<open>Runs on control records\<close>

lemma lease_step_from_ready:
  assumes "lease_step c c'" and "sc_build_state c = Ready e" and "sc_build_lease c = None"
  shows False
  using assms by cases (auto simp: validate_lease_request_def split: if_splits)

lemma lease_step_to_ready:
  assumes "lease_step c c'" and "sc_build_state c = Building target" and "validate_build_lease c = Ok ()"
    and "sc_build_state c' = Ready e"
  shows "sc_build_lease c' = None \<and> re_source_position e = target"
  using assms(1)
proof cases
  case (publish l e')
  then have "si_source_position (bl_pinned_canonical_anchor l) = target"
    using decoded_lease [OF assms(3)] assms(2) by (metis build_state.inject(1))
  moreover have "re_source_position e = si_source_position (source_identity_from_ready_evidence e)"
    by (simp add: source_identity_from_ready_evidence_def)
  ultimately show ?thesis using publish assms(4) by simp
qed (use assms in simp_all)

definition progressed :: "store_control \<Rightarrow> source_position \<Rightarrow> store_control \<Rightarrow> bool" where
  "progressed c target c' \<longleftrightarrow>
     (case sc_build_state c' of
        Building t \<Rightarrow>
          t = target \<and> control_wf c' \<and> validate_build_lease c' = Ok () \<and> sc_network c' = sc_network c \<and>
          sc_supported_reorg_depth c' = sc_supported_reorg_depth c \<and> sc_writer_generation c \<le> sc_writer_generation c'
      | Ready e \<Rightarrow> sc_build_lease c' = None \<and> re_source_position e = target)"

lemma lease_steps_progressed:
  assumes "lease_step\<^sup>*\<^sup>* c c'" and "sc_build_state c = Building target" and "control_wf c" and "validate_build_lease c = Ok ()"
  shows "progressed c target c'"
  using assms(1)
proof induction
  case base
  then show ?case using assms(2-4) by (simp add: progressed_def)
next
  case (step c1 c2)
  show ?case
  proof (cases "sc_build_state c1")
    case (Building t)
    then have c1: "t = target" "control_wf c1" "validate_build_lease c1 = Ok ()" "sc_network c1 = sc_network c"
      "sc_supported_reorg_depth c1 = sc_supported_reorg_depth c" "sc_writer_generation c \<le> sc_writer_generation c1"
      using step.IH by (simp_all add: progressed_def)
    show ?thesis
    proof (cases "sc_build_state c2")
      case (Building t2)
      from lease_step_valid [OF step.hyps(2) c1(2,3) this] show ?thesis
        using c1 Building \<open>sc_build_state c1 = Building t\<close> by (auto simp: progressed_def)
    next
      case (Ready e)
      from lease_step_to_ready [OF step.hyps(2) Building c1(3) this] show ?thesis
        using c1(1) Ready by (simp add: progressed_def)
    qed
  next
    case (Ready e)
    then show ?thesis using lease_step_from_ready [OF step.hyps(2) Ready] step.IH by (simp add: progressed_def)
  qed
qed

lemma durable_control_Some:
  assumes "durable_control blake2b stored_control db = Some c"
  obtains bs where "stored_control db = Some bs" "control_decode blake2b bs = Ok c"
  using assms by (auto simp: durable_control_def split: option.splits sum.splits)

lemma run_progressed:
  assumes "control_lawful lib host stored_control" and "(build_step blake2b lib host)\<^sup>*\<^sup>* db db'"
    and "durable_control blake2b stored_control db = Some c" and "sc_build_state c = Building target"
  obtains c' where "durable_control blake2b stored_control db' = Some c'" "progressed c target c'"
proof -
  have "\<exists>c'. durable_control blake2b stored_control db' = Some c' \<and> lease_step\<^sup>*\<^sup>* c c'"
    using assms(2)
  proof induction
    case base
    then show ?case using assms(3) by auto
  next
    case (step db1 db2)
    then obtain c1 where c1: "durable_control blake2b stored_control db1 = Some c1" "lease_step\<^sup>*\<^sup>* c c1" by blast
    with build_step_steps [OF assms(1) step.hyps(2)] show ?case
      unfolding steps_or_keeps_def by (metis option.inject rtranclp.rtrancl_into_rtrancl)
  qed
  moreover obtain bs where "control_decode blake2b bs = Ok c" using durable_control_Some [OF assms(3)] .
  ultimately show ?thesis
    using lease_steps_progressed [OF _ assms(4)] decoded_control that by blast
qed

lemma acquire_Ok:
  assumes "control_lawful lib host stored_control" and "try_acquire_lease blake2b lib host bs request now db = (Ok l, db')"
  obtains c c' target where "durable_control blake2b stored_control db = Some c" "sc_build_state c = Building target"
    "durable_control blake2b stored_control db' = Some c'" "sc_build_state c' = Building target" "sc_build_lease c' = Some l"
    "bl_generation l = sc_writer_generation c'" "sc_writer_generation c < sc_writer_generation c'"
proof -
  have step: "\<forall>c c' x. sc_network c = bs_network bs \<longrightarrow> acquired bs request now c = Ok (c', x) \<longrightarrow> lease_step c c'"
    using acquired_step by blast
  obtain c c' where c: "durable_control blake2b stored_control db = Some c" "sc_network c = bs_network bs"
    "acquired bs request now c = Ok (c', l)" "durable_control blake2b stored_control db' = Some c'"
    using opened_update_effect [OF assms(1) step assms(2) [unfolded acquire_shape]] by blast
  note acquired_step [OF c(3,2)]
  moreover obtain target where "sc_build_state c = Building target"
    using c(3) by (auto simp: acquired_def and_then_Ok_iff validate_lease_request_def split: if_splits build_state.splits)
  ultimately show ?thesis using that c by metis
qed

section \<open>A store in memory\<close>

definition memory_host :: "memory host" where
  "memory_host =
     \<lparr>host_parent = (\<lambda>_. None), host_create_dir_all = (\<lambda>_ db. (Inr (), db)), host_create_dir = (\<lambda>_ db. (Inr (), db)),
      host_canonicalize = (\<lambda>path db. (Inr path, db)), host_exists = (\<lambda>_ _. False),
      host_remove_dir_all = (\<lambda>_ db. (Inr (), db)), host_list_cf = (\<lambda>_ db. (Inr required_column_family_names, db)),
      host_open_cf = (\<lambda>_ _ _ db. (Inr (), db))\<rparr>"

definition memory_control :: "memory \<Rightarrow> u8 list option" where
  "memory_control db = Some (snd db)"

lemma memory_control_lawful: "control_lawful memory_lib memory_host memory_control"
proof -
  have "snd (fold memory_write [Put WALLET_STORE_CONTROL_KEY v] db) = v" for v db
    using memory_write_control [of "[]"] by simp
  then show ?thesis by (auto simp: control_lawful_def memory_lib_def memory_host_def memory_control_def)
qed

definition building_control :: "u64 \<Rightarrow> build_lease option \<Rightarrow> store_control" where
  "building_control generation lease =
     \<lparr>sc_network = ZcashRegtest, sc_supported_reorg_depth = 10, sc_writer_generation = generation,
      sc_build_lease = lease, sc_build_state = Building (sample_position 1 1 1)\<rparr>"

definition building_db :: "store_control \<Rightarrow> memory" where
  "building_db c = (fmempty, case control_encode sample_blake2b c of Inr bs \<Rightarrow> bs | Inl _ \<Rightarrow> [])"

definition sample_build_store :: wallet_build_store where
  "sample_build_store =
     \<lparr>bs_store_path = ''/wallet'',
      bs_resource_budget =
        \<lparr>rb_block_cache_bytes = 8 * MIB, rb_max_wal_bytes = 8 * MIB, rb_max_open_files = 64, rb_write_buffer_bytes = 8 * MIB,
         rb_max_write_buffer_count = 2, rb_max_background_jobs = 2, rb_memtable_budget_bytes = 8 * MIB, rb_statistics_level = StatisticsTickers\<rparr>,
      bs_network = ZcashRegtest\<rparr>"

definition sample_request :: "u8 \<Rightarrow> unix_timestamp_millis \<Rightarrow> build_lease_request" where
  "sample_request owner expires_at =
     \<lparr>lr_owner = filled owner, lr_pinned_canonical_anchor = source_identity_from_ready_evidence sample_evidence,
      lr_earliest_retained_event_sequence = 1, lr_expires_at = expires_at\<rparr>"

definition sample_lease :: "u8 \<Rightarrow> unix_timestamp_millis \<Rightarrow> u64 \<Rightarrow> build_lease" where
  "sample_lease owner expires_at generation = lease_from_request (sample_request owner expires_at) generation ZcashRegtest"

fun leased :: "u64 \<Rightarrow> (u8 \<times> unix_timestamp_millis) option \<Rightarrow> store_control" where
  "leased generation holder =
     building_control generation (map_option (\<lambda>(owner, expires_at). sample_lease owner expires_at generation) holder)"

declare leased.simps [simp del]

lemma leased_bytes:
  "control_wf (leased g holder)" "control_encode sample_blake2b (leased g holder) = Inr (snd (building_db (leased g holder)))"
proof -
  have anchor: "si_source_position (source_identity_from_ready_evidence sample_evidence) = sample_position 1 1 1"
    by (simp add: source_identity_from_ready_evidence_def sample_evidence_def)
  have "control_wf (leased g holder) \<and> (\<exists>bs. control_encode sample_blake2b (leased g holder) = Inr bs)"
  proof (cases holder)
    case None
    then show ?thesis
      by (simp add: leased.simps building_control_def control_wf_def control_encode_def validate_build_lease_def
          validate_event_cursor_def sample_position_def source_position_new_def cursor_event_sequence_def cursor_for_sequence_def
          position_wf_def)
  next
    case (Some h)
    then show ?thesis
      by (cases h) (simp add: leased.simps building_control_def control_wf_def control_encode_def validate_build_lease_def
          sample_lease_def sample_request_def lease_from_request_def anchor
          validate_event_cursor_def sample_position_def source_position_new_def cursor_event_sequence_def cursor_for_sequence_def
          position_wf_def Let_def)
  qed
  then show "control_wf (leased g holder)" "control_encode sample_blake2b (leased g holder) = Inr (snd (building_db (leased g holder)))"
    by (auto simp: building_db_def)
qed

lemma leased_durable: "durable_control sample_blake2b memory_control (building_db (leased g holder)) = Some (leased g holder)"
  using control_decode_encode [OF leased_bytes] by (simp add: durable_control_def memory_control_def)

lemma leased_opened:
  "open_building_control sample_blake2b memory_lib memory_host sample_build_store (building_db (leased g holder)) =
     (Ok (leased g holder), building_db (leased g holder))"
  by (simp add: open_building_control_def require_exact_column_families_def open_bounded_rocksdb_def memory_host_def
      db_map_err_def memory_decode_only_control [OF leased_bytes(2,1)] require_building_control_def Let_def)
    (simp add: leased.simps building_control_def sample_build_store_def)

lemma leased_update:
  "update_control sample_blake2b memory_lib reason (Ok (leased g holder, x)) (building_db c) = (Ok x, building_db (leased g holder))"
proof -
  have "fold memory_write [Put WALLET_STORE_CONTROL_KEY (snd (building_db (leased g holder)))] (building_db c) =
      building_db (leased g holder)" by (simp add: building_db_def)
  then show ?thesis
    by (simp add: update_control_def replace_control_def write_control_sync_def leased_bytes memory_write_opt db_map_err_def
        memory_decode_only_control [OF leased_bytes(2,1)])
qed

lemma sample_acquire:
  assumes "now < expires_at" and "case holder of None \<Rightarrow> True | Some (_, until) \<Rightarrow> until \<le> now" and "unat g < 100"
  shows "try_acquire_lease sample_blake2b memory_lib memory_host sample_build_store (sample_request owner expires_at) now
           (building_db (leased g holder)) =
         (Ok (sample_lease owner expires_at (g + 1)), building_db (leased (g + 1) (Some (owner, expires_at))))"
proof -
  have g: "checked_add g 1 = Some (g + 1)" using assms(3) by (simp add: checked_add_def)
  have "acquired sample_build_store (sample_request owner expires_at) now (leased g holder) =
      Ok (leased (g + 1) (Some (owner, expires_at)), sample_lease owner expires_at (g + 1))"
    using assms(1,2) g
    by (auto simp: acquired_def validate_lease_request_def require_expired_lease_def leased.simps building_control_def
        sample_lease_def sample_request_def lease_from_request_def source_identity_from_ready_evidence_def sample_evidence_def
        sample_position_def source_position_new_def sample_build_store_def Let_def not_le split: option.splits)
  then show ?thesis by (simp add: acquire_shape leased_opened leased_update)
qed

section \<open>The properties\<close>

text \<open>
  C20: the control record stays well formed. Whatever any number of builders do to a BUILDING store, also
  when their writes fail, the stored bytes decode to a record that encodes to the same bytes. While it is
  BUILDING, the record keeps its target, network and reorg depth, its generation does not decrease, and its
  lease is for this generation, network and target; a READY record has no lease and is at the target.
\<close>

theorem control_record_stays_well_formed:
  assumes "control_lawful lib host stored_control" and "durable_control blake2b stored_control db = Some c"
    and "sc_build_state c = Building target" and "(build_step blake2b lib host)\<^sup>*\<^sup>* db db'"
  shows "\<exists>bs c'. stored_control db' = Some bs \<and> control_decode blake2b bs = Ok c' \<and> control_encode blake2b c' = Ok bs \<and>
    (case sc_build_state c' of
       Building t \<Rightarrow>
         t = target \<and> sc_network c' = sc_network c \<and> sc_supported_reorg_depth c' = sc_supported_reorg_depth c \<and>
         sc_writer_generation c \<le> sc_writer_generation c' \<and>
         (\<forall>l. sc_build_lease c' = Some l \<longrightarrow> bl_generation l = sc_writer_generation c' \<and>
            bl_network l = sc_network c \<and> si_source_position (bl_pinned_canonical_anchor l) = target)
     | Ready e \<Rightarrow> sc_build_lease c' = None \<and> re_source_position e = target)"
proof -
  obtain c' where c': "durable_control blake2b stored_control db' = Some c'" "progressed c target c'"
    using run_progressed [OF assms(1,4,2,3)] .
  obtain bs where bs: "stored_control db' = Some bs" "control_decode blake2b bs = Ok c'"
    using durable_control_Some [OF c'(1)] .
  have "control_encode blake2b c' = Ok bs" using control.encode_decode [OF bs(2)] by simp
  moreover have "bl_generation l = sc_writer_generation c' \<and> bl_network l = sc_network c' \<and>
      si_source_position (bl_pinned_canonical_anchor l) = t"
    if "sc_build_state c' = Building t" "sc_build_lease c' = Some l" for t l
    using decoded_lease [OF decoded_control(2) [OF bs(2)] that(2)] that(1) by (metis build_state.inject(1))
  ultimately show ?thesis
    using bs c'(2) unfolding progressed_def by (cases "sc_build_state c'") (auto intro!: exI [of _ bs] exI [of _ c'])
qed

theorem control_record_stays_well_formed_witness:
  "\<exists>bs c'. memory_control (building_db (leased 1 (Some (7, 10)))) = Some bs \<and> control_decode sample_blake2b bs = Ok c' \<and>
     control_encode sample_blake2b c' = Ok bs \<and>
     (case sc_build_state c' of
        Building t \<Rightarrow> t = sample_position 1 1 1 \<and> (\<forall>l. sc_build_lease c' = Some l \<longrightarrow> bl_generation l = sc_writer_generation c')
      | Ready e \<Rightarrow> sc_build_lease c' = None)"
proof -
  have "build_step sample_blake2b memory_lib memory_host (building_db (leased 0 None)) (building_db (leased 1 (Some (7, 10))))"
    using build_step.acquires [of sample_blake2b memory_lib memory_host "building_db (leased 0 None)" sample_build_store
        "sample_request 7 10" 5] sample_acquire [of 5 10 None 0 7] by simp
  then have "(build_step sample_blake2b memory_lib memory_host)\<^sup>*\<^sup>* (building_db (leased 0 None)) (building_db (leased 1 (Some (7, 10))))"
    by blast
  from control_record_stays_well_formed [OF memory_control_lawful leased_durable _ this, of "sample_position 1 1 1"]
  show ?thesis by (fastforce simp: leased.simps building_control_def split: build_state.splits)
qed

text \<open>
  C14: generations fence. Of two leases that are granted one after the other, whatever happens in
  between, the second has the higher generation; and from then on every capability of a lower generation
  is refused: it can neither renew, release, keep alive nor publish the build, and changes nothing.
\<close>

theorem lease_generations_fence:
  assumes "control_lawful lib host stored_control"
    and "try_acquire_lease blake2b lib host bs1 request1 now1 db0 = (Ok l1, db1)"
    and "(build_step blake2b lib host)\<^sup>*\<^sup>* db1 db2"
    and "try_acquire_lease blake2b lib host bs2 request2 now2 db2 = (Ok l2, db3)"
    and "(build_step blake2b lib host)\<^sup>*\<^sup>* db3 db4"
  shows "bl_generation l1 < bl_generation l2 \<and>
    (\<forall>l now. bl_generation l < bl_generation l2 \<longrightarrow> powerless blake2b lib host stored_control l now db4)"
proof -
  obtain c1 target where c1: "durable_control blake2b stored_control db1 = Some c1" "sc_build_state c1 = Building target"
    "bl_generation l1 = sc_writer_generation c1" using acquire_Ok [OF assms(1,2)] by metis
  obtain c2 c3 target2 where c2: "durable_control blake2b stored_control db2 = Some c2" "sc_build_state c2 = Building target2"
    and c3: "durable_control blake2b stored_control db3 = Some c3" "sc_build_state c3 = Building target2"
      "bl_generation l2 = sc_writer_generation c3" "sc_writer_generation c2 < sc_writer_generation c3"
    using acquire_Ok [OF assms(1,4)] by metis
  obtain c2' where "durable_control blake2b stored_control db2 = Some c2'" "progressed c1 target c2'"
    using run_progressed [OF assms(1,3) c1(1,2)] .
  then have "sc_writer_generation c1 \<le> sc_writer_generation c2" using c2 by (simp add: progressed_def)
  then have less: "bl_generation l1 < bl_generation l2" using c1(3) c3(3,4) by (simp add: le_less_trans)
  obtain c4 where c4: "durable_control blake2b stored_control db4 = Some c4" "progressed c3 target2 c4"
    using run_progressed [OF assms(1,5) c3(1,2)] .
  have "sc_build_lease c4 \<noteq> Some l" if "bl_generation l < bl_generation l2" for l
  proof
    assume l: "sc_build_lease c4 = Some l"
    then obtain t where t: "sc_build_state c4 = Building t" using c4(2) by (cases "sc_build_state c4") (auto simp: progressed_def)
    then have "bl_generation l = sc_writer_generation c4" "sc_writer_generation c3 \<le> sc_writer_generation c4"
      using c4(2) decoded_lease [OF _ l] by (auto simp: progressed_def)
    then show False using that c3(3) by simp
  qed
  then have "powerless blake2b lib host stored_control l now db4" if "bl_generation l < bl_generation l2" for l now
    using that c4(1) by (intro powerlessI [OF assms(1)]) auto
  then show ?thesis using less by blast
qed

theorem lease_generations_fence_witness:
  "bl_generation (sample_lease 7 10 1) < bl_generation (sample_lease 8 40 2) \<and>
   powerless sample_blake2b memory_lib memory_host memory_control (sample_lease 7 10 1) 5 (building_db (leased 2 (Some (8, 40))))"
proof -
  have first: "try_acquire_lease sample_blake2b memory_lib memory_host sample_build_store (sample_request 7 10) 5
      (building_db (leased 0 None)) = (Ok (sample_lease 7 10 1), building_db (leased 1 (Some (7, 10))))"
    using sample_acquire [of 5 10 None 0 7] by simp
  have second: "try_acquire_lease sample_blake2b memory_lib memory_host sample_build_store (sample_request 8 40) 20
      (building_db (leased 1 (Some (7, 10)))) = (Ok (sample_lease 8 40 2), building_db (leased 2 (Some (8, 40))))"
    using sample_acquire [of 20 40 "Some (7, 10)" 1 8] by simp
  show ?thesis
    using lease_generations_fence [OF memory_control_lawful first rtranclp.rtrancl_refl second rtranclp.rtrancl_refl]
    by (auto simp: sample_lease_def lease_from_request_def)
qed

text \<open>
  C18: a lease that has not expired excludes every other builder. At a time before its expiry no lease is
  granted, the store is not discarded, and no capability but the exact durable lease renews, releases,
  keeps alive or publishes the build; each such attempt fails and leaves the control record.
\<close>

theorem unexpired_lease_excludes:
  assumes "control_lawful lib host stored_control" and "durable_control blake2b stored_control db = Some c"
    and "sc_build_lease c = Some l" and "now < bl_expires_at l"
  shows "(\<forall>bs request. refused (durable_control blake2b stored_control) (try_acquire_lease blake2b lib host bs request now db) db) \<and>
    (\<forall>bs. refused (durable_control blake2b stored_control) (discard_unpublished blake2b lib host bs now db) db) \<and>
    (\<forall>m. m \<noteq> l \<longrightarrow> powerless blake2b lib host stored_control m now db)"
proof (intro conjI allI impI)
  have held: "require_expired_lease c now = Err (BuildLeaseHeld (bl_expires_at l))"
    using assms(3,4) by (simp add: require_expired_lease_def)
  show "refused (durable_control blake2b stored_control) (try_acquire_lease blake2b lib host bs request now db) db" for bs request
    unfolding acquire_shape
  proof (rule opened_update_refused [OF assms(1)])
    show "\<forall>c c' x. sc_network c = bs_network bs \<longrightarrow> acquired bs request now c = Ok (c', x) \<longrightarrow> lease_step c c'"
      using acquired_step by blast
    show "\<exists>e. acquired bs request now c1 = Err e" if "durable_control blake2b stored_control db = Some c1" for c1
      using that assms(2) held by (cases "validate_lease_request c request now") (simp_all add: acquired_def)
  qed
  show "refused (durable_control blake2b stored_control) (discard_unpublished blake2b lib host bs now db) db" for bs
  proof (cases "open_building_control blake2b lib host bs db")
    case (Pair opened db2)
    have same: "durable_control blake2b stored_control db2 = durable_control blake2b stored_control db"
      using open_building_control_keeps [OF assms(1), of blake2b bs db] Pair by (intro durable_cong) (simp add: keeps_def)
    have "\<exists>e. require_expired_lease c2 now = Err e" if "opened = Ok c2" for c2
      using held assms(2) same decode_only_control_durable(1) [OF assms(1)]
        open_building_control_Ok(2) [OF assms(1), of blake2b bs db c2 db2] Pair that by auto
    then have "\<exists>e. discard_unpublished blake2b lib host bs now db = (Err e, db2)"
      using Pair by (cases opened; cases "require_building_control (projr opened) (bs_store_path bs) (bs_network bs)")
        (auto simp: discard_unpublished_def)
    then show ?thesis using same by (auto simp: refused_def)
  qed
  show "powerless blake2b lib host stored_control m now db" if "m \<noteq> l" for m
    using that assms(2,3) by (intro powerlessI [OF assms(1)]) auto
qed

theorem unexpired_lease_excludes_witness:
  "refused (durable_control sample_blake2b memory_control) (try_acquire_lease sample_blake2b memory_lib memory_host
     sample_build_store (sample_request 8 40) 5 (building_db (leased 1 (Some (7, 10))))) (building_db (leased 1 (Some (7, 10))))"
proof -
  have "sc_build_lease (leased 1 (Some (7, 10))) = Some (sample_lease 7 10 1)" "5 < bl_expires_at (sample_lease 7 10 1)"
    by (simp_all add: leased.simps building_control_def sample_lease_def lease_from_request_def sample_request_def)
  from unexpired_lease_excludes [OF memory_control_lawful leased_durable this] show ?thesis by blast
qed

end
