(* ===== verification/Variable_Sort.thy ===== *)
theory Variable_Sort
  imports File_Io "HOL-Library.Product_Lexorder"
begin

text \<open>
  The bounded external sorter of \<open>zinder-rocksdb-bulk-load/src/bulk_load/variable_value_sort.rs\<close>: fixed-width
  keys with values of any length are staged in memory, written to sorted run files, and merged in passes of
  at most 64 runs into one run, which is then read record by record. Memory and temporary files are accounted
  against the ceilings of the caller. An error ends the sort, as the callers pass it on, so an operation that
  fails returns no sorter; files that are removed when a run or the workspace is dropped are not followed.
\<close>

section \<open>Records and budgets\<close>

definition MAX_MERGE_FAN_IN :: nat where
  "MAX_MERGE_FAN_IN = 64"

definition VALUE_LENGTH_BYTES :: u64 where
  "VALUE_LENGTH_BYTES = 8"

record (overloaded) 'k variable_value_record =
  vr_key :: "'k bytes"
  vr_encoded_value :: "u8 list"

record variable_value_sort_evidence =
  se_record_count :: u64
  se_initial_run_count :: u64
  se_merge_pass_count :: u64
  se_peak_accounted_memory_bytes :: u64
  se_max_accounted_memory_bytes :: u64
  se_peak_temporary_file_bytes :: u64
  se_max_temporary_file_bytes :: u64
  se_final_run_file_bytes :: u64

record (overloaded) 'k staged_variable_value =
  sv_key :: "'k bytes"
  sv_value_start :: nat
  sv_value_end :: nat

record run_file =
  rf_path :: string
  rf_file_bytes :: u64

record temporary_file_budget =
  tb_byte_limit :: u64
  tb_bytes_in_use :: u64
  tb_peak_bytes_in_use :: u64

definition budget_new :: "u64 \<Rightarrow> temporary_file_budget" where
  "budget_new limit = \<lparr>tb_byte_limit = limit, tb_bytes_in_use = 0, tb_peak_bytes_in_use = 0\<rparr>"

definition budget_reserve :: "u64 \<Rightarrow> temporary_file_budget \<Rightarrow> bulk_load_error + temporary_file_budget" where
  "budget_reserve bytes b =
     and_then (ok_or (checked_add (tb_bytes_in_use b) bytes) (BulkInvalidInput ''temporary file bytes exceed u64::MAX''))
       (\<lambda>required_bytes.
     if required_bytes > tb_byte_limit b then Err (BulkTemporaryFileLimit (tb_byte_limit b) required_bytes)
     else Ok (b\<lparr>tb_bytes_in_use := required_bytes, tb_peak_bytes_in_use := max (tb_peak_bytes_in_use b) required_bytes\<rparr>))"

definition budget_release :: "u64 \<Rightarrow> temporary_file_budget \<Rightarrow> bulk_load_error + temporary_file_budget" where
  "budget_release bytes b =
     and_then (ok_or (checked_sub (tb_bytes_in_use b) bytes) (BulkInvalidInput ''temporary file accounting underflow''))
       (\<lambda>bytes_in_use. Ok (b\<lparr>tb_bytes_in_use := bytes_in_use\<rparr>))"

text \<open>
  What the sorter takes from its surroundings: the files, the unstable sort of the standard library, whose
  order of equal keys is not specified, and the size of a staged record in memory.
\<close>

record (overloaded) ('k, 'f) sort_env =
  env_files :: "'f files"
  env_sort_unstable_by_key :: "'k staged_variable_value list \<Rightarrow> 'k staged_variable_value list"
  env_staged_size :: nat

text \<open>The conversion of a \<open>usize\<close> to 64 bits succeeds on every \<open>usize\<close>.\<close>

definition bulk_u64_try_from :: "string \<Rightarrow> nat \<Rightarrow> bulk_load_error + u64" where
  "bulk_u64_try_from reason n = (if n < 2 ^ 64 then Ok (of_nat n) else Err (BulkInvalidInput reason))"

definition accounted_record_bytes :: "('k, 'f) sort_env \<Rightarrow> nat \<Rightarrow> bulk_load_error + u64" where
  "accounted_record_bytes env value_len =
     and_then (ok_or (checked_add_usize (env_staged_size env) value_len)
                 (BulkInvalidInput ''accounted record bytes exceed usize::MAX'')) (\<lambda>total.
     bulk_u64_try_from ''record bytes exceed u64::MAX'' total)"

definition encoded_run_record_bytes :: "nat \<Rightarrow> nat \<Rightarrow> bulk_load_error + u64" where
  "encoded_run_record_bytes key_len value_len =
     and_then (bulk_u64_try_from ''variable key bytes exceed u64::MAX'' key_len) (\<lambda>key_bytes.
     and_then (bulk_u64_try_from ''variable value bytes exceed u64::MAX'' value_len) (\<lambda>value_bytes.
     ok_or (case checked_add key_bytes VALUE_LENGTH_BYTES of
              None \<Rightarrow> None | Some bytes \<Rightarrow> checked_add bytes value_bytes)
       (BulkInvalidInput ''encoded run record bytes exceed u64::MAX'')))"

definition validate_artifact_label :: "string \<Rightarrow> bulk_load_error + unit" where
  "validate_artifact_label label =
     (if label = [] \<or> \<not> list_all (\<lambda>c. of_char c \<in> {97..122} \<union> {48..57 :: nat} \<or> c = CHR ''-'' \<or> c = CHR ''_'') label
      then Err (BulkInvalidInput
        ''variable-sort artifact label must contain only lowercase ASCII letters, digits, '-' or '_' '')
      else Ok ())"

section \<open>The sorter\<close>

record (overloaded) 'k variable_value_sorter =
  vs_workspace :: string
  vs_max_accounted_memory_bytes :: u64
  vs_staged_records :: "'k staged_variable_value list"
  vs_encoded_values :: "u8 list"
  vs_runs :: "run_file list"
  vs_next_run_index :: u64
  vs_record_count :: u64
  vs_initial_run_count :: u64
  vs_merge_pass_count :: u64
  vs_peak_accounted_memory_bytes :: u64
  vs_temporary_files :: temporary_file_budget

definition sorter_new ::
    "('k::len, 'f) sort_env \<Rightarrow> string \<Rightarrow> string \<Rightarrow> u64 \<Rightarrow> u64 \<Rightarrow> 'f \<Rightarrow>
       (bulk_load_error + 'k variable_value_sorter) \<times> 'f" where
  "sorter_new env staging_path artifact_label max_accounted_memory_bytes max_temporary_file_bytes fs =
     (if LENGTH('k) = 0 then (Err (BulkInvalidInput ''variable-value keys must contain at least one byte''), fs)
      else
        db_then (validate_artifact_label artifact_label, fs) (\<lambda>_ fs.
        db_then (bulk_u64_try_from ''record metadata bytes exceed u64::MAX'' (env_staged_size env), fs)
          (\<lambda>minimum_record_bytes fs.
        if max_accounted_memory_bytes < minimum_record_bytes
        then (Err (BulkAccountedMemoryLimit max_accounted_memory_bytes minimum_record_bytes), fs)
        else if max_temporary_file_bytes = 0 then (Err (BulkTemporaryFileLimit 0 1), fs)
        else
          db_then (db_map_err (BulkPathUnavailable staging_path)
                     (fs_tempdir_in (env_files env) staging_path (artifact_label @ ''-variable-sort-'') fs)) (\<lambda>workspace fs.
          (Ok \<lparr>vs_workspace = workspace, vs_max_accounted_memory_bytes = max_accounted_memory_bytes,
               vs_staged_records = [], vs_encoded_values = [], vs_runs = [], vs_next_run_index = 0,
               vs_record_count = 0, vs_initial_run_count = 0, vs_merge_pass_count = 0,
               vs_peak_accounted_memory_bytes = 0,
               vs_temporary_files = budget_new max_temporary_file_bytes\<rparr>, fs)))))"

definition current_accounted_memory_bytes ::
    "('k, 'f) sort_env \<Rightarrow> 'k variable_value_sorter \<Rightarrow> bulk_load_error + u64" where
  "current_accounted_memory_bytes env s =
     and_then (ok_or (checked_mul_usize (length (vs_staged_records s)) (env_staged_size env))
                 (BulkInvalidInput ''record index bytes exceed usize::MAX'')) (\<lambda>index_bytes.
     and_then (ok_or (checked_add_usize index_bytes (length (vs_encoded_values s)))
                 (BulkInvalidInput ''record bytes exceed usize::MAX'')) (\<lambda>total_bytes.
     bulk_u64_try_from ''record bytes exceed u64::MAX'' total_bytes))"

definition remove_temporary_file :: "'f files \<Rightarrow> string \<Rightarrow> 'f \<Rightarrow> (bulk_load_error + unit) \<times> 'f" where
  "remove_temporary_file files path fs =
     (case fs_remove_file files path fs of
        (Inr _, fs) \<Rightarrow> (Ok (), fs)
      | (Inl source, fs) \<Rightarrow>
          (if io_kind source = NotFound then Ok () else Err (BulkPathUnavailable path source), fs))"

definition discard_reserved_file ::
    "'f files \<Rightarrow> string \<Rightarrow> u64 \<Rightarrow> temporary_file_budget \<Rightarrow> 'f \<Rightarrow> (bulk_load_error + temporary_file_budget) \<times> 'f" where
  "discard_reserved_file files path reserved_bytes b fs =
     db_then (remove_temporary_file files path fs) (\<lambda>_ fs. (budget_release reserved_bytes b, fs))"

text \<open>A file whose reservation is given back, and the error that is reported then.\<close>

definition abandon_file ::
    "'f files \<Rightarrow> string \<Rightarrow> u64 \<Rightarrow> temporary_file_budget \<Rightarrow> bulk_load_error \<Rightarrow> 'f \<Rightarrow> (bulk_load_error + 'a) \<times> 'f" where
  "abandon_file files path reserved_bytes b e fs =
     db_then (discard_reserved_file files path reserved_bytes b fs) (\<lambda>_ fs. (Err e, fs))"

text \<open>The slice \<open>encoded_values.get(start..end)\<close>.\<close>

definition slice_get :: "nat \<Rightarrow> nat \<Rightarrow> 'a list \<Rightarrow> 'a list option" where
  "slice_get start stop xs = (if start \<le> stop \<and> stop \<le> length xs then Some (take (stop - start) (drop start xs)) else None)"

text \<open>
  One record of a run file: the key, the length of the value as eight big-endian bytes, and the value. A
  length beyond 64 bits does not fit an I/O error of its own; it is reported for the path.
\<close>

definition write_run_record ::
    "'f files \<Rightarrow> string \<Rightarrow> 'k::len bytes \<Rightarrow> u8 list \<Rightarrow> 'f \<Rightarrow> (bulk_load_error + unit) \<times> 'f" where
  "write_run_record files path key encoded_value fs =
     db_map_err (BulkPathUnavailable path)
       (db_then (fs_write_all files path (as_slice key) fs) (\<lambda>_ fs.
        db_then (if length encoded_value < 2 ^ 64
                 then fs_write_all files path (to_be_bytes (of_nat (length encoded_value) :: u64)) fs
                 else (Err (IoError (OtherKind ''other'') ''encoded value length exceeds u64::MAX''), fs)) (\<lambda>_ fs.
        fs_write_all files path encoded_value fs)))"

definition write_staged_run ::
    "'f files \<Rightarrow> string \<Rightarrow> 'k::len staged_variable_value list \<Rightarrow> u8 list \<Rightarrow> 'f \<Rightarrow> (bulk_load_error + unit) \<times> 'f" where
  "write_staged_run files path staged_records encoded_values fs =
     db_then (db_map_err (BulkPathUnavailable path) (fs_create files path fs)) (\<lambda>_ fs.
     db_then (db_fold (\<lambda>staged _ fs.
        db_then (ok_or (slice_get (sv_value_start staged) (sv_value_end staged) encoded_values)
                   (BulkInvalidInput ''staged value range is unavailable''), fs) (\<lambda>encoded_value fs.
        write_run_record files path (sv_key staged) encoded_value fs)) staged_records () fs) (\<lambda>_ fs.
     db_map_err (BulkPathUnavailable path) (fs_flush files path fs)))"

text \<open>The bytes of the run that is about to be written.\<close>

definition staged_run_bytes :: "'k::len staged_variable_value list \<Rightarrow> bulk_load_error + u64" where
  "staged_run_bytes staged_records =
     try_fold (\<lambda>staged total.
       and_then (ok_or (if sv_value_start staged \<le> sv_value_end staged
                        then Some (sv_value_end staged - sv_value_start staged) else None)
                   (BulkInvalidInput ''staged value range is reversed'')) (\<lambda>value_bytes.
       and_then (encoded_run_record_bytes LENGTH('k) value_bytes) (\<lambda>record_bytes.
       ok_or (checked_add total record_bytes) (BulkInvalidInput ''run file bytes exceed u64::MAX''))))
       staged_records 0"

text \<open>The run is written, its length compared with what was reserved, and the staged records are dropped.\<close>

definition write_run ::
    "('k::len, 'f) sort_env \<Rightarrow> 'k variable_value_sorter \<Rightarrow> 'k staged_variable_value list \<Rightarrow> string \<Rightarrow> u64 \<Rightarrow>
       temporary_file_budget \<Rightarrow> u64 \<Rightarrow> 'f \<Rightarrow> (bulk_load_error + 'k variable_value_sorter) \<times> 'f" where
  "write_run env s staged path run_file_bytes budget next_run_index fs =
     (let files = env_files env in
      case write_staged_run files path staged (vs_encoded_values s) fs of
        (Inl source, fs) \<Rightarrow> abandon_file files path run_file_bytes budget source fs
      | (Inr _, fs) \<Rightarrow>
          (case fs_metadata_len files path fs of
             (Inl source, fs) \<Rightarrow> abandon_file files path run_file_bytes budget (BulkPathUnavailable path source) fs
           | (Inr observed_file_bytes, fs) \<Rightarrow>
               if observed_file_bytes \<noteq> run_file_bytes
               then abandon_file files path run_file_bytes budget
                      (BulkInvalidInput ''variable run file size differs from its admitted bytes'') fs
               else
                 db_then (ok_or (checked_add (vs_initial_run_count s) 1)
                            (BulkInvalidInput ''initial run count exceeds u64::MAX''), fs) (\<lambda>initial_run_count fs.
                 (Ok (s\<lparr>vs_staged_records := [], vs_encoded_values := [],
                        vs_runs := vs_runs s @ [\<lparr>rf_path = path, rf_file_bytes = run_file_bytes\<rparr>],
                        vs_next_run_index := next_run_index, vs_initial_run_count := initial_run_count,
                        vs_temporary_files := budget\<rparr>), fs))))"

definition flush_run ::
    "('k::len, 'f) sort_env \<Rightarrow> 'k variable_value_sorter \<Rightarrow> 'f \<Rightarrow> (bulk_load_error + 'k variable_value_sorter) \<times> 'f" where
  "flush_run env s fs =
     (if vs_staged_records s = [] then (Ok s, fs)
      else
        let staged = env_sort_unstable_by_key env (vs_staged_records s) in
        db_then (staged_run_bytes staged, fs) (\<lambda>run_file_bytes fs.
        db_then (budget_reserve run_file_bytes (vs_temporary_files s), fs) (\<lambda>budget fs.
        let path = path_join (vs_workspace s) (''run-'' @ decimal 8 (unat (vs_next_run_index s)) @ ''.bin'') in
        db_then (ok_or (checked_add (vs_next_run_index s) 1) (BulkInvalidInput ''variable run count exceeds u64::MAX''), fs)
          (\<lambda>next_run_index fs.
        write_run env s staged path run_file_bytes budget next_run_index fs))))"

definition stage_record ::
    "('k::len, 'f) sort_env \<Rightarrow> 'k bytes \<Rightarrow> u8 list \<Rightarrow> 'k variable_value_sorter \<Rightarrow> 'f \<Rightarrow>
       (bulk_load_error + 'k variable_value_sorter) \<times> 'f" where
  "stage_record env key encoded_value s fs =
     db_then (db_map_err (BulkMemoryAllocation ''variable-value record index'') (fs_try_reserve (env_files env) 1 fs)) (\<lambda>_ fs.
     db_then (db_map_err (BulkMemoryAllocation ''variable-value record bytes'')
                (fs_try_reserve (env_files env) (length encoded_value) fs)) (\<lambda>_ fs.
     let value_start = length (vs_encoded_values s);
         encoded_values = vs_encoded_values s @ encoded_value;
         s = s\<lparr>vs_encoded_values := encoded_values,
               vs_staged_records := vs_staged_records s @
                 [\<lparr>sv_key = key, sv_value_start = value_start, sv_value_end = length encoded_values\<rparr>]\<rparr> in
     db_then (ok_or (checked_add (vs_record_count s) 1)
                (BulkInvalidInput ''variable-value record count exceeds u64::MAX''), fs) (\<lambda>record_count fs.
     db_then (current_accounted_memory_bytes env s, fs) (\<lambda>current_bytes fs.
     (Ok (s\<lparr>vs_record_count := record_count,
            vs_peak_accounted_memory_bytes := max (vs_peak_accounted_memory_bytes s) current_bytes\<rparr>), fs)))))"

definition sorter_push ::
    "('k::len, 'f) sort_env \<Rightarrow> 'k bytes \<Rightarrow> u8 list \<Rightarrow> 'k variable_value_sorter \<Rightarrow> 'f \<Rightarrow>
       (bulk_load_error + 'k variable_value_sorter) \<times> 'f" where
  "sorter_push env key encoded_value s fs =
     db_then (accounted_record_bytes env (length encoded_value), fs) (\<lambda>record_bytes fs.
     if record_bytes > vs_max_accounted_memory_bytes s
     then (Err (BulkAccountedMemoryLimit (vs_max_accounted_memory_bytes s) record_bytes), fs)
     else
       db_then (current_accounted_memory_bytes env s, fs) (\<lambda>current_bytes fs.
       db_then (ok_or (checked_add current_bytes record_bytes)
                  (BulkInvalidInput ''accounted record bytes exceed u64::MAX''), fs) (\<lambda>required_bytes fs.
       db_then (if required_bytes > vs_max_accounted_memory_bytes s then flush_run env s fs else (Ok s, fs))
         (stage_record env key encoded_value))))"

section \<open>Merging runs\<close>

record (overloaded) 'k run_head =
  rh_key :: "'k bytes"
  rh_value_len :: u64

definition read_run_head ::
    "string \<Rightarrow> file_reader \<Rightarrow> bulk_load_error + 'k::len run_head option \<times> file_reader" where
  "read_run_head path reader =
     (if LENGTH('k) = 0 then Err (BulkInvalidInput ''variable run key length must be greater than zero'')
      else if fr_bytes reader = []
      then (case fr_error reader of Some e \<Rightarrow> Err (BulkPathUnavailable path e) | None \<Rightarrow> Ok (None, reader))
      else
        map_err (BulkPathUnavailable path)
          (and_then (read_exact LENGTH('k) reader) (\<lambda>(key, reader).
           and_then (read_exact 8 reader) (\<lambda>(encoded_value_len, reader).
           Ok (Some \<lparr>rh_key = array_of key, rh_value_len = from_be_bytes encoded_value_len\<rparr>, reader)))))"

text \<open>
  Copying a value reports every failure for the path of the input run; what could be read of a truncated
  value has been written by then.
\<close>

definition copy_exact_value ::
    "'f files \<Rightarrow> string \<Rightarrow> string \<Rightarrow> u64 \<Rightarrow> file_reader \<Rightarrow> 'f \<Rightarrow> (bulk_load_error + file_reader) \<times> 'f" where
  "copy_exact_value files input_path output_path value_len reader fs =
     db_map_err (BulkPathUnavailable input_path)
       (db_then (fs_write_all files output_path (take (unat value_len) (fr_bytes reader)) fs) (\<lambda>_ fs.
        (if unat value_len \<le> length (fr_bytes reader)
         then Ok (reader\<lparr>fr_bytes := drop (unat value_len) (fr_bytes reader)\<rparr>)
         else Err (case fr_error reader of
                     Some e \<Rightarrow> e | None \<Rightarrow> IoError UnexpectedEof ''variable run value is truncated''), fs)))"

text \<open>The heap of heads pops the least key, and of equal keys the one of the first reader.\<close>

type_synonym 'k heap_head = "'k bytes \<times> nat \<times> u64"

definition heap_pop :: "'k::len heap_head list \<Rightarrow> ('k heap_head \<times> 'k heap_head list) option" where
  "heap_pop heads =
     (case heads of [] \<Rightarrow> None
      | head # rest \<Rightarrow> let least = fold min rest head in Some (least, remove1 least heads))"

definition open_runs ::
    "'f files \<Rightarrow> run_file list \<Rightarrow> 'f \<Rightarrow> (bulk_load_error + 'k::len heap_head list \<times> file_reader list) \<times> 'f" where
  "open_runs files input_runs fs =
     db_fold (\<lambda>run (heads, readers) fs.
        db_then (db_map_err (BulkPathUnavailable (rf_path run)) (fs_open files (rf_path run) fs)) (\<lambda>reader fs.
        db_then (read_run_head (rf_path run) reader, fs) (\<lambda>(head, reader) fs.
        (Ok (case head of None \<Rightarrow> heads | Some h \<Rightarrow> (rh_key h, length readers, rh_value_len h) # heads,
             readers @ [reader]), fs)))) input_runs ([], []) fs"

lemma heap_pop_Some_iff:
  "heap_pop heads = Some (head, rest) \<longleftrightarrow> heads \<noteq> [] \<and> head = Min (set heads) \<and> rest = remove1 head heads"
  by (cases heads) (auto simp only: heap_pop_def Let_def Min.set_eq_fold [symmetric] list.case option.inject prod.inject)

lemma heap_pop_length:
  assumes "heap_pop heads = Some (head, rest)"
  shows "length rest < length heads"
proof -
  have "head \<in> set heads" using assms unfolding heap_pop_Some_iff by (simp only: Min_in List.finite_set set_empty) auto
  then have "length rest = length heads - 1" "heads \<noteq> []" using assms unfolding heap_pop_Some_iff by (auto simp: length_remove1)
  then show ?thesis by simp
qed

lemma read_exact_consumes: "read_exact n reader = Ok (bs, reader') \<Longrightarrow> length (fr_bytes reader') + n = length (fr_bytes reader)"
  by (auto simp: read_exact_def split: if_splits)

lemma read_run_head_None: "read_run_head path reader = Ok (None :: 'k::len run_head option, reader') \<Longrightarrow>
    reader' = reader \<and> fr_bytes reader = [] \<and> fr_error reader = None"
  by (auto simp: read_run_head_def map_err_Ok_iff and_then_Ok_iff split: if_splits option.splits)

lemma read_run_head_Some:
  assumes "read_run_head path reader = Ok (Some (h :: 'k::len run_head), reader')"
  obtains key reader1 len where "read_exact LENGTH('k) reader = Ok (key, reader1)" "read_exact 8 reader1 = Ok (len, reader')"
    "h = \<lparr>rh_key = array_of key, rh_value_len = from_be_bytes len\<rparr>"
  using assms by (auto simp: read_run_head_def map_err_Ok_iff and_then_Ok_iff split: if_splits option.splits)

lemma read_run_head_consumes:
  assumes "read_run_head path reader = Ok (head :: 'k::len run_head option, reader')"
  shows "length (fr_bytes reader') + (case head of None \<Rightarrow> 0 | Some _ \<Rightarrow> 1) \<le> length (fr_bytes reader)"
proof (cases head)
  case None
  then show ?thesis using read_run_head_None [of path reader reader', where ?'k = 'k] assms by simp
next
  case (Some h)
  then obtain key reader1 len where "read_exact LENGTH('k) reader = Ok (key, reader1)" "read_exact 8 reader1 = Ok (len, reader')"
    using read_run_head_Some assms by metis
  then have "length (fr_bytes reader1) + LENGTH('k) = length (fr_bytes reader)" "length (fr_bytes reader') + 8 = length (fr_bytes reader1)"
    by (blast dest: read_exact_consumes)+
  then show ?thesis using Some by simp
qed

lemma copy_exact_value_consumes:
  "copy_exact_value files input_path output_path value_len reader fs = (Ok reader', fs') \<Longrightarrow>
     length (fr_bytes reader') \<le> length (fr_bytes reader)"
  by (auto simp: copy_exact_value_def db_then_Ok_iff split: if_splits)

lemma merge_round_decreases:
  assumes "heap_pop heads = Some (x, rest)" and "i < length readers"
    and "length (fr_bytes reader) \<le> length (fr_bytes (readers ! i))"
    and "read_run_head path reader = Ok (head :: 'k::len run_head option, reader')"
  shows "length (case head of None \<Rightarrow> rest | Some h \<Rightarrow> f h # rest) +
      sum_list (map (length \<circ> fr_bytes) (readers[i := reader'])) < length heads + sum_list (map (length \<circ> fr_bytes) readers)"
proof -
  let ?S = "sum_list (map (length \<circ> fr_bytes) readers)"
  have le: "length (fr_bytes (readers ! i)) \<le> ?S"
    using assms(2) elem_le_sum_list [of i "map (length \<circ> fr_bytes) readers"] by simp
  have eq: "sum_list (map (length \<circ> fr_bytes) (readers[i := reader'])) =
      ?S + length (fr_bytes reader') - length (fr_bytes (readers ! i))"
    using assms(2) by (simp add: map_update sum_list_update)
  have "length rest < length heads" by (rule heap_pop_length [OF assms(1)])
  then show ?thesis
    unfolding eq using le assms(3) read_run_head_consumes [OF assms(4)] by (cases head) simp_all
qed

text \<open>
  The merge loop pops the least head, copies its record and reads the next head of the same run. Each round
  takes a head away or reads at least one more byte, so the loop ends. (The reader of a head is one that was
  opened; the source would panic on another index.)
\<close>

function merge_heads ::
    "'f files \<Rightarrow> run_file list \<Rightarrow> string \<Rightarrow> 'k::len heap_head list \<Rightarrow> file_reader list \<Rightarrow> 'f \<Rightarrow>
       (bulk_load_error + unit) \<times> 'f" where
  "merge_heads files input_runs output_path heads readers fs =
     (case heap_pop heads of
        None \<Rightarrow> (Ok (), fs)
      | Some ((key, reader_index, value_len), heads) \<Rightarrow>
          if reader_index \<ge> length readers then (Err (BulkInvalidInput ''index out of bounds''), fs)
          else
            let input_path = rf_path (input_runs ! reader_index) in
            db_then (db_map_err (BulkPathUnavailable output_path)
                (db_then (fs_write_all files output_path (as_slice key) fs) (\<lambda>_ fs.
                 fs_write_all files output_path (to_be_bytes value_len) fs))) (\<lambda>_ fs.
            db_then (copy_exact_value files input_path output_path value_len (readers ! reader_index) fs) (\<lambda>reader fs.
            db_then (read_run_head input_path reader, fs) (\<lambda>(head, reader) fs.
            merge_heads files input_runs output_path
              (case head of None \<Rightarrow> heads | Some h \<Rightarrow> (rh_key h, reader_index, rh_value_len h) # heads)
              (readers[reader_index := reader]) fs))))"
  by pat_completeness auto
termination
  by (relation "measure (\<lambda>(_, _, _, heads, readers, _). length heads + sum_list (map (length \<circ> fr_bytes) readers))")
    (auto simp: not_le dest!: copy_exact_value_consumes intro: merge_round_decreases)

declare merge_heads.simps [simp del]

definition merge_run_group ::
    "('k::len, 'f) sort_env \<Rightarrow> run_file list \<Rightarrow> string \<Rightarrow> 'f \<Rightarrow> (bulk_load_error + unit) \<times> 'f" where
  "merge_run_group env input_runs output_path fs =
     (let files = env_files env in
      if length input_runs > MAX_MERGE_FAN_IN
      then (Err (BulkInvalidInput ''variable merge exceeded its fixed file-descriptor fan-in''), fs)
      else
        db_then (open_runs files input_runs fs) (\<lambda>(heads :: 'k heap_head list, readers) fs.
        db_then (db_map_err (BulkPathUnavailable output_path) (fs_create files output_path fs)) (\<lambda>_ fs.
        db_then (merge_heads files input_runs output_path heads readers fs) (\<lambda>_ fs.
        db_map_err (BulkPathUnavailable output_path) (fs_flush files output_path fs)))))"

definition merge_group ::
    "('k::len, 'f) sort_env \<Rightarrow> run_file list \<Rightarrow> string \<Rightarrow> temporary_file_budget \<Rightarrow> 'f \<Rightarrow>
       (bulk_load_error + run_file \<times> temporary_file_budget) \<times> 'f" where
  "merge_group env input_runs output_path budget fs =
     (let files = env_files env in
      db_then (try_fold (\<lambda>run total.
         ok_or (checked_add total (rf_file_bytes run)) (BulkInvalidInput ''merged run bytes exceed u64::MAX''))
         input_runs 0, fs) (\<lambda>input_file_bytes fs.
      let output_file_bytes = input_file_bytes in
      db_then (budget_reserve output_file_bytes budget, fs) (\<lambda>budget fs.
      case merge_run_group env input_runs output_path fs of
        (Inl source, fs) \<Rightarrow> abandon_file files output_path output_file_bytes budget source fs
      | (Inr _, fs) \<Rightarrow>
          (case fs_metadata_len files output_path fs of
             (Inl source, fs) \<Rightarrow>
               abandon_file files output_path output_file_bytes budget (BulkPathUnavailable output_path source) fs
           | (Inr observed_file_bytes, fs) \<Rightarrow>
               if observed_file_bytes \<noteq> output_file_bytes
               then abandon_file files output_path output_file_bytes budget
                      (BulkInvalidInput ''merged run file size differs from its admitted bytes'') fs
               else
                 db_then (db_fold (\<lambda>run _ fs. remove_temporary_file files (rf_path run) fs) input_runs () fs) (\<lambda>_ fs.
                 db_then (budget_release input_file_bytes budget, fs) (\<lambda>budget fs.
                 (Ok (\<lparr>rf_path = output_path, rf_file_bytes = output_file_bytes\<rparr>, budget), fs)))))))"

definition merge_path :: "string \<Rightarrow> u64 \<Rightarrow> u64 \<Rightarrow> string" where
  "merge_path workspace merge_pass_count group_index =
     path_join workspace
       (''merge-'' @ decimal 4 (unat merge_pass_count) @ ''-'' @ decimal 8 (unat group_index) @ ''.bin'')"

lemma drop_fan_in: "take MAX_MERGE_FAN_IN xs \<noteq> [] \<Longrightarrow> length (drop MAX_MERGE_FAN_IN xs) < length xs"
  by (cases xs) (simp_all add: MAX_MERGE_FAN_IN_def less_Suc_eq_le)

text \<open>One pass merges the runs in groups of at most 64; a group of one run is taken over.\<close>

function merge_pass ::
    "('k::len, 'f) sort_env \<Rightarrow> 'k variable_value_sorter \<Rightarrow> run_file list \<Rightarrow> u64 \<Rightarrow> run_file list \<Rightarrow>
       temporary_file_budget \<Rightarrow> 'f \<Rightarrow> (bulk_load_error + run_file list \<times> temporary_file_budget) \<times> 'f" where
  "merge_pass env s pending group_index merged budget fs =
     (let group = take MAX_MERGE_FAN_IN pending in
      if group = [] then (Ok (merged, budget), fs)
      else
        db_then (if length group = 1 then (Ok (hd group, budget), fs)
                 else merge_group env group (merge_path (vs_workspace s) (vs_merge_pass_count s) group_index) budget fs)
          (\<lambda>(run, budget) fs.
        db_then (ok_or (checked_add group_index 1) (BulkInvalidInput ''merge group count exceeds u64::MAX''), fs)
          (\<lambda>group_index fs.
        merge_pass env s (drop MAX_MERGE_FAN_IN pending) group_index (merged @ [run]) budget fs)))"
  by pat_completeness auto
termination
  by (relation "measure (\<lambda>(_, _, pending, _). length pending)") (auto simp del: take_eq_Nil length_drop dest: drop_fan_in)

declare merge_pass.simps [simp del]

lemma merge_group_count:
  assumes "0 < (n :: nat)"
  shows "Suc ((n - 64 + 63) div 64) = (n + 63) div 64"
proof (cases "n \<le> 64")
  case True
  then have "(n + 63) div 64 = 1" using assms by (intro div_nat_eqI) auto
  then show ?thesis using True by simp
next
  case False
  then have "n + 63 = (n - 64 + 63) + 64" by simp
  then show ?thesis by (metis Suc_eq_plus1 div_add_self2 zero_neq_numeral)
qed

lemma merge_pass_length:
  "merge_pass env s pending group_index merged budget fs = (Ok (runs, budget'), fs') \<Longrightarrow>
     length runs = length merged + (length pending + 63) div 64"
proof (induction env s pending group_index merged budget fs rule: merge_pass.induct)
  case (1 env s pending group_index merged budget fs)
  show ?case
  proof (cases "pending = []")
    case True
    then show ?thesis using "1.prems" by (subst (asm) merge_pass.simps) (simp add: Let_def)
  next
    case False
    then have group: "take MAX_MERGE_FAN_IN pending \<noteq> []" by (simp add: MAX_MERGE_FAN_IN_def)
    obtain run budget2 fs2 group_index2 where step:
      "(if length (take MAX_MERGE_FAN_IN pending) = 1 then (Ok (hd (take MAX_MERGE_FAN_IN pending), budget), fs)
         else merge_group env (take MAX_MERGE_FAN_IN pending) (merge_path (vs_workspace s) (vs_merge_pass_count s) group_index) budget fs) =
        (Ok (run, budget2), fs2)" "checked_add group_index 1 = Some group_index2"
      "merge_pass env s (drop MAX_MERGE_FAN_IN pending) group_index2 (merged @ [run]) budget2 fs2 = (Ok (runs, budget'), fs')"
      using "1.prems" group unfolding merge_pass.simps [of env s pending] Let_def if_not_P [OF group] db_then_Ok_iff
      by (auto simp: ok_or_Ok_iff db_then_Ok_iff)
    have "length runs = length (merged @ [run]) + (length (drop MAX_MERGE_FAN_IN pending) + 63) div 64"
      by (rule "1.IH" [OF refl group step(1) refl _ step(3)]) (simp add: step(2))
    then show ?thesis using merge_group_count [of "length pending"] False by (simp add: MAX_MERGE_FAN_IN_def)
  qed
qed

lemma fewer_runs:
  assumes "1 < length runs" and "merge_pass env s runs 0 [] budget fs = (Ok (runs', budget'), fs')"
  shows "length runs' < length runs"
proof -
  have "(length runs + 63) div 64 < length runs" using assms(1) by (intro div_less_iff_less_mult [THEN iffD2]) auto
  then show ?thesis using merge_pass_length [OF assms(2)] by simp
qed

text \<open>Passes are made until one run is left; every pass leaves fewer runs.\<close>

function merge_runs ::
    "('k::len, 'f) sort_env \<Rightarrow> 'k variable_value_sorter \<Rightarrow> run_file list \<Rightarrow> 'f \<Rightarrow>
       (bulk_load_error + run_file list \<times> 'k variable_value_sorter) \<times> 'f" where
  "merge_runs env s runs fs =
     (if length runs > 1
      then
        db_then (merge_pass env s runs 0 [] (vs_temporary_files s) fs) (\<lambda>(runs, budget) fs.
        db_then (ok_or (checked_add (vs_merge_pass_count s) 1) (BulkInvalidInput ''merge pass count exceeds u64::MAX''), fs)
          (\<lambda>merge_pass_count fs.
        merge_runs env (s\<lparr>vs_temporary_files := budget, vs_merge_pass_count := merge_pass_count\<rparr>) runs fs))
      else (Ok (runs, s), fs))"
  by pat_completeness auto
termination
  by (relation "measure (\<lambda>(_, _, runs, _). length runs)") (auto dest: fewer_runs [unfolded One_nat_def])

declare merge_runs.simps [simp del]

section \<open>Reading the sorted records\<close>

record (overloaded) 'k sorted_variable_values =
  sr_run :: "run_file option"
  sr_reader :: "file_reader option"
  sr_evidence :: variable_value_sort_evidence
  sr_max_accounted_memory_bytes :: u64
  sr_previous_key :: "'k bytes option"
  sr_emitted_record_count :: u64
  sr_finished :: bool

definition sorter_finish ::
    "('k::len, 'f) sort_env \<Rightarrow> 'k variable_value_sorter \<Rightarrow> 'f \<Rightarrow> (bulk_load_error + 'k sorted_variable_values) \<times> 'f" where
  "sorter_finish env s fs =
     db_then (flush_run env s fs) (\<lambda>s fs.
     db_then (merge_runs env (s\<lparr>vs_runs := []\<rparr>) (vs_runs s) fs) (\<lambda>(runs, s) fs.
     let final_run = (if runs = [] then None else Some (last runs)) in
     db_then (case final_run of
                None \<Rightarrow> (Ok None, fs)
              | Some run \<Rightarrow>
                  db_then (db_map_err (BulkPathUnavailable (rf_path run)) (fs_open (env_files env) (rf_path run) fs))
                    (\<lambda>reader fs. (Ok (Some reader), fs))) (\<lambda>reader fs.
     (Ok \<lparr>sr_run = final_run, sr_reader = reader,
          sr_evidence =
            \<lparr>se_record_count = vs_record_count s, se_initial_run_count = vs_initial_run_count s,
             se_merge_pass_count = vs_merge_pass_count s,
             se_peak_accounted_memory_bytes = vs_peak_accounted_memory_bytes s,
             se_max_accounted_memory_bytes = vs_max_accounted_memory_bytes s,
             se_peak_temporary_file_bytes = tb_peak_bytes_in_use (vs_temporary_files s),
             se_max_temporary_file_bytes = tb_byte_limit (vs_temporary_files s),
             se_final_run_file_bytes = (case final_run of None \<Rightarrow> 0 | Some run \<Rightarrow> rf_file_bytes run)\<rparr>,
          sr_max_accounted_memory_bytes = vs_max_accounted_memory_bytes s, sr_previous_key = None,
          sr_emitted_record_count = 0, sr_finished = False\<rparr>, fs))))"

definition finish_reading :: "'k::len sorted_variable_values \<Rightarrow> bulk_load_error + 'k variable_value_record option \<times> 'k sorted_variable_values" where
  "finish_reading v =
     (if sr_emitted_record_count v \<noteq> se_record_count (sr_evidence v)
      then Err (BulkInvalidInput ''completed variable run ended before its admitted record count'')
      else Ok (None, v\<lparr>sr_finished := True, sr_reader := None, sr_run := None\<rparr>))"

definition next_record ::
    "('k::len, 'f) sort_env \<Rightarrow> 'k sorted_variable_values \<Rightarrow> 'f \<Rightarrow>
       (bulk_load_error + 'k variable_value_record option \<times> 'k sorted_variable_values) \<times> 'f" where
  "next_record env v fs =
     (if sr_finished v then (Ok (None, v), fs)
      else case sr_reader v of
        None \<Rightarrow> (finish_reading v, fs)
      | Some reader \<Rightarrow>
          db_then (ok_or (map_option rf_path (sr_run v)) (BulkInvalidInput ''sorted reader has no owned run''), fs) (\<lambda>path fs.
          db_then (read_run_head path reader, fs) (\<lambda>(head :: 'k run_head option, reader) fs.
          case head of
            None \<Rightarrow> (finish_reading v, fs)
          | Some head \<Rightarrow>
              if sr_emitted_record_count v \<ge> se_record_count (sr_evidence v)
              then (Err (BulkInvalidInput ''completed variable run exceeds its admitted record count''), fs)
              else if (case sr_previous_key v of None \<Rightarrow> False | Some previous_key \<Rightarrow> previous_key > rh_key head)
              then (Err (BulkInvalidInput ''completed variable run keys are not nondecreasing''), fs)
              else
                let value_len = unat (rh_value_len head) in
                db_then (accounted_record_bytes env value_len, fs) (\<lambda>required_bytes fs.
                if required_bytes > sr_max_accounted_memory_bytes v
                then (Err (BulkAccountedMemoryLimit (sr_max_accounted_memory_bytes v) required_bytes), fs)
                else
                  db_then (db_map_err (BulkMemoryAllocation ''sorted variable value'')
                             (fs_try_reserve (env_files env) value_len fs)) (\<lambda>_ fs.
                  db_then (map_err (BulkPathUnavailable path) (read_exact value_len reader), fs) (\<lambda>(encoded_value, reader) fs.
                  db_then (ok_or (checked_add (sr_emitted_record_count v) 1)
                             (BulkInvalidInput ''emitted record count exceeds u64::MAX''), fs) (\<lambda>emitted fs.
                  (Ok (Some \<lparr>vr_key = rh_key head, vr_encoded_value = encoded_value\<rparr>,
                       v\<lparr>sr_reader := Some reader, sr_previous_key := Some (rh_key head),
                         sr_emitted_record_count := emitted\<rparr>), fs))))))))"

end
