(* ===== verification/Sort_Facts.thy ===== *)
theory Sort_Facts
  imports Variable_Sort
begin

text \<open>
  The external sorter is correct: what is read back is a permutation of what was staged, in the order of the
  keys, whatever runs and merge passes lay in between; and every file it writes stands in its own workspace.
\<close>

section \<open>What the sorter relies on\<close>

text \<open>
  \<open>content\<close> gives the bytes of the files, \<open>owned\<close> the temporary directories handed out so far. Creating a
  file empties it, a write that succeeds appends, and nothing an operation does to one path shows at another.
  An open file reads a prefix of its bytes, and all of them unless a read fails. A temporary directory is new.
\<close>

definition touches :: "('f \<Rightarrow> string \<Rightarrow> u8 list option) \<Rightarrow> string \<Rightarrow> 'f \<Rightarrow> 'f \<Rightarrow> bool" where
  "touches content path fs fs' \<longleftrightarrow> (\<forall>q. q \<noteq> path \<longrightarrow> content fs' q = content fs q)"

definition reads_from :: "file_reader \<Rightarrow> u8 list \<Rightarrow> bool" where
  "reads_from reader bs \<longleftrightarrow> (\<exists>rest. bs = fr_bytes reader @ rest \<and> (fr_error reader = None \<longrightarrow> rest = []))"

definition files_lawful ::
    "'f files \<Rightarrow> ('f \<Rightarrow> string \<Rightarrow> u8 list option) \<Rightarrow> ('f \<Rightarrow> string set) \<Rightarrow> bool" where
  "files_lawful files content owned \<longleftrightarrow>
     (\<forall>path fs r fs'. fs_create files path fs = (r, fs') \<longrightarrow>
        touches content path fs fs' \<and> owned fs' = owned fs \<and> (r = Ok () \<longrightarrow> content fs' path = Some [])) \<and>
     (\<forall>path bs fs r fs'. fs_write_all files path bs fs = (r, fs') \<longrightarrow>
        touches content path fs fs' \<and> owned fs' = owned fs \<and>
        (r = Ok () \<longrightarrow> content fs' path = map_option (\<lambda>old. old @ bs) (content fs path))) \<and>
     (\<forall>path fs r fs'. fs_flush files path fs = (r, fs') \<longrightarrow>
        touches content path fs fs' \<and> owned fs' = owned fs \<and> (r = Ok () \<longrightarrow> content fs' path = content fs path)) \<and>
     (\<forall>path fs r fs'. fs_metadata_len files path fs = (r, fs') \<longrightarrow>
        content fs' = content fs \<and> owned fs' = owned fs \<and>
        (\<forall>n bs. r = Ok n \<longrightarrow> content fs path = Some bs \<longrightarrow> unat n = length bs)) \<and>
     (\<forall>path fs r fs'. fs_remove_file files path fs = (r, fs') \<longrightarrow> touches content path fs fs' \<and> owned fs' = owned fs) \<and>
     (\<forall>path fs r fs'. fs_open files path fs = (r, fs') \<longrightarrow>
        content fs' = content fs \<and> owned fs' = owned fs \<and>
        (\<forall>reader. r = Ok reader \<longrightarrow> (\<exists>bs. content fs path = Some bs \<and> reads_from reader bs))) \<and>
     (\<forall>n fs r fs'. fs_try_reserve files n fs = (r, fs') \<longrightarrow> content fs' = content fs \<and> owned fs' = owned fs) \<and>
     (\<forall>staging prefix fs r fs'. fs_tempdir_in files staging prefix fs = (r, fs') \<longrightarrow>
        content fs' = content fs \<and>
        (case r of Inl _ \<Rightarrow> owned fs' = owned fs
         | Inr workspace \<Rightarrow> workspace \<notin> owned fs \<and> owned fs' = insert workspace (owned fs)))"

definition sort_lawful :: "('k::len, 'f) sort_env \<Rightarrow> bool" where
  "sort_lawful env \<longleftrightarrow>
     (\<forall>xs. mset (env_sort_unstable_by_key env xs) = mset xs \<and> sorted (map sv_key (env_sort_unstable_by_key env xs)))"

section \<open>Names of run files\<close>

fun decimal_value :: "string \<Rightarrow> nat" where
  "decimal_value [] = 0"
| "decimal_value (c # cs) = (of_char c - 48) + 10 * decimal_value cs"

lemma decimal_value_replicate: "decimal_value (replicate n (CHR ''0'')) = 0"
  by (induction n) simp_all

lemma of_char_digit: "d < 10 \<Longrightarrow> of_char (char_of (48 + d) :: char) = 48 + d" for d :: nat
  by simp

lemma decimal_value_decimal: "decimal_value (rev (decimal width n)) = n"
proof (induction width n rule: decimal.induct)
  case (1 width n)
  show ?case
  proof (cases "n < 10")
    case True
    then show ?thesis by (subst decimal.simps) (simp add: of_char_digit decimal_value_replicate del: char_of_quasi_inj)
  next
    case False
    have "n mod 10 < 10" by simp
    then show ?thesis using 1 False by (subst decimal.simps) (simp add: of_char_digit)
  qed
qed

lemma decimal_inject: "decimal width m = decimal width n \<longleftrightarrow> m = n"
  by (metis decimal_value_decimal)

lemma decimal_chars: "c \<in> set (decimal width n) \<Longrightarrow> (of_char c :: nat) \<in> {48..57}"
proof (induction width n rule: decimal.induct)
  case (1 width n)
  have "n mod 10 < 10" by simp
  show ?case
  proof (cases "n < 10")
    case True
    then show ?thesis using "1.prems" by (subst (asm) decimal.simps) (auto split: if_splits)
  next
    case False
    then show ?thesis using 1 by (subst (asm) (2) decimal.simps) auto
  qed
qed

section \<open>Run files\<close>

type_synonym 'k entry = "'k bytes \<times> u8 list"

definition entry_bytes :: "'k::len entry \<Rightarrow> u8 list" where
  "entry_bytes e = as_slice (fst e) @ to_be_bytes (of_nat (length (snd e)) :: u64) @ snd e"

definition run_bytes :: "'k::len entry list \<Rightarrow> u8 list" where
  "run_bytes es = concat (map entry_bytes es)"

definition entries_fit :: "'k::len entry list \<Rightarrow> bool" where
  "entries_fit es \<longleftrightarrow> (\<forall>e \<in> set es. length (snd e) < 2 ^ 64)"

lemma run_bytes_simps [simp]:
  "run_bytes [] = []" "run_bytes (e # es) = entry_bytes e @ run_bytes es" "run_bytes (es @ es') = run_bytes es @ run_bytes es'"
  by (simp_all add: run_bytes_def)

lemma length_entry_bytes: "length (entry_bytes (e :: 'k::len entry)) = LENGTH('k) + 8 + length (snd e)"
  by (simp add: entry_bytes_def)

lemma run_bytes_eq_Nil [simp]: "run_bytes es = [] \<longleftrightarrow> es = []"
  by (cases es) (simp_all add: entry_bytes_def, metis length_as_slice len_not_eq_0 list.size(3))

lemma entries_fit_simps [simp]:
  "entries_fit []" "entries_fit (e # es) \<longleftrightarrow> length (snd e) < 2 ^ 64 \<and> entries_fit es"
  "entries_fit (es @ es') \<longleftrightarrow> entries_fit es \<and> entries_fit es'"
  by (auto simp: entries_fit_def)

lemma read_exact_Ok:
  assumes "read_exact n reader = Ok (bs, reader')"
  shows "fr_bytes reader = bs @ fr_bytes reader'" "length bs = n" "fr_error reader' = fr_error reader"
  using assms by (auto simp: read_exact_def split: if_splits)

lemma read_head:
  assumes "reads_from reader (run_bytes (es :: 'k::len entry list))" and "read_run_head path reader = Ok (head, reader')"
  shows "case head of None \<Rightarrow> es = []
    | Some h \<Rightarrow> (\<exists>k v rest. es = (k, v) # rest \<and> rh_key h = k \<and> rh_value_len h = of_nat (length v) \<and>
        reads_from reader' (v @ run_bytes rest))"
proof (cases head)
  case None
  then have "fr_bytes reader = [] \<and> fr_error reader = None" using assms(2) read_run_head_None by blast
  then show ?thesis using assms(1) None by (auto simp: reads_from_def)
next
  case (Some h)
  obtain key reader1 len where r: "read_exact LENGTH('k) reader = Ok (key, reader1)" "read_exact 8 reader1 = Ok (len, reader')"
    "h = \<lparr>rh_key = array_of key, rh_value_len = from_be_bytes len\<rparr>"
    using read_run_head_Some [of path reader h reader'] assms(2) Some by metis
  obtain rest0 where rest0: "run_bytes es = fr_bytes reader @ rest0" "fr_error reader = None \<longrightarrow> rest0 = []"
    using assms(1) by (auto simp: reads_from_def)
  have bytes: "run_bytes es = key @ len @ fr_bytes reader' @ rest0" "length key = LENGTH('k)" "length len = 8"
    using rest0(1) read_exact_Ok [OF r(1)] read_exact_Ok [OF r(2)] by simp_all
  then have "es \<noteq> []" by auto
  then obtain k v rest where es: "es = (k, v) # rest" by (cases es) auto
  have "as_slice k @ to_be_bytes (of_nat (length v) :: u64) @ v @ run_bytes rest = key @ len @ fr_bytes reader' @ rest0"
    using bytes(1) es by (simp add: entry_bytes_def)
  then have "as_slice k = key" "to_be_bytes (of_nat (length v) :: u64) = len" "v @ run_bytes rest = fr_bytes reader' @ rest0"
    using bytes(2,3) by (simp_all add: append_eq_append_conv)
  moreover have "fr_error reader' = fr_error reader" using read_exact_Ok(3) [OF r(1)] read_exact_Ok(3) [OF r(2)] by simp
  ultimately show ?thesis using Some r(3) es rest0(2) by (auto simp: reads_from_def)
qed

text \<open>The operations on files, as far as they succeed.\<close>

lemma create_Ok:
  assumes "files_lawful files content owned" and "fs_create files path fs = (Ok u, fs')"
  shows "touches content path fs fs' \<and> owned fs' = owned fs \<and> content fs' path = Some []"
  using assms(1) [unfolded files_lawful_def, THEN conjunct1, rule_format, OF assms(2)] by simp

lemma write_all_Ok:
  assumes "files_lawful files content owned" and "fs_write_all files path bs fs = (Ok u, fs')"
  shows "touches content path fs fs' \<and> owned fs' = owned fs \<and> content fs' path = map_option (\<lambda>old. old @ bs) (content fs path)"
  using assms(1) [unfolded files_lawful_def, THEN conjunct2, THEN conjunct1, rule_format, OF assms(2)] by simp

lemma flush_Ok:
  assumes "files_lawful files content owned" and "fs_flush files path fs = (Ok u, fs')"
  shows "touches content path fs fs' \<and> owned fs' = owned fs \<and> content fs' path = content fs path"
  using assms(1) [unfolded files_lawful_def, THEN conjunct2, THEN conjunct2, THEN conjunct1, rule_format, OF assms(2)] by simp

lemma metadata_Ok:
  assumes "files_lawful files content owned" and "fs_metadata_len files path fs = (Ok n, fs')"
  shows "content fs' = content fs \<and> owned fs' = owned fs \<and> (\<forall>bs. content fs path = Some bs \<longrightarrow> unat n = length bs)"
  using assms(1) [unfolded files_lawful_def, THEN conjunct2, THEN conjunct2, THEN conjunct2, THEN conjunct1, rule_format, OF assms(2)] by simp

lemma open_Ok:
  assumes "files_lawful files content owned" and "fs_open files path fs = (Ok reader, fs')"
  shows "content fs' = content fs \<and> owned fs' = owned fs \<and> (\<exists>bs. content fs path = Some bs \<and> reads_from reader bs)"
  using assms(1) [unfolded files_lawful_def, THEN conjunct2, THEN conjunct2, THEN conjunct2, THEN conjunct2, THEN conjunct2, THEN conjunct1, rule_format, OF assms(2)] by simp

lemma try_reserve_Ok:
  assumes "files_lawful files content owned" and "fs_try_reserve files n fs = (Ok u, fs')"
  shows "content fs' = content fs \<and> owned fs' = owned fs"
  using assms(1) [unfolded files_lawful_def, THEN conjunct2, THEN conjunct2, THEN conjunct2, THEN conjunct2, THEN conjunct2, THEN conjunct2, THEN conjunct1, rule_format, OF assms(2)] by simp

lemma remove_Ok:
  assumes "files_lawful files content owned" and "remove_temporary_file files path fs = (Ok u, fs')"
  shows "touches content path fs fs' \<and> owned fs' = owned fs"
proof -
  obtain r where r: "fs_remove_file files path fs = (r, fs')"
    using assms(2) by (cases "fs_remove_file files path fs"; cases "fst (fs_remove_file files path fs)")
      (auto simp: remove_temporary_file_def split: if_splits)
  show ?thesis
    using assms(1) [unfolded files_lawful_def, THEN conjunct2, THEN conjunct2, THEN conjunct2, THEN conjunct2, THEN conjunct1,
        rule_format, OF r] by simp
qed

lemma touches_refl: "content fs' = content fs \<Longrightarrow> touches content path fs fs'"
  by (simp add: touches_def)

lemma touches_trans: "touches content path fs fs1 \<Longrightarrow> touches content path fs1 fs2 \<Longrightarrow> touches content path fs fs2"
  by (simp add: touches_def)

text \<open>\<open>appends path bs fs fs'\<close>: the file at the path grows by the bytes, and nothing else changes.\<close>

definition appends ::
    "('f \<Rightarrow> string \<Rightarrow> u8 list option) \<Rightarrow> ('f \<Rightarrow> string set) \<Rightarrow> string \<Rightarrow> u8 list \<Rightarrow> 'f \<Rightarrow> 'f \<Rightarrow> bool" where
  "appends content owned path bs fs fs' \<longleftrightarrow>
     touches content path fs fs' \<and> owned fs' = owned fs \<and> content fs' path = map_option (\<lambda>old. old @ bs) (content fs path)"

lemma appends_trans:
  "appends content owned path bs fs fs1 \<Longrightarrow> appends content owned path bs' fs1 fs2 \<Longrightarrow>
     appends content owned path (bs @ bs') fs fs2"
  by (auto simp: appends_def touches_def option.map_comp comp_def)

lemma appends_Nil: "content fs' = content fs \<Longrightarrow> owned fs' = owned fs \<Longrightarrow> appends content owned path [] fs fs'"
  by (simp add: appends_def touches_def option.map_ident)

lemma write_all_appends:
  "files_lawful files content owned \<Longrightarrow> fs_write_all files path bs fs = (Ok u, fs') \<Longrightarrow> appends content owned path bs fs fs'"
  by (simp add: appends_def write_all_Ok)

lemma write_run_record_appends:
  assumes "files_lawful files content owned" and "write_run_record files path key value fs = (Ok u, fs')"
  shows "appends content owned path (entry_bytes (key, value)) fs fs' \<and> length value < 2 ^ 64"
proof -
  obtain u1 fs1 u2 fs2 where w: "fs_write_all files path (as_slice key) fs = (Ok u1, fs1)" "length value < 2 ^ 64"
    "fs_write_all files path (to_be_bytes (of_nat (length value) :: u64)) fs1 = (Ok u2, fs2)"
    "fs_write_all files path value fs2 = (Ok u, fs')"
    using assms(2) by (auto simp: write_run_record_def db_then_Ok_iff split: if_splits)
  show ?thesis
    using appends_trans [OF write_all_appends [OF assms(1) w(1)] appends_trans [OF write_all_appends [OF assms(1) w(3)]
        write_all_appends [OF assms(1) w(4)]]] w(2) by (simp add: entry_bytes_def)
qed

lemma copy_exact_value_Ok:
  assumes "files_lawful files content owned"
    and "copy_exact_value files input_path output_path (of_nat (length v)) reader fs = (Ok reader', fs')"
    and "reads_from reader (v @ bs)" and "length v < 2 ^ 64"
  shows "appends content owned output_path v fs fs' \<and> reads_from reader' bs"
proof -
  have len: "unat (of_nat (length v) :: u64) = length v" using assms(4) by (simp add: unat_of_nat take_bit_nat_eq_self)
  obtain u where w: "fs_write_all files output_path (take (length v) (fr_bytes reader)) fs = (Ok u, fs')"
    "length v \<le> length (fr_bytes reader)" "reader' = reader\<lparr>fr_bytes := drop (length v) (fr_bytes reader)\<rparr>"
    using assms(2) unfolding copy_exact_value_def len by (auto simp: db_then_Ok_iff split: if_splits)
  obtain rest where rest: "v @ bs = fr_bytes reader @ rest" "fr_error reader = None \<longrightarrow> rest = []"
    using assms(3) by (auto simp: reads_from_def)
  have "take (length v) (v @ bs) = take (length v) (fr_bytes reader @ rest)" "drop (length v) (v @ bs) = drop (length v) (fr_bytes reader @ rest)"
    using rest(1) by simp_all
  then have "take (length v) (fr_bytes reader) = v" "bs = drop (length v) (fr_bytes reader) @ rest" using w(2) by simp_all
  then show ?thesis using write_all_appends [OF assms(1) w(1)] w(3) rest(2) by (auto simp: reads_from_def)
qed

section \<open>Merging\<close>

text \<open>
  While runs are merged, \<open>rem ! i\<close> are the entries of the run \<open>i\<close> that have not been written yet. The heap
  holds the head of each run that is not exhausted, and its reader stands behind this head.
\<close>

definition heads_of :: "'k::len entry list list \<Rightarrow> 'k heap_head set" where
  "heads_of rem = {(k, i, of_nat (length v)) | k i v rest. i < length rem \<and> rem ! i = (k, v) # rest}"

definition merging :: "'k::len heap_head list \<Rightarrow> file_reader list \<Rightarrow> 'k entry list list \<Rightarrow> bool" where
  "merging heads readers rem \<longleftrightarrow>
     set heads = heads_of rem \<and> distinct heads \<and> length readers = length rem \<and>
     (\<forall>i k v rest. i < length rem \<longrightarrow> rem ! i = (k, v) # rest \<longrightarrow>
        length v < 2 ^ 64 \<and> entries_fit rest \<and> reads_from (readers ! i) (v @ run_bytes rest))"

lemma heads_of_update:
  assumes "i < length rem" and "rem ! i = (k, v) # rest"
  shows "heads_of (rem[i := rest]) =
    heads_of rem - {(k, i, of_nat (length v))} \<union> (case rest of [] \<Rightarrow> {} | (k', v') # _ \<Rightarrow> {(k', i, of_nat (length v'))})"
proof -
  have "(k', j, l) \<in> heads_of (rem[i := rest]) \<longleftrightarrow>
      (if j = i then \<exists>v' rest'. rest = (k', v') # rest' \<and> l = of_nat (length v') else (k', j, l) \<in> heads_of rem)" for k' j l
    using assms(1) by (auto simp: heads_of_def nth_list_update)
  moreover have "(k', i, l) \<in> heads_of rem \<longleftrightarrow> k' = k \<and> l = of_nat (length v)" for k' l
    using assms by (auto simp: heads_of_def)
  ultimately show ?thesis by (cases rest) (auto split: if_splits)
qed

lemma mset_concat_update:
  assumes "i < length xss" and "xss ! i = x # xs"
  shows "mset (concat xss) = add_mset x (mset (concat (xss[i := xs])))"
  using assms
proof (induction xss arbitrary: i)
  case (Cons ys yss)
  then show ?case by (cases i) (auto simp: add_mset_commute)
qed simp

lemma least_head:
  assumes "heads_of rem \<noteq> {}" and "(k, i, l) = Min (heads_of rem)" and "finite (heads_of rem)"
    and "\<forall>es \<in> set rem. sorted (map fst es)" and "e \<in> set (concat rem)"
  shows "k \<le> fst e"
proof -
  obtain es where es: "es \<in> set rem" "e \<in> set es" using assms(5) by auto
  then obtain j where j: "j < length rem" "rem ! j = es" by (auto simp: in_set_conv_nth)
  obtain k' v' rest where head: "es = (k', v') # rest" using es(2) by (cases es) auto
  have "(k', j, of_nat (length v')) \<in> heads_of rem" using j head by (auto simp: heads_of_def)
  then have "(k, i, l) \<le> (k', j, of_nat (length v'))" using assms(2,3) by (simp add: Min_le)
  then have "k \<le> k'" by (auto simp: less_eq_prod_def)
  moreover have "k' \<le> fst e" using assms(4) es head by auto
  ultimately show ?thesis by simp
qed

text \<open>One round of the loop: the least entry is written, and its run goes on.\<close>

lemma merging_round:
  assumes "merging heads readers rem" and "heap_pop heads = Some ((k, i, l), rest)"
  obtains v es where "i < length rem" "rem ! i = (k, v) # es" "l = of_nat (length v)" "length v < 2 ^ 64" "entries_fit es"
    "i < length readers" "reads_from (readers ! i) (v @ run_bytes es)" "set rest = heads_of rem - {(k, i, l)}" "distinct rest"
    "(k, i, l) = Min (heads_of rem)" "heads_of rem \<noteq> {}" "finite (heads_of rem)"
proof -
  have heads: "set heads = heads_of rem" "distinct heads" "heads \<noteq> []" "(k, i, l) = Min (set heads)" "rest = remove1 (k, i, l) heads"
    using assms unfolding merging_def heap_pop_Some_iff by auto
  have "(k, i, l) \<in> set heads" using heads(3,4) by (metis List.finite_set Min_in set_empty)
  then obtain v es where v: "i < length rem" "rem ! i = (k, v) # es" "l = of_nat (length v)"
    using heads(1) by (auto simp: heads_of_def)
  moreover have "length v < 2 ^ 64" "entries_fit es" "reads_from (readers ! i) (v @ run_bytes es)" "i < length readers"
    using assms(1) v unfolding merging_def by auto
  moreover have "set rest = heads_of rem - {(k, i, l)}" "distinct rest" using heads(1,2,5) by simp_all
  moreover have "heads_of rem \<noteq> {}" "finite (heads_of rem)" using heads(1,3) by (metis set_empty, metis List.finite_set)
  ultimately show ?thesis using heads(1,4) that by metis
qed

lemma merging_next:
  assumes "merging heads readers rem" and "i < length rem" and "rem ! i = (k, v) # es"
    and "set rest = heads_of rem - {(k, i, of_nat (length v))}" and "distinct rest"
    and "reads_from reader (run_bytes es)" and "read_run_head path reader = Ok (head, reader')"
  shows "merging (case head of None \<Rightarrow> rest | Some h \<Rightarrow> (rh_key h, i, rh_value_len h) # rest) (readers[i := reader']) (rem[i := es])"
proof -
  have fit: "length v < 2 ^ 64" "entries_fit es" using assms(1-3) unfolding merging_def by auto
  have upd: "heads_of (rem[i := es]) = set rest \<union> (case es of [] \<Rightarrow> {} | (k', v') # _ \<Rightarrow> {(k', i, of_nat (length v'))})"
    using heads_of_update [OF assms(2,3)] assms(4) by simp
  have fresh: "(k', i, l) \<notin> set rest" for k' l
    using assms(2-4) by (auto simp: heads_of_def)
  have others: "length w < 2 ^ 64 \<and> entries_fit ws \<and> reads_from (readers ! j) (w @ run_bytes ws)"
    if "j < length rem" "rem ! j = (x, w) # ws" for j x w ws using assms(1) that unfolding merging_def by blast
  have len: "length readers = length rem" using assms(1) by (simp add: merging_def)
  from read_head [OF assms(6,7)] show ?thesis
  proof (cases head)
    case None
    then have "es = []" using read_head [OF assms(6,7)] by simp
    then show ?thesis using None upd assms(2,5) len others by (auto simp: merging_def nth_list_update)
  next
    case (Some h)
    then obtain k' v' es' where es: "es = (k', v') # es'" "rh_key h = k'" "rh_value_len h = of_nat (length v')"
      "reads_from reader' (v' @ run_bytes es')" using read_head [OF assms(6,7)] by auto
    then show ?thesis
      using Some upd assms(2,5) len others fit fresh by (auto simp: merging_def nth_list_update)
  qed
qed

lemma heads_of_empty: "heads_of rem = {} \<Longrightarrow> concat rem = []"
  by (auto simp: heads_of_def in_set_conv_nth) (metis list.exhaust surj_pair)

lemma merge_heads_spec:
  assumes "files_lawful files content owned"
    and "merge_heads files input_runs output_path heads readers fs = (Ok u, fs')" and "merging heads readers rem"
  shows "\<exists>es. appends content owned output_path (run_bytes es) fs fs' \<and> mset es = mset (concat rem) \<and>
    ((\<forall>es \<in> set rem. sorted (map fst es)) \<longrightarrow> sorted (map fst es))"
  using assms
proof (induction files input_runs output_path heads readers fs arbitrary: rem rule: merge_heads.induct)
  case (1 files input_runs output_path heads readers fs)
  note lawful = "1.prems"(1)
  show ?case
  proof (cases "heap_pop heads")
    case None
    then have "fs' = fs" using "1.prems"(2) by (simp add: merge_heads.simps)
    moreover have "mset (concat rem) = {#}"
      using None "1.prems"(3) by (subst heads_of_empty) (auto simp: merging_def heap_pop_def Let_def split: list.splits)
    ultimately show ?thesis by (intro exI [of _ "[]"]) (simp add: appends_Nil)
  next
    case (Some p)
    obtain k i l rest where p: "p = ((k, i, l), rest)" by (metis surj_pair)
    then have pop: "heap_pop heads = Some ((k, i, l), rest)" using Some by simp
    obtain v es where v: "i < length rem" "rem ! i = (k, v) # es" "l = of_nat (length v)" "length v < 2 ^ 64" "i < length readers"
        "reads_from (readers ! i) (v @ run_bytes es)" "set rest = heads_of rem - {(k, i, l)}" "distinct rest"
      and least: "(k, i, l) = Min (heads_of rem)" "heads_of rem \<noteq> {}" "finite (heads_of rem)"
      using merging_round [OF "1.prems"(3) pop] by metis
    obtain w fs2 reader fs3 head reader' where run:
      "db_map_err (BulkPathUnavailable output_path) (db_then (fs_write_all files output_path (as_slice k) fs)
         (\<lambda>_. fs_write_all files output_path (to_be_bytes l))) = (Ok w, fs2)"
      "copy_exact_value files (rf_path (input_runs ! i)) output_path l (readers ! i) fs2 = (Ok reader, fs3)"
      "read_run_head (rf_path (input_runs ! i)) reader = Ok (head, reader')"
      "merge_heads files input_runs output_path (case head of None \<Rightarrow> rest | Some h \<Rightarrow> (rh_key h, i, rh_value_len h) # rest)
         (readers[i := reader']) fs3 = (Ok u, fs')"
      using "1.prems"(2) pop v(5)
      by (subst (asm) merge_heads.simps) (auto simp: db_then_Ok_iff Let_def not_le split: prod.splits)
    obtain w1 fs1 where w: "fs_write_all files output_path (as_slice k) fs = (Ok w1, fs1)"
      "fs_write_all files output_path (to_be_bytes l) fs1 = (Ok w, fs2)" using run(1) by (auto simp: db_then_Ok_iff)
    have copy: "appends content owned output_path v fs2 fs3" "reads_from reader (run_bytes es)"
      using copy_exact_value_Ok [OF lawful run(2) [unfolded v(3)] v(6,4)] by auto
    have next_round: "merging (case head of None \<Rightarrow> rest | Some h \<Rightarrow> (rh_key h, i, rh_value_len h) # rest) (readers[i := reader']) (rem[i := es])"
      using merging_next [OF "1.prems"(3) v(1,2) _ v(8) copy(2) run(3)] v(7) v(3) by simp
    have "\<not> length readers \<le> i" "(read_run_head (rf_path (input_runs ! i)) reader, fs3) = (Ok (head, reader'), fs3)"
      using v(5) run(3) by simp_all
    from "1.IH" [OF pop refl refl refl this(1) refl run(1,2) this(2) refl lawful run(4) next_round]
    obtain es' where es': "appends content owned output_path (run_bytes es') fs3 fs'" "mset es' = mset (concat (rem[i := es]))"
      "(\<forall>es \<in> set (rem[i := es]). sorted (map fst es)) \<longrightarrow> sorted (map fst es')" by auto
    have "appends content owned output_path (run_bytes ((k, v) # es')) fs fs'"
      using appends_trans [OF write_all_appends [OF lawful w(1)] appends_trans [OF write_all_appends [OF lawful w(2)]
          appends_trans [OF copy(1) es'(1)]]] v(3) by (simp add: entry_bytes_def)
    moreover have "mset ((k, v) # es') = mset (concat rem)" using es'(2) mset_concat_update [OF v(1,2)] by simp
    moreover have "sorted (map fst ((k, v) # es'))" if sorted: "\<forall>es \<in> set rem. sorted (map fst es)"
    proof -
      have "set es' \<subseteq> set (concat rem)" using es'(2) mset_concat_update [OF v(1,2)]
        by (metis set_mset_mset set_mset_add_mset_insert subset_insertI)
      then have "\<forall>e \<in> set es'. k \<le> fst e" using least_head [OF least(2,1,3) sorted] by blast
      moreover have "sorted (map fst ((k, v) # es))" using sorted v(1,2) nth_mem by metis
      then have "\<forall>es \<in> set (rem[i := es]). sorted (map fst es)"
        using sorted by (auto dest!: set_update_subset_insert [THEN subsetD])
      ultimately show ?thesis using es'(3) by auto
    qed
    ultimately show ?thesis by blast
  qed
qed

section \<open>Runs and merge passes\<close>

definition run_holds :: "('f \<Rightarrow> string \<Rightarrow> u8 list option) \<Rightarrow> 'f \<Rightarrow> run_file \<Rightarrow> 'k::len entry list \<Rightarrow> bool" where
  "run_holds content fs run es \<longleftrightarrow>
     content fs (rf_path run) = Some (run_bytes es) \<and> unat (rf_file_bytes run) = length (run_bytes es) \<and>
     entries_fit es \<and> sorted (map fst es)"

abbreviation runs_hold where
  "runs_hold content fs \<equiv> list_all2 (run_holds content fs)"

lemma runs_hold_cong:
  assumes "runs_hold content fs runs gs" and "\<And>run. run \<in> set runs \<Longrightarrow> content fs' (rf_path run) = content fs (rf_path run)"
  shows "runs_hold content fs' runs gs"
  using assms by (auto simp: run_holds_def elim!: list.rel_mono_strong)

lemma entries_fit_mset: "mset es = mset es' \<Longrightarrow> entries_fit es = entries_fit es'"
  by (simp add: entries_fit_def flip: set_mset_mset)

lemma heads_of_snoc:
  "heads_of (gs @ [g]) = heads_of gs \<union> (case g of [] \<Rightarrow> {} | (k, v) # _ \<Rightarrow> {(k, length gs, of_nat (length v))})"
proof -
  have "(k, j, l) \<in> heads_of (gs @ [g]) \<longleftrightarrow>
      (k, j, l) \<in> heads_of gs \<or> j = length gs \<and> (\<exists>v rest. g = (k, v) # rest \<and> l = of_nat (length v))" for k j l
    by (auto simp: heads_of_def nth_append less_Suc_eq)
  then show ?thesis by (cases g) auto
qed

lemma merging_snoc:
  assumes "merging heads readers gs" and "reads_from reader (run_bytes g)" and "entries_fit g"
    and "read_run_head path reader = Ok (head, reader')"
  shows "merging (case head of None \<Rightarrow> heads | Some h \<Rightarrow> (rh_key h, length readers, rh_value_len h) # heads)
    (readers @ [reader']) (gs @ [g])"
proof -
  have len: "length readers = length gs" using assms(1) by (simp add: merging_def)
  have fresh: "(k, length gs, l) \<notin> heads_of gs" for k l by (auto simp: heads_of_def)
  have old: "length w < 2 ^ 64 \<and> entries_fit ws \<and> reads_from (readers ! j) (w @ run_bytes ws)"
    if "j < length gs" "gs ! j = (x, w) # ws" for j x w ws using assms(1) that unfolding merging_def by blast
  show ?thesis
  proof (cases head)
    case None
    then have "g = []" using read_head [OF assms(2,4)] by simp
    then show ?thesis using None assms(1) old by (auto simp: merging_def heads_of_snoc nth_append less_Suc_eq)
  next
    case (Some h)
    then obtain k v rest where "g = (k, v) # rest" "rh_key h = k" "rh_value_len h = of_nat (length v)"
      "reads_from reader' (v @ run_bytes rest)" using read_head [OF assms(2,4)] by auto
    then show ?thesis
      using Some assms(1,3) fresh len old by (auto simp: merging_def heads_of_snoc nth_append less_Suc_eq)
  qed
qed

lemma open_runs_fold:
  assumes "files_lawful files content owned"
    and "db_fold (\<lambda>run (heads, readers) fs.
        db_then (db_map_err (BulkPathUnavailable (rf_path run)) (fs_open files (rf_path run) fs)) (\<lambda>reader fs.
        db_then (read_run_head (rf_path run) reader, fs) (\<lambda>(head, reader) fs.
        (Ok (case head of None \<Rightarrow> heads | Some h \<Rightarrow> (rh_key h, length readers, rh_value_len h) # heads,
             readers @ [reader]), fs)))) runs (heads0, readers0) fs = (Ok (heads, readers), fs')"
    and "merging heads0 readers0 gs0" and "runs_hold content fs runs gs"
  shows "merging heads readers (gs0 @ gs) \<and> content fs' = content fs \<and> owned fs' = owned fs"
  using assms(2-4)
proof (induction runs arbitrary: heads0 readers0 gs0 gs fs)
  case (Cons run runs)
  then obtain g gs' where gs: "gs = g # gs'" "run_holds content fs run g" "runs_hold content fs runs gs'"
    by (auto simp: list_all2_Cons1)
  obtain reader fs1 head reader' where run: "fs_open files (rf_path run) fs = (Ok reader, fs1)"
    "read_run_head (rf_path run) reader = Ok (head, reader')"
    and rest: "db_fold (\<lambda>run (heads, readers) fs.
        db_then (db_map_err (BulkPathUnavailable (rf_path run)) (fs_open files (rf_path run) fs)) (\<lambda>reader fs.
        db_then (read_run_head (rf_path run) reader, fs) (\<lambda>(head, reader) fs.
        (Ok (case head of None \<Rightarrow> heads | Some h \<Rightarrow> (rh_key h, length readers, rh_value_len h) # heads,
             readers @ [reader]), fs)))) runs
        (case head of None \<Rightarrow> heads0 | Some h \<Rightarrow> (rh_key h, length readers0, rh_value_len h) # heads0, readers0 @ [reader']) fs1 =
      (Ok (heads, readers), fs')"
    using Cons.prems(1) by (auto simp: db_then_Ok_iff split: prod.splits)
  have open_ok: "content fs1 = content fs" "owned fs1 = owned fs" "reads_from reader (run_bytes g)"
    using open_Ok [OF assms(1) run(1)] gs(2) by (auto simp: run_holds_def)
  have "merging (case head of None \<Rightarrow> heads0 | Some h \<Rightarrow> (rh_key h, length readers0, rh_value_len h) # heads0)
      (readers0 @ [reader']) (gs0 @ [g])"
    using merging_snoc [OF Cons.prems(2) open_ok(3) _ run(2)] gs(2) by (simp add: run_holds_def)
  from Cons.IH [OF rest this, of gs'] show ?case
    using gs(1,3) open_ok(1,2) runs_hold_cong [OF gs(3), of fs1] by simp
qed (simp add: assms)

lemma merging_empty: "merging [] [] []"
  by (simp add: merging_def heads_of_def)

lemma merge_run_group_Ok:
  fixes env :: "('k::len, 'f) sort_env"
  assumes "files_lawful (env_files env) content owned" and "merge_run_group env runs out fs = (Ok u, fs')"
    and "runs_hold content fs runs gs" and "out \<notin> rf_path ` set runs"
  obtains es :: "'k entry list" where "content fs' out = Some (run_bytes es)" "touches content out fs fs'" "owned fs' = owned fs"
    "mset es = mset (concat gs)" "sorted (map fst es)"
proof -
  obtain heads :: "'k heap_head list" and readers fs1 u1 fs2 u2 fs3 where run: "open_runs (env_files env) runs fs = (Ok (heads, readers), fs1)"
    "fs_create (env_files env) out fs1 = (Ok u1, fs2)" "merge_heads (env_files env) runs out heads readers fs2 = (Ok u2, fs3)"
    "fs_flush (env_files env) out fs3 = (Ok u, fs')"
    using assms(2) by (auto simp: merge_run_group_def Let_def db_then_Ok_iff split: prod.splits if_splits)
  have m: "merging heads readers gs" "content fs1 = content fs" "owned fs1 = owned fs"
    using open_runs_fold [OF assms(1) run(1) [unfolded open_runs_def] merging_empty assms(3)] by auto
  note created = create_Ok [OF assms(1) run(2)]
  obtain es where es: "appends content owned out (run_bytes es) fs2 fs3" "mset es = mset (concat gs)"
    "(\<forall>es \<in> set gs. sorted (map fst es)) \<longrightarrow> sorted (map fst es)" using merge_heads_spec [OF assms(1) run(3) m(1)] by blast
  note flushed = flush_Ok [OF assms(1) run(4)]
  have "\<forall>es \<in> set gs. sorted (map fst es)"
    using assms(3) by (auto simp: list_all2_conv_all_nth in_set_conv_nth run_holds_def)
  then show ?thesis
    using that [of es] es created flushed m(2,3) by (auto simp: appends_def touches_def)
qed

text \<open>The temporary files are within their limit, and so was their peak.\<close>

definition budget_ok :: "temporary_file_budget \<Rightarrow> bool" where
  "budget_ok b \<longleftrightarrow> tb_bytes_in_use b \<le> tb_peak_bytes_in_use b \<and> tb_peak_bytes_in_use b \<le> tb_byte_limit b"

lemma budget_reserve_Ok:
  assumes "budget_reserve bytes b = Ok b'"
  shows "unat (tb_bytes_in_use b') = unat (tb_bytes_in_use b) + unat bytes" "tb_byte_limit b' = tb_byte_limit b"
    "budget_ok b \<Longrightarrow> budget_ok b'"
  using assms by (auto simp: budget_reserve_def and_then_Ok_iff ok_or_Ok_iff checked_add_Some_iff budget_ok_def not_less
      split: if_splits)

lemma budget_release_Ok:
  assumes "budget_release bytes b = Ok b'"
  shows "unat (tb_bytes_in_use b) = unat (tb_bytes_in_use b') + unat bytes" "tb_byte_limit b' = tb_byte_limit b"
    "budget_ok b \<Longrightarrow> budget_ok b'"
  using assms by (auto simp: budget_release_def and_then_Ok_iff ok_or_Ok_iff checked_sub_Some_iff budget_ok_def word_le_nat_alt)

lemma remove_files_Ok:
  assumes "files_lawful files content owned"
    and "db_fold (\<lambda>run _ fs. remove_temporary_file files (rf_path run) fs) runs () fs = (Ok u, fs')"
  shows "(\<forall>q. q \<notin> rf_path ` set runs \<longrightarrow> content fs' q = content fs q) \<and> owned fs' = owned fs"
  using assms(2)
proof (induction runs arbitrary: fs)
  case (Cons run runs)
  then obtain u1 fs1 where "remove_temporary_file files (rf_path run) fs = (Ok u1, fs1)"
    "db_fold (\<lambda>run _ fs. remove_temporary_file files (rf_path run) fs) runs () fs1 = (Ok u, fs')"
    by (auto simp: db_then_Ok_iff)
  then show ?case using remove_Ok [OF assms(1)] Cons.IH by (fastforce simp: touches_def)
qed simp

lemma abandon_file_not_Ok: "abandon_file files path bytes b e fs \<noteq> (Ok x, fs')"
  by (auto simp: abandon_file_def db_then_Ok_iff)

lemma merge_group_Ok:
  fixes env :: "('k::len, 'f) sort_env"
  assumes "files_lawful (env_files env) content owned" and "merge_group env runs out budget fs = (Ok (run, budget'), fs')"
    and "runs_hold content fs runs gs" and "out \<notin> rf_path ` set runs"
  obtains es :: "'k entry list" where "run_holds content fs' run es" "rf_path run = out" "mset es = mset (concat gs)"
    "\<forall>q. q \<notin> insert out (rf_path ` set runs) \<longrightarrow> content fs' q = content fs q" "owned fs' = owned fs"
    "tb_bytes_in_use budget' = tb_bytes_in_use budget" "tb_byte_limit budget' = tb_byte_limit budget"
    "budget_ok budget \<longrightarrow> budget_ok budget'"
proof -
  obtain bytes budget1 u1 fs1 fs2 u3 where m: "budget_reserve bytes budget = Ok budget1"
    "merge_run_group env runs out fs = (Ok u1, fs1)" "fs_metadata_len (env_files env) out fs1 = (Ok bytes, fs2)"
    "db_fold (\<lambda>run _ fs. remove_temporary_file (env_files env) (rf_path run) fs) runs () fs2 = (Ok u3, fs')"
    "budget_release bytes budget1 = Ok budget'" "run = \<lparr>rf_path = out, rf_file_bytes = bytes\<rparr>"
  proof (cases "merge_run_group env runs out fs")
    case (Pair r fs1)
    show thesis
      by (cases r; cases "fs_metadata_len (env_files env) out fs1"; cases "fst (fs_metadata_len (env_files env) out fs1)")
        (use assms(2) Pair that in \<open>auto simp: merge_group_def Let_def db_then_Ok_iff abandon_file_not_Ok split: if_splits\<close>)
  qed
  obtain es :: "'k entry list" where es: "content fs1 out = Some (run_bytes es)" "touches content out fs fs1" "owned fs1 = owned fs"
    "mset es = mset (concat gs)" "sorted (map fst es)"
    using merge_run_group_Ok [OF assms(1) m(2) assms(3,4)] .
  note meta = metadata_Ok [OF assms(1) m(3)]
  note removed = remove_files_Ok [OF assms(1) m(4)]
  have "\<forall>es \<in> set gs. entries_fit es"
    using assms(3) by (auto simp: list_all2_conv_all_nth in_set_conv_nth run_holds_def)
  then have "entries_fit (concat gs)" by (auto simp: entries_fit_def)
  then have fit: "entries_fit es" using entries_fit_mset [OF es(4)] by simp
  have holds: "run_holds content fs' run es"
    using es(1,5) meta removed assms(4) m(6) fit by (auto simp: run_holds_def)
  have "unat (tb_bytes_in_use budget') = unat (tb_bytes_in_use budget)"
    using budget_reserve_Ok(1) [OF m(1)] budget_release_Ok(1) [OF m(5)] by simp
  then have bytes: "tb_bytes_in_use budget' = tb_bytes_in_use budget" by (simp add: word_unat_eq_iff)
  show ?thesis
    by (rule that [OF holds _ es(4) _ _ bytes])
      (use m(6) es(2,3) meta removed budget_reserve_Ok [OF m(1)] budget_release_Ok [OF m(5)] in \<open>auto simp: touches_def\<close>)
qed

text \<open>Names of run files in a workspace.\<close>

definition run_path :: "string \<Rightarrow> u64 \<Rightarrow> string" where
  "run_path workspace index = path_join workspace (''run-'' @ decimal 8 (unat index) @ ''.bin'')"

lemma merge_path_inject [simp]: "merge_path ws p g = merge_path ws p g' \<longleftrightarrow> g = g'"
  by (simp add: merge_path_def path_join_def decimal_inject word_unat_eq_iff)

lemma merge_path_pass: "merge_path ws p g = merge_path ws p' g' \<Longrightarrow> p = p'"
proof -
  have no_dash: "CHR ''-'' \<notin> set (decimal w n)" for w n using decimal_chars [of "CHR ''-''" w n] by auto
  assume "merge_path ws p g = merge_path ws p' g'"
  then have "decimal 4 (unat p) @ CHR ''-'' # decimal 8 (unat g) = decimal 4 (unat p') @ CHR ''-'' # decimal 8 (unat g')"
    by (simp add: merge_path_def path_join_def)
  then have "takeWhile (\<lambda>c. c \<noteq> CHR ''-'') (decimal 4 (unat p) @ CHR ''-'' # decimal 8 (unat g)) =
      takeWhile (\<lambda>c. c \<noteq> CHR ''-'') (decimal 4 (unat p') @ CHR ''-'' # decimal 8 (unat g'))" by (rule arg_cong)
  moreover have "takeWhile (\<lambda>c. c \<noteq> CHR ''-'') (decimal 4 n @ CHR ''-'' # xs) = decimal 4 n" for n xs
    using no_dash [of 4 n] by (subst takeWhile_append2) auto
  ultimately show ?thesis by (simp add: decimal_inject word_unat_eq_iff)
qed

lemma run_path_inject [simp]: "run_path ws i = run_path ws j \<longleftrightarrow> i = j"
  by (simp add: run_path_def path_join_def decimal_inject word_unat_eq_iff)

lemma run_path_not_merge_path [simp]: "run_path ws i \<noteq> merge_path ws p g" "merge_path ws p g \<noteq> run_path ws i"
  by (simp_all add: run_path_def merge_path_def path_join_def)

text \<open>
  The state of a merge pass: the runs, merged or pending, hold the entries; their files are distinct and were
  there before the pass (\<open>P\<close>) or are outputs of a group that is done.
\<close>

definition confined ::
    "('f \<Rightarrow> string \<Rightarrow> u8 list option) \<Rightarrow> ('f \<Rightarrow> string set) \<Rightarrow> string set \<Rightarrow> 'f \<Rightarrow> 'f \<Rightarrow> bool" where
  "confined content owned P fs fs' \<longleftrightarrow> (\<forall>q. q \<notin> P \<longrightarrow> content fs' q = content fs q) \<and> owned fs' = owned fs"

lemma confined_refl [simp]: "confined content owned P fs fs"
  by (simp add: confined_def)

lemma confined_trans: "confined content owned P fs fs1 \<Longrightarrow> confined content owned P fs1 fs2 \<Longrightarrow> confined content owned P fs fs2"
  by (simp add: confined_def)

lemma confined_mono: "confined content owned P fs fs' \<Longrightarrow> P \<subseteq> Q \<Longrightarrow> confined content owned Q fs fs'"
  by (auto simp: confined_def)

definition holds_entries ::
    "('f \<Rightarrow> string \<Rightarrow> u8 list option) \<Rightarrow> string set \<Rightarrow> 'f \<Rightarrow> run_file list \<Rightarrow> 'k::len entry multiset \<Rightarrow> bool" where
  "holds_entries content P fs runs M \<longleftrightarrow>
     (\<exists>gs. runs_hold content fs runs gs \<and> mset (concat gs) = M) \<and> distinct (map rf_path runs) \<and> rf_path ` set runs \<subseteq> P"

definition same_budget :: "temporary_file_budget \<Rightarrow> temporary_file_budget \<Rightarrow> bool" where
  "same_budget b b' \<longleftrightarrow> tb_bytes_in_use b' = tb_bytes_in_use b \<and> tb_byte_limit b' = tb_byte_limit b \<and> (budget_ok b \<longrightarrow> budget_ok b')"

lemma same_budget_refl [simp]: "same_budget b b"
  by (simp add: same_budget_def)

lemma same_budget_trans: "same_budget b b1 \<Longrightarrow> same_budget b1 b2 \<Longrightarrow> same_budget b b2"
  by (simp add: same_budget_def)

lemma merge_step_holds:
  fixes env :: "('k::len, 'f) sort_env" and M :: "'k entry multiset"
  assumes "files_lawful (env_files env) content owned" and "merge_group env grp out budget fs = (Ok (run, budget'), fs')"
    and "holds_entries content P fs (before @ grp @ after) M" and "out \<notin> P"
  shows "holds_entries content (insert out P) fs' (before @ run # after) M" "confined content owned (insert out P) fs fs'"
    "same_budget budget budget'"
proof -
  obtain gs0 gs1 gs2 :: "'k entry list list" where gs: "runs_hold content fs before gs0" "runs_hold content fs grp gs1"
    "runs_hold content fs after gs2" "mset (concat (gs0 @ gs1 @ gs2)) = M"
    using assms(3) by (fastforce simp: holds_entries_def list_all2_append1)
  have paths: "distinct (map rf_path (before @ grp @ after))" "rf_path ` set (before @ grp @ after) \<subseteq> P"
    using assms(3) by (simp_all add: holds_entries_def)
  have fresh: "out \<notin> rf_path ` set grp" using paths(2) assms(4) by auto
  obtain es where es: "run_holds content fs' run es" "rf_path run = out" "mset es = mset (concat gs1)"
    "\<forall>q. q \<notin> insert out (rf_path ` set grp) \<longrightarrow> content fs' q = content fs q" "owned fs' = owned fs"
    "tb_bytes_in_use budget' = tb_bytes_in_use budget" "tb_byte_limit budget' = tb_byte_limit budget"
    "budget_ok budget \<longrightarrow> budget_ok budget'"
    using merge_group_Ok [OF assms(1,2) gs(2) fresh] .
  have same: "content fs' (rf_path r) = content fs (rf_path r)" if "r \<in> set before \<union> set after" for r
    using that paths assms(4) by (intro es(4) [rule_format]) (auto dest: imageI [of _ _ rf_path])
  have "runs_hold content fs' (before @ run # after) (gs0 @ es # gs2)"
    using es(1) runs_hold_cong [OF gs(1), of fs'] runs_hold_cong [OF gs(3), of fs'] same
    by (intro list_all2_appendI) auto
  then show "holds_entries content (insert out P) fs' (before @ run # after) M"
    unfolding holds_entries_def using gs(4) es(2,3) paths assms(4)
    by (intro conjI exI [of _ "gs0 @ es # gs2"]) auto
  show "confined content owned (insert out P) fs fs'" using es(4,5) paths(2) by (auto simp: confined_def)
  show "same_budget budget budget'" using es(6-8) by (simp add: same_budget_def)
qed

lemma merge_turn:
  fixes env :: "('k::len, 'f) sort_env" and M :: "'k entry multiset"
  assumes "files_lawful (env_files env) content owned" and fresh: "\<forall>g. merge_path ws pass g \<notin> P"
    and step: "(if length (take MAX_MERGE_FAN_IN pending) = 1 then (Ok (hd (take MAX_MERGE_FAN_IN pending), budget), fs)
       else merge_group env (take MAX_MERGE_FAN_IN pending) (merge_path ws pass group_index) budget fs) =
      (Ok (run, budget2), fs2)" "checked_add group_index 1 = Some group_index2"
    and holds: "holds_entries content (P \<union> merge_path ws pass ` {..< group_index}) fs (merged @ pending) M"
  shows "holds_entries content (P \<union> merge_path ws pass ` {..< group_index2}) fs2 ((merged @ [run]) @ drop MAX_MERGE_FAN_IN pending) M"
    "confined content owned (P \<union> range (merge_path ws pass)) fs fs2" "same_budget budget budget2"
proof -
  let ?path = "merge_path ws pass"
  have "unat group_index2 = Suc (unat group_index)" using step(2) by (simp add: checked_add_Some_iff)
  then have "{..< group_index2} = insert group_index {..< group_index}" by (auto simp: word_less_nat_alt word_unat_eq_iff)
  then have next_index: "?path ` {..< group_index2} = insert (?path group_index) (?path ` {..< group_index})" by simp
  have split: "holds_entries content (P \<union> ?path ` {..< group_index}) fs
      (merged @ take MAX_MERGE_FAN_IN pending @ drop MAX_MERGE_FAN_IN pending) M" using holds by simp
  have new: "?path group_index \<notin> P \<union> ?path ` {..< group_index}" using fresh by auto
  have "holds_entries content (P \<union> ?path ` {..< group_index2}) fs2 ((merged @ [run]) @ drop MAX_MERGE_FAN_IN pending) M \<and>
      confined content owned (P \<union> range ?path) fs fs2 \<and> same_budget budget budget2"
  proof (cases "length (take MAX_MERGE_FAN_IN pending) = 1")
    case True
    then have "take MAX_MERGE_FAN_IN pending = [run]" "budget2 = budget" "fs2 = fs"
      using step(1) by (auto simp: length_Suc_conv simp del: length_take)
    then show ?thesis using split next_index by (auto simp: holds_entries_def)
  next
    case False
    then have "merge_group env (take MAX_MERGE_FAN_IN pending) (?path group_index) budget fs = (Ok (run, budget2), fs2)"
      using step(1) by simp
    from merge_step_holds [OF assms(1) this split new] show ?thesis
      unfolding next_index by (auto elim!: confined_mono)
  qed
  then show "holds_entries content (P \<union> ?path ` {..< group_index2}) fs2 ((merged @ [run]) @ drop MAX_MERGE_FAN_IN pending) M"
    "confined content owned (P \<union> range ?path) fs fs2" "same_budget budget budget2" by auto
qed

lemma merge_pass_Ok:
  fixes env :: "('k::len, 'f) sort_env" and M :: "'k entry multiset"
  assumes "files_lawful (env_files env) content owned"
    and "\<forall>g. merge_path (vs_workspace s) (vs_merge_pass_count s) g \<notin> P"
  shows "merge_pass env s pending group_index merged budget fs = (Ok (runs, budget'), fs') \<Longrightarrow>
    holds_entries content (P \<union> merge_path (vs_workspace s) (vs_merge_pass_count s) ` {..< group_index}) fs (merged @ pending) M \<Longrightarrow>
    holds_entries content (P \<union> range (merge_path (vs_workspace s) (vs_merge_pass_count s))) fs' runs M \<and>
    confined content owned (P \<union> range (merge_path (vs_workspace s) (vs_merge_pass_count s))) fs fs' \<and> same_budget budget budget'"
  using assms
proof (induction env s pending group_index merged budget fs rule: merge_pass.induct)
  case (1 env s pending group_index merged budget fs)
  let ?path = "merge_path (vs_workspace s) (vs_merge_pass_count s)"
  show ?case
  proof (cases "pending = []")
    case True
    then have "runs = merged" "budget' = budget" "fs' = fs"
      using "1.prems"(1) by (subst (asm) merge_pass.simps; simp add: Let_def)+
    then show ?thesis using "1.prems"(2) True by (auto simp: holds_entries_def)
  next
    case False
    then have group: "take MAX_MERGE_FAN_IN pending \<noteq> []" by (simp add: MAX_MERGE_FAN_IN_def)
    obtain run budget2 fs2 group_index2 where step:
      "(if length (take MAX_MERGE_FAN_IN pending) = 1 then (Ok (hd (take MAX_MERGE_FAN_IN pending), budget), fs)
         else merge_group env (take MAX_MERGE_FAN_IN pending) (?path group_index) budget fs) =
        (Ok (run, budget2), fs2)" "checked_add group_index 1 = Some group_index2"
      "merge_pass env s (drop MAX_MERGE_FAN_IN pending) group_index2 (merged @ [run]) budget2 fs2 = (Ok (runs, budget'), fs')"
      using "1.prems"(1) group unfolding merge_pass.simps [of env s pending] Let_def if_not_P [OF group] db_then_Ok_iff
      by (auto simp: ok_or_Ok_iff db_then_Ok_iff)
    have stepped: "holds_entries content (P \<union> ?path ` {..< group_index2}) fs2 ((merged @ [run]) @ drop MAX_MERGE_FAN_IN pending) M"
      "confined content owned (P \<union> range ?path) fs fs2" "same_budget budget budget2"
      by (rule merge_turn [OF "1.prems"(3,4) step(1,2) "1.prems"(2)])+
    show ?thesis
      using "1.IH" [OF refl group step(1) refl _ step(3) stepped(1) "1.prems"(3,4)] step(2) stepped(2,3)
      by (auto intro: confined_trans same_budget_trans)
  qed
qed

text \<open>The run files of a workspace, and those that are there before a given merge pass.\<close>

definition run_files :: "string \<Rightarrow> string set" where
  "run_files ws = range (run_path ws) \<union> {merge_path ws p g | p g. True}"

definition run_files_before :: "string \<Rightarrow> u64 \<Rightarrow> string set" where
  "run_files_before ws pass = range (run_path ws) \<union> {merge_path ws p g | p g. p < pass}"

lemma run_files_before_next:
  assumes "checked_add pass 1 = Some pass'"
  shows "run_files_before ws pass \<union> range (merge_path ws pass) = run_files_before ws pass'"
proof -
  have "unat pass' = Suc (unat pass)" using assms by (simp add: checked_add_Some_iff)
  then have "p < pass' \<longleftrightarrow> p < pass \<or> p = pass" for p by (auto simp: word_less_nat_alt word_unat_eq_iff)
  then show ?thesis by (auto simp: run_files_before_def)
qed

lemma run_files_before_fresh: "\<forall>g. merge_path ws pass g \<notin> run_files_before ws pass"
  by (auto simp: run_files_before_def dest: merge_path_pass)

lemma run_files_before_subset: "run_files_before ws pass \<subseteq> run_files ws" "range (merge_path ws pass) \<subseteq> run_files ws"
  by (auto simp: run_files_before_def run_files_def)

lemma holds_entries_mono: "holds_entries content P fs runs M \<Longrightarrow> P \<subseteq> Q \<Longrightarrow> holds_entries content Q fs runs M"
  by (auto simp: holds_entries_def)

lemma merge_runs_Ok:
  fixes env :: "('k::len, 'f) sort_env" and M :: "'k entry multiset"
  assumes "files_lawful (env_files env) content owned"
  shows "merge_runs env s runs fs = (Ok (runs', s'), fs') \<Longrightarrow>
    holds_entries content (run_files_before (vs_workspace s) (vs_merge_pass_count s)) fs runs M \<Longrightarrow>
    holds_entries content (run_files (vs_workspace s)) fs' runs' M \<and> length runs' \<le> 1 \<and>
    confined content owned (run_files (vs_workspace s)) fs fs' \<and>
    same_budget (vs_temporary_files s) (vs_temporary_files s') \<and>
    s' = s\<lparr>vs_temporary_files := vs_temporary_files s', vs_merge_pass_count := vs_merge_pass_count s'\<rparr>"
  using assms
proof (induction env s runs fs rule: merge_runs.induct)
  case (1 env s runs fs)
  let ?ws = "vs_workspace s" and ?pass = "vs_merge_pass_count s"
  show ?case
  proof (cases "1 < length runs")
    case True
    then obtain runs2 budget2 fs2 pass2 where step: "merge_pass env s runs 0 [] (vs_temporary_files s) fs = (Ok (runs2, budget2), fs2)"
      "checked_add ?pass 1 = Some pass2"
      "merge_runs env (s\<lparr>vs_temporary_files := budget2, vs_merge_pass_count := pass2\<rparr>) runs2 fs2 = (Ok (runs', s'), fs')"
      using "1.prems"(1) by (subst (asm) merge_runs.simps) (auto simp: ok_or_Ok_iff db_then_Ok_iff)
    have "holds_entries content (run_files_before ?ws ?pass \<union> merge_path ?ws ?pass ` {..< 0}) fs ([] @ runs) M"
      using "1.prems"(2) by (simp add: lessThan_def)
    note pass = merge_pass_Ok [OF "1.prems"(3) run_files_before_fresh step(1) this, unfolded run_files_before_next [OF step(2)]]
    have "holds_entries content (run_files ?ws) fs' runs' M \<and> length runs' \<le> 1 \<and> confined content owned (run_files ?ws) fs2 fs' \<and>
        same_budget budget2 (vs_temporary_files s') \<and>
        s' = s\<lparr>vs_temporary_files := vs_temporary_files s', vs_merge_pass_count := vs_merge_pass_count s'\<rparr>"
      using "1.IH" [OF True step(1) refl _ step(3) _ "1.prems"(3)] step(2) pass by simp
    then show ?thesis
      using pass run_files_before_subset(1) by (blast intro: confined_trans same_budget_trans confined_mono)
  next
    case False
    then have "runs' = runs" "s' = s" "fs' = fs" using "1.prems"(1) by (subst (asm) merge_runs.simps; simp)+
    then show ?thesis using holds_entries_mono [OF "1.prems"(2) run_files_before_subset(1)] False by simp
  qed
qed

end
