(* ===== verification/Sorter_Facts.thy ===== *)
theory Sorter_Facts
  imports Sort_Facts
begin

text \<open>
  A sort from its first to its last record. Between the operations the sorter holds exactly the entries that
  were pushed, in its run files and in memory, within its ceilings; after the last merge pass one run holds
  them in the order of the keys, and the reader returns this run entry by entry.
\<close>

section \<open>Writing a run\<close>

definition staged_entry :: "u8 list \<Rightarrow> 'k staged_variable_value \<Rightarrow> 'k entry" where
  "staged_entry enc r = (sv_key r, take (sv_value_end r - sv_value_start r) (drop (sv_value_start r) enc))"

definition staged_in :: "u8 list \<Rightarrow> 'k staged_variable_value \<Rightarrow> bool" where
  "staged_in enc r \<longleftrightarrow> sv_value_start r \<le> sv_value_end r \<and> sv_value_end r \<le> length enc"

lemma staged_entry_append: "staged_in enc r \<Longrightarrow> staged_entry (enc @ more_enc) r = staged_entry enc r"
  by (simp add: staged_entry_def staged_in_def)

lemma staged_in_append: "staged_in enc r \<Longrightarrow> staged_in (enc @ more_enc) r"
  by (simp add: staged_in_def)

lemma write_records_appends:
  assumes "files_lawful files content owned"
  shows "db_fold (\<lambda>staged _ fs.
      db_then (ok_or (slice_get (sv_value_start staged) (sv_value_end staged) enc)
                 (BulkInvalidInput ''staged value range is unavailable''), fs) (\<lambda>encoded_value fs.
      write_run_record files path (sv_key staged) encoded_value fs)) recs () fs = (Ok u, fs') \<Longrightarrow>
    appends content owned path (run_bytes (map (staged_entry enc) recs)) fs fs' \<and> entries_fit (map (staged_entry enc) recs)"
proof (induction recs arbitrary: fs)
  case Nil
  then show ?case by (simp add: appends_Nil)
next
  case (Cons r recs)
  obtain bs u1 fs1 where step: "slice_get (sv_value_start r) (sv_value_end r) enc = Some bs"
    "write_run_record files path (sv_key r) bs fs = (Ok u1, fs1)"
    and rest: "db_fold (\<lambda>staged _ fs.
      db_then (ok_or (slice_get (sv_value_start staged) (sv_value_end staged) enc)
                 (BulkInvalidInput ''staged value range is unavailable''), fs) (\<lambda>encoded_value fs.
      write_run_record files path (sv_key staged) encoded_value fs)) recs () fs1 = (Ok u, fs')"
    using Cons.prems by (auto simp: db_then_Ok_iff ok_or_Ok_iff)
  have "staged_entry enc r = (sv_key r, bs)"
    using step(1) by (simp add: staged_entry_def slice_get_def split: if_splits)
  moreover note write_run_record_appends [OF assms step(2)] Cons.IH [OF rest]
  ultimately show ?case using appends_trans by fastforce
qed

lemma write_staged_run_Ok:
  assumes "files_lawful files content owned" and "write_staged_run files path recs enc fs = (Ok u, fs')"
  shows "content fs' path = Some (run_bytes (map (staged_entry enc) recs)) \<and> touches content path fs fs' \<and>
    owned fs' = owned fs \<and> entries_fit (map (staged_entry enc) recs)"
proof -
  obtain u1 fs1 u2 fs2 where run: "fs_create files path fs = (Ok u1, fs1)"
    "db_fold (\<lambda>staged _ fs.
      db_then (ok_or (slice_get (sv_value_start staged) (sv_value_end staged) enc)
                 (BulkInvalidInput ''staged value range is unavailable''), fs) (\<lambda>encoded_value fs.
      write_run_record files path (sv_key staged) encoded_value fs)) recs () fs1 = (Ok u2, fs2)"
    "fs_flush files path fs2 = (Ok u, fs')"
    using assms(2) by (auto simp: write_staged_run_def db_then_Ok_iff)
  show ?thesis
    using create_Ok [OF assms(1) run(1)] write_records_appends [OF assms(1) run(2)] flush_Ok [OF assms(1) run(3)]
    by (auto simp: appends_def touches_def)
qed

section \<open>The invariant of the sorter\<close>

definition stored_bytes :: "'k::len entry multiset \<Rightarrow> nat" where
  "stored_bytes M = sum_mset (image_mset (length \<circ> entry_bytes) M)"

lemma stored_bytes_mset: "stored_bytes (mset es) = length (run_bytes es)"
  by (induction es) (simp_all add: stored_bytes_def)

lemma stored_bytes_union: "stored_bytes (M + N) = stored_bytes M + stored_bytes N"
  by (simp add: stored_bytes_def)

definition accounted :: "('k, 'f) sort_env \<Rightarrow> u64 \<Rightarrow> 'k entry list \<Rightarrow> bool" where
  "accounted env limit es \<longleftrightarrow> (\<forall>e \<in> set es. env_staged_size env + length (snd e) \<le> unat limit)"

definition sorter_inv ::
    "('k::len, 'f) sort_env \<Rightarrow> ('f \<Rightarrow> string \<Rightarrow> u8 list option) \<Rightarrow> 'f \<Rightarrow> 'k variable_value_sorter \<Rightarrow> 'k entry list \<Rightarrow> bool" where
  "sorter_inv env content fs s es \<longleftrightarrow>
     (\<exists>flushed. holds_entries content (run_path (vs_workspace s) ` {..< vs_next_run_index s}) fs (vs_runs s) flushed \<and>
        flushed + mset (map (staged_entry (vs_encoded_values s)) (vs_staged_records s)) = mset es \<and>
        unat (tb_bytes_in_use (vs_temporary_files s)) = stored_bytes flushed) \<and>
     list_all (staged_in (vs_encoded_values s)) (vs_staged_records s) \<and>
     (vs_staged_records s = [] \<longrightarrow> vs_encoded_values s = []) \<and>
     accounted env (vs_max_accounted_memory_bytes s) es \<and> unat (vs_record_count s) = length es \<and>
     budget_ok (vs_temporary_files s) \<and> vs_peak_accounted_memory_bytes s \<le> vs_max_accounted_memory_bytes s \<and>
     vs_merge_pass_count s = 0"

text \<open>What no operation on a sorter changes: its workspace, its ceilings, and every file that is not one of its runs.\<close>

definition same_session ::
    "('f \<Rightarrow> string \<Rightarrow> u8 list option) \<Rightarrow> ('f \<Rightarrow> string set) \<Rightarrow> 'f \<Rightarrow> 'k variable_value_sorter \<Rightarrow> 'f \<Rightarrow> 'k variable_value_sorter \<Rightarrow> bool" where
  "same_session content owned fs s fs' s' \<longleftrightarrow>
     vs_workspace s' = vs_workspace s \<and> vs_max_accounted_memory_bytes s' = vs_max_accounted_memory_bytes s \<and>
     tb_byte_limit (vs_temporary_files s') = tb_byte_limit (vs_temporary_files s) \<and>
     confined content owned (run_files (vs_workspace s)) fs fs'"

lemma same_session_refl [simp]: "same_session content owned fs s fs s"
  by (simp add: same_session_def)

lemma same_session_trans:
  "same_session content owned fs s fs1 s1 \<Longrightarrow> same_session content owned fs1 s1 fs2 s2 \<Longrightarrow> same_session content owned fs s fs2 s2"
  by (auto simp: same_session_def elim: confined_trans)

lemma sorter_new_Ok:
  assumes "files_lawful (env_files env) content owned" and "sorter_new env staging label mem_limit file_limit fs = (Ok s, fs')"
  shows "sorter_inv env content fs' s []" "vs_max_accounted_memory_bytes s = mem_limit"
    "tb_byte_limit (vs_temporary_files s) = file_limit" "vs_workspace s \<notin> owned fs" "content fs' = content fs"
    "owned fs' = insert (vs_workspace s) (owned fs)"
proof -
  obtain workspace where new: "fs_tempdir_in (env_files env) staging (label @ ''-variable-sort-'') fs = (Ok workspace, fs')"
    "s = \<lparr>vs_workspace = workspace, vs_max_accounted_memory_bytes = mem_limit,
       vs_staged_records = [], vs_encoded_values = [], vs_runs = [], vs_next_run_index = 0,
       vs_record_count = 0, vs_initial_run_count = 0, vs_merge_pass_count = 0,
       vs_peak_accounted_memory_bytes = 0, vs_temporary_files = budget_new file_limit\<rparr>"
    using assms(2) by (auto simp: sorter_new_def db_then_Ok_iff split: if_splits)
  have "content fs' = content fs \<and> workspace \<notin> owned fs \<and> owned fs' = insert workspace (owned fs)"
    using assms(1) [unfolded files_lawful_def, THEN conjunct2, THEN conjunct2, THEN conjunct2, THEN conjunct2,
        THEN conjunct2, THEN conjunct2, THEN conjunct2, rule_format, OF new(1)] by simp
  then show "sorter_inv env content fs' s []" "vs_max_accounted_memory_bytes s = mem_limit"
    "tb_byte_limit (vs_temporary_files s) = file_limit" "vs_workspace s \<notin> owned fs" "content fs' = content fs"
    "owned fs' = insert (vs_workspace s) (owned fs)"
    by (simp_all add: new(2) sorter_inv_def holds_entries_def stored_bytes_def accounted_def budget_ok_def budget_new_def)
qed

lemma flush_run_cases:
  assumes "flush_run env s fs = (Ok s', fs')"
  obtains "vs_staged_records s = []" "s' = s" "fs' = fs"
  | bytes budget next_index u fs1 runs where "vs_staged_records s \<noteq> []" "budget_reserve bytes (vs_temporary_files s) = Ok budget"
    "checked_add (vs_next_run_index s) 1 = Some next_index"
    "write_staged_run (env_files env) (run_path (vs_workspace s) (vs_next_run_index s))
       (env_sort_unstable_by_key env (vs_staged_records s)) (vs_encoded_values s) fs = (Ok u, fs1)"
    "fs_metadata_len (env_files env) (run_path (vs_workspace s) (vs_next_run_index s)) fs1 = (Ok bytes, fs')"
    "s' = s\<lparr>vs_staged_records := [], vs_encoded_values := [],
        vs_runs := vs_runs s @ [\<lparr>rf_path = run_path (vs_workspace s) (vs_next_run_index s), rf_file_bytes = bytes\<rparr>],
        vs_next_run_index := next_index, vs_initial_run_count := runs, vs_temporary_files := budget\<rparr>"
proof (cases "vs_staged_records s = []")
  case True
  then have "flush_run env s fs = (Ok s, fs)" by (simp only: flush_run_def if_P)
  then show thesis using assms True that(1) by simp
next
  case False
  let ?path = "run_path (vs_workspace s) (vs_next_run_index s)" and ?staged = "env_sort_unstable_by_key env (vs_staged_records s)"
  obtain bytes budget next_index where pre: "budget_reserve bytes (vs_temporary_files s) = Ok budget"
    "checked_add (vs_next_run_index s) 1 = Some next_index" "write_run env s ?staged ?path bytes budget next_index fs = (Ok s', fs')"
    using assms unfolding flush_run_def if_not_P [OF False] Let_def run_path_def [symmetric] db_then_Ok_iff
    by (auto simp only: prod.inject ok_or_Ok_iff)
  show thesis
  proof (cases "write_staged_run (env_files env) ?path ?staged (vs_encoded_values s) fs")
    case (Pair r fs1)
    show thesis
      by (cases r; cases "fs_metadata_len (env_files env) ?path fs1"; cases "fst (fs_metadata_len (env_files env) ?path fs1)")
        (use pre(3) False Pair that(2) [OF False pre(1,2)] in \<open>auto simp: write_run_def db_then_Ok_iff abandon_file_not_Ok split: if_splits\<close>)
  qed
qed

lemma next_index_range:
  assumes "checked_add i 1 = Some j"
  shows "{..< j} = insert i {..< (i :: u64)}"
proof -
  have "unat j = Suc (unat i)" using assms by (simp add: checked_add_Some_iff)
  then show ?thesis by (auto simp: word_less_nat_alt word_unat_eq_iff)
qed

lemma holds_entries_snoc:
  assumes "holds_entries content P fs runs M" and "run_holds content fs' run es" and "rf_path run \<notin> P"
    and "touches content (rf_path run) fs fs'"
  shows "holds_entries content (insert (rf_path run) P) fs' (runs @ [run]) (M + mset es)"
proof -
  obtain gs where gs: "runs_hold content fs runs gs" "mset (concat gs) = M" "distinct (map rf_path runs)" "rf_path ` set runs \<subseteq> P"
    using assms(1) by (auto simp: holds_entries_def)
  have "runs_hold content fs' runs gs"
    using gs(4) assms(3,4) by (intro runs_hold_cong [OF gs(1)]) (metis image_subset_iff touches_def)
  then have "runs_hold content fs' (runs @ [run]) (gs @ [es])" using assms(2) by (intro list_all2_appendI) auto
  then show ?thesis
    unfolding holds_entries_def using gs(2-4) assms(3) by (intro conjI exI [of _ "gs @ [es]"]) auto
qed

lemma flush_run_Ok:
  assumes "files_lawful (env_files env) content owned" and "sort_lawful env" and "flush_run env s fs = (Ok s', fs')"
    and "sorter_inv env content fs s es"
  shows "sorter_inv env content fs' s' es" "vs_staged_records s' = []" "same_session content owned fs s fs' s'"
proof -
  have "sorter_inv env content fs' s' es \<and> vs_staged_records s' = [] \<and> same_session content owned fs s fs' s'"
    using assms(3)
  proof (cases rule: flush_run_cases)
    case 1
    then show ?thesis using assms(4) by simp
  next
    case (2 bytes budget next_index u fs1 runs)
    let ?path = "run_path (vs_workspace s) (vs_next_run_index s)" and ?staged = "env_sort_unstable_by_key env (vs_staged_records s)"
    let ?new = "map (staged_entry (vs_encoded_values s)) ?staged"
    obtain flushed where inv: "holds_entries content (run_path (vs_workspace s) ` {..< vs_next_run_index s}) fs (vs_runs s) flushed"
      "flushed + mset (map (staged_entry (vs_encoded_values s)) (vs_staged_records s)) = mset es"
      "unat (tb_bytes_in_use (vs_temporary_files s)) = stored_bytes flushed"
      using assms(4) by (auto simp: sorter_inv_def)
    have sorted: "mset ?staged = mset (vs_staged_records s)" "sorted (map sv_key ?staged)" using assms(2) by (simp_all add: sort_lawful_def)
    then have new: "mset ?new = mset (map (staged_entry (vs_encoded_values s)) (vs_staged_records s))" "sorted (map fst ?new)"
      by (simp_all add: staged_entry_def comp_def)
    note written = write_staged_run_Ok [OF assms(1) 2(4)] and meta = metadata_Ok [OF assms(1) 2(5)]
    have "run_holds content fs' \<lparr>rf_path = ?path, rf_file_bytes = bytes\<rparr> ?new"
      using written meta new(2) by (simp add: run_holds_def)
    moreover have touched: "touches content ?path fs fs'" using written meta by (simp add: touches_def)
    ultimately have "holds_entries content (run_path (vs_workspace s) ` {..< next_index}) fs' (vs_runs s') (flushed + mset ?new)"
      using holds_entries_snoc [OF inv(1), of fs' "\<lparr>rf_path = ?path, rf_file_bytes = bytes\<rparr>" ?new] 2(6)
      by (simp add: next_index_range [OF 2(3)] image_iff)
    moreover have "unat (tb_bytes_in_use budget) = stored_bytes (flushed + mset ?new)"
      using budget_reserve_Ok(1) [OF 2(2)] inv(3) written meta by (simp add: stored_bytes_union stored_bytes_mset del: mset_map)
    ultimately have "sorter_inv env content fs' s' es"
      using assms(4) inv(2) new(1) 2(6) budget_reserve_Ok(3) [OF 2(2)] unfolding sorter_inv_def
      by (auto simp del: mset_map)
    moreover have "same_session content owned fs s fs' s'"
      using touched written meta 2(6) budget_reserve_Ok(2) [OF 2(2)]
      by (auto simp: same_session_def confined_def touches_def run_files_def)
    ultimately show ?thesis using 2(6) by simp
  qed
  then show "sorter_inv env content fs' s' es" "vs_staged_records s' = []" "same_session content owned fs s fs' s'" by auto
qed

lemma bulk_u64_try_from_Ok: "bulk_u64_try_from reason n = Ok m \<Longrightarrow> unat m = n"
  by (auto simp: bulk_u64_try_from_def unat_of_nat take_bit_nat_eq_self split: if_splits)

lemma current_accounted_Ok:
  "current_accounted_memory_bytes env s = Ok n \<Longrightarrow>
     unat n = length (vs_staged_records s) * env_staged_size env + length (vs_encoded_values s)"
  by (auto simp: current_accounted_memory_bytes_def and_then_Ok_iff ok_or_Ok_iff checked_mul_usize_def checked_add_usize_def
      split: if_splits dest: bulk_u64_try_from_Ok)

lemma accounted_record_Ok: "accounted_record_bytes env n = Ok m \<Longrightarrow> unat m = env_staged_size env + n"
  by (auto simp: accounted_record_bytes_def and_then_Ok_iff ok_or_Ok_iff checked_add_usize_def
      split: if_splits dest: bulk_u64_try_from_Ok)

text \<open>Appending a record to what is staged.\<close>

lemma stage_record_Ok:
  fixes env :: "('k::len, 'f) sort_env"
  assumes "files_lawful (env_files env) content owned" and "stage_record env key bs s fs = (Ok s', fs')"
    and "sorter_inv env content fs s es"
    and "length (vs_staged_records s) * env_staged_size env + length (vs_encoded_values s) + env_staged_size env + length bs
      \<le> unat (vs_max_accounted_memory_bytes s)"
  shows "sorter_inv env content fs' s' (es @ [(key, bs)])" "same_session content owned fs s fs' s'"
proof -
  let ?r = "\<lparr>sv_key = key, sv_value_start = length (vs_encoded_values s), sv_value_end = length (vs_encoded_values s @ bs)\<rparr>"
  let ?s = "s\<lparr>vs_encoded_values := vs_encoded_values s @ bs, vs_staged_records := vs_staged_records s @ [?r]\<rparr>"
  obtain u1 fs1 u2 record_count current where step: "fs_try_reserve (env_files env) 1 fs = (Ok u1, fs1)"
    "fs_try_reserve (env_files env) (length bs) fs1 = (Ok u2, fs')" "checked_add (vs_record_count s) 1 = Some record_count"
    "current_accounted_memory_bytes env ?s = Ok current"
    "s' = ?s\<lparr>vs_record_count := record_count, vs_peak_accounted_memory_bytes := max (vs_peak_accounted_memory_bytes s) current\<rparr>"
    using assms(2) by (auto simp: stage_record_def Let_def db_then_Ok_iff ok_or_Ok_iff)
  have same: "content fs' = content fs" "owned fs' = owned fs"
    using try_reserve_Ok [OF assms(1) step(1)] try_reserve_Ok [OF assms(1) step(2)] by auto
  have "current \<le> vs_max_accounted_memory_bytes s"
    using current_accounted_Ok [OF step(4)] assms(4) by (simp add: word_le_nat_alt)
  then have peak: "vs_peak_accounted_memory_bytes s' \<le> vs_max_accounted_memory_bytes s"
    using assms(3) step(5) by (simp add: sorter_inv_def)
  have staged: "list_all (staged_in (vs_encoded_values s)) (vs_staged_records s)" using assms(3) by (simp add: sorter_inv_def)
  then have old: "map (staged_entry (vs_encoded_values s @ bs)) (vs_staged_records s) = map (staged_entry (vs_encoded_values s)) (vs_staged_records s)"
    "list_all (staged_in (vs_encoded_values s @ bs)) (vs_staged_records s)"
    by (auto simp: list_all_iff staged_entry_append staged_in_append)
  have new: "staged_entry (vs_encoded_values s @ bs) ?r = (key, bs)" "staged_in (vs_encoded_values s @ bs) ?r"
    by (simp_all add: staged_entry_def staged_in_def)
  have entries: "mset (map (staged_entry (vs_encoded_values s')) (vs_staged_records s')) =
      mset (map (staged_entry (vs_encoded_values s)) (vs_staged_records s)) + {#(key, bs)#}"
    using new(1) by (simp add: step(5) old(1) del: mset_map)
  have staged': "list_all (staged_in (vs_encoded_values s')) (vs_staged_records s')" "vs_staged_records s' \<noteq> []"
    using old(2) new(2) step(5) by simp_all
  have "(run_holds content fs' :: _ \<Rightarrow> 'k entry list \<Rightarrow> bool) = run_holds content fs" by (intro ext) (simp add: run_holds_def same(1))
  then have holds: "holds_entries content P fs' runs M \<longleftrightarrow> holds_entries content P fs runs M" for P runs and M :: "'k entry multiset"
    by (simp add: holds_entries_def)
  have count: "unat record_count = Suc (unat (vs_record_count s))" using step(3) by (simp add: checked_add_Some_iff)
  show "sorter_inv env content fs' s' (es @ [(key, bs)])"
    using assms(3,4) peak staged' count step(5) entries unfolding sorter_inv_def holds
    by (auto simp: accounted_def simp del: mset_map)
  show "same_session content owned fs s fs' s'" using same step(5) by (simp add: same_session_def confined_def)
qed

lemma sorter_push_Ok:
  assumes "files_lawful (env_files env) content owned" and "sort_lawful env" and "sorter_push env key bs s fs = (Ok s', fs')"
    and "sorter_inv env content fs s es"
  shows "sorter_inv env content fs' s' (es @ [(key, bs)])" "same_session content owned fs s fs' s'"
proof -
  obtain record_bytes current_bytes required_bytes s1 fs1 where step:
    "accounted_record_bytes env (length bs) = Ok record_bytes" "record_bytes \<le> vs_max_accounted_memory_bytes s"
    "current_accounted_memory_bytes env s = Ok current_bytes" "checked_add current_bytes record_bytes = Some required_bytes"
    "(if vs_max_accounted_memory_bytes s < required_bytes then flush_run env s fs else (Ok s, fs)) = (Ok s1, fs1)"
    "stage_record env key bs s1 fs1 = (Ok s', fs')"
  proof (cases "accounted_record_bytes env (length bs)")
    case (Inr record_bytes)
    show thesis
      by (cases "vs_max_accounted_memory_bytes s < record_bytes")
        (use assms(3) Inr that [OF Inr] in \<open>auto simp: sorter_push_def db_then_Ok_iff ok_or_Ok_iff\<close>)
  qed (use assms(3) in \<open>simp add: sorter_push_def\<close>)
  note bytes = accounted_record_Ok [OF step(1)] current_accounted_Ok [OF step(3)]
  have "unat required_bytes = unat current_bytes + unat record_bytes" using step(4) by (simp add: checked_add_Some_iff)
  then have ready: "sorter_inv env content fs1 s1 es \<and> same_session content owned fs s fs1 s1 \<and>
      length (vs_staged_records s1) * env_staged_size env + length (vs_encoded_values s1) + env_staged_size env + length bs
        \<le> unat (vs_max_accounted_memory_bytes s1)"
  proof (cases "vs_max_accounted_memory_bytes s < required_bytes")
    case True
    then have flush: "flush_run env s fs = (Ok s1, fs1)" using step(5) by simp
    note flushed = flush_run_Ok [OF assms(1,2) flush assms(4)]
    then have "vs_encoded_values s1 = []" by (simp add: sorter_inv_def)
    then show ?thesis using flushed step(2) bytes(1) by (simp add: same_session_def word_le_nat_alt)
  next
    case False
    then show ?thesis using step(5) assms(4) bytes \<open>unat required_bytes = _\<close> by (simp add: word_less_nat_alt not_less)
  qed
  then show "sorter_inv env content fs' s' (es @ [(key, bs)])" "same_session content owned fs s fs' s'"
    using stage_record_Ok [OF assms(1) step(6)] by (auto elim: same_session_trans)
qed

section \<open>Reading the sorted run\<close>

text \<open>The entries that are still to be read.\<close>

definition reading :: "('k::len, 'f) sort_env \<Rightarrow> 'k sorted_variable_values \<Rightarrow> 'k entry list \<Rightarrow> bool" where
  "reading env v rem \<longleftrightarrow>
     unat (sr_emitted_record_count v) + length rem = unat (se_record_count (sr_evidence v)) \<and>
     (if sr_finished v then rem = []
      else case sr_reader v of None \<Rightarrow> rem = [] | Some reader \<Rightarrow> sr_run v \<noteq> None \<and> reads_from reader (run_bytes rem)) \<and>
     entries_fit rem \<and> sorted (map fst rem) \<and> (\<forall>k. sr_previous_key v = Some k \<longrightarrow> (\<forall>e \<in> set rem. k \<le> fst e)) \<and>
     accounted env (sr_max_accounted_memory_bytes v) rem"

text \<open>The errors of the surroundings: a file operation or an allocation failed.\<close>

definition io_failure :: "bulk_load_error \<Rightarrow> bool" where
  "io_failure e \<longleftrightarrow> (\<exists>path source. e = BulkPathUnavailable path source) \<or> (\<exists>operation source. e = BulkMemoryAllocation operation source)"

lemma read_run_head_Err: "read_run_head path reader = (Err e :: _ + 'k::len run_head option \<times> _) \<Longrightarrow> io_failure e"
  by (auto simp: read_run_head_def io_failure_def map_err_def split: if_splits option.splits sum.splits)

lemma accounted_record_total:
  assumes "env_staged_size env + n \<le> unat (m :: u64)"
  obtains b where "accounted_record_bytes env n = Ok b" "b \<le> m"
proof -
  have "env_staged_size env + n < 2 ^ 64" using assms unsigned_less [of m, where ?'a = nat] by simp
  then have "accounted_record_bytes env n = Ok (of_nat (env_staged_size env + n))"
    by (simp add: accounted_record_bytes_def checked_add_usize_def bulk_u64_try_from_def)
  moreover have "of_nat (env_staged_size env + n) \<le> m" using accounted_record_Ok [OF calculation] assms by (simp add: word_le_nat_alt)
  ultimately show thesis by (rule that)
qed

lemma read_value:
  assumes "reads_from reader (bs @ rest)" and "read_exact (length bs) reader = Ok (bs', reader')"
  shows "bs' = bs" "reads_from reader' rest"
proof -
  obtain more_bytes where r: "bs @ rest = fr_bytes reader @ more_bytes" "fr_error reader = None \<longrightarrow> more_bytes = []"
    using assms(1) by (auto simp: reads_from_def)
  then have "bs @ rest = bs' @ fr_bytes reader' @ more_bytes" "length bs' = length bs" "fr_error reader' = fr_error reader"
    using read_exact_Ok [OF assms(2)] by simp_all
  then show "bs' = bs" "reads_from reader' rest" using r(2) by (auto simp: reads_from_def append_eq_append_conv)
qed

lemma finish_reading_spec:
  assumes "reading env v []" and "\<not> sr_finished v"
  shows "\<exists>v'. finish_reading v = Ok (None, v') \<and> sr_finished v' \<and> sr_evidence v' = sr_evidence v \<and> reading env v' []"
  using assms by (auto simp: finish_reading_def reading_def word_unat_eq_iff)

lemma checked_add_1_total:
  assumes "x < (y :: u64)"
  obtains z where "checked_add x 1 = Some z"
proof -
  have "unat x + 1 < 2 ^ 64" using assms unsigned_less [of y, where ?'a = nat] by (simp add: word_less_nat_alt)
  then have "checked_add x 1 = Some (of_nat (unat x + 1))" by (simp add: checked_add_Some_iff unat_of_nat take_bit_nat_eq_self del: of_nat_add of_nat_Suc)
  then show thesis by (rule that)
qed

lemma next_entry_spec:
  fixes env :: "('k::len, 'f) sort_env"
  assumes inv: "reading env v ((rh_key head, bs) # rest)" and "\<not> sr_finished v" and "sr_run v = Some run" and "sr_reader v = Some reader"
    and "read_run_head (rf_path run) reader = Ok (Some head, reader1)" and "rh_value_len head = of_nat (length bs)"
    and "reads_from reader1 (bs @ run_bytes rest)" and "next_record env v fs = (r, fs')"
  shows "case r of Inl e \<Rightarrow> io_failure e
    | Inr (None, v') \<Rightarrow> (rh_key head, bs) # rest = [] \<and> sr_finished v' \<and> sr_evidence v' = sr_evidence v \<and> reading env v' []
    | Inr (Some record, v') \<Rightarrow>
        (\<exists>rest'. (rh_key head, bs) # rest = (vr_key record, vr_encoded_value record) # rest' \<and> sr_evidence v' = sr_evidence v \<and>
           reading env v' rest')"
proof -
  have len: "unat (rh_value_len head) = length bs"
    using inv assms(6) by (simp add: reading_def unat_of_nat take_bit_nat_eq_self)
  have count: "sr_emitted_record_count v < se_record_count (sr_evidence v)" using inv by (simp add: reading_def word_less_nat_alt)
  then obtain emitted where emitted: "checked_add (sr_emitted_record_count v) 1 = Some emitted" by (rule checked_add_1_total)
  have previous: "\<not> (case sr_previous_key v of None \<Rightarrow> False | Some previous_key \<Rightarrow> previous_key > rh_key head)"
    using inv by (auto simp: reading_def not_less split: option.splits)
  have "env_staged_size env + length bs \<le> unat (sr_max_accounted_memory_bytes v)" using inv by (simp add: reading_def accounted_def)
  then obtain required where required: "accounted_record_bytes env (length bs) = Ok required" "required \<le> sr_max_accounted_memory_bytes v"
    by (rule accounted_record_total)
  note guards = count [unfolded not_le [symmetric]] required(2) [THEN leD] previous
  obtain reserved fs1 where reserve: "fs_try_reserve (env_files env) (length bs) fs = (reserved, fs1)" by fastforce
  show ?thesis
  proof (cases reserved)
    case (Inl e)
    then show ?thesis
      using assms(2-5,8) len guards required(1) reserve by (auto simp: next_record_def Let_def db_map_err_def io_failure_def)
  next
    case (Inr u)
    show ?thesis
    proof (cases "read_exact (length bs) reader1")
      case (Inl e)
      then show ?thesis
        using assms(2-5,8) len guards required(1) reserve Inr by (auto simp: next_record_def Let_def db_map_err_def io_failure_def)
    next
      case (Inr br)
      then obtain reader2 where reader2: "read_exact (length bs) reader1 = Ok (bs, reader2)" "reads_from reader2 (run_bytes rest)"
        using read_value [OF assms(7)] by (cases br) auto
      then have "r = Ok (Some \<lparr>vr_key = rh_key head, vr_encoded_value = bs\<rparr>,
          v\<lparr>sr_reader := Some reader2, sr_previous_key := Some (rh_key head), sr_emitted_record_count := emitted\<rparr>)"
        using assms(2-5,8) len guards required(1) reserve \<open>reserved = Ok u\<close> emitted by (auto simp: next_record_def Let_def db_map_err_def)
      moreover have "reading env (v\<lparr>sr_reader := Some reader2, sr_previous_key := Some (rh_key head), sr_emitted_record_count := emitted\<rparr>) rest"
        using inv reader2(2) emitted assms(2,3) by (auto simp: reading_def accounted_def checked_add_Some_iff)
      ultimately show ?thesis by simp
    qed
  qed
qed

lemma next_record_spec:
  fixes env :: "('k::len, 'f) sort_env"
  assumes "reading env v rem" and "next_record env v fs = (r, fs')"
  shows "case r of Inl e \<Rightarrow> io_failure e
    | Inr (None, v') \<Rightarrow> rem = [] \<and> sr_finished v' \<and> sr_evidence v' = sr_evidence v \<and> reading env v' []
    | Inr (Some record, v') \<Rightarrow>
        (\<exists>rest. rem = (vr_key record, vr_encoded_value record) # rest \<and> sr_evidence v' = sr_evidence v \<and> reading env v' rest)"
proof (cases "sr_finished v")
  case True
  then show ?thesis using assms by (auto simp: next_record_def reading_def)
next
  case False
  show ?thesis
  proof (cases "sr_reader v")
    case None
    then have "rem = []" "r = finish_reading v" using assms False by (auto simp: next_record_def reading_def)
    then show ?thesis using finish_reading_spec [of env v] assms(1) False by auto
  next
    case (Some reader)
    then obtain run where run: "sr_run v = Some run" "reads_from reader (run_bytes rem)"
      using assms(1) False by (auto simp: reading_def)
    show ?thesis
    proof (cases "read_run_head (rf_path run) reader :: _ + 'k run_head option \<times> file_reader")
      case (Inl e)
      then show ?thesis using assms(2) False Some run read_run_head_Err [OF Inl] by (auto simp: next_record_def)
    next
      case (Inr hr)
      obtain head reader1 where hr: "hr = (head, reader1)" by (cases hr)
      note h = read_head [OF run(2) Inr [unfolded hr]]
      show ?thesis
      proof (cases head)
        case None
        then have "rem = []" "r = finish_reading v" using h assms(2) False Some run Inr hr by (auto simp: next_record_def)
        then show ?thesis using finish_reading_spec [of env v] assms(1) False by auto
      next
        case (Some h')
        then obtain bs rest where rem: "rem = (rh_key h', bs) # rest" "rh_value_len h' = of_nat (length bs)" "reads_from reader1 (bs @ run_bytes rest)"
          using h by auto
        show ?thesis
          using next_entry_spec [OF assms(1) [unfolded rem(1)] False run(1) \<open>sr_reader v = Some reader\<close> Inr [unfolded hr Some] rem(2,3) assms(2)]
          unfolding rem(1) .
      qed
    qed
  qed
qed

text \<open>Reading up to a number of records, until the reader reports the end.\<close>

fun read_records ::
    "nat \<Rightarrow> ('k::len, 'f) sort_env \<Rightarrow> 'k sorted_variable_values \<Rightarrow> 'f \<Rightarrow>
       (bulk_load_error + 'k entry list \<times> 'k sorted_variable_values) \<times> 'f" where
  "read_records 0 env v fs = (Ok ([], v), fs)"
| "read_records (Suc n) env v fs =
     db_then (next_record env v fs) (\<lambda>(record, v) fs.
     case record of
       None \<Rightarrow> (Ok ([], v), fs)
     | Some record \<Rightarrow>
         db_then (read_records n env v fs) (\<lambda>(es, v) fs.
         (Ok ((vr_key record, vr_encoded_value record) # es, v), fs)))"

lemma read_records_spec:
  "reading env v rem \<Longrightarrow> read_records n env v fs = (r, fs') \<Longrightarrow>
     (case r of Inl e \<Rightarrow> io_failure e | Inr (es, v') \<Rightarrow> es = take n rem \<and> (length rem < n \<longrightarrow> sr_finished v'))"
proof (induction n env v fs arbitrary: rem r fs' rule: read_records.induct)
  case (2 n env v fs)
  obtain r1 fs1 where step: "next_record env v fs = (r1, fs1)" by fastforce
  note spec = next_record_spec [OF "2.prems"(1) step]
  show ?case
  proof (cases r1)
    case (Inl e)
    then show ?thesis using spec step "2.prems"(2) by auto
  next
    case (Inr rv)
    obtain out v1 where rv: "rv = (out, v1)" by (cases rv)
    show ?thesis
    proof (cases out)
      case None
      then show ?thesis using spec step "2.prems"(2) Inr rv by auto
    next
      case (Some e)
      then obtain rest where rest: "rem = (vr_key e, vr_encoded_value e) # rest" "reading env v1 rest" using spec Inr rv by auto
      obtain r2 fs2 where rec: "read_records n env v1 fs1 = (r2, fs2)" by fastforce
      have "case r2 of Inl e \<Rightarrow> io_failure e | Inr (es, v') \<Rightarrow> es = take n rest \<and> (length rest < n \<longrightarrow> sr_finished v')"
        using "2.IH" [OF _ refl Some rest(2) rec] step Inr rv by simp
      then show ?thesis using step "2.prems"(2) Inr rv Some rec rest(1) by (cases r2) auto
    qed
  qed
qed (auto)

section \<open>A whole sort\<close>

definition push_all ::
    "('k::len, 'f) sort_env \<Rightarrow> 'k entry list \<Rightarrow> 'k variable_value_sorter \<Rightarrow> 'f \<Rightarrow> (bulk_load_error + 'k variable_value_sorter) \<times> 'f" where
  "push_all env = db_fold (\<lambda>(key, bs). sorter_push env key bs)"

lemma push_all_Ok:
  assumes "files_lawful (env_files env) content owned" and "sort_lawful env"
  shows "push_all env es s fs = (Ok s', fs') \<Longrightarrow> sorter_inv env content fs s es0 \<Longrightarrow>
    sorter_inv env content fs' s' (es0 @ es) \<and> same_session content owned fs s fs' s'"
proof (induction es arbitrary: es0 s fs)
  case (Cons e es)
  obtain key bs where e: "e = (key, bs)" by (cases e)
  obtain s1 fs1 where step: "sorter_push env key bs s fs = (Ok s1, fs1)" "push_all env es s1 fs1 = (Ok s', fs')"
    using Cons.prems(1) e by (auto simp: push_all_def db_then_Ok_iff)
  note pushed = sorter_push_Ok [OF assms step(1) Cons.prems(2)]
  from Cons.IH [OF step(2) pushed(1)] show ?case using pushed(2) e by (auto elim: same_session_trans)
qed (simp add: push_all_def)

definition sorted_evidence :: "'k::len variable_value_sorter \<Rightarrow> variable_value_sort_evidence \<Rightarrow> 'k entry list \<Rightarrow> bool" where
  "sorted_evidence s evidence es \<longleftrightarrow>
     unat (se_record_count evidence) = length es \<and> unat (se_final_run_file_bytes evidence) = length (run_bytes es) \<and>
     se_max_accounted_memory_bytes evidence = vs_max_accounted_memory_bytes s \<and>
     se_peak_accounted_memory_bytes evidence \<le> se_max_accounted_memory_bytes evidence \<and>
     se_max_temporary_file_bytes evidence = tb_byte_limit (vs_temporary_files s) \<and>
     se_final_run_file_bytes evidence \<le> se_peak_temporary_file_bytes evidence \<and>
     se_peak_temporary_file_bytes evidence \<le> se_max_temporary_file_bytes evidence"

lemma merged_runs_Ok:
  fixes env :: "('k::len, 'f) sort_env"
  assumes "files_lawful (env_files env) content owned" and "sort_lawful env" and "sorter_inv env content fs s es"
    and "flush_run env s fs = (Ok s1, fs1)" and "merge_runs env (s1\<lparr>vs_runs := []\<rparr>) (vs_runs s1) fs1 = (Ok (runs, s2), fs2)"
  obtains "es = []" "runs = []" | run es' where "runs = [run]" "mset es' = mset es" "run_holds content fs2 run es'"
proof -
  note flushed = flush_run_Ok [OF assms(1,2,4,3)]
  have "holds_entries content (run_path (vs_workspace s1) ` {..< vs_next_run_index s1}) fs1 (vs_runs s1) (mset es)"
    using flushed(1,2) by (auto simp: sorter_inv_def)
  then have "holds_entries content (run_files_before (vs_workspace s1) (vs_merge_pass_count s1)) fs1 (vs_runs s1) (mset es)"
    by (rule holds_entries_mono) (auto simp: run_files_before_def)
  then have "holds_entries content (run_files (vs_workspace s1)) fs2 runs (mset es)" "length runs \<le> 1"
    using merge_runs_Ok [OF assms(1,5), of "mset es"] by auto
  then obtain gs where gs: "runs_hold content fs2 runs gs" "mset (concat gs) = mset es" "length runs \<le> 1"
    by (auto simp: holds_entries_def)
  show thesis
  proof (cases runs)
    case Nil
    then show thesis using gs(1,2) that(1) by simp
  next
    case (Cons run rest)
    then obtain g where "runs = [run]" "gs = [g]" "run_holds content fs2 run g" using gs(1,3) by (auto simp: list_all2_Cons1)
    then show thesis using that(2) [of run g] gs(2) by simp
  qed
qed

lemma merged_session:
  fixes env :: "('k::len, 'f) sort_env"
  assumes "files_lawful (env_files env) content owned" and "sort_lawful env" and "sorter_inv env content fs s es"
    and "flush_run env s fs = (Ok s1, fs1)" and "merge_runs env (s1\<lparr>vs_runs := []\<rparr>) (vs_runs s1) fs1 = (Ok (runs, s2), fs2)"
  shows "same_session content owned fs s fs2 s2" "vs_record_count s2 = vs_record_count s1"
    "vs_peak_accounted_memory_bytes s2 \<le> vs_max_accounted_memory_bytes s" "budget_ok (vs_temporary_files s2)"
    "unat (tb_bytes_in_use (vs_temporary_files s2)) = length (run_bytes es)" "unat (vs_record_count s2) = length es"
    "accounted env (vs_max_accounted_memory_bytes s) es"
proof -
  note flushed = flush_run_Ok [OF assms(1,2,4,3)]
  obtain stored where stored: "holds_entries content (run_path (vs_workspace s1) ` {..< vs_next_run_index s1}) fs1 (vs_runs s1) stored"
    "stored = mset es" "unat (tb_bytes_in_use (vs_temporary_files s1)) = stored_bytes stored"
    using flushed(1,2) by (auto simp: sorter_inv_def)
  have "holds_entries content (run_files_before (vs_workspace s1) (vs_merge_pass_count s1)) fs1 (vs_runs s1) (mset es)"
    using stored(1,2) by (auto simp: run_files_before_def intro: holds_entries_mono)
  then have merged: "confined content owned (run_files (vs_workspace s1)) fs1 fs2" "same_budget (vs_temporary_files s1) (vs_temporary_files s2)"
    "s2 = (s1\<lparr>vs_runs := []\<rparr>)\<lparr>vs_temporary_files := vs_temporary_files s2, vs_merge_pass_count := vs_merge_pass_count s2\<rparr>"
    using merge_runs_Ok [OF assms(1,5), of "mset es"] by auto
  have fields: "vs_workspace s2 = vs_workspace s1" "vs_max_accounted_memory_bytes s2 = vs_max_accounted_memory_bytes s1"
    "vs_record_count s2 = vs_record_count s1" "vs_peak_accounted_memory_bytes s2 = vs_peak_accounted_memory_bytes s1"
    by (subst merged(3); simp)+
  show "same_session content owned fs s fs2 s2" "vs_record_count s2 = vs_record_count s1"
    "vs_peak_accounted_memory_bytes s2 \<le> vs_max_accounted_memory_bytes s" "budget_ok (vs_temporary_files s2)"
    "unat (tb_bytes_in_use (vs_temporary_files s2)) = length (run_bytes es)" "unat (vs_record_count s2) = length es"
    "accounted env (vs_max_accounted_memory_bytes s) es"
    using flushed(1,3) merged(1,2) fields stored(2,3)
    by (auto simp: same_session_def sorter_inv_def same_budget_def stored_bytes_mset elim: confined_trans)
qed

lemma sorter_finish_Ok:
  fixes env :: "('k::len, 'f) sort_env"
  assumes "files_lawful (env_files env) content owned" and "sort_lawful env" and "sorter_inv env content fs s es"
    and "sorter_finish env s fs = (Ok v, fs')"
  obtains es' where "mset es' = mset es" "sorted (map fst es')" "reading env v es'" "sorted_evidence s (sr_evidence v) es"
    "confined content owned (run_files (vs_workspace s)) fs fs'" "accounted env (vs_max_accounted_memory_bytes s) es"
proof -
  obtain s1 fs1 runs s2 fs2 reader where steps: "flush_run env s fs = (Ok s1, fs1)"
    "merge_runs env (s1\<lparr>vs_runs := []\<rparr>) (vs_runs s1) fs1 = (Ok (runs, s2), fs2)"
    "(if runs = [] then reader = None \<and> fs' = fs2
      else \<exists>rd. reader = Some rd \<and> fs_open (env_files env) (rf_path (last runs)) fs2 = (Ok rd, fs'))"
    "sr_run v = (if runs = [] then None else Some (last runs))" "sr_reader v = reader" "sr_previous_key v = None"
    "sr_emitted_record_count v = 0" "\<not> sr_finished v" "sr_max_accounted_memory_bytes v = vs_max_accounted_memory_bytes s2"
    "se_record_count (sr_evidence v) = vs_record_count s2"
    "se_peak_accounted_memory_bytes (sr_evidence v) = vs_peak_accounted_memory_bytes s2"
    "se_max_accounted_memory_bytes (sr_evidence v) = vs_max_accounted_memory_bytes s2"
    "se_peak_temporary_file_bytes (sr_evidence v) = tb_peak_bytes_in_use (vs_temporary_files s2)"
    "se_max_temporary_file_bytes (sr_evidence v) = tb_byte_limit (vs_temporary_files s2)"
    "se_final_run_file_bytes (sr_evidence v) = (if runs = [] then 0 else rf_file_bytes (last runs))"
    using assms(4) by (auto simp: sorter_finish_def Let_def db_then_Ok_iff split: if_splits)
  note session = merged_session [OF assms(1-3) steps(1,2)]
  have same: "vs_max_accounted_memory_bytes s2 = vs_max_accounted_memory_bytes s" "tb_byte_limit (vs_temporary_files s2) = tb_byte_limit (vs_temporary_files s)"
    "confined content owned (run_files (vs_workspace s)) fs fs2" using session(1) by (auto simp: same_session_def)
  from assms(1-3) steps(1,2) show thesis
  proof (cases rule: merged_runs_Ok)
    case 1
    show thesis by (rule that [of "[]"]) (use steps session same 1 in \<open>auto simp: reading_def accounted_def sorted_evidence_def budget_ok_def word_le_nat_alt\<close>)
  next
    case (2 run es')
    then obtain rd where rd: "reader = Some rd" "fs_open (env_files env) (rf_path run) fs2 = (Ok rd, fs')" using steps(3) by auto
    note opened = open_Ok [OF assms(1) rd(2)]
    have from_run: "reads_from rd (run_bytes es')" "unat (rf_file_bytes run) = length (run_bytes es')" "entries_fit es'" "sorted (map fst es')"
      using opened 2(3) by (auto simp: run_holds_def)
    have total: "length (run_bytes es') = length (run_bytes es)" using 2(2) by (simp flip: stored_bytes_mset)
    have accounted: "accounted env (vs_max_accounted_memory_bytes s) es'" "length es' = length es"
      using session(7) mset_eq_setD [OF 2(2)] mset_eq_length [OF 2(2)] by (simp_all add: accounted_def)
    have "rf_file_bytes run = tb_bytes_in_use (vs_temporary_files s2)" using from_run(2) total session(5) by (simp add: word_unat_eq_iff)
    then have evidence: "sorted_evidence s (sr_evidence v) es"
      using steps session same total from_run(2) 2(1) by (auto simp: sorted_evidence_def budget_ok_def)
    have "reading env v es'"
      using steps session same accounted from_run rd(1) 2(1) by (simp add: reading_def)
    moreover have "confined content owned (run_files (vs_workspace s)) fs fs'" using same(3) opened by (simp add: confined_def)
    ultimately show thesis using that [OF 2(2) from_run(4) _ evidence] session(7) by blast
  qed
qed

end
