(* ===== verification/Sort_Properties.thy ===== *)
theory Sort_Properties
  imports Sorter_Facts "HOL-Library.AList" "HOL-Library.Code_Target_Nat"
begin

text \<open>
  The properties of the external sorter: what is read back is a sorted permutation of what was pushed, and
  the sort stays within its ceilings and its workspace.
\<close>

section \<open>A whole sort\<close>

definition sort_all ::
    "('k::len, 'f) sort_env \<Rightarrow> string \<Rightarrow> string \<Rightarrow> u64 \<Rightarrow> u64 \<Rightarrow> 'k entry list \<Rightarrow> 'f \<Rightarrow>
       (bulk_load_error + 'k sorted_variable_values) \<times> 'f" where
  "sort_all env staging label mem_limit file_limit es fs =
     db_then (sorter_new env staging label mem_limit file_limit fs) (\<lambda>s fs.
     db_then (push_all env es s fs) (sorter_finish env))"

lemma sort_all_Ok:
  assumes "files_lawful (env_files env) content owned" and "sort_lawful env"
    and "sort_all env staging label mem_limit file_limit es fs = (Ok v, fs')"
  obtains s es' where "vs_workspace s \<notin> owned fs" "vs_max_accounted_memory_bytes s = mem_limit"
    "tb_byte_limit (vs_temporary_files s) = file_limit" "mset es' = mset es" "sorted (map fst es')" "reading env v es'"
    "sorted_evidence s (sr_evidence v) es" "\<forall>q. q \<notin> run_files (vs_workspace s) \<longrightarrow> content fs' q = content fs q"
    "accounted env mem_limit es"
proof -
  obtain s0 fs0 s fs1 where steps: "sorter_new env staging label mem_limit file_limit fs = (Ok s0, fs0)"
    "push_all env es s0 fs0 = (Ok s, fs1)" "sorter_finish env s fs1 = (Ok v, fs')"
    using assms(3) by (auto simp: sort_all_def db_then_Ok_iff)
  note new = sorter_new_Ok [OF assms(1) steps(1)]
  have pushed: "sorter_inv env content fs1 s es" "same_session content owned fs0 s0 fs1 s"
    using push_all_Ok [OF assms(1,2) steps(2) new(1)] by auto
  obtain es' where fin: "mset es' = mset es" "sorted (map fst es')" "reading env v es'" "sorted_evidence s (sr_evidence v) es"
    "confined content owned (run_files (vs_workspace s)) fs1 fs'"
    "accounted env (vs_max_accounted_memory_bytes s) es"
    using sorter_finish_Ok [OF assms(1,2) pushed(1) steps(3)] .
  show thesis
    by (rule that [OF _ _ _ fin(1-4)]) (use new pushed(2) fin(5,6) in \<open>auto simp: same_session_def confined_def\<close>)
qed

section \<open>A sort in memory\<close>

text \<open>Files as an association list, newest first, and the temporary directories that were handed out.\<close>

type_synonym ram = "(string \<times> u8 list) list \<times> string list"

definition ram_content :: "ram \<Rightarrow> string \<Rightarrow> u8 list option" where
  "ram_content fs = map_of (fst fs)"

definition ram_owned :: "ram \<Rightarrow> string set" where
  "ram_owned fs = set (snd fs)"

definition ram_files :: "ram files" where
  "ram_files =
     \<lparr>fs_tempdir_in = (\<lambda>staging prefix (fs, dirs).
        let dir = path_join staging prefix @ replicate (Suc (sum_list (map length dirs))) (CHR ''x'') in (Ok dir, fs, dir # dirs)),
      fs_create = (\<lambda>path (fs, dirs). (Ok (), AList.update path [] fs, dirs)),
      fs_write_all = (\<lambda>path bs (fs, dirs).
        case map_of fs path of
          None \<Rightarrow> (Err (IoError NotFound path), fs, dirs) | Some old \<Rightarrow> (Ok (), AList.update path (old @ bs) fs, dirs)),
      fs_flush = (\<lambda>path fs. (Ok (), fs)),
      fs_metadata_len = (\<lambda>path (fs, dirs).
        (case map_of fs path of
           None \<Rightarrow> Err (IoError NotFound path)
         | Some bs \<Rightarrow> if length bs < 2 ^ 64 then Ok (of_nat (length bs)) else Err (IoError (OtherKind ''size'') path), fs, dirs)),
      fs_remove_file = (\<lambda>path (fs, dirs). (Ok (), AList.delete path fs, dirs)),
      fs_open = (\<lambda>path (fs, dirs).
        (case map_of fs path of None \<Rightarrow> Err (IoError NotFound path) | Some bs \<Rightarrow> Ok \<lparr>fr_bytes = bs, fr_error = None\<rparr>, fs, dirs)),
      fs_try_reserve = (\<lambda>n fs. (Ok (), fs))\<rparr>"

lemma ram_files_lawful: "files_lawful ram_files ram_content ram_owned"
proof -
  have fresh: "path_join staging prefix @ replicate (Suc (sum_list (map length dirs))) (CHR ''x'') \<notin> set dirs" (is "?new \<notin> _") for staging prefix dirs
  proof
    assume "?new \<in> set dirs"
    then have "length ?new \<in> set (map length dirs)" by (metis imageI list.set_map)
    then have "length ?new \<le> sum_list (map length dirs)" by (rule member_le_sum_list) simp
    then show False by simp
  qed
  show ?thesis
    by (auto simp: files_lawful_def ram_files_def ram_content_def ram_owned_def touches_def reads_from_def fresh
        update_conv' delete_conv' Let_def unat_of_nat take_bit_nat_eq_self simp del: replicate_Suc split: option.splits if_splits)
qed

definition ram_env :: "(2, ram) sort_env" where
  "ram_env = \<lparr>env_files = ram_files, env_sort_unstable_by_key = sort_key sv_key, env_staged_size = 24\<rparr>"

lemma ram_env_lawful: "files_lawful (env_files ram_env) ram_content ram_owned" "sort_lawful ram_env"
  using ram_files_lawful by (simp_all add: ram_env_def sort_lawful_def)

text \<open>Three records, two of them with the same key, of which memory holds two: two runs and one merge pass.\<close>

definition sample_entries :: "2 entry list" where
  "sample_entries = [(array_of [3, 1], [7]), (array_of [1, 2], []), (array_of [3, 1], [])]"

definition sample_sort :: "(bulk_load_error + 2 sorted_variable_values) \<times> ram" where
  "sample_sort = sort_all ram_env ''/t'' ''u'' 50 1000 sample_entries ([], [])"

lemma sample_sort_read:
  "case fst sample_sort of
     Inl _ \<Rightarrow> False
   | Inr v \<Rightarrow> se_merge_pass_count (sr_evidence v) = 1 \<and>
       (case fst (read_records 4 ram_env v ([], [])) of
          Inl _ \<Rightarrow> False
        | Inr (es, v') \<Rightarrow> sr_finished v' \<and> map (as_slice \<circ> fst) es = [[1, 2], [3, 1], [3, 1]])"
  by code_simp

lemma sample_sort_returns: "\<not> isl (fst sample_sort)"
  using sample_sort_read by (simp split: sum.splits)

lemma sample_sort_Ok: "sort_all ram_env ''/t'' ''u'' 50 1000 sample_entries ([], []) = (Ok (projr (fst sample_sort)), snd sample_sort)"
  using sample_sort_returns by (simp add: sample_sort_def [symmetric] prod_eq_iff)

section \<open>Properties\<close>



text \<open>
  C19: the sort stays within its ceilings and its workspace. A finished sort reports exactly the number of
  entries and the length of the run that holds them; its peak of accounted memory and its peak of
  temporary bytes are within the ceilings of the caller, and the reader holds no record beyond the memory
  ceiling; the workspace is a directory that was not handed out before, and no file but the run files in
  it has changed.
\<close>

theorem sort_stays_within_ceilings:
  assumes "files_lawful (env_files env) content owned" and "sort_lawful env"
    and "sort_all env staging label mem_limit file_limit es fs = (Ok v, fs')"
  shows "unat (se_record_count (sr_evidence v)) = length es \<and>
    unat (se_final_run_file_bytes (sr_evidence v)) = length (run_bytes es) \<and>
    se_peak_accounted_memory_bytes (sr_evidence v) \<le> mem_limit \<and>
    se_final_run_file_bytes (sr_evidence v) \<le> se_peak_temporary_file_bytes (sr_evidence v) \<and>
    se_peak_temporary_file_bytes (sr_evidence v) \<le> file_limit \<and>
    (\<forall>e \<in> set es. env_staged_size env + length (snd e) \<le> unat mem_limit) \<and>
    (\<exists>workspace. workspace \<notin> owned fs \<and> (\<forall>q. q \<notin> run_files workspace \<longrightarrow> content fs' q = content fs q))"
proof -
  obtain s es' where s: "vs_workspace s \<notin> owned fs" "vs_max_accounted_memory_bytes s = mem_limit"
    "tb_byte_limit (vs_temporary_files s) = file_limit" "sorted_evidence s (sr_evidence v) es"
    "\<forall>q. q \<notin> run_files (vs_workspace s) \<longrightarrow> content fs' q = content fs q" "accounted env mem_limit es"
    using sort_all_Ok [OF assms] by metis
  then show ?thesis by (auto simp: sorted_evidence_def accounted_def)
qed

theorem sort_stays_within_ceilings_witness:
  "\<exists>v fs. sort_all ram_env ''/t'' ''u'' 50 1000 sample_entries ([], []) = (Ok v, fs) \<and>
     unat (se_record_count (sr_evidence v)) = 3 \<and>
     unat (se_final_run_file_bytes (sr_evidence v)) = length (run_bytes sample_entries) \<and>
     se_peak_accounted_memory_bytes (sr_evidence v) \<le> 50 \<and> se_peak_temporary_file_bytes (sr_evidence v) \<le> 1000"
  using sort_stays_within_ceilings [OF ram_env_lawful sample_sort_Ok] sample_sort_Ok by (auto simp: sample_entries_def)

end
