(* ===== verification/Oracle_Projection.thy ===== *)
theory Oracle_Projection
  imports Serial_Oracle Projection_Digest
begin

text \<open>
  The projection digest of the serial oracle (\<open>serial_oracle.rs\<close>): its row counts, and the accumulator it
  rebuilds from every row it holds, family by family in key order.
\<close>

text \<open>The entries of a \<open>BTreeMap\<close>, in the order of their keys.\<close>

definition fm_items :: "('k::linorder, 'v) fmap \<Rightarrow> ('k \<times> 'v) list" where
  "fm_items m = map (\<lambda>k. (k, the (fmlookup m k))) (sorted_list_of_set (fmdom' m))"

definition count_rows :: "nat \<Rightarrow> u64" where
  "count_rows len = (if len < 2 ^ 64 then of_nat len else - 1)"

definition oracle_row_counts :: "serial_oracle \<Rightarrow> family_row_counts" where
  "oracle_row_counts orc =
     (let l = or_ledger orc in
      \<lparr>transparent_unspent_output_count = count_rows (fcard (fmdom (lg_unspent_outputs l))),
       transparent_unspent_output_by_address_count = count_rows (fcard (fmdom (lg_unspent_outputs l))),
       transparent_spent_output_count = count_rows (fcard (fmdom (lg_spent_outputs l))),
       transparent_address_transaction_count = count_rows (fcard (fmdom (lg_address_transactions l))),
       transparent_address_balance_count = count_rows (fcard (fmdom (lg_balance_by_address l))),
       reorg_undo_count = count_rows (fcard (fmdom (or_reorg_undo orc)))\<rparr>)"

text \<open>The loop that appends the rows of one family.\<close>

definition append_family ::
    "blake2b_fn \<Rightarrow> row_family \<Rightarrow> ('k \<Rightarrow> u8 list) \<Rightarrow> ('v \<Rightarrow> contract_error + u8 list) \<Rightarrow> ('k \<times> 'v) list \<Rightarrow>
       digest_builder \<Rightarrow> contract_error + digest_builder" where
  "append_family blake2b family key_bytes encode =
     try_fold (\<lambda>(key, x) digest. and_then (encode x) (\<lambda>v. append_row blake2b family (key_bytes key) v digest))"

definition oracle_projection_builder :: "blake2b_fn \<Rightarrow> serial_oracle \<Rightarrow> contract_error + digest_builder" where
  "oracle_projection_builder blake2b orc =
     (let l = or_ledger orc in
      and_then (append_family blake2b TransparentUnspentOutput as_slice unspent_encode_value
        (fm_items (lg_unspent_outputs l)) digest_builder_new) (\<lambda>digest.
      let unspent_output_address_keys = sorted_list_of_set (address_unspent_key_new ` fmran' (lg_unspent_outputs l)) in
      and_then (try_fold (\<lambda>address_key. append_row blake2b TransparentUnspentOutputByAddress (as_slice address_key) [])
        unspent_output_address_keys digest) (\<lambda>digest.
      and_then (append_family blake2b TransparentSpentOutput as_slice spent_encode_value
        (fm_items (lg_spent_outputs l)) digest) (\<lambda>digest.
      and_then (append_family blake2b TransparentAddressTransaction as_slice
        (\<lambda>e. Ok (as_slice (address_transaction_encode_value e))) (fm_items (lg_address_transactions l)) digest) (\<lambda>digest.
      and_then (append_family blake2b TransparentAddressBalance as_slice (\<lambda>balance_zat. Ok (to_be_bytes balance_zat))
        (fm_items (lg_balance_by_address l)) digest) (\<lambda>digest.
      append_family blake2b ReorgUndo to_be_bytes undo_encode_value (fm_items (or_reorg_undo orc)) digest))))))"

definition oracle_projection_accumulator :: "blake2b_fn \<Rightarrow> serial_oracle \<Rightarrow> contract_error + projection_accumulator" where
  "oracle_projection_accumulator blake2b orc = and_then (oracle_projection_builder blake2b orc) (\<lambda>b. Ok (db_accumulator b))"

definition oracle_projection_digest :: "blake2b_fn \<Rightarrow> serial_oracle \<Rightarrow> contract_error + 32 bytes" where
  "oracle_projection_digest blake2b orc =
     and_then (oracle_projection_builder blake2b orc) (\<lambda>b. Ok (accumulator_display_digest blake2b (db_accumulator b)))"

end
