(* ===== verification/Oracle_Digest.thy ===== *)
theory Oracle_Digest
  imports Oracle_Projection Serving_Properties
begin

text \<open>
  The digest that a wallet store publishes is the one the serial oracle rebuilds from all its rows, when
  the oracle retains as many undo records as the store has unsettled blocks.
\<close>

section \<open>The undo records of the oracle\<close>

lemma follows_oracle:
  assumes "follows blake2b sha256 network (genesis_base sha256 root_hash) settled unsettled st"
  shows "\<exists>orc. oracle_reaches blake2b sha256 network depth (settled @ unsettled) orc \<and> or_network orc = network \<and>
           or_ledger orc = mr_ledger (ts_rows st) \<and> or_source_sequence_digest orc = ts_source_sequence_digest st \<and>
           (case or_last_projected_block orc of None \<Rightarrow> id_height (ts_current_tip st) = 0 | Some b \<Rightarrow> b = ts_current_tip st) \<and>
           (\<forall>h u v. fmlookup (mr_undo (ts_rows st)) h = Some u \<longrightarrow> fmlookup (or_reorg_undo orc) h = Some v \<longrightarrow> u = v)"
  using assms
proof induction
  case (settled blocks l tip d)
  then obtain orc where "oracle_reaches blake2b sha256 network depth blocks orc" "or_network orc = network" "or_ledger orc = l"
    "or_source_sequence_digest orc = d" "case or_last_projected_block orc of None \<Rightarrow> id_height tip = 0 | Some b \<Rightarrow> b = tip"
    using chain_state_oracle [of blake2b sha256 network root_hash blocks l tip d depth] by blast
  then show ?case by (intro exI [of _ orc]) (simp cong: option.case_cong)
next
  case (unsettled blocks suffix st facts builder loc l)
  then obtain orc where orc: "oracle_reaches blake2b sha256 network depth (blocks @ suffix) orc" "or_network orc = network"
    "or_ledger orc = mr_ledger (ts_rows st)" "or_source_sequence_digest orc = ts_source_sequence_digest st"
    "case or_last_projected_block orc of None \<Rightarrow> id_height (ts_current_tip st) = 0 | Some b \<Rightarrow> b = ts_current_tip st"
    "\<forall>h u v. fmlookup (mr_undo (ts_rows st)) h = Some u \<longrightarrow> fmlookup (or_reorg_undo orc) h = Some v \<longrightarrow> u = v" by blast
  have "validate_next_block (facts_block facts) (header_parent_hash (block_header facts)) orc = Inr ()"
    using orc(5) \<open>extends facts (ts_current_tip st)\<close>
    by (auto simp: validate_next_block_def extends_def block_height_next_Some_iff word_unat_eq_iff split: option.splits)
  then obtain undo orc' where step: "apply_block blake2b sha256 facts orc = (Inr undo, orc')" "or_network orc' = network"
    "or_ledger orc' = l" "or_source_sequence_digest orc' = builder_finish builder"
    "or_last_projected_block orc' = Some (facts_block facts)"
    "undo = undo_of facts (ts_source_sequence_digest st) (builder_finish builder) loc"
    "or_reorg_undo orc' = retain_reorg_undo (or_supported_reorg_depth orc) undo (or_reorg_undo orc)"
    using orc(2-4) unsettled.hyps by (simp add: apply_block_def apply_block_in_place_def undo_of_def Let_def)
  have empty: "fmlookup (or_reorg_undo orc) h = None" if "\<not> 0 < or_supported_reorg_depth orc" for h
    using oracle_reaches_inv [OF orc(1)] that by (auto simp: undo_window_def in_window_def word_less_nat_alt)
  have "\<forall>h u v. fmlookup (mr_undo (ts_rows (after_block facts (builder_finish builder) loc l st))) h = Some u \<longrightarrow>
      fmlookup (or_reorg_undo orc') h = Some v \<longrightarrow> u = v"
    using orc(6) step(6,7) empty by (auto simp: retain_reorg_undo_def undo_of_def block_undo_def Let_def split: if_splits)
  then show ?case
    using oracle_reaches.accept [OF orc(1) step(1)] step(2-5) by (intro exI [of _ orc']) simp
qed

lemma follows_oracle_undo:
  assumes "follows blake2b sha256 network (genesis_base sha256 root_hash) settled unsettled st"
    and "unat depth = length unsettled"
  obtains orc where "oracle_reaches blake2b sha256 network depth (settled @ unsettled) orc"
    "or_ledger orc = mr_ledger (ts_rows st)" "or_reorg_undo orc = mr_undo (ts_rows st)"
proof -
  obtain orc where orc: "oracle_reaches blake2b sha256 network depth (settled @ unsettled) orc" "or_ledger orc = mr_ledger (ts_rows st)"
    "case or_last_projected_block orc of None \<Rightarrow> id_height (ts_current_tip st) = 0 | Some b \<Rightarrow> b = ts_current_tip st"
    "\<forall>h u v. fmlookup (mr_undo (ts_rows st)) h = Some u \<longrightarrow> fmlookup (or_reorg_undo orc) h = Some v \<longrightarrow> u = v"
    using follows_oracle [OF assms(1), of depth] by blast
  have inv: "oracle_inv blake2b sha256 network depth (settled @ unsettled) orc" "undo_window sha256 (settled @ unsettled) orc"
    using oracle_reaches_inv [OF orc(1)] by auto
  have tip: "unat (id_height (ts_current_tip st)) = length (settled @ unsettled)"
  proof (cases "settled @ unsettled = []")
    case True
    then show ?thesis using inv(1) orc(3) by (simp add: oracle_inv_def)
  next
    case False
    then have "or_last_projected_block orc = Some (facts_block (last (settled @ unsettled)))" using inv(1) by (simp add: oracle_inv_def)
    then have "ts_current_tip st = facts_block (last (settled @ unsettled))" using orc(3) by simp
    then show ?thesis using inv(1) False unfolding oracle_inv_def contiguous_def
      by (auto simp: facts_block_def last_conv_nth)
  qed
  have "fmlookup (or_reorg_undo orc) h = fmlookup (mr_undo (ts_rows st)) h" for h
  proof -
    have "fmlookup (or_reorg_undo orc) h \<noteq> None \<longleftrightarrow> fmlookup (mr_undo (ts_rows st)) h \<noteq> None"
      using inv follows_heights(1,3) [OF assms(1)] tip assms(2)
      unfolding undo_window_def undo_rows_wf_def in_window_def oracle_inv_def by auto
    then show ?thesis using orc(4) by (metis option.exhaust)
  qed
  then have "or_reorg_undo orc = mr_undo (ts_rows st)" by (intro fmap_ext) simp
  then show thesis using that orc(1,2) by blast
qed

section \<open>The rows of the oracle\<close>

text \<open>The loop over one family appends the rows that a table holds for it.\<close>

definition table_row :: "table \<Rightarrow> row_family \<times> u8 list \<Rightarrow> row" where
  "table_row rows fk = (fst fk, snd fk, the (fmlookup rows fk))"

lemma append_rows_append: "append_rows blake2b (xs @ ys) b = and_then (append_rows blake2b xs b) (append_rows blake2b ys)"
  by (simp add: append_rows_def try_fold_append)

definition family_keys :: "row_family \<Rightarrow> ('k \<Rightarrow> u8 list) \<Rightarrow> ('k::linorder, 'v) fmap \<Rightarrow> (row_family \<times> u8 list) list" where
  "family_keys f kb m = map (\<lambda>k. (f, kb k)) (sorted_list_of_set (fmdom' m))"

lemma append_family_rows:
  assumes "family_encodes kb enc f m rows"
  shows "append_family blake2b f kb enc (fm_items m) b = append_rows blake2b (map (table_row rows) (family_keys f kb m)) b"
proof -
  have "try_fold (\<lambda>(key, x) digest. and_then (enc x) (\<lambda>v. append_row blake2b f (kb key) v digest))
      (map (\<lambda>k. (k, the (fmlookup m k))) ks) b =
    try_fold (\<lambda>(f, k, v). append_row blake2b f k v) (map (table_row rows) (map (\<lambda>k. (f, kb k)) ks)) b"
    if "set ks \<subseteq> fmdom' m" for ks
    using that
  proof (induction ks arbitrary: b)
    case (Cons k ks)
    then obtain x where x: "fmlookup m k = Some x" by (auto simp: fmlookup_dom'_iff)
    then obtain v where "fmlookup rows (f, kb k) = Some v" "enc x = Inr v"
      using assms [unfolded family_encodes_def, THEN conjunct1, rule_format, of k] by (auto simp: option_rel_Some1)
    then show ?case using Cons x by (simp add: table_row_def cong: and_then_cong)
  qed simp
  then show ?thesis
    unfolding append_family_def append_rows_def fm_items_def family_keys_def
    by simp
qed

lemma family_keys_facts:
  assumes "family_encodes kb enc f m rows" and "inj kb"
  shows "distinct (family_keys f kb m)" "(f, k) \<in> fmdom' rows \<longleftrightarrow> (f, k) \<in> set (family_keys f kb m)"
    "x \<in> set (family_keys f kb m) \<Longrightarrow> fst x = f"
proof -
  show "distinct (family_keys f kb m)"
    using assms(2) by (auto simp: family_keys_def distinct_map inj_on_def)
  show "(f, k) \<in> fmdom' rows \<longleftrightarrow> (f, k) \<in> set (family_keys f kb m)"
  proof
    assume "(f, k) \<in> fmdom' rows"
    then obtain x where x: "k = kb x" using assms(1) by (force simp: family_encodes_def fmlookup_dom'_iff)
    then have "x \<in> fmdom' m"
      using \<open>(f, k) \<in> fmdom' rows\<close> assms(1) [unfolded family_encodes_def, THEN conjunct1, rule_format, of x]
      by (auto simp: fmlookup_dom'_iff option_rel_Some2)
    then show "(f, k) \<in> set (family_keys f kb m)" using x by (simp add: family_keys_def)
  next
    assume "(f, k) \<in> set (family_keys f kb m)"
    then obtain x where x: "k = kb x" "x \<in> fmdom' m" by (auto simp: family_keys_def)
    then show "(f, k) \<in> fmdom' rows"
      using assms(1) [unfolded family_encodes_def, THEN conjunct1, rule_format, of x]
      by (auto simp: fmlookup_dom'_iff option_rel_Some1)
  qed
  show "x \<in> set (family_keys f kb m) \<Longrightarrow> fst x = f" by (auto simp: family_keys_def)
qed

definition index_keys :: "(outpoint_key, unspent_output) fmap \<Rightarrow> (row_family \<times> u8 list) list" where
  "index_keys m =
     map (\<lambda>k. (TransparentUnspentOutputByAddress, as_slice k)) (sorted_list_of_set (address_unspent_key_new ` fmran' m))"

declare as_slice_address_unspent_key_new [simp del]

lemma set_index_keys: "set (index_keys m) = Pair TransparentUnspentOutputByAddress ` as_slice ` address_unspent_key_new ` fmran' m"
  by (simp add: index_keys_def image_image fmran'_alt_def)

lemma index_encodes_lookup:
  assumes "index_encodes m rows"
  shows "fmlookup rows (TransparentUnspentOutputByAddress, k) =
    (if k \<in> as_slice ` address_unspent_key_new ` fmran' m then Some [] else None)"
  using assms by (auto simp: index_encodes_def fmran'_def ran_def image_iff fmran'I dest: fmran'I)

lemma append_index_rows:
  assumes "index_encodes m rows"
  shows "try_fold (\<lambda>k. append_row blake2b TransparentUnspentOutputByAddress (as_slice k) [])
      (sorted_list_of_set (address_unspent_key_new ` fmran' m)) b = append_rows blake2b (map (table_row rows) (index_keys m)) b"
proof -
  have "try_fold (\<lambda>k. append_row blake2b TransparentUnspentOutputByAddress (as_slice k) []) ks b =
      try_fold (\<lambda>(f, k, v). append_row blake2b f k v)
        (map (table_row rows) (map (\<lambda>k. (TransparentUnspentOutputByAddress, as_slice k)) ks)) b"
    if "set ks \<subseteq> address_unspent_key_new ` fmran' m" for ks
    using that
  proof (induction ks arbitrary: b)
    case (Cons k ks)
    then have "fmlookup rows (TransparentUnspentOutputByAddress, as_slice k) = Some []" by (auto simp: index_encodes_lookup [OF assms])
    then show ?case using Cons by (simp add: table_row_def cong: and_then_cong)
  qed simp
  from this [of "sorted_list_of_set (address_unspent_key_new ` fmran' m)"] show ?thesis
    unfolding append_rows_def index_keys_def by (simp add: fmran'_alt_def)
qed

lemma index_keys_facts:
  assumes "index_encodes m rows"
  shows "distinct (index_keys m)" "(TransparentUnspentOutputByAddress, k) \<in> fmdom' rows \<longleftrightarrow> (TransparentUnspentOutputByAddress, k) \<in> set (index_keys m)"
    "x \<in> set (index_keys m) \<Longrightarrow> fst x = TransparentUnspentOutputByAddress"
proof -
  show "distinct (index_keys m)" by (auto simp: index_keys_def distinct_map inj_on_def)
  show "(TransparentUnspentOutputByAddress, k) \<in> fmdom' rows \<longleftrightarrow> (TransparentUnspentOutputByAddress, k) \<in> set (index_keys m)"
    by (auto simp: set_index_keys fmlookup_dom'_iff index_encodes_lookup [OF assms] simp del: image_image)
  show "x \<in> set (index_keys m) \<Longrightarrow> fst x = TransparentUnspentOutputByAddress" by (auto simp: set_index_keys)
qed

definition oracle_keys :: "serial_oracle \<Rightarrow> (row_family \<times> u8 list) list" where
  "oracle_keys orc =
     (let l = or_ledger orc in
      family_keys TransparentUnspentOutput as_slice (lg_unspent_outputs l) @ index_keys (lg_unspent_outputs l) @
      family_keys TransparentSpentOutput as_slice (lg_spent_outputs l) @
      family_keys TransparentAddressTransaction as_slice (lg_address_transactions l) @
      family_keys TransparentAddressBalance as_slice (lg_balance_by_address l) @
      family_keys ReorgUndo to_be_bytes (or_reorg_undo orc))"

abbreviation oracle_machine :: "serial_oracle \<Rightarrow> machine" where
  "oracle_machine orc \<equiv> \<lparr>mr_ledger = or_ledger orc, mr_undo = or_reorg_undo orc\<rparr>"

lemma oracle_builder_rows:
  assumes "encodes (oracle_machine orc) rows"
  shows "oracle_projection_builder blake2b orc = append_rows blake2b (map (table_row rows) (oracle_keys orc)) digest_builder_new"
proof -
  note e = assms [unfolded encodes_def, simplified]
  show ?thesis
    unfolding oracle_projection_builder_def oracle_keys_def Let_def map_append append_rows_append
      append_family_rows [OF e [THEN conjunct1]] append_family_rows [OF e [THEN conjunct2, THEN conjunct1]]
      append_family_rows [OF e [THEN conjunct2, THEN conjunct2, THEN conjunct1]]
      append_family_rows [OF e [THEN conjunct2, THEN conjunct2, THEN conjunct2, THEN conjunct1]]
      append_family_rows [OF e [THEN conjunct2, THEN conjunct2, THEN conjunct2, THEN conjunct2, THEN conjunct1]]
      append_index_rows [OF e [THEN conjunct2, THEN conjunct2, THEN conjunct2, THEN conjunct2, THEN conjunct2]]
    by (simp add: append_rows_append and_then_assoc cong: and_then_cong)
qed

lemma oracle_keys_facts:
  assumes "encodes (oracle_machine orc) rows"
  shows "distinct (oracle_keys orc)" "set (oracle_keys orc) = fmdom' rows"
proof -
  note e = assms [unfolded encodes_def, simplified]
  have inj: "inj (\<lambda>h. to_be_bytes (h :: u32))" by (simp add: inj_def)
  note unspent = family_keys_facts [OF e [THEN conjunct1] inj_as_slice]
    and spent = family_keys_facts [OF e [THEN conjunct2, THEN conjunct1] inj_as_slice]
    and txs = family_keys_facts [OF e [THEN conjunct2, THEN conjunct2, THEN conjunct1] inj_as_slice]
    and balances = family_keys_facts [OF e [THEN conjunct2, THEN conjunct2, THEN conjunct2, THEN conjunct1] inj_as_slice]
    and undos = family_keys_facts [OF e [THEN conjunct2, THEN conjunct2, THEN conjunct2, THEN conjunct2, THEN conjunct1] inj]
    and index = index_keys_facts [OF e [THEN conjunct2, THEN conjunct2, THEN conjunct2, THEN conjunct2, THEN conjunct2]]
  note families = unspent(3) spent(3) txs(3) balances(3) undos(3) index(3)
  show "distinct (oracle_keys orc)"
    unfolding oracle_keys_def Let_def using unspent(1) spent(1) txs(1) balances(1) undos(1) index(1)
    by (auto dest!: families)
  have "(f, k) \<in> set (oracle_keys orc) \<longleftrightarrow> (f, k) \<in> fmdom' rows" for f k
    by (cases f) (auto simp: oracle_keys_def Let_def unspent(2) spent(2) txs(2) balances(2) undos(2) index(2) dest: families)
  then show "set (oracle_keys orc) = fmdom' rows" by auto
qed

lemma table_sums:
  assumes "distinct ks" and "set ks = fmdom' rows"
  shows "(\<Sum>r\<in>#mset (map (table_row rows) ks). row_lanes blake2b r) = table_lanes blake2b rows"
    "size (filter_mset (\<lambda>r. fst r = g) (mset (map (table_row rows) ks))) = family_size g rows"
proof -
  have "(\<Sum>r\<in>#mset (map (table_row rows) ks). row_lanes blake2b r) = (\<Sum>k\<leftarrow>ks. row_lanes blake2b (table_row rows k))"
    by (simp add: sum_mset_sum_list comp_def flip: mset_map)
  also have "\<dots> = table_lanes blake2b rows"
    unfolding sum_list_distinct_conv_sum_set [OF assms(1)] assms(2) table_lanes_def fm_sum_def
    by (simp add: table_row_def case_prod_beta)
  finally show "(\<Sum>r\<in>#mset (map (table_row rows) ks). row_lanes blake2b r) = table_lanes blake2b rows" .
  have "size (filter_mset (\<lambda>r. fst r = g) (mset (map (table_row rows) ks))) = (\<Sum>k\<leftarrow>ks. if g = fst k then 1 else 0)"
    by (induction ks) (auto simp: table_row_def)
  also have "\<dots> = family_size g rows"
    unfolding sum_list_distinct_conv_sum_set [OF assms(1)] assms(2) family_size_def fm_sum_def
    by (simp add: case_prod_beta)
  finally show "size (filter_mset (\<lambda>r. fst r = g) (mset (map (table_row rows) ks))) = family_size g rows" .
qed

lemma family_size_index:
  assumes "index_encodes m rows" and "\<And>k u. fmlookup m k = Some u \<Longrightarrow> k = outpoint_key_new (uo_outpoint u)"
  shows "family_size TransparentUnspentOutputByAddress rows = fcard (fmdom m)"
proof -
  have "family_size TransparentUnspentOutputByAddress rows = card {x \<in> fmdom' rows. fst x = TransparentUnspentOutputByAddress}"
    unfolding family_size_def fm_sum_def by (simp add: sum.If_cases case_prod_unfold Int_def eq_commute)
  also have "{x \<in> fmdom' rows. fst x = TransparentUnspentOutputByAddress} =
      (\<lambda>k. (TransparentUnspentOutputByAddress, as_slice (address_unspent_key_new (the (fmlookup m k))))) ` fmdom' m"
  proof -
    have "x \<in> fmdom' rows \<longleftrightarrow> x \<in> set (index_keys m)" if "fst x = TransparentUnspentOutputByAddress" for x
      using index_keys_facts(2) [OF assms(1), of "snd x"] that by (cases x) simp
    moreover have "fmran' m = (\<lambda>k. the (fmlookup m k)) ` fmdom' m" by (force simp: fmlookup_dom'_iff fmlookup_ran'_iff)
    ultimately show ?thesis using index_keys_facts(3) [OF assms(1)] unfolding set_index_keys image_image by auto
  qed
  also have "card \<dots> = card (fmdom' m)"
  proof (intro card_image inj_onI)
    fix x y
    assume "x \<in> fmdom' m" "y \<in> fmdom' m"
    then obtain u v where "fmlookup m x = Some u" "fmlookup m y = Some v" by (auto simp: fmlookup_dom'_iff)
    then have "x = outpoint_key_new (uo_outpoint (the (fmlookup m x)))" "y = outpoint_key_new (uo_outpoint (the (fmlookup m y)))"
      using assms(2) by auto
    moreover assume "(TransparentUnspentOutputByAddress, as_slice (address_unspent_key_new (the (fmlookup m x)))) =
      (TransparentUnspentOutputByAddress, as_slice (address_unspent_key_new (the (fmlookup m y))))"
    then have "uo_outpoint (the (fmlookup m x)) = uo_outpoint (the (fmlookup m y))"
      unfolding prod.inject as_slice_eq_iff by (blast dest: address_unspent_key_new_eqD)
    ultimately show "x = y" by simp
  qed
  finally show ?thesis by (simp add: fcard.rep_eq fmdom'_alt_def)
qed

lemma count_rows_unat: "unat c = n \<Longrightarrow> count_rows n = c"
  using unsigned_less [of c] by (auto simp: count_rows_def)

lemma oracle_counts:
  assumes "encodes (oracle_machine orc) rows" and "ledger_inv blake2b network (or_ledger orc)"
    and "\<And>f. unat (row_count f counts) = family_size f rows"
  shows "oracle_row_counts orc = counts"
proof -
  note e = assms(1) [unfolded encodes_def, simplified]
  have inj: "inj (\<lambda>h. to_be_bytes (h :: u32))" by (simp add: inj_def)
  have keys: "k = outpoint_key_new (uo_outpoint u)" if "fmlookup (lg_unspent_outputs (or_ledger orc)) k = Some u" for k u
    using assms(2) that by (simp add: ledger_inv_def)
  have index: "family_size TransparentUnspentOutputByAddress rows = fcard (fmdom (lg_unspent_outputs (or_ledger orc)))"
    using e keys by (blast intro: family_size_index)
  note size = family_size_encodes [OF e [THEN conjunct1] inj_as_slice] index
    family_size_encodes [OF e [THEN conjunct2, THEN conjunct1] inj_as_slice]
    family_size_encodes [OF e [THEN conjunct2, THEN conjunct2, THEN conjunct1] inj_as_slice]
    family_size_encodes [OF e [THEN conjunct2, THEN conjunct2, THEN conjunct2, THEN conjunct1] inj_as_slice]
    family_size_encodes [OF e [THEN conjunct2, THEN conjunct2, THEN conjunct2, THEN conjunct2, THEN conjunct1] inj]
  have "count_rows (family_size f rows) = row_count f counts" for f by (rule count_rows_unat) (rule assms(3))
  note counted = this [of TransparentUnspentOutput] this [of TransparentUnspentOutputByAddress]
    this [of TransparentSpentOutput] this [of TransparentAddressTransaction] this [of TransparentAddressBalance] this [of ReorgUndo]
  show ?thesis
    using counted unfolding size by (simp add: oracle_row_counts_def Let_def)
qed

text \<open>The oracle rebuilds the accumulator of the table it encodes to, unless a value is too long for its length field.\<close>

lemma oracle_key_length: "fk \<in> set (oracle_keys orc) \<Longrightarrow> length (snd fk) < 2 ^ 32"
  by (auto simp: oracle_keys_def Let_def family_keys_def index_keys_def)

lemma oracle_builder_digests:
  assumes "encodes (oracle_machine orc) rows" and "digests blake2b rows acc counts"
  shows "oracle_projection_builder blake2b orc = Inr \<lparr>db_accumulator = acc, db_row_counts = counts\<rparr> \<longleftrightarrow>
           (\<forall>fk v. fmlookup rows fk = Some v \<longrightarrow> length v < 2 ^ 32)"
    "oracle_projection_builder blake2b orc = Inr b \<Longrightarrow> b = \<lparr>db_accumulator = acc, db_row_counts = counts\<rparr>"
proof -
  note keys = oracle_keys_facts [OF assms(1)]
  have new: "lanes_of (db_accumulator digest_builder_new) = 0" "row_count f (db_row_counts digest_builder_new) = 0" for f
    by (simp add: digest_builder_new_def accumulator_empty_def)
      (cases f; simp add: digest_builder_new_def row_counts_default_def)
  have fits: "(\<forall>r \<in> set (map (table_row rows) (oracle_keys orc)). row_fits r) \<longleftrightarrow> (\<forall>fk v. fmlookup rows fk = Some v \<longrightarrow> length v < 2 ^ 32)"
    (is "?fit \<longleftrightarrow> ?short")
  proof -
    have "?fit \<longleftrightarrow> (\<forall>fk \<in> fmdom' rows. length (the (fmlookup rows fk)) < 2 ^ 32)"
      using oracle_key_length [of _ orc] unfolding set_map keys(2) by (simp add: table_row_def row_fits_def)
    also have "\<dots> \<longleftrightarrow> ?short" unfolding Ball_def fmlookup_dom'_iff by (metis option.sel)
    finally show ?thesis .
  qed
  have built: "oracle_projection_builder blake2b orc = Inr b \<longleftrightarrow>
      (\<forall>fk v. fmlookup rows fk = Some v \<longrightarrow> length v < 2 ^ 32) \<and> lanes_of (db_accumulator b) = lanes_of acc \<and>
      (\<forall>f. unat (row_count f (db_row_counts b)) = unat (row_count f counts))" for b
    using assms(2) unfolding oracle_builder_rows [OF assms(1)] append_rows_Ok_iff new fits table_sums [OF keys] digests_def
    by simp
  show "oracle_projection_builder blake2b orc = Inr \<lparr>db_accumulator = acc, db_row_counts = counts\<rparr> \<longleftrightarrow>
      (\<forall>fk v. fmlookup rows fk = Some v \<longrightarrow> length v < 2 ^ 32)"
    unfolding built by simp
  show "b = \<lparr>db_accumulator = acc, db_row_counts = counts\<rparr>" if "oracle_projection_builder blake2b orc = Inr b"
    using that unfolding built by (intro digest_builder_eqI) (simp_all add: word_unat_eq_iff)
qed

text \<open>
  C12: A store that follows a chain from genesis publishes the evidence the serial oracle recomputes from
  scratch. The oracle reads the same blocks with a supported reorganization depth equal to the number of unsettled blocks.
  Its row counts are then the published row counts. Its projection accumulator and its projection digest, rebuilt from
  all the rows it holds, are the published ones, provided that every value the store holds is shorter than
  2^32 bytes; when a value is longer the oracle's rebuild does not succeed.
\<close>

theorem published_digest_is_oracle_digest:
  assumes "store_follows blake2b sha256 stored (genesis_base sha256 root_hash) settled unsettled s"
    and "unat depth = length unsettled"
  shows "\<exists>orc. oracle_reaches blake2b sha256 (sc_network (ws_control s)) depth (settled @ unsettled) orc \<and>
           oracle_row_counts orc = re_row_counts (ws_ready_evidence s) \<and>
           (if \<exists>f k v. stored (ws_db s) (family_column f) k = Some v \<and> 2 ^ 32 \<le> length v
            then (\<exists>e. oracle_projection_accumulator blake2b orc = Inl e \<and> oracle_projection_digest blake2b orc = Inl e)
            else oracle_projection_accumulator blake2b orc = Inr (re_projection_accumulator (ws_ready_evidence s)) \<and>
                 oracle_projection_digest blake2b orc = Inr (re_projection_digest (ws_ready_evidence s)))"
proof -
  let ?e = "ws_ready_evidence s"
  obtain w where w: "follows blake2b sha256 (sc_network (ws_control s)) (genesis_base sha256 root_hash) settled unsettled w"
    and holds: "store_holds blake2b stored s w"
    using assms(1) by (auto simp: store_follows_def)
  obtain orc where orc: "oracle_reaches blake2b sha256 (sc_network (ws_control s)) depth (settled @ unsettled) orc"
    and rows_eq: "or_ledger orc = mr_ledger (ts_rows w)" "or_reorg_undo orc = mr_undo (ts_rows w)"
    using follows_oracle_undo [OF w assms(2)] by blast
  have machine: "oracle_machine orc = ts_rows w" using rows_eq by simp
  obtain rows where rows: "shows_table (stored (ws_db s)) rows" "encodes (oracle_machine orc) rows"
    "digests blake2b rows (re_projection_accumulator ?e) (re_row_counts ?e)"
    using holds unfolding store_holds_def Let_def machine by blast
  have inv: "ledger_inv blake2b (sc_network (ws_control s)) (or_ledger orc)"
    and digest: "re_projection_digest ?e = accumulator_display_digest blake2b (re_projection_accumulator ?e)"
    using holds rows_eq(1) by (simp_all add: store_holds_def Let_def machine_wf_def)
  have counts: "oracle_row_counts orc = re_row_counts ?e"
    using oracle_counts [OF rows(2) inv] rows(3) by (simp add: digests_def)
  have long: "(\<exists>f k v. stored (ws_db s) (family_column f) k = Some v \<and> 2 ^ 32 \<le> length v) \<longleftrightarrow>
      \<not> (\<forall>fk v. fmlookup rows fk = Some v \<longrightarrow> length v < 2 ^ 32)"
    using rows(1) by (auto simp: shows_table_def not_less)
  note built = oracle_builder_digests [OF rows(2,3)]
  show ?thesis
  proof (cases "\<exists>f k v. stored (ws_db s) (family_column f) k = Some v \<and> 2 ^ 32 \<le> length v")
    case True
    then obtain e where "oracle_projection_builder blake2b orc = Inl e"
      using built long by (metis sum.exhaust)
    then show ?thesis using orc counts True
      by (intro exI [of _ orc]) (simp add: oracle_projection_accumulator_def oracle_projection_digest_def)
  next
    case False
    then have "oracle_projection_builder blake2b orc = Inr \<lparr>db_accumulator = re_projection_accumulator ?e, db_row_counts = re_row_counts ?e\<rparr>"
      using built(1) long by blast
    then show ?thesis using orc counts False digest
      by (intro exI [of _ orc]) (simp add: oracle_projection_accumulator_def oracle_projection_digest_def)
  qed
qed

theorem published_digest_is_oracle_digest_witness:
  "(\<exists>orc. oracle_reaches sample_blake2b sample_sha256 ZcashRegtest 0 sample_chain orc \<and>
      oracle_projection_digest sample_blake2b orc = Ok (re_projection_digest (ws_ready_evidence sample_store))) \<and>
   (\<exists>s' orc. apply_canonical_event_range sample_blake2b sample_sha256 memory_lib sample_source sample_event sample_fence
          sample_tip sample_limit [Ok sample_replay] sample_store = (Ok (), s') \<and>
      oracle_reaches sample_blake2b sample_sha256 ZcashRegtest 1 (sample_chain @ sample_suffix) orc \<and>
      oracle_row_counts orc = re_row_counts (ws_ready_evidence s'))"
proof
  have "memory_rows (ws_db sample_store) cf k = None" for cf k
    by (simp add: memory_rows_def sample_store_def Let_def)
  then show "\<exists>orc. oracle_reaches sample_blake2b sample_sha256 ZcashRegtest 0 sample_chain orc \<and>
      oracle_projection_digest sample_blake2b orc = Ok (re_projection_digest (ws_ready_evidence sample_store))"
    using published_digest_is_oracle_digest [OF sample_store_follows [folded sample_genesis_base], of 0]
    by (auto simp: sample_network)
  obtain s' where s': "apply_canonical_event_range sample_blake2b sample_sha256 memory_lib sample_source sample_event sample_fence
      sample_tip sample_limit [Ok sample_replay] sample_store = (Ok (), s')"
    "store_follows sample_blake2b sample_sha256 memory_rows sample_base sample_chain sample_suffix s'"
    "sc_network (ws_control s') = ZcashRegtest"
    using sample_committed_follows by blast
  have "unat (1 :: u32) = length sample_suffix" by simp
  from published_digest_is_oracle_digest [OF s'(2) [folded sample_genesis_base] this] s'(1,3)
  show "\<exists>s' orc. apply_canonical_event_range sample_blake2b sample_sha256 memory_lib sample_source sample_event sample_fence
          sample_tip sample_limit [Ok sample_replay] sample_store = (Ok (), s') \<and>
      oracle_reaches sample_blake2b sample_sha256 ZcashRegtest 1 (sample_chain @ sample_suffix) orc \<and>
      oracle_row_counts orc = re_row_counts (ws_ready_evidence s')"
    by auto
qed

end
