(* ===== verification/Spec2Isabelle.thy ===== *)
theory Spec2Isabelle
  imports Store_Properties Facts_Digest Serving_Properties Lease_Properties Sort_Properties Oracle_Digest
begin

text \<open>
  A verification development for zinder, an indexer for the Zcash block chain.

  \<^bold>\<open>The program.\<close> zinder reads canonical blocks, reduces each to its facts, and keeps a wallet projection:
  the transparent unspent and spent outputs, address transactions and balances, and a commitment to the
  unspent set. \<open>zinder-core\<close> has the chain types, the digests of block facts and the UTXO set commitment;
  \<open>zinder-wallet-projection\<close> the rows, the projection digest, the control record and a serial oracle, which
  is the reference for what the projection means; \<open>zinder-wallet-rocksdb\<close> the durable store, which is built
  once under a lease and then follows canonical events; \<open>zinder-rocksdb-bulk-load\<close> the external sorter used
  while building; \<open>services/zinder-query\<close> the service that answers wallet requests from a canonical reader
  and a wallet reader that were admitted as a pair.

  \<^bold>\<open>Conventions.\<close> Words keep their width (\<open>u8\<close>, \<open>u32\<close>, \<open>u64\<close>); a \<open>usize\<close> is a natural number whose bound is
  written out where the code checks it. A \<open>Result\<close> is a sum, \<open>and_then\<close> is the \<open>?\<close> operator; an operation
  that changes the disk takes and returns its state, and \<open>db_then\<close> is its \<open>?\<close>. Byte arrays \<open>[u8; N]\<close> are the
  length-indexed type \<open>'n bytes\<close>. BLAKE2b, SHA-256, RocksDB, the file system, the unstable sort of the
  standard library, channels and the iteration order of hash sets are parameters; what the code relies on
  of them are the named hypotheses \<open>rocksdb_lawful\<close>, \<open>control_lawful\<close>, \<open>files_lawful\<close>, \<open>sort_lawful\<close>,
  \<open>reads_blobs\<close> and \<open>sender_lawful\<close>, and injectivity of SHA-256 on the inputs at hand.

  \<^bold>\<open>Theories and sources.\<close>
  \<^item> \<open>Prelude\<close>, \<open>Byte_Codec\<close>, \<open>File_Io\<close>: results, checked arithmetic, byte strings, operations on the disk,
    and the simulation calculus the refinements use.
  \<^item> \<open>Chain_Types\<close> (\<open>zinder-core\<close>: identities, height ranges, facts), \<open>Facts_Digest\<close>
    (\<open>canonical_block_facts.rs\<close>), \<open>Lane_Accumulator\<close> and \<open>Utxo_Commitment\<close> (\<open>utxo_set_commitment.rs\<close>).
  \<^item> \<open>Wallet_Contract\<close>, \<open>Wallet_Keys\<close>, \<open>Wallet_Rows\<close> (\<open>rows.rs\<close>), \<open>Projection_Digest\<close> (\<open>digest.rs\<close>),
    \<open>Wallet_Control\<close> (\<open>control.rs\<close>), \<open>Wallet_Ledger\<close>, \<open>Block_Scan\<close>, \<open>Serial_Oracle\<close>, \<open>Oracle_Projection\<close>
    (\<open>serial_oracle.rs\<close>).
  \<^item> \<open>Wallet_Error\<close>, \<open>Wallet_Transition\<close>, \<open>Transition_Planner\<close>, \<open>Event_Transitions\<close> (\<open>transition.rs\<close>,
    \<open>error.rs\<close>): the control flow of a transition, the planner with its overlay, write batch and byte
    accounting, and the publication of one event or of a reconciled sequence of events.
  \<^item> \<open>Wallet_Queries\<close> (\<open>store.rs\<close>: point reads and pages), \<open>Build_Lease\<close> (\<open>store.rs\<close>, \<open>build.rs\<close>,
    \<open>kv/rocksdb.rs\<close>, \<open>rocksdb_resource_budget.rs\<close>: the BUILDING store, its lease, the READY publication),
    \<open>Variable_Sort\<close> (\<open>variable_value_sort.rs\<close>).
  \<^item> \<open>Serving_Pair\<close>, \<open>Serving_Cursor\<close>, \<open>Wallet_Serving\<close> (\<open>wallet_serving_pair.rs\<close>,
    \<open>wallet_serving_query.rs\<close>, and the parts of \<open>lib.rs\<close> they use).

  \<^bold>\<open>What is shown.\<close>
  \<^item> Codecs (\<open>Wallet_Rows\<close>, \<open>Wallet_Control\<close>, \<open>Serving_Cursor\<close>): decoding accepts exactly what encoding
    produces; the locale \<open>row_codec\<close> is interpreted for each row family and for the control record. Seek
    keys bound exactly the keys of an address from a height on.
  \<^item> Digests (\<open>Facts_Digest\<close>, \<open>Utxo_Commitment\<close>, \<open>Projection_Digest\<close>): encodings are injective
    (\<open>injective_encoding\<close>), the sequence digest binds the blocks and their order, and both accumulators are
    groups (\<open>lane_accumulator\<close>), so that they depend on the set of rows only and removal undoes insertion.
  \<^item> The oracle (\<open>Oracle_History\<close>): after any sequence of calls its outputs, balances, summary, digest and
    undo window are those of the accepted blocks; a rejected block changes nothing. The row counts and the
    projection digest it rebuilds from all its rows are the ones a store publishes (\<open>Oracle_Digest\<close>).
  \<^item> The store: \<open>Wallet_Machine\<close> abstracts the planner to a ledger with undo records; \<open>Wallet_Chain\<close> shows
    that it follows a chain; \<open>Planner_Rows\<close> and \<open>Planner_Refinement\<close> that the planner over encoded rows
    simulates it (\<open>scan_simulation\<close>, \<open>transition_simulation\<close>); \<open>Wallet_Store\<close>, \<open>Store_Facts\<close> and
    \<open>Store_Properties\<close> that a store stays on the canonical chain under events and reconciliation, agrees with
    the oracle, is replaced as a whole or not at all, can roll back what is not settled, and keeps its byte
    limit.
  \<^item> The lease (\<open>Lease_Facts\<close>, \<open>Lease_Properties\<close>): every operation of a builder is a step of an automaton on
    control records, also when a write fails; generations fence off earlier builders, and a lease that has
    not expired excludes the others.
  \<^item> The sorter (\<open>Sort_Facts\<close>, \<open>Sorter_Facts\<close>, \<open>Sort_Properties\<close>): runs, merge passes and the final reader
    keep the multiset of records and the order of keys, within the ceilings of memory and temporary files.
  \<^item> The service (\<open>Query_Pages\<close>, \<open>Serving_Facts\<close>, \<open>Serving_Properties\<close>): pages, cursors and streams end, are
    complete, ordered and without duplicates (\<open>key_walk\<close>), and answers are those of the oracle.

  \<^bold>\<open>Loops and bounds.\<close> All loops of the model are total functions: merge rounds by the heads and unread bytes,
  merge passes by the number of runs (a pass over \<open>n > 1\<close> runs leaves at most \<open>(n + 63) div 64\<close>), page loops
  by the remaining keys, streams by the remaining heights, rollback and settlement by the height. Fuel occurs
  only where a caller repeats requests (\<open>read_records\<close>): more reads than there are records reach the end.

  \<^bold>\<open>Not modelled.\<close> In \<open>zinder-wallet-rocksdb\<close>: the load of the projection (\<open>projection_load.rs\<close>), the cold
  validation of its rows, checkpoints and secondaries; in \<open>zinder-rocksdb-bulk-load\<close>: the writer of SST files
  and the sorter of fixed records, which feed a RocksDB interface. The canonical chain store
  (\<open>zinder-store\<close>) keeps rows in generated protocol buffer formats and is present through its readers only.
  Network clients (\<open>zinder-source\<close>, \<open>zinder-client\<close>), protocol conversions (\<open>zinder-proto\<close>, the gRPC adapter,
  the compatibility services), SQL views, configuration, metrics and service loops are asynchronous input
  and output around the parts above. The time a write takes, crashes between two writes and removal of
  temporary files on drop are outside the model; a batch is written as a whole or not at all, as RocksDB
  documents.
\<close>

end
